(* ===== verification/Prelude.thy ===== *)
theory Prelude
  imports Main "HOL-Library.Word" "HOL-Library.Monad_Syntax"
begin

unbundle bit_operations_syntax

text \<open>
  Shared vocabulary of the development: machine integers, the two kinds of failure a Rust
  function has, and the lemmas on options, words and lists the components use.

  \<^item> A panic ends the task. A function that may panic returns an \<open>option\<close>, \<open>None\<close> being the
    panic (\<open>exec\<close>), and is written in the do-notation of the option monad.
  \<^item> A \<open>Result<T, E>\<close> is the sum \<open>'e + 'a\<close>: \<open>Inl\<close> is \<open>Err\<close>, \<open>Inr\<close> is \<open>Ok\<close>.
  \<^item> A \<open>Duration\<close> is its number of nanoseconds. The type normalises its seconds and
    nanoseconds, so its order is the order of that number; \<open>saturating_sub\<close> is \<open>-\<close> on \<open>nat\<close>.
\<close>

section \<open>Integers and durations\<close>

type_synonym u8 = "8 word"
type_synonym u16 = "16 word"
type_synonym u64 = "64 word"

type_synonym duration = nat

definition nanos_per_sec :: nat where
  "nanos_per_sec = 1000000000"

definition from_secs :: "nat \<Rightarrow> duration" where
  "from_secs s = s * nanos_per_sec"

definition from_millis :: "nat \<Rightarrow> duration" where
  "from_millis m = m * 1000000"

definition as_secs :: "duration \<Rightarrow> nat" where
  "as_secs d = d div nanos_per_sec"

definition subsec_millis :: "duration \<Rightarrow> nat" where
  "subsec_millis d = d mod nanos_per_sec div 1000000"

text \<open>The largest \<open>Duration\<close>; adding beyond it panics.\<close>

definition duration_max :: duration where
  "duration_max = from_secs (2 ^ 64 - 1) + 999999999"

text \<open>\<open>u16::checked_add\<close>, \<open>None\<close> on overflow.\<close>

definition checked_add :: "u16 \<Rightarrow> u16 \<Rightarrow> u16 option" where
  "checked_add a b = (if unat a + unat b < 2 ^ 16 then Some (a + b) else None)"

lemma checked_add_Some:
  "checked_add a b = Some c \<longleftrightarrow> unat a + unat b < 2 ^ 16 \<and> c = a + b"
  by (auto simp: checked_add_def)

lemma checked_add_unat:
  assumes "checked_add a b = Some c"
  shows "unat c = unat a + unat b"
  using assms by (auto simp: checked_add_def unat_word_ariths split: if_splits)

lemma checked_add_None:
  "checked_add a b = None \<longleftrightarrow> 2 ^ 16 \<le> unat a + unat b"
  by (auto simp: checked_add_def)

section \<open>Panics and results\<close>

type_synonym 'a exec = "'a option"

definition rust_assert :: "bool \<Rightarrow> unit exec" where
  "rust_assert b = (if b then Some () else None)"

lemma rust_assert_simps [simp]:
  "rust_assert True = Some ()"
  "rust_assert False = None"
  by (simp_all add: rust_assert_def)

lemma rust_assert_Some [simp]: "rust_assert b = Some u \<longleftrightarrow> b"
  by (simp add: rust_assert_def)

text \<open>The \<open>?\<close> operator: \<open>Err\<close> is returned at once, \<open>Ok\<close> continues.\<close>

definition and_then :: "'e + 'a \<Rightarrow> ('a \<Rightarrow> 'e + 'b) \<Rightarrow> 'e + 'b" where
  "and_then r f = (case r of Inl e \<Rightarrow> Inl e | Inr a \<Rightarrow> f a)"

lemma and_then_simps [simp]:
  "and_then (Inl e) f = Inl e"
  "and_then (Inr a) f = f a"
  by (simp_all add: and_then_def)

definition ok_or :: "'e \<Rightarrow> 'a option \<Rightarrow> 'e + 'a" where
  "ok_or e r = (case r of None \<Rightarrow> Inl e | Some a \<Rightarrow> Inr a)"

lemma ok_or_simps [simp]:
  "ok_or e None = Inl e"
  "ok_or e (Some a) = Inr a"
  by (simp_all add: ok_or_def)

definition is_ok :: "'e + 'a \<Rightarrow> bool" where
  "is_ok r = (case r of Inl e \<Rightarrow> False | Inr a \<Rightarrow> True)"

lemma is_ok_simps [simp]:
  "\<not> is_ok (Inl e)"
  "is_ok (Inr a)"
  by (simp_all add: is_ok_def)

section \<open>Iteration\<close>

text \<open>\<open>Iterator::min\<close>, and a loop whose body may panic.\<close>

definition iter_min :: "'a::linorder list \<Rightarrow> 'a option" where
  "iter_min xs = (case xs of [] \<Rightarrow> None | x # xs \<Rightarrow> Some (fold min xs x))"

primrec exec_fold :: "('a \<Rightarrow> 's \<Rightarrow> 's exec) \<Rightarrow> 'a list \<Rightarrow> 's \<Rightarrow> 's exec" where
  "exec_fold f [] s = Some s"
| "exec_fold f (x # xs) s = do { s' \<leftarrow> f x s; exec_fold f xs s' }"

lemma exec_fold_Some: "(\<And>x s. f x s = Some (g x s)) \<Longrightarrow> exec_fold f xs s = Some (fold g xs s)"
  by (induction xs arbitrary: s) auto

lemma exec_fold_invariant:
  assumes "exec_fold f xs s = Some s'" "P s"
    and "\<And>x s t. x \<in> set xs \<Longrightarrow> P s \<Longrightarrow> f x s = Some t \<Longrightarrow> P t"
  shows "P s'"
  using assms
proof (induction xs arbitrary: s)
  case (Cons x xs)
  then obtain t where "f x s = Some t" "exec_fold f xs t = Some s'" by (auto split: bind_splits)
  then show ?case using Cons.IH [of t] Cons.prems(2,3) by (meson list.set_intros)
qed simp

lemma fold_min_le:
  fixes x :: "'a::linorder"
  shows "fold min xs x \<le> x" "y \<in> set xs \<Longrightarrow> fold min xs x \<le> y"
proof (induction xs arbitrary: x)
  case Nil
  { case 1 show ?case by simp next case 2 then show ?case by simp }
next
  case (Cons a xs)
  { case 1 show ?case using Cons(1) [of "min a x"] by simp
  next
    case 2
    then show ?case using Cons(1) [of "min a x"] Cons(2) [of "min a x"] by auto }
qed

lemma fold_min_in: "fold min xs x \<in> insert (x::'a::linorder) (set xs)"
  by (induction xs arbitrary: x) (force simp: min_def)+

lemma iter_min_Nil [simp]: "iter_min [] = None"
  by (simp add: iter_min_def)

lemma iter_min_le: "iter_min xs = Some m \<Longrightarrow> x \<in> set xs \<Longrightarrow> m \<le> x"
  by (cases xs) (auto simp: iter_min_def fold_min_le)

lemma iter_min_in: "iter_min xs = Some m \<Longrightarrow> m \<in> set xs"
  by (cases xs) (use fold_min_in in \<open>auto simp: iter_min_def\<close>)

lemma iter_min_None [simp]: "iter_min xs = None \<longleftrightarrow> xs = []"
  by (cases xs) (auto simp: iter_min_def)

lemma those_map_Some: "(\<And>x. x \<in> set xs \<Longrightarrow> f x = Some (g x)) \<Longrightarrow> those (map f xs) = Some (map g xs)"
  by (induction xs) auto

end
