(* ===== verification/Timestamp.thy ===== *)
theory Timestamp
  imports Prelude
begin

text \<open>
  The hybrid logical clock of \<^verbatim>\<open>datacake-crdt/src/timestamp.rs\<close>: the packed timestamp, its
  accessors, and the \<open>send\<close> and \<open>recv\<close> steps.
\<close>

definition MAX_CLOCK_DRIFT :: duration where
  "MAX_CLOCK_DRIFT = from_secs 4100"

definition TIMESTAMP_MAX :: nat where
  "TIMESTAMP_MAX = 2 ^ 32 - 1"

definition DATACAKE_EPOCH :: duration where
  "DATACAKE_EPOCH = from_secs 1672534861"

datatype hlc_timestamp = HLCTimestamp (as_u64: u64)

instantiation hlc_timestamp :: linorder
begin

definition less_eq_hlc_timestamp :: "hlc_timestamp \<Rightarrow> hlc_timestamp \<Rightarrow> bool" where
  "a \<le> b \<longleftrightarrow> as_u64 a \<le> as_u64 b"

definition less_hlc_timestamp :: "hlc_timestamp \<Rightarrow> hlc_timestamp \<Rightarrow> bool" where
  "a < b \<longleftrightarrow> as_u64 a < as_u64 b"

instance
  by standard (auto simp: less_eq_hlc_timestamp_def less_hlc_timestamp_def hlc_timestamp.expand)

end

datatype timestamp_error = DuplicatedNode u8 | ClockDrift | Overflow

definition duration_to_parts :: "duration \<Rightarrow> u64 \<times> u8" where
  "duration_to_parts d = (of_nat (as_secs d), of_nat (subsec_millis d div 4))"

definition parts_as_duration :: "u64 \<Rightarrow> u8 \<Rightarrow> duration" where
  "parts_as_duration secs frac = from_secs (unat secs) + from_millis (unat frac * 4)"

definition pack :: "duration \<Rightarrow> u16 \<Rightarrow> u8 \<Rightarrow> u64" where
  "pack d ctr nd =
     (let (secs, frac) = duration_to_parts d
      in push_bit 32 secs OR push_bit 24 (ucast frac) OR push_bit 8 (ucast ctr) OR ucast nd)"

definition hlc_new :: "duration \<Rightarrow> u16 \<Rightarrow> u8 \<Rightarrow> hlc_timestamp exec" where
  "hlc_new d ctr nd =
     do { rust_assert (as_secs d \<le> TIMESTAMP_MAX);
          Some (HLCTimestamp (pack d ctr nd)) }"

definition node :: "hlc_timestamp \<Rightarrow> u8" where
  "node t = ucast (as_u64 t AND 0xFF)"

definition counter :: "hlc_timestamp \<Rightarrow> u16" where
  "counter t = ucast (drop_bit 8 (as_u64 t) AND 0xFFFF)"

definition seconds :: "hlc_timestamp \<Rightarrow> u64" where
  "seconds t = drop_bit 32 (as_u64 t)"

definition fractional :: "hlc_timestamp \<Rightarrow> u8" where
  "fractional t = ucast (drop_bit 24 (as_u64 t) AND 0xFF)"

definition datacake_timestamp :: "hlc_timestamp \<Rightarrow> duration" where
  "datacake_timestamp t = parts_as_duration (seconds t) (fractional t)"

definition unix_timestamp :: "hlc_timestamp \<Rightarrow> duration" where
  "unix_timestamp t = parts_as_duration (seconds t) (fractional t) + DATACAKE_EPOCH"

definition from_u64 :: "u64 \<Rightarrow> hlc_timestamp" where
  "from_u64 val = HLCTimestamp val"

text \<open>
  \<open>SystemTime::now()\<close> is the argument \<open>unix\<close>, the time since the UNIX epoch at the call.
  Subtracting the datacake epoch from an earlier time panics.
\<close>

definition get_unix_timestamp_ms :: "duration \<Rightarrow> u64" where
  "get_unix_timestamp_ms unix = of_nat (unix div 1000000)"

definition get_datacake_timestamp :: "duration \<Rightarrow> duration exec" where
  "get_datacake_timestamp unix =
     do { rust_assert (DATACAKE_EPOCH \<le> unix);
          let (secs, frac) = duration_to_parts (unix - DATACAKE_EPOCH);
          Some (parts_as_duration secs frac) }"

definition hlc_now :: "duration \<Rightarrow> u16 \<Rightarrow> u8 \<Rightarrow> hlc_timestamp exec" where
  "hlc_now unix ctr nd = do { d \<leftarrow> get_datacake_timestamp unix; hlc_new d ctr nd }"

text \<open>
  The two clock steps return the \<open>Result\<close> and the clock after the call; an error leaves the
  clock as it was.
\<close>

definition hlc_send :: "duration \<Rightarrow> hlc_timestamp \<Rightarrow> ((timestamp_error + hlc_timestamp) \<times> hlc_timestamp) exec" where
  "hlc_send unix self =
     do { ts \<leftarrow> get_datacake_timestamp unix;
          let ts_old = datacake_timestamp self;
          let c_old = counter self;
          let ts_new = max ts_old ts;
          Some (if ts_new - ts > MAX_CLOCK_DRIFT then (Inl ClockDrift, self)
                else case (if ts_old = ts_new then checked_add c_old 1 else Some 0) of
                       None \<Rightarrow> (Inl Overflow, self)
                     | Some c_new \<Rightarrow>
                         (let self' = HLCTimestamp (pack ts_new c_new (node self))
                          in (Inr self', self'))) }"

definition hlc_recv ::
  "duration \<Rightarrow> hlc_timestamp \<Rightarrow> hlc_timestamp \<Rightarrow> ((timestamp_error + hlc_timestamp) \<times> hlc_timestamp) exec" where
  "hlc_recv unix msg self =
     (if node self = node msg then Some (Inl (DuplicatedNode (node msg)), self)
      else do { ts \<leftarrow> get_datacake_timestamp unix;
          let ts_msg = datacake_timestamp msg;
          let c_msg = counter msg;
          if ts_msg - ts > MAX_CLOCK_DRIFT then Some (Inl ClockDrift, self)
          else do {
            let ts_old = datacake_timestamp self;
            let c_old = counter self;
            let ts_new = max (max ts_old ts) ts_msg;
            if ts_new - ts > MAX_CLOCK_DRIFT then Some (Inl ClockDrift, self)
            else case (if ts_new = ts_old \<and> ts_new = ts_msg then checked_add (max c_old c_msg) 1
                       else if ts_new = ts_old then checked_add c_old 1
                       else if ts_new = ts_msg then checked_add c_msg 1
                       else Some 0) of
                   None \<Rightarrow> Some (Inl Overflow, self)
                 | Some c_new \<Rightarrow>
                     do { let self' = HLCTimestamp (pack ts_new c_new (node self));
                          r \<leftarrow> hlc_new ts_new (counter self') (node msg);
                          Some (Inr r, self') } } })"

section \<open>The bit layout\<close>

lemma unat_and_mask:
  fixes w :: u64
  shows "unat (w AND 0xFF) = unat w mod 2 ^ 8" "unat (w AND 0xFFFF) = unat w mod 2 ^ 16"
proof -
  have "w AND 0xFF = take_bit 8 w" by (simp add: take_bit_eq_mask mask_eq_exp_minus_1)
  then show "unat (w AND 0xFF) = unat w mod 2 ^ 8" by (simp add: unsigned_take_bit_eq take_bit_eq_mod unat_mod)
  have "w AND 0xFFFF = take_bit 16 w" by (simp add: take_bit_eq_mask mask_eq_exp_minus_1)
  then show "unat (w AND 0xFFFF) = unat w mod 2 ^ 16" by (simp add: unsigned_take_bit_eq take_bit_eq_mod unat_mod)
qed

lemma unat_drop_bit_div:
  fixes w :: u64
  shows "unat (drop_bit n w) = unat w div 2 ^ n"
proof -
  have "take_bit 64 (unat w) = unat w"
    using unsigned_less [of w] by (intro take_bit_nat_eq_self) simp
  then show ?thesis
    by (simp only: unsigned_drop_bit_eq) (simp add: drop_bit_eq_div)
qed

lemma unat_seconds: "unat (seconds t) = unat (as_u64 t) div 2 ^ 32"
  by (simp only: seconds_def unat_drop_bit_div)

lemma unat_ucast_mod:
  fixes w :: u64
  shows "unat (ucast w :: 'a :: len word) = unat w mod 2 ^ LENGTH('a)"
  by (simp add: unsigned_ucast_eq take_bit_eq_mod)

lemma unat_fractional: "unat (fractional t) = unat (as_u64 t) div 2 ^ 24 mod 2 ^ 8"
  by (simp only: fractional_def unat_ucast_mod unat_and_mask unat_drop_bit_div) simp

lemma unat_counter: "unat (counter t) = unat (as_u64 t) div 2 ^ 8 mod 2 ^ 16"
  by (simp only: counter_def unat_ucast_mod unat_and_mask unat_drop_bit_div) simp

lemma unat_node: "unat (node t) = unat (as_u64 t) mod 2 ^ 8"
  by (simp only: node_def unat_ucast_mod unat_and_mask) simp


lemma or_push_bit_add:
  fixes a b :: nat
  assumes "b < 2 ^ n"
  shows "push_bit n a OR b = a * 2 ^ n + b"
proof -
  have b: "take_bit n b = b" using assms by (simp add: take_bit_nat_eq_self)
  have "push_bit n a AND take_bit n b = 0"
    by (rule bit_eqI) (simp add: bit_simps)
  then have "push_bit n a AND b = 0" by (simp only: b)
  then have "push_bit n a + b = push_bit n a OR b" by (rule disjunctive_add_eq_or)
  then show ?thesis by (simp add: push_bit_eq_mult)
qed

lemma unat_push_bit_u64:
  fixes w :: u64
  assumes "n \<le> 64"
  shows "unat (push_bit n w) = push_bit n (unat w mod 2 ^ (64 - n))"
  using assms by (simp only: unsigned_push_bit_eq take_bit_push_bit) (simp add: take_bit_eq_mod)

lemma subsec_quarter_less: "subsec_millis d div 4 < 250"
  by (simp add: subsec_millis_def nanos_per_sec_def less_mult_imp_div_less)

lemma unat_pack:
  "unat (pack d c n) =
     (as_secs d mod 2 ^ 32) * 2 ^ 32 + (subsec_millis d div 4) * 2 ^ 24 + unat c * 2 ^ 8 + unat n"
proof -
  let ?s = "as_secs d mod 2 ^ 32" and ?f = "subsec_millis d div 4"
  have c: "unat c < 2 ^ 16" and n: "unat n < 2 ^ 8" and f: "?f < 250"
    using unsigned_less [of c] unsigned_less [of n] subsec_quarter_less by simp_all
  have "unat (pack d c n) = push_bit 32 ?s OR (push_bit 24 ?f OR (push_bit 8 (unat c) OR unat n))"
    using c n f
    by (simp add: pack_def duration_to_parts_def unsigned_or_eq unat_push_bit_u64 unsigned_ucast_eq
        unat_of_nat take_bit_nat_eq_self mod_mod_cancel or.assoc)
  also have "push_bit 8 (unat c) OR unat n = unat c * 2 ^ 8 + unat n"
    using n by (rule or_push_bit_add)
  also have "push_bit 24 ?f OR (unat c * 2 ^ 8 + unat n) = ?f * 2 ^ 24 + (unat c * 2 ^ 8 + unat n)"
    using c n by (intro or_push_bit_add) simp
  also have "push_bit 32 ?s OR (?f * 2 ^ 24 + (unat c * 2 ^ 8 + unat n)) =
      ?s * 2 ^ 32 + (?f * 2 ^ 24 + (unat c * 2 ^ 8 + unat n))"
    using c n f by (intro or_push_bit_add) simp
  finally show ?thesis by simp
qed

text \<open>
  A duration counts in steps of 4 ms: \<open>ticks\<close> is that count, and the upper 40 bits of a
  timestamp are \<open>upper\<close> of it.
\<close>

definition tick :: nat where
  "tick = 4000000"

definition ticks :: "duration \<Rightarrow> nat" where
  "ticks d = d div tick"

definition upper :: "nat \<Rightarrow> nat" where
  "upper q = q div 250 * 256 + q mod 250"

definition trunc_tick :: "duration \<Rightarrow> duration" where
  "trunc_tick d = ticks d * tick"

definition valid_wall :: "duration \<Rightarrow> bool" where
  "valid_wall unix \<longleftrightarrow> DATACAKE_EPOCH \<le> unix \<and>
     unix - DATACAKE_EPOCH + MAX_CLOCK_DRIFT < from_secs (2 ^ 32)"

lemma as_secs_ticks: "as_secs d = ticks d div 250"
  by (simp add: as_secs_def ticks_def tick_def nanos_per_sec_def div_mult2_eq [symmetric])

lemma quarter_ticks: "subsec_millis d div 4 = ticks d mod 250"
proof -
  have "subsec_millis d div 4 = d mod 1000000000 div 4000000"
    by (simp add: subsec_millis_def nanos_per_sec_def div_mult2_eq [symmetric])
  also have "d mod 1000000000 div 4000000 = d div 4000000 mod 250"
    using mod_mult2_eq [of d 4000000 250] by simp
  finally show ?thesis by (simp add: ticks_def tick_def)
qed

lemma upper_strict:
  assumes "p < q"
  shows "upper p < upper q"
proof (cases "p div 250 = q div 250")
  case True
  have "p = p div 250 * 250 + p mod 250" "q = q div 250 * 250 + q mod 250" by simp_all
  then have "p mod 250 < q mod 250" using assms True by linarith
  then show ?thesis using True by (simp add: upper_def)
next
  case False
  have "p div 250 \<le> q div 250" using assms by (simp add: div_le_mono)
  then have "Suc (p div 250) \<le> q div 250" using False by simp
  moreover have "p mod 250 < 250" by simp
  ultimately show ?thesis unfolding upper_def by linarith
qed

lemma upper_mono: "p \<le> q \<Longrightarrow> upper p \<le> upper q"
  using upper_strict [of p q] by (cases "p = q") auto

lemma upper_eq_iff: "upper p = upper q \<longleftrightarrow> p = q"
  using upper_strict [of p q] upper_strict [of q p] by (cases p q rule: linorder_cases) auto

lemma unat_as_u64:
  "unat (as_u64 t) = (unat (seconds t) * 256 + unat (fractional t)) * 2 ^ 24 + unat (counter t) * 2 ^ 8 + unat (node t)"
proof -
  let ?w = "unat (as_u64 t)"
  have "?w = ?w div 2 ^ 24 * 2 ^ 24 + ?w mod 2 ^ 24" by (rule div_mult_mod_eq [symmetric])
  also have "?w div 2 ^ 24 = ?w div 2 ^ 24 div 256 * 256 + ?w div 2 ^ 24 mod 256"
    by (rule div_mult_mod_eq [symmetric])
  also have "?w div 2 ^ 24 div 256 = ?w div 2 ^ 32" by (simp flip: div_mult2_eq)
  also have "?w mod 2 ^ 24 = ?w div 2 ^ 8 mod 2 ^ 16 * 2 ^ 8 + ?w mod 2 ^ 8"
    using mod_mult2_eq [of ?w "2 ^ 8" "2 ^ 16"] by simp
  finally show ?thesis
    by (simp only: unat_seconds unat_fractional unat_counter unat_node) (simp add: add.assoc)
qed

lemma hlc_less_unat: "s < t \<longleftrightarrow> unat (as_u64 s) < unat (as_u64 t)"
  by (simp add: less_hlc_timestamp_def word_less_nat_alt)

lemma hlc_le_unat: "s \<le> t \<longleftrightarrow> unat (as_u64 s) \<le> unat (as_u64 t)"
  by (simp add: less_eq_hlc_timestamp_def word_le_nat_alt)

lemma field_bounds:
  "unat (seconds t) < 2 ^ 32" "unat (fractional t) < 256" "unat (counter t) < 2 ^ 16" "unat (node t) < 256"
proof -
  have "unat (as_u64 t) < 2 ^ 64" using unsigned_less [of "as_u64 t"] by simp
  then show "unat (seconds t) < 2 ^ 32" by (simp add: unat_seconds less_mult_imp_div_less)
qed (use unsigned_less [of "fractional t"] unsigned_less [of "counter t"] unsigned_less [of "node t"] in simp_all)

text \<open>A timestamp in terms of its 40 bit time, its counter and its node.\<close>

lemma lex3_less:
  fixes a b c a' b' c' :: nat
  assumes "b < B" "c < C" "b' < B" "c' < C"
  shows "(a * B + b) * C + c < (a' * B + b') * C + c' \<longleftrightarrow>
    a < a' \<or> a = a' \<and> (b < b' \<or> b = b' \<and> c < c')"
proof -
  have pair: "x * N + y < x' * N + y' \<longleftrightarrow> x < x' \<or> x = x' \<and> y < y'"
    if "y < N" "y' < N" for x y x' y' N :: nat
  proof (cases x x' rule: linorder_cases)
    case less
    then have "Suc x * N \<le> x' * N" by (intro mult_le_mono1) simp
    then show ?thesis using less that by simp
  next
    case greater
    then have "Suc x' * N \<le> x * N" by (intro mult_le_mono1) simp
    then show ?thesis using greater that by simp
  qed simp
  have eq: "a * B + b = a' * B + b' \<longleftrightarrow> a = a' \<and> b = b'"
    using pair [OF assms(1,3), of a a'] pair [OF assms(3,1), of a' a] by (metis nat_neq_iff)
  show ?thesis
    unfolding pair [OF assms(2,4)] pair [OF assms(1,3)] eq by auto
qed

definition time40 :: "hlc_timestamp \<Rightarrow> nat" where
  "time40 t = unat (seconds t) * 256 + unat (fractional t)"

lemma hlc_less_iff:
  "s < t \<longleftrightarrow> time40 s < time40 t \<or> time40 s = time40 t \<and>
     (unat (counter s) < unat (counter t) \<or> counter s = counter t \<and> unat (node s) < unat (node t))"
proof -
  have "unat (as_u64 t) = (time40 t * 2 ^ 16 + unat (counter t)) * 256 + unat (node t)" for t
    by (simp add: unat_as_u64 time40_def)
  then show ?thesis
    using lex3_less [of "unat (counter s)" "2 ^ 16" "unat (node s)" 256 "unat (counter t)" "unat (node t)"
        "time40 s" "time40 t"] field_bounds [of s] field_bounds [of t]
    by (simp add: hlc_less_unat word_unat_eq_iff [of "counter s"])
qed

lemma datacake_timestamp_ticks:
  "datacake_timestamp t = (unat (seconds t) * 250 + unat (fractional t)) * tick"
  by (simp add: datacake_timestamp_def parts_as_duration_def from_secs_def from_millis_def
      nanos_per_sec_def tick_def)

lemma ticks_datacake_timestamp:
  "ticks (datacake_timestamp t) = unat (seconds t) * 250 + unat (fractional t)"
  "trunc_tick (datacake_timestamp t) = datacake_timestamp t"
  by (simp_all add: datacake_timestamp_ticks ticks_def trunc_tick_def tick_def)

lemma time40_le_upper: "time40 t \<le> upper (ticks (datacake_timestamp t))"
proof -
  have "s * 256 + f \<le> upper (s * 250 + f)" if "f < 256" for s f :: nat
  proof (cases "f < 250")
    case True
    then show ?thesis by (simp add: upper_def)
  next
    case False
    define g where "g = f - 250"
    then have g: "f = 250 + g" "g < 250" using that False by simp_all
    have "s * 250 + f = Suc s * 250 + g" using g by simp
    then have "(s * 250 + f) div 250 = Suc s" "(s * 250 + f) mod 250 = g"
      using g(2) by (simp_all only: div_mult_self3 mod_mult_self3 div_less mod_less)
    then show ?thesis using g by (simp add: upper_def)
  qed
  then show ?thesis
    using field_bounds [of t] by (simp add: time40_def ticks_datacake_timestamp)
qed

lemma unat_pack_upper:
  assumes "as_secs d < 2 ^ 32"
  shows "unat (pack d c n) = upper (ticks d) * 2 ^ 24 + unat c * 2 ^ 8 + unat n"
  using assms by (simp add: unat_pack upper_def as_secs_ticks quarter_ticks)

lemma pack_fields:
  fixes d c n
  defines "t \<equiv> HLCTimestamp (pack d c n)"
  shows "node t = n" "counter t = c" "unat (fractional t) = ticks d mod 250"
    "unat (seconds t) = as_secs d mod 2 ^ 32"
proof -
  let ?u = "as_secs d mod 2 ^ 32 * 256 + ticks d mod 250"
  have u: "unat (as_u64 t) = (?u * 2 ^ 16 + unat c) * 256 + unat n"
    by (simp add: t_def unat_pack quarter_ticks)
  have c: "unat c < 2 ^ 16" and n: "unat n < 256" and f: "ticks d mod 250 < 256"
    using unsigned_less [of c] unsigned_less [of n] mod_less_divisor [of 250 "ticks d"] by auto
  have d8: "unat (as_u64 t) div 2 ^ 8 = ?u * 2 ^ 16 + unat c" using n by (simp add: u)
  have "unat (as_u64 t) div 2 ^ 24 = unat (as_u64 t) div 2 ^ 8 div 2 ^ 16" by (simp flip: div_mult2_eq)
  then have d24: "unat (as_u64 t) div 2 ^ 24 = ?u" using c unfolding d8 by simp
  have "unat (as_u64 t) div 2 ^ 32 = unat (as_u64 t) div 2 ^ 24 div 256" by (simp flip: div_mult2_eq)
  then have d32: "unat (as_u64 t) div 2 ^ 32 = as_secs d mod 2 ^ 32" using f unfolding d24 by simp
  have "unat (as_u64 t) mod 256 = unat n" using n unfolding u by (simp only: mod_mult_self3 mod_less)
  then show "node t = n" by (simp add: word_unat_eq_iff unat_node)
  have "unat (as_u64 t) div 2 ^ 8 mod 2 ^ 16 = unat c"
    using c unfolding d8 by (simp only: mod_mult_self3 mod_less)
  then show "counter t = c" by (simp add: word_unat_eq_iff unat_counter)
  have "unat (as_u64 t) div 2 ^ 24 mod 256 = ticks d mod 250"
    using f unfolding d24 by (simp only: mod_mult_self3 mod_less)
  then show "unat (fractional t) = ticks d mod 250" by (simp add: unat_fractional)
  show "unat (seconds t) = as_secs d mod 2 ^ 32" by (simp add: unat_seconds d32 [simplified])
qed

lemma pack_time:
  assumes "as_secs d < 2 ^ 32"
  shows "time40 (HLCTimestamp (pack d c n)) = upper (ticks d)"
    "datacake_timestamp (HLCTimestamp (pack d c n)) = trunc_tick d"
proof -
  let ?t = "HLCTimestamp (pack d c n)"
  show "time40 ?t = upper (ticks d)"
    using assms by (simp add: time40_def pack_fields upper_def as_secs_ticks)
  have "ticks (datacake_timestamp ?t) = ticks d"
    using assms by (simp add: ticks_datacake_timestamp pack_fields as_secs_ticks)
  then show "datacake_timestamp ?t = trunc_tick d"
    using ticks_datacake_timestamp(2) [of ?t] by (simp add: trunc_tick_def)
qed


section \<open>Clock steps\<close>

lemma trunc_tick_props:
  "trunc_tick d \<le> d" "ticks (trunc_tick d) = ticks d" "as_secs (trunc_tick d) = as_secs d"
  "trunc_tick (trunc_tick d) = trunc_tick d"
  by (simp_all add: trunc_tick_def ticks_def tick_def as_secs_ticks)

lemma trunc_tick_max: "trunc_tick a = a \<Longrightarrow> trunc_tick b = b \<Longrightarrow> trunc_tick (max a b) = max a b"
  by (simp add: max_def)

lemma as_secs_less: "as_secs d < s \<longleftrightarrow> d < from_secs s"
  by (simp add: as_secs_def from_secs_def nanos_per_sec_def div_less_iff_less_mult)

lemma parts_roundtrip:
  assumes "as_secs d < 2 ^ 64"
  shows "(case duration_to_parts d of (s, f) \<Rightarrow> parts_as_duration s f) = trunc_tick d"
proof -
  have "unat (of_nat (as_secs d) :: u64) = as_secs d"
    using assms by (simp add: unat_of_nat)
  moreover have "unat (of_nat (subsec_millis d div 4) :: u8) = ticks d mod 250"
    using subsec_quarter_less [of d] by (simp add: unat_of_nat quarter_ticks)
  moreover have "ticks d = as_secs d * 250 + ticks d mod 250" by (simp add: as_secs_ticks)
  ultimately show ?thesis
    by (simp add: duration_to_parts_def parts_as_duration_def trunc_tick_def tick_def from_secs_def
        from_millis_def nanos_per_sec_def)
qed

lemma get_datacake_timestamp_valid:
  assumes "valid_wall unix"
  shows "get_datacake_timestamp unix = Some (trunc_tick (unix - DATACAKE_EPOCH))"
proof -
  have "unix - DATACAKE_EPOCH < from_secs (2 ^ 32)" using assms by (auto simp: valid_wall_def)
  then have "as_secs (unix - DATACAKE_EPOCH) < 2 ^ 64"
    unfolding as_secs_less [symmetric] by simp
  then show ?thesis
    using assms parts_roundtrip [of "unix - DATACAKE_EPOCH"]
    by (simp add: get_datacake_timestamp_def valid_wall_def split: prod.splits)
qed

lemma pack_greater:
  assumes "datacake_timestamp t \<le> d" "trunc_tick d = d" "as_secs d < 2 ^ 32"
    and "datacake_timestamp t = d \<Longrightarrow> unat (counter t) < unat c"
  shows "t < HLCTimestamp (pack d c n)"
proof (cases "datacake_timestamp t = d")
  case True
  then have "time40 t \<le> upper (ticks d)" using time40_le_upper [of t] by simp
  then show ?thesis
    using assms(3) assms(4) [OF True] by (auto simp: hlc_less_iff pack_time pack_fields)
next
  case False
  then have "datacake_timestamp t < d" using assms(1) by simp
  then have "ticks (datacake_timestamp t) < ticks d"
    using assms(2) ticks_datacake_timestamp(2) [of t] by (metis mult_less_cancel2 trunc_tick_def)
  then have "time40 t < upper (ticks d)"
    using upper_strict time40_le_upper [of t] by (meson le_less_trans)
  then show ?thesis using assms(3) by (simp add: hlc_less_iff pack_time)
qed

lemma drift_in_range:
  assumes "valid_wall unix" "d - trunc_tick (unix - DATACAKE_EPOCH) \<le> MAX_CLOCK_DRIFT"
  shows "as_secs d < 2 ^ 32" "d \<le> unix - DATACAKE_EPOCH + MAX_CLOCK_DRIFT"
proof -
  show b: "d \<le> unix - DATACAKE_EPOCH + MAX_CLOCK_DRIFT"
    using assms(2) trunc_tick_props(1) [of "unix - DATACAKE_EPOCH"] by linarith
  show "as_secs d < 2 ^ 32"
    unfolding as_secs_less using b assms(1) unfolding valid_wall_def by linarith
qed

text \<open>What \<open>send\<close> does on every branch.\<close>

lemma hlc_send_cases:
  assumes "valid_wall unix"
  defines "now \<equiv> trunc_tick (unix - DATACAKE_EPOCH)"
  shows "hlc_send unix self = Some
    (if datacake_timestamp self > now + MAX_CLOCK_DRIFT then (Inl ClockDrift, self)
     else if now < datacake_timestamp self \<or> now = datacake_timestamp self
       then if unat (counter self) = 2 ^ 16 - 1 then (Inl Overflow, self)
            else (let s = HLCTimestamp (pack (datacake_timestamp self) (counter self + 1) (node self)) in (Inr s, s))
     else (let s = HLCTimestamp (pack now 0 (node self)) in (Inr s, s)))"
proof -
  have c: "unat (counter self) < 2 ^ 16" by (rule field_bounds)
  show ?thesis
    using c unfolding hlc_send_def get_datacake_timestamp_valid [OF assms(1)] now_def [symmetric]
    by (auto simp: max_def Let_def checked_add_def split: option.splits)
qed

lemma hlc_send_ok:
  assumes wall: "valid_wall unix" and ok: "hlc_send unix self = Some (Inr t, self')"
  shows "self' = t" "self < t" "node t = node self"
    "datacake_timestamp t = max (datacake_timestamp self) (trunc_tick (unix - DATACAKE_EPOCH))"
    "datacake_timestamp t \<le> unix - DATACAKE_EPOCH + MAX_CLOCK_DRIFT"
proof -
  define now where "now = trunc_tick (unix - DATACAKE_EPOCH)"
  let ?d = "max (datacake_timestamp self) now"
  obtain c where t: "self' = t" "t = HLCTimestamp (pack ?d c (node self))" "?d - now \<le> MAX_CLOCK_DRIFT"
    and c: "?d = datacake_timestamp self \<Longrightarrow> unat (counter self) < unat c"
    using ok unfolding hlc_send_def get_datacake_timestamp_valid [OF wall] now_def [symmetric]
    by (auto simp: Let_def checked_add_def unat_word_ariths split: if_splits option.splits)
  have tr: "trunc_tick ?d = ?d"
    by (rule trunc_tick_max) (simp_all add: ticks_datacake_timestamp now_def trunc_tick_props)
  note r = drift_in_range [OF wall, of ?d, folded now_def, OF t(3)]
  show "self' = t" by (rule t(1))
  show "self < t" unfolding t(2) by (rule pack_greater) (use tr r c in auto)
  show "node t = node self" by (simp add: t(2) pack_fields)
  show "datacake_timestamp t = max (datacake_timestamp self) (trunc_tick (unix - DATACAKE_EPOCH))"
    using r tr by (simp add: t(2) pack_time now_def)
  show "datacake_timestamp t \<le> unix - DATACAKE_EPOCH + MAX_CLOCK_DRIFT"
    using r tr by (simp add: t(2) pack_time)
qed

lemma hlc_recv_ok:
  assumes wall: "valid_wall unix" and ok: "hlc_recv unix msg self = Some (Inr r, self')"
  shows "node self \<noteq> node msg" "self < self'" "msg < self'" "node self' = node self"
    "node r = node msg" "counter r = counter self'" "datacake_timestamp r = datacake_timestamp self'"
    "datacake_timestamp self' \<le> unix - DATACAKE_EPOCH + MAX_CLOCK_DRIFT"
proof -
  define now where "now = trunc_tick (unix - DATACAKE_EPOCH)"
  let ?d = "max (max (datacake_timestamp self) now) (datacake_timestamp msg)"
  obtain c where nn: "node self \<noteq> node msg"
    and t: "self' = HLCTimestamp (pack ?d c (node self))" "?d - now \<le> MAX_CLOCK_DRIFT"
      "hlc_new ?d (counter self') (node msg) = Some r"
    and c: "?d = datacake_timestamp self \<Longrightarrow> unat (counter self) < unat c"
      "?d = datacake_timestamp msg \<Longrightarrow> unat (counter msg) < unat c"
    using ok unfolding hlc_recv_def get_datacake_timestamp_valid [OF wall] now_def [symmetric]
    by (auto simp: Let_def checked_add_def unat_word_ariths word_le_nat_alt max_def
        split: if_splits option.splits bind_splits)
  have tr: "trunc_tick ?d = ?d"
    by (intro trunc_tick_max) (simp_all add: ticks_datacake_timestamp now_def trunc_tick_props)
  note r = drift_in_range [OF wall, of ?d, folded now_def, OF t(2)]
  have rv: "r = HLCTimestamp (pack ?d c (node msg))"
    using t(3) by (simp add: hlc_new_def t(1) pack_fields rust_assert_def split: if_splits)
  show "node self \<noteq> node msg" by (rule nn)
  show "self < self'" unfolding t(1) by (rule pack_greater) (use tr r c in auto)
  show "msg < self'" unfolding t(1) by (rule pack_greater) (use tr r c in auto)
  show "node self' = node self" "node r = node msg" "counter r = counter self'"
    "datacake_timestamp r = datacake_timestamp self'"
    using r tr by (simp_all add: t(1) rv pack_fields pack_time)
  show "datacake_timestamp self' \<le> unix - DATACAKE_EPOCH + MAX_CLOCK_DRIFT"
    using r tr by (simp add: t(1) pack_time)
qed

text \<open>\<open>recv\<close> never panics: the assertion in \<open>HLCTimestamp::new\<close> cannot fail after the drift checks.\<close>

lemma hlc_recv_no_panic:
  assumes "valid_wall unix"
  shows "\<exists>res self'. hlc_recv unix msg self = Some (res, self') \<and>
    (\<forall>e. res = Inl e \<longrightarrow> self' = self)"
proof -
  define now where "now = trunc_tick (unix - DATACAKE_EPOCH)"
  have new: "hlc_new d c n = Some (HLCTimestamp (pack d c n))" if "d - now \<le> MAX_CLOCK_DRIFT" for d c n
    using drift_in_range(1) [OF assms, of d] that
    by (simp add: hlc_new_def now_def TIMESTAMP_MAX_def rust_assert_def)
  show ?thesis
    unfolding hlc_recv_def get_datacake_timestamp_valid [OF assms] now_def [symmetric]
    by (auto simp: Let_def new split: option.splits)
qed


section \<open>Properties\<close>

text \<open>C34. Timestamps are ordered as their fields are: first the 40 bits of time, then the counter,
  then the node. So the comparison of the packed integers that the CRDT relies on is last write
  wins with the larger node id breaking ties.\<close>

theorem timestamp_order_lexicographic:
  "s < t \<longleftrightarrow>
     unat (seconds s) < unat (seconds t) \<or> unat (seconds s) = unat (seconds t) \<and>
       (unat (fractional s) < unat (fractional t) \<or> unat (fractional s) = unat (fractional t) \<and>
         (unat (counter s) < unat (counter t) \<or> unat (counter s) = unat (counter t) \<and>
           unat (node s) < unat (node t)))"
proof -
  have f: "time40 u div 256 = unat (seconds u)" "time40 u mod 256 = unat (fractional u)" for u
    using field_bounds(2) [of u] by (simp_all add: time40_def)
  have eq: "time40 s = time40 t \<longleftrightarrow> unat (seconds s) = unat (seconds t) \<and> unat (fractional s) = unat (fractional t)"
    using f [of s] f [of t] by (metis time40_def)
  have less: "time40 s < time40 t \<longleftrightarrow> unat (seconds s) < unat (seconds t) \<or>
      unat (seconds s) = unat (seconds t) \<and> unat (fractional s) < unat (fractional t)"
    using field_bounds(2) [of s] field_bounds(2) [of t] unfolding time40_def by linarith
  show ?thesis unfolding hlc_less_iff word_unat_eq_iff [of "counter s"] less eq by blast
qed

text \<open>C32. A timestamp that \<open>send\<close> returns is the new clock, is greater than the clock before, keeps
  the node, carries the later of the two times and is at most the drift limit ahead of the wall
  clock.\<close>

theorem send_strictly_increases:
  assumes "valid_wall unix" "hlc_send unix self = Some (Inr t, self')"
  shows "self' = t \<and> self < t \<and> node t = node self \<and>
    datacake_timestamp t = max (datacake_timestamp self) (trunc_tick (unix - DATACAKE_EPOCH)) \<and>
    datacake_timestamp t \<le> unix - DATACAKE_EPOCH + MAX_CLOCK_DRIFT"
  using hlc_send_ok [OF assms] by blast

lemma wall_example: "valid_wall (DATACAKE_EPOCH + from_secs 10)"
  by (simp add: valid_wall_def DATACAKE_EPOCH_def MAX_CLOCK_DRIFT_def from_secs_def nanos_per_sec_def)

lemma trunc_example: "trunc_tick (from_secs 10) = from_secs 10"
  by (simp add: trunc_tick_def ticks_def tick_def from_secs_def nanos_per_sec_def)

lemma from_secs_positive: "from_secs 10 \<noteq> 0"
  by (simp add: from_secs_def nanos_per_sec_def)

lemma zero_time: "datacake_timestamp (HLCTimestamp 1) = 0" "node (HLCTimestamp 1) = 1" "counter (HLCTimestamp 1) = 0"
  by (simp_all add: datacake_timestamp_def parts_as_duration_def seconds_def fractional_def node_def counter_def
      from_secs_def from_millis_def)

theorem send_strictly_increases_witness:
  "HLCTimestamp 1 < HLCTimestamp (pack (from_secs 10) 0 1)"
proof -
  have "hlc_send (DATACAKE_EPOCH + from_secs 10) (HLCTimestamp 1) =
      Some (Inr (HLCTimestamp (pack (from_secs 10) 0 1)), HLCTimestamp (pack (from_secs 10) 0 1))"
    using trunc_example unfolding hlc_send_cases [OF wall_example] zero_time diff_add_inverse
    by (simp add: Let_def from_secs_positive)
  from send_strictly_increases [OF wall_example this] show ?thesis by blast
qed

text \<open>C33. Receiving never panics and an error leaves the clock alone; on success the clock is
  greater than it was and than the message, stays with its node, and is at most the drift limit
  ahead of the wall clock. So what a node sends after a receipt is ordered after the message.\<close>

theorem recv_orders_after_message:
  assumes "valid_wall unix"
  shows "\<exists>r self'. hlc_recv unix msg self = Some (r, self') \<and>
    (case r of
       Inl e \<Rightarrow> self' = self
     | Inr t \<Rightarrow> node self \<noteq> node msg \<and> self < self' \<and> msg < self' \<and> node self' = node self \<and> node t = node msg \<and>
         datacake_timestamp self' \<le> unix - DATACAKE_EPOCH + MAX_CLOCK_DRIFT)"
proof -
  obtain r self' where r: "hlc_recv unix msg self = Some (r, self')" "\<forall>e. r = Inl e \<longrightarrow> self' = self"
    using hlc_recv_no_panic [OF assms] by blast
  show ?thesis
  proof (cases r)
    case (Inl e)
    then show ?thesis using r by simp
  next
    case (Inr t)
    note ok = hlc_recv_ok [OF assms r(1) [unfolded Inr]]
    show ?thesis using r(1) ok unfolding Inr by (intro exI conjI) (simp, simp)
  qed
qed

theorem recv_orders_after_message_witness:
  "\<exists>r self'. hlc_recv (DATACAKE_EPOCH + from_secs 10) (HLCTimestamp 2) (HLCTimestamp 1) = Some (r, self')"
  using recv_orders_after_message [OF wall_example, of "HLCTimestamp 2" "HLCTimestamp 1"]
  by (elim exE conjE) (intro exI, assumption)

end
