(* ===== verification/Collections.thy ===== *)
theory Collections
  imports Prelude "HOL-Library.AList"
begin

text \<open>
  The two maps of the standard library the code uses, as association lists: a \<open>BTreeMap\<close> keeps
  its keys in ascending order and iterates in that order; a \<open>HashMap\<close> has every key once and
  iterates in an order of its own, here the order of the list, which no law mentions. The
  interface both provide is the locale \<open>rust_map\<close>.
\<close>

type_synonym ('k, 'v) btree_map = "('k \<times> 'v) list"
type_synonym ('k, 'v) hash_map = "('k \<times> 'v) list"

fun bt_insert :: "'k::linorder \<Rightarrow> 'v \<Rightarrow> ('k, 'v) btree_map \<Rightarrow> ('k, 'v) btree_map" where
  "bt_insert k v [] = [(k, v)]"
| "bt_insert k v ((k', v') # m) =
     (if k < k' then (k, v) # (k', v') # m
      else if k = k' then (k, v) # m
      else (k', v') # bt_insert k v m)"

definition bt_remove :: "'k \<Rightarrow> ('k, 'v) btree_map \<Rightarrow> ('k, 'v) btree_map" where
  "bt_remove k m = filter (\<lambda>e. fst e \<noteq> k) m"

definition bt_wf :: "('k::linorder, 'v) btree_map \<Rightarrow> bool" where
  "bt_wf m \<longleftrightarrow> sorted_wrt (<) (map fst m)"

definition hm_insert :: "'k \<Rightarrow> 'v \<Rightarrow> ('k, 'v) hash_map \<Rightarrow> ('k, 'v) hash_map" where
  "hm_insert k v m = AList.update k v m"

definition hm_remove :: "'k \<Rightarrow> ('k, 'v) hash_map \<Rightarrow> ('k, 'v) hash_map" where
  "hm_remove k m = filter (\<lambda>e. fst e \<noteq> k) m"

definition hm_wf :: "('k, 'v) hash_map \<Rightarrow> bool" where
  "hm_wf m \<longleftrightarrow> distinct (map fst m)"

lemma hm_insert_code [simp]:
  "hm_insert k v [] = [(k, v)]"
  "hm_insert k v ((k', v') # m) = (if k = k' then (k, v) # m else (k', v') # hm_insert k v m)"
  by (simp_all add: hm_insert_def)

section \<open>The interface\<close>

locale rust_map =
  fixes empty :: "'m"
    and ins :: "'k \<Rightarrow> 'v \<Rightarrow> 'm \<Rightarrow> 'm"
    and rem :: "'k \<Rightarrow> 'm \<Rightarrow> 'm"
    and look :: "'m \<Rightarrow> 'k \<Rightarrow> 'v option"
    and iter :: "'m \<Rightarrow> ('k \<times> 'v) list"
    and invar :: "'m \<Rightarrow> bool"
  assumes look_empty: "look empty = Map.empty"
    and look_ins: "look (ins k v m) = (look m)(k \<mapsto> v)"
    and look_rem: "look (rem k m) = (look m)(k := None)"
    and iter_look: "invar m \<Longrightarrow> map_of (iter m) = look m"
    and iter_distinct: "invar m \<Longrightarrow> distinct (map fst (iter m))"
    and invar_empty: "invar empty"
    and invar_ins: "invar m \<Longrightarrow> invar (ins k v m)"
    and invar_rem: "invar m \<Longrightarrow> invar (rem k m)"
begin

text \<open>Iteration meets every entry once.\<close>

lemma iter_mem: "invar m \<Longrightarrow> (k, v) \<in> set (iter m) \<longleftrightarrow> look m k = Some v"
  using iter_look iter_distinct by (metis map_of_eq_Some_iff)

text \<open>\<open>extend\<close>: later pairs overwrite earlier ones.\<close>

lemma look_extend: "look (fold (\<lambda>(k, v). ins k v) kvs m) = look m ++ map_of (rev kvs)"
  by (induction kvs arbitrary: m) (auto simp: look_ins map_add_def fun_eq_iff split: option.splits)

lemma invar_extend: "invar m \<Longrightarrow> invar (fold (\<lambda>(k, v). ins k v) kvs m)"
  by (induction kvs arbitrary: m) (auto simp: invar_ins)

lemma look_remove_all: "look (fold rem ks m) = (look m) |` (- set ks)"
  by (induction ks arbitrary: m) (auto simp: look_rem restrict_map_def fun_eq_iff)

lemma invar_remove_all: "invar m \<Longrightarrow> invar (fold rem ks m)"
  by (induction ks arbitrary: m) (auto simp: invar_rem)

end

section \<open>Both maps provide it\<close>

lemma map_of_bt_insert [simp]: "map_of (bt_insert k v m) = (map_of m)(k \<mapsto> v)"
  by (induction m) (auto simp: fun_eq_iff)

lemma map_of_filter_key [simp]: "map_of (filter (\<lambda>e. fst e \<noteq> k) m) = (map_of m)(k := None)"
  by (induction m) (auto simp: fun_eq_iff)

lemma map_of_bt_remove [simp]: "map_of (bt_remove k m) = (map_of m)(k := None)"
  by (simp add: bt_remove_def)

lemma map_of_hm_insert [simp]: "map_of (hm_insert k v m) = (map_of m)(k \<mapsto> v)"
  by (simp add: hm_insert_def update_conv')

lemma map_of_hm_remove [simp]: "map_of (hm_remove k m) = (map_of m)(k := None)"
  by (simp add: hm_remove_def)

lemma set_fst_bt_insert: "fst ` set (bt_insert k v m) = insert k (fst ` set m)"
  using map_of_bt_insert [of k v m] by (metis dom_fun_upd dom_map_of_conv_image_fst option.distinct(1))

lemma bt_wf_simps [simp]:
  "bt_wf []"
  "bt_wf ((k, v) # m) \<longleftrightarrow> (\<forall>k' \<in> fst ` set m. k < k') \<and> bt_wf m"
  by (auto simp: bt_wf_def)

lemma bt_wf_insert: "bt_wf m \<Longrightarrow> bt_wf (bt_insert k v m)"
proof (induction k v m rule: bt_insert.induct)
  case (2 k v k' v' m)
  then show ?case
    using set_fst_bt_insert [of k v m] by (auto simp: less_trans)
qed simp

lemma bt_wf_remove: "bt_wf m \<Longrightarrow> bt_wf (bt_remove k m)"
  by (induction m) (auto simp: bt_remove_def)

lemma bt_wf_distinct: "bt_wf m \<Longrightarrow> distinct (map fst m)"
  by (simp add: bt_wf_def strict_sorted_iff)

interpretation bt: rust_map "[] :: ('k::linorder, 'v) btree_map" bt_insert bt_remove map_of id bt_wf
  by unfold_locales (auto simp: bt_wf_insert bt_wf_remove bt_wf_distinct)

interpretation hm: rust_map "[] :: ('k, 'v) hash_map" hm_insert hm_remove map_of id hm_wf
  by unfold_locales
    (auto simp: hm_wf_def hm_insert_def hm_remove_def distinct_update distinct_map_filter update_conv')

lemmas bt_iter = bt.iter_mem [unfolded id_apply]
lemmas hm_iter = hm.iter_mem [unfolded id_apply]

section \<open>Extensionality\<close>

lemma bt_canonical:
  assumes "bt_wf m"
  shows "map (\<lambda>k. (k, the (map_of m k))) (sorted_list_of_set (dom (map_of m))) = m"
proof -
  have "sorted_list_of_set (dom (map_of m)) = map fst m"
    using assms by (simp add: bt_wf_def strict_sorted_iff dom_map_of_conv_image_fst sorted_list_of_set.idem_if_sorted_distinct flip: set_map)
  moreover have "map (\<lambda>e. (fst e, the (map_of m (fst e)))) m = m"
    using bt_wf_distinct [OF assms] by (intro map_idI) auto
  ultimately show ?thesis by (simp add: comp_def)
qed

lemma bt_wf_ext: "bt_wf m \<Longrightarrow> bt_wf m' \<Longrightarrow> map_of m = map_of m' \<Longrightarrow> m = m'"
  by (metis bt_canonical)

lemma map_of_rev_keys: "distinct (map fst m) \<Longrightarrow> map_of (rev m) = map_of m"
  by (intro ext option.expand) (auto simp: map_of_eq_None_iff iff: map_of_eq_Some_iff rev_map [symmetric])

lemma map_add_covered: "dom m \<subseteq> dom m' \<Longrightarrow> m ++ m' = m'"
  by (auto simp: fun_eq_iff map_add_def dom_def split: option.splits)

lemma map_of_filter_distinct:
  "distinct (map fst m) \<Longrightarrow>
    map_of (filter P m) k = (case map_of m k of Some v \<Rightarrow> if P (k, v) then Some v else None | None \<Rightarrow> None)"
proof (induction m)
  case (Cons x m)
  obtain k' v where x: "x = (k', v)" by (cases x)
  then have "map_of m k' = None" using Cons.prems by (simp add: map_of_eq_None_iff)
  then show ?case using Cons x by (auto split: option.splits)
qed simp

end
