(* ===== verification/Orswot.thy ===== *)
theory Orswot
  imports Timestamp Collections
begin

text \<open>
  The set of \<^verbatim>\<open>datacake-crdt/src/orswot.rs\<close>: live entries, tombstones and the versions that say
  which events each source has delivered. The const generic \<open>N\<close>, the number of sources, is
  the length of \<open>nodes_max_stamps\<close>. Indexing with a source beyond it panics.
\<close>

type_synonym key = u64
type_synonym state_changes = "(key \<times> hlc_timestamp) list"

definition FORGIVENESS_PERIOD :: duration where
  "FORGIVENESS_PERIOD = from_secs 3600"

record node_versions =
  nodes_max_stamps :: "(u8, hlc_timestamp) btree_map list"
  safe_last_stamps :: "(u8, hlc_timestamp) btree_map"

definition default_versions :: "nat \<Rightarrow> node_versions" where
  "default_versions n = \<lparr>nodes_max_stamps = replicate n [], safe_last_stamps = []\<rparr>"

definition compute_safe_last_stamp :: "u8 \<Rightarrow> node_versions \<Rightarrow> node_versions exec" where
  "compute_safe_last_stamp nd v =
     do { stamps \<leftarrow> those (map (\<lambda>stamps. case map_of stamps nd of
                                 Some t \<Rightarrow> Some t
                               | None \<Rightarrow> hlc_new (from_secs 0) 0 nd) (nodes_max_stamps v));
          case iter_min stamps of
            None \<Rightarrow> Some v
          | Some m \<Rightarrow>
              do { ts \<leftarrow> hlc_new (datacake_timestamp m - FORGIVENESS_PERIOD) (counter m) (node m);
                   Some (v\<lparr>safe_last_stamps := bt_insert nd ts (safe_last_stamps v)\<rparr>) } }"

definition set_max_stamp :: "nat \<Rightarrow> hlc_timestamp \<Rightarrow> node_versions \<Rightarrow> node_versions" where
  "set_max_stamp src ts v =
     v\<lparr>nodes_max_stamps := (nodes_max_stamps v)[src := bt_insert (node ts) ts (nodes_max_stamps v ! src)]\<rparr>"

definition try_update_max_stamp :: "nat \<Rightarrow> hlc_timestamp \<Rightarrow> node_versions \<Rightarrow> (bool \<times> node_versions) exec" where
  "try_update_max_stamp src ts v =
     do { rust_assert (src < length (nodes_max_stamps v));
          if (case map_of (nodes_max_stamps v ! src) (node ts) of
                Some entry \<Rightarrow> ts < entry
              | None \<Rightarrow> False)
          then do { v' \<leftarrow> compute_safe_last_stamp (node ts) v; Some (False, v') }
          else do { v' \<leftarrow> compute_safe_last_stamp (node ts) (set_max_stamp src ts v);
                    Some (True, v') } }"

definition merge_stamps ::
  "(u8, hlc_timestamp) btree_map \<Rightarrow> (u8, hlc_timestamp) btree_map \<Rightarrow> (u8, hlc_timestamp) btree_map" where
  "merge_stamps existing_nodes other_nodes =
     fold (\<lambda>(nd, ts) m. case map_of m nd of
             Some entry \<Rightarrow> if ts < entry then m else bt_insert nd ts m
           | None \<Rightarrow> bt_insert nd ts m) other_nodes existing_nodes"

definition versions_merge :: "node_versions \<Rightarrow> node_versions \<Rightarrow> node_versions exec" where
  "versions_merge v other =
     exec_fold compute_safe_last_stamp
       (remdups (concat (map (map fst) (nodes_max_stamps other))))
       (v\<lparr>nodes_max_stamps := map2 merge_stamps (nodes_max_stamps v) (nodes_max_stamps other)\<rparr>)"

definition is_ts_before_last_observed_event :: "node_versions \<Rightarrow> hlc_timestamp \<Rightarrow> bool" where
  "is_ts_before_last_observed_event v ts =
     (case map_of (safe_last_stamps v) (node ts) of Some s \<Rightarrow> ts < s | None \<Rightarrow> False)"

record orswot_set =
  entries :: "(key, hlc_timestamp) btree_map"
  dead :: "(key, hlc_timestamp) hash_map"
  versions :: node_versions

definition default_set :: "nat \<Rightarrow> orswot_set" where
  "default_set n = \<lparr>entries = [], dead = [], versions = default_versions n\<rparr>"

definition check_self_then_insert_to ::
  "orswot_set \<Rightarrow> key \<Rightarrow> hlc_timestamp \<Rightarrow> state_changes \<Rightarrow> state_changes" where
  "check_self_then_insert_to self k ts values =
     (case map_of (entries self) k of
        Some existing_insert \<Rightarrow> if existing_insert < ts then values @ [(k, ts)] else values
      | None \<Rightarrow>
          (case map_of (dead self) k of
             Some existing_delete \<Rightarrow> if existing_delete < ts then values @ [(k, ts)] else values
           | None \<Rightarrow>
               if \<not> is_ts_before_last_observed_event (versions self) ts
               then values @ [(k, ts)] else values))"

definition orswot_diff :: "orswot_set \<Rightarrow> orswot_set \<Rightarrow> state_changes \<times> state_changes" where
  "orswot_diff self other =
     (fold (\<lambda>(k, ts). check_self_then_insert_to self k ts) (entries other) [],
      fold (\<lambda>(k, ts). check_self_then_insert_to self k ts) (dead other) [])"

definition mark_dead :: "key \<Rightarrow> hlc_timestamp \<Rightarrow> orswot_set \<Rightarrow> orswot_set" where
  "mark_dead k ts self =
     self\<lparr>dead := hm_insert k (case map_of (dead self) k of Some v \<Rightarrow> max v ts | None \<Rightarrow> ts) (dead self)\<rparr>"

text \<open>One entry of the log of the other set: (key, timestamp, is it a delete?).\<close>

fun merge_log_entry ::
  "key \<times> hlc_timestamp \<times> bool \<Rightarrow> orswot_set \<times> (key, hlc_timestamp) btree_map
    \<Rightarrow> orswot_set \<times> (key, hlc_timestamp) btree_map" where
  "merge_log_entry (k, ts, is_delete) (self, old_entries) =
     (if is_delete \<and> is_ts_before_last_observed_event (versions self) ts then (self, old_entries)
      else if is_delete then
        (case map_of (entries self) k of
           Some entry \<Rightarrow>
             (let self' = self\<lparr>entries := bt_remove k (entries self)\<rparr>
              in if ts < entry
                 then (self'\<lparr>entries := bt_insert k entry (entries self')\<rparr>, old_entries)
                 else (mark_dead k ts self', old_entries))
         | None \<Rightarrow> (mark_dead k ts self, old_entries))
      else
        (let (timestamp, old') =
               (case map_of old_entries k of
                  Some existing_ts \<Rightarrow> (max ts existing_ts, bt_remove k old_entries)
                | None \<Rightarrow> (ts, old_entries))
         in case map_of (dead self) k of
              Some deleted_ts \<Rightarrow>
                (let self' = self\<lparr>dead := hm_remove k (dead self)\<rparr>
                 in if timestamp < deleted_ts
                    then (self'\<lparr>dead := hm_insert k deleted_ts (dead self')\<rparr>, old')
                    else (self'\<lparr>entries := bt_insert k timestamp (entries self')\<rparr>, old'))
            | None \<Rightarrow> (self\<lparr>entries := bt_insert k timestamp (entries self)\<rparr>, old')))"

fun merge_remaining :: "node_versions \<Rightarrow> key \<times> hlc_timestamp \<Rightarrow> orswot_set \<Rightarrow> orswot_set" where
  "merge_remaining remote_versions (k, ts) self =
     (if is_ts_before_last_observed_event remote_versions ts then self
      else case map_of (dead self) k of
             Some deleted \<Rightarrow>
               (let self' = self\<lparr>dead := hm_remove k (dead self)\<rparr>
                in if ts < deleted
                   then self'\<lparr>dead := hm_insert k deleted (dead self')\<rparr>
                   else self'\<lparr>entries := bt_insert k ts (entries self')\<rparr>)
           | None \<Rightarrow> self\<lparr>entries := bt_insert k ts (entries self)\<rparr>)"

definition merge_log :: "orswot_set \<Rightarrow> (key \<times> hlc_timestamp \<times> bool) list" where
  "merge_log other =
     sort_key (\<lambda>v. fst (snd v))
       (map (\<lambda>(k, ts). (k, ts, False)) (entries other) @ map (\<lambda>(k, ts). (k, ts, True)) (dead other))"

definition orswot_merge :: "orswot_set \<Rightarrow> orswot_set \<Rightarrow> orswot_set exec" where
  "orswot_merge self other =
     do { let (self1, old_entries) =
            fold merge_log_entry (merge_log other) (self\<lparr>entries := []\<rparr>, entries self);
          let self2 = fold (merge_remaining (versions other)) old_entries self1;
          v \<leftarrow> versions_merge (versions self2) (versions other);
          Some (self2\<lparr>versions := v\<rparr>) }"

definition orswot_get :: "orswot_set \<Rightarrow> key \<Rightarrow> hlc_timestamp option" where
  "orswot_get self k = map_of (entries self) k"

definition purge_old_deletes :: "orswot_set \<Rightarrow> state_changes \<times> orswot_set" where
  "purge_old_deletes self =
     fold (\<lambda>(k, stamp) (deleted_keys, s).
             if \<not> is_ts_before_last_observed_event (versions s) stamp
             then (deleted_keys, s\<lparr>dead := hm_insert k stamp (dead s)\<rparr>)
             else (deleted_keys @ [(k, stamp)], s))
       (dead self) ([], self\<lparr>dead := []\<rparr>)"

definition add_raw_tombstones :: "state_changes \<Rightarrow> orswot_set \<Rightarrow> orswot_set" where
  "add_raw_tombstones tombstones self =
     fold (\<lambda>(k, stamp) s. s\<lparr>dead := hm_insert k stamp (dead s)\<rparr>) tombstones self"

definition will_apply :: "orswot_set \<Rightarrow> key \<Rightarrow> hlc_timestamp \<Rightarrow> bool" where
  "will_apply self k ts =
     (if is_ts_before_last_observed_event (versions self) ts then False
      else case map_of (entries self) k of
             Some entry \<Rightarrow> entry < ts
           | None \<Rightarrow> (case map_of (dead self) k of Some entry \<Rightarrow> entry < ts | None \<Rightarrow> True))"

definition insert_with_source :: "nat \<Rightarrow> key \<Rightarrow> hlc_timestamp \<Rightarrow> orswot_set \<Rightarrow> (bool \<times> orswot_set) exec" where
  "insert_with_source src k ts self =
     do { (updated, v) \<leftarrow> try_update_max_stamp src ts (versions self);
          let self = self\<lparr>versions := v\<rparr>;
          Some (if \<not> updated then (False, self)
                else let deleted = map_of (dead self) k;
                         self' = self\<lparr>dead := hm_remove k (dead self)\<rparr>
                     in if (case deleted of Some deleted_ts \<Rightarrow> ts < deleted_ts | None \<Rightarrow> False)
                        then (False, self'\<lparr>dead := hm_insert k (the deleted) (dead self')\<rparr>)
                        else case map_of (entries self') k of
                               Some v \<Rightarrow> if v < ts
                                         then (True, self'\<lparr>entries := bt_insert k ts (entries self')\<rparr>)
                                         else (False, self')
                             | None \<Rightarrow> (True, self'\<lparr>entries := bt_insert k ts (entries self')\<rparr>)) }"

definition delete_with_source :: "nat \<Rightarrow> key \<Rightarrow> hlc_timestamp \<Rightarrow> orswot_set \<Rightarrow> (bool \<times> orswot_set) exec" where
  "delete_with_source src k ts self =
     do { (updated, v) \<leftarrow> try_update_max_stamp src ts (versions self);
          let self = self\<lparr>versions := v\<rparr>;
          Some (if \<not> updated then (False, self)
                else let existing = map_of (entries self) k;
                         self' = self\<lparr>entries := bt_remove k (entries self)\<rparr>
                     in if (case existing of Some existing_ts \<Rightarrow> ts \<le> existing_ts | None \<Rightarrow> False)
                        then (False, self'\<lparr>entries := bt_insert k (the existing) (entries self')\<rparr>)
                        else case map_of (dead self') k of
                               Some v \<Rightarrow> if v < ts
                                         then (True, self'\<lparr>dead := hm_insert k ts (dead self')\<rparr>)
                                         else (False, self')
                             | None \<Rightarrow> (True, self'\<lparr>dead := hm_insert k ts (dead self')\<rparr>)) }"

definition orswot_insert :: "key \<Rightarrow> hlc_timestamp \<Rightarrow> orswot_set \<Rightarrow> (bool \<times> orswot_set) exec" where
  "orswot_insert k ts self = insert_with_source 0 k ts self"

definition orswot_delete :: "key \<Rightarrow> hlc_timestamp \<Rightarrow> orswot_set \<Rightarrow> (bool \<times> orswot_set) exec" where
  "orswot_delete k ts self = delete_with_source 0 k ts self"

section \<open>Versions\<close>

text \<open>
  The values \<open>compute_safe_last_stamp\<close> works with: the stamp of a node that a source has not
  delivered anything from, and a stamp less the forgiveness period. The assertion of
  \<open>HLCTimestamp::new\<close> holds for both.
\<close>

definition zero_stamp :: "u8 \<Rightarrow> hlc_timestamp" where
  "zero_stamp nd = HLCTimestamp (pack (from_secs 0) 0 nd)"

definition stamp_at :: "u8 \<Rightarrow> (u8, hlc_timestamp) btree_map \<Rightarrow> hlc_timestamp" where
  "stamp_at nd m = (case map_of m nd of Some t \<Rightarrow> t | None \<Rightarrow> zero_stamp nd)"

definition forgive :: "hlc_timestamp \<Rightarrow> hlc_timestamp" where
  "forgive t = HLCTimestamp (pack (datacake_timestamp t - FORGIVENESS_PERIOD) (counter t) (node t))"

definition safe_stamp :: "u8 \<Rightarrow> node_versions \<Rightarrow> hlc_timestamp option" where
  "safe_stamp nd v = map_option forgive (iter_min (map (stamp_at nd) (nodes_max_stamps v)))"

definition refresh :: "u8 \<Rightarrow> node_versions \<Rightarrow> node_versions" where
  "refresh nd v = (case safe_stamp nd v of
      Some ts \<Rightarrow> v\<lparr>safe_last_stamps := bt_insert nd ts (safe_last_stamps v)\<rparr>
    | None \<Rightarrow> v)"

lemma forgive_range: "as_secs (datacake_timestamp t - FORGIVENESS_PERIOD) < 2 ^ 32"
proof -
  have "unat (seconds t) * 250 + unat (fractional t) \<le> 2 ^ 32 * 250 + 256"
    using field_bounds(1,2) [of t] by linarith
  then have "datacake_timestamp t \<le> (2 ^ 32 * 250 + 256) * tick"
    unfolding datacake_timestamp_ticks by (rule mult_le_mono1)
  then have "datacake_timestamp t - FORGIVENESS_PERIOD < from_secs (2 ^ 32)"
    by (simp add: FORGIVENESS_PERIOD_def from_secs_def nanos_per_sec_def tick_def)
  then show ?thesis unfolding as_secs_less .
qed

lemma node_zero_stamp [simp]: "node (zero_stamp nd) = nd"
  by (simp add: zero_stamp_def pack_fields)

lemma node_forgive [simp]: "node (forgive t) = node t"
  by (simp add: forgive_def pack_fields)

lemma compute_safe_last_stamp_eq: "compute_safe_last_stamp nd v = Some (refresh nd v)"
proof -
  have z: "hlc_new (from_secs 0) 0 nd = Some (zero_stamp nd)"
    by (simp add: hlc_new_def zero_stamp_def as_secs_def from_secs_def)
  have "those (map (\<lambda>m. case map_of m nd of Some t \<Rightarrow> Some t | None \<Rightarrow> hlc_new (from_secs 0) 0 nd)
      (nodes_max_stamps v)) = Some (map (stamp_at nd) (nodes_max_stamps v))"
    by (rule those_map_Some) (auto simp: stamp_at_def z split: option.splits)
  moreover have "hlc_new (datacake_timestamp t - FORGIVENESS_PERIOD) (counter t) (node t) = Some (forgive t)" for t
    using forgive_range [of t] by (simp add: hlc_new_def forgive_def TIMESTAMP_MAX_def rust_assert_def)
  ultimately show ?thesis
    by (simp add: compute_safe_last_stamp_def refresh_def safe_stamp_def del: iter_min_None split: option.splits)
qed

lemma forgive_le: "forgive t \<le> t"
proof -
  let ?d = "datacake_timestamp t - FORGIVENESS_PERIOD"
  have "ticks ?d \<le> unat (seconds t) * 250"
  proof -
    have "?d \<le> unat (seconds t) * 250 * tick"
      using field_bounds(2) [of t]
      by (simp add: datacake_timestamp_ticks FORGIVENESS_PERIOD_def from_secs_def nanos_per_sec_def tick_def)
    then have "?d div tick \<le> unat (seconds t) * 250 * tick div tick" by (rule div_le_mono)
    then show ?thesis by (simp add: ticks_def tick_def)
  qed
  then have "upper (ticks ?d) \<le> upper (unat (seconds t) * 250)" by (rule upper_mono)
  then have "time40 (forgive t) \<le> time40 t"
    using forgive_range [of t] by (simp add: forgive_def pack_time time40_def [of t] upper_def)
  then have "\<not> t < forgive t" by (auto simp: hlc_less_iff forgive_def pack_fields)
  then show ?thesis by simp
qed


lemma safe_stamp_node:
  assumes "safe_stamp nd v = Some ts" "\<And>m t. m \<in> set (nodes_max_stamps v) \<Longrightarrow> map_of m nd = Some t \<Longrightarrow> node t = nd"
  shows "node ts = nd"
proof -
  obtain t where "iter_min (map (stamp_at nd) (nodes_max_stamps v)) = Some t" "ts = forgive t"
    using assms(1) by (auto simp: safe_stamp_def)
  then show ?thesis
    using iter_min_in assms(2) by (fastforce simp: stamp_at_def split: option.splits)
qed

lemma safe_stamp_le:
  assumes "safe_stamp nd v = Some ts" "m \<in> set (nodes_max_stamps v)"
  shows "ts \<le> stamp_at nd m"
proof -
  obtain t where "iter_min (map (stamp_at nd) (nodes_max_stamps v)) = Some t" "ts = forgive t"
    using assms(1) by (auto simp: safe_stamp_def)
  then show ?thesis
    using iter_min_le [of _ t "stamp_at nd m"] assms(2) forgive_le [of t] by fastforce
qed

lemma refresh_simps [simp]:
  "nodes_max_stamps (refresh nd v) = nodes_max_stamps v"
  "safe_stamp n (refresh nd v) = safe_stamp n v"
  "map_of (safe_last_stamps (refresh nd v)) n =
     (if n = nd \<and> safe_stamp nd v \<noteq> None then safe_stamp nd v else map_of (safe_last_stamps v) n)"
  by (auto simp: refresh_def safe_stamp_def split: option.splits)

lemma try_update_max_stamp_eq:
  assumes "src < length (nodes_max_stamps v)"
  shows "try_update_max_stamp src ts v =
    (if map_of (nodes_max_stamps v ! src) (node ts) \<noteq> None \<and> ts < stamp_at (node ts) (nodes_max_stamps v ! src)
     then Some (False, refresh (node ts) v)
     else Some (True, refresh (node ts) (set_max_stamp src ts v)))"
  using assms by (auto simp: try_update_max_stamp_def compute_safe_last_stamp_eq stamp_at_def split: option.splits)

text \<open>
  Well-formed versions: every map is a \<open>BTreeMap\<close>, a stamp is filed under its own node, and the
  safe stamp of a node is at most what every source has delivered from it.
\<close>

definition versions_wf :: "nat \<Rightarrow> node_versions \<Rightarrow> bool" where
  "versions_wf n v \<longleftrightarrow> length (nodes_max_stamps v) = n \<and> bt_wf (safe_last_stamps v) \<and>
     (\<forall>m \<in> set (nodes_max_stamps v). bt_wf m \<and> (\<forall>nd t. map_of m nd = Some t \<longrightarrow> node t = nd)) \<and>
     (\<forall>nd s. map_of (safe_last_stamps v) nd = Some s \<longrightarrow>
        node s = nd \<and> (\<forall>m \<in> set (nodes_max_stamps v). s \<le> stamp_at nd m))"

lemma versions_wf_refresh:
  assumes "versions_wf n v"
  shows "versions_wf n (refresh nd v)"
proof -
  have "bt_wf (safe_last_stamps (refresh nd v))"
    using assms by (auto simp: versions_wf_def refresh_def bt_wf_insert split: option.splits)
  moreover have "node s = nd'" "m \<in> set (nodes_max_stamps v) \<Longrightarrow> s \<le> stamp_at nd' m"
    if "map_of (safe_last_stamps (refresh nd v)) nd' = Some s" for nd' s m
    using that assms safe_stamp_node [of nd v s] safe_stamp_le [of nd v s m]
    by (auto simp: versions_wf_def split: if_splits)
  ultimately show ?thesis using assms by (auto simp: versions_wf_def)
qed

lemma stamp_at_insert: "stamp_at nd (bt_insert nd' t m) = (if nd = nd' then t else stamp_at nd m)"
  by (auto simp: stamp_at_def)

lemma zero_stamp_le: "node t = nd \<Longrightarrow> zero_stamp nd \<le> t"
proof -
  assume "node t = nd"
  moreover have "time40 (zero_stamp nd) = 0" "unat (counter (zero_stamp nd)) = 0"
    by (simp_all add: zero_stamp_def pack_time pack_fields as_secs_def from_secs_def upper_def ticks_def)
  ultimately have "\<not> t < zero_stamp nd" by (auto simp: hlc_less_iff)
  then show ?thesis by simp
qed

lemma versions_wf_set_max_stamp:
  assumes wf: "versions_wf n v" and src: "src < n"
    and new: "stamp_at (node ts) (nodes_max_stamps v ! src) \<le> ts"
  shows "versions_wf n (set_max_stamp src ts v)"
proof -
  let ?m = "nodes_max_stamps v ! src" and ?ms = "nodes_max_stamps (set_max_stamp src ts v)"
  have len: "length (nodes_max_stamps v) = n" and m: "?m \<in> set (nodes_max_stamps v)"
    using wf src by (auto simp: versions_wf_def)
  have sub: "m \<in> set ?ms \<Longrightarrow> m = bt_insert (node ts) ts ?m \<or> m \<in> set (nodes_max_stamps v)" for m
    using set_update_subset_insert [of "nodes_max_stamps v" src] by (auto simp: set_max_stamp_def)
  have "bt_wf m \<and> (\<forall>nd t. map_of m nd = Some t \<longrightarrow> node t = nd)" if "m \<in> set ?ms" for m
    using sub [OF that] wf m by (auto simp: versions_wf_def bt_wf_insert split: if_splits)
  moreover have "node s = nd \<and> (\<forall>m \<in> set ?ms. s \<le> stamp_at nd m)"
    if "map_of (safe_last_stamps v) nd = Some s" for nd s
  proof -
    have s: "node s = nd" "s \<le> stamp_at nd ?m" "\<forall>m \<in> set (nodes_max_stamps v). s \<le> stamp_at nd m"
      using wf that m by (auto simp: versions_wf_def)
    then have "s \<le> stamp_at nd (bt_insert (node ts) ts ?m)"
      using new by (auto simp: stamp_at_insert)
    then show ?thesis using s sub by blast
  qed
  ultimately show ?thesis using wf len by (auto simp: versions_wf_def set_max_stamp_def)
qed

lemma try_update_max_stamp_wf:
  assumes "versions_wf n v" "try_update_max_stamp src ts v = Some (b, v')"
  shows "versions_wf n v'"
proof -
  have src: "src < length (nodes_max_stamps v)" "src < n"
    using assms by (auto simp: try_update_max_stamp_def versions_wf_def split: bind_splits)
  have "stamp_at (node ts) (nodes_max_stamps v ! src) \<le> ts"
    if "map_of (nodes_max_stamps v ! src) (node ts) = None"
    using that by (simp add: stamp_at_def zero_stamp_le)
  then have "v' = refresh (node ts) v \<or>
      v' = refresh (node ts) (set_max_stamp src ts v) \<and> stamp_at (node ts) (nodes_max_stamps v ! src) \<le> ts"
    using assms(2) try_update_max_stamp_eq [OF src(1), of ts] by (auto split: if_splits)
  then show ?thesis
    using assms(1) src(2) versions_wf_refresh versions_wf_set_max_stamp by blast
qed

section \<open>The last-write-wins register of a key\<close>

text \<open>
  What the set promises about a key: the newest of the inserts and deletes it has accepted, an
  insert winning over a delete with the same timestamp. The order on \<open>lww_register\<close> is that
  preference, so joining two registers is \<open>max\<close>.
\<close>

datatype lww_register = Absent | Dead hlc_timestamp | Live hlc_timestamp

fun reg_le :: "lww_register \<Rightarrow> lww_register \<Rightarrow> bool" where
  "reg_le Absent r = True"
| "reg_le (Dead s) Absent = False"
| "reg_le (Dead s) (Dead t) = (s \<le> t)"
| "reg_le (Dead s) (Live t) = (s \<le> t)"
| "reg_le (Live s) Absent = False"
| "reg_le (Live s) (Dead t) = (s < t)"
| "reg_le (Live s) (Live t) = (s \<le> t)"

instantiation lww_register :: linorder
begin

definition less_eq_lww_register :: "lww_register \<Rightarrow> lww_register \<Rightarrow> bool" where
  "r \<le> s \<longleftrightarrow> reg_le r s"

definition less_lww_register :: "lww_register \<Rightarrow> lww_register \<Rightarrow> bool" where
  "r < s \<longleftrightarrow> reg_le r s \<and> \<not> reg_le s r"

instance
proof
  fix x y z :: lww_register
  show "x < y \<longleftrightarrow> x \<le> y \<and> \<not> y \<le> x" by (simp add: less_eq_lww_register_def less_lww_register_def)
  show "x \<le> x" by (cases x) (simp_all add: less_eq_lww_register_def)
  show "x \<le> y \<Longrightarrow> y \<le> z \<Longrightarrow> x \<le> z"
    by (cases x; cases y; cases z) (auto simp: less_eq_lww_register_def)
  show "x \<le> y \<Longrightarrow> y \<le> x \<Longrightarrow> x = y"
    by (cases x; cases y) (auto simp: less_eq_lww_register_def)
  show "x \<le> y \<or> y \<le> x"
    by (cases x; cases y) (auto simp: less_eq_lww_register_def)
qed

end

lemmas reg_order [simp] = less_eq_lww_register_def less_lww_register_def

lemma max_reg_simps [simp]:
  "max Absent r = r" "max r Absent = r"
  "max (Dead s) (Dead t) = Dead (max s t)"
  "max (Live s) (Live t) = Live (max s t)"
  "max (Dead s) (Live t) = (if s \<le> t then Live t else Dead s)"
  "max (Live t) (Dead s) = (if s \<le> t then Live t else Dead s)"
  by (cases r; auto simp: max_def)+

fun reg_val :: "hlc_timestamp option \<Rightarrow> hlc_timestamp option \<Rightarrow> lww_register" where
  "reg_val (Some t) d = Live t"
| "reg_val None (Some t) = Dead t"
| "reg_val None None = Absent"

definition reg_of :: "orswot_set \<Rightarrow> key \<Rightarrow> lww_register" where
  "reg_of s k = reg_val (map_of (entries s) k) (map_of (dead s) k)"

lemma reg_of_cong:
  "map_of (entries s) = map_of (entries t) \<Longrightarrow> map_of (dead s) = map_of (dead t) \<Longrightarrow> reg_of s = reg_of t"
  by (rule ext) (simp add: reg_of_def)

lemma reg_of_versions [simp]: "reg_of (s\<lparr>versions := v\<rparr>) = reg_of s"
  by (rule reg_of_cong) simp_all

definition orswot_wf :: "nat \<Rightarrow> orswot_set \<Rightarrow> bool" where
  "orswot_wf n s \<longleftrightarrow> bt_wf (entries s) \<and> hm_wf (dead s) \<and>
     dom (map_of (entries s)) \<inter> dom (map_of (dead s)) = {} \<and> versions_wf n (versions s)"

lemma reg_of_disjoint:
  assumes "orswot_wf n s"
  shows "map_of (entries s) k = Some t \<Longrightarrow> map_of (dead s) k = None"
    "map_of (dead s) k = Some t \<Longrightarrow> map_of (entries s) k = None"
  using assms by (auto simp: orswot_wf_def)

lemma reg_of_cases:
  assumes "orswot_wf n s"
  shows "reg_of s k = Live t \<longleftrightarrow> map_of (entries s) k = Some t"
    "reg_of s k = Dead t \<longleftrightarrow> map_of (dead s) k = Some t"
    "reg_of s k = Absent \<longleftrightarrow> map_of (entries s) k = None \<and> map_of (dead s) k = None"
  using reg_of_disjoint [OF assms]
  by (cases "map_of (entries s) k"; cases "map_of (dead s) k"; auto simp: reg_of_def)+

lemma orswot_wf_default: "orswot_wf n (default_set n)"
  by (auto simp: orswot_wf_def default_set_def default_versions_def versions_wf_def hm_wf_def)

text \<open>When a source delivers an operation in order, the versions let it through.\<close>

definition in_order :: "nat \<Rightarrow> hlc_timestamp \<Rightarrow> orswot_set \<Rightarrow> bool" where
  "in_order src ts s \<longleftrightarrow> src < length (nodes_max_stamps (versions s)) \<and>
     (case map_of (nodes_max_stamps (versions s) ! src) (node ts) of Some t \<Rightarrow> t \<le> ts | None \<Rightarrow> True)"

lemma in_order_update:
  assumes "orswot_wf n s" "src < n"
  obtains v where "try_update_max_stamp src ts (versions s) = Some (in_order src ts s, v)" "versions_wf n v"
proof -
  have "src < length (nodes_max_stamps (versions s))"
    using assms by (simp add: orswot_wf_def versions_wf_def)
  then have "\<exists>v. try_update_max_stamp src ts (versions s) = Some (in_order src ts s, v)"
    by (auto simp: in_order_def try_update_max_stamp_eq stamp_at_def split: option.splits)
  then obtain v where "try_update_max_stamp src ts (versions s) = Some (in_order src ts s, v)" ..
  then show ?thesis
    using assms(1) try_update_max_stamp_wf that by (auto simp: orswot_wf_def)
qed

text \<open>
  The effect of both operations: an operation out of order changes no key; one in order joins
  its timestamp to the register of its key. The returned flag says whether a register changed.
\<close>

lemma insert_with_source_reg:
  assumes wf: "orswot_wf n s" and src: "src < n"
  shows "\<exists>b s'. insert_with_source src k ts s = Some (b, s') \<and> orswot_wf n s' \<and>
    reg_of s' = (if in_order src ts s then (reg_of s)(k := max (reg_of s k) (Live ts)) else reg_of s) \<and>
    (b \<longleftrightarrow> reg_of s' \<noteq> reg_of s) \<and>
    try_update_max_stamp src ts (versions s) = Some (in_order src ts s, versions s')"
proof -
  obtain v where v: "try_update_max_stamp src ts (versions s) = Some (in_order src ts s, v)"
    and vwf: "versions_wf n v"
    using in_order_update [OF wf src] .
  show ?thesis
  proof (cases "in_order src ts s")
    case False
    then show ?thesis using wf vwf v by (auto simp: insert_with_source_def orswot_wf_def)
  next
    case True
    let ?s = "s\<lparr>versions := v\<rparr>"
    show ?thesis
    proof (cases "max (reg_of s k) (Live ts) = reg_of s k")
      case same: True
      let ?s' = "?s\<lparr>dead := (case map_of (dead s) k of Some d \<Rightarrow> hm_insert k d (hm_remove k (dead s))
        | None \<Rightarrow> hm_remove k (dead s))\<rparr>"
      have "insert_with_source src k ts s = Some (False, ?s')"
        using same True by (cases "reg_of s k") (auto simp: insert_with_source_def v Let_def reg_of_cases [OF wf]
            reg_of_disjoint [OF wf] max_def not_less split: if_splits)
      moreover have m: "map_of (dead ?s') = map_of (dead s)"
        by (auto simp: fun_eq_iff split: option.splits)
      moreover have "orswot_wf n ?s'"
        using wf vwf m by (auto simp: orswot_wf_def hm.invar_rem hm.invar_ins split: option.splits)
      moreover have "reg_of ?s' = reg_of s" using m by (intro reg_of_cong) simp_all
      ultimately show ?thesis using True same v by auto
    next
      case new: False
      let ?s' = "?s\<lparr>dead := hm_remove k (dead s), entries := bt_insert k ts (entries s)\<rparr>"
      have "insert_with_source src k ts s = Some (True, ?s')"
        using new True by (cases "reg_of s k") (auto simp: insert_with_source_def v Let_def reg_of_cases [OF wf]
            reg_of_disjoint [OF wf] max_def not_less split: if_splits)
      moreover have "orswot_wf n ?s'"
        using wf vwf by (auto simp: orswot_wf_def bt_wf_insert hm.invar_rem)
      moreover have "max (reg_of s k) (Live ts) = Live ts" using new by (auto simp: max_def)
      moreover have "reg_of ?s' = (reg_of s)(k := Live ts)" by (simp add: reg_of_def fun_eq_iff)
      ultimately show ?thesis using True new v by (auto simp: fun_upd_idem_iff)
    qed
  qed
qed

lemma delete_with_source_reg:
  assumes wf: "orswot_wf n s" and src: "src < n"
  shows "\<exists>b s'. delete_with_source src k ts s = Some (b, s') \<and> orswot_wf n s' \<and>
    reg_of s' = (if in_order src ts s then (reg_of s)(k := max (reg_of s k) (Dead ts)) else reg_of s) \<and>
    (b \<longleftrightarrow> reg_of s' \<noteq> reg_of s) \<and>
    try_update_max_stamp src ts (versions s) = Some (in_order src ts s, versions s')"
proof -
  obtain v where v: "try_update_max_stamp src ts (versions s) = Some (in_order src ts s, v)"
    and vwf: "versions_wf n v"
    using in_order_update [OF wf src] .
  show ?thesis
  proof (cases "in_order src ts s")
    case False
    then show ?thesis using wf vwf v by (auto simp: delete_with_source_def orswot_wf_def)
  next
    case True
    let ?s = "s\<lparr>versions := v\<rparr>"
    show ?thesis
    proof (cases "max (reg_of s k) (Dead ts) = reg_of s k")
      case same: True
      let ?s' = "?s\<lparr>entries := (case map_of (entries s) k of Some d \<Rightarrow> bt_insert k d (bt_remove k (entries s))
        | None \<Rightarrow> bt_remove k (entries s))\<rparr>"
      have "delete_with_source src k ts s = Some (False, ?s')"
        using same True by (cases "reg_of s k") (auto simp: delete_with_source_def v Let_def reg_of_cases [OF wf]
            reg_of_disjoint [OF wf] max_def not_less split: if_splits)
      moreover have m: "map_of (entries ?s') = map_of (entries s)"
        by (auto simp: fun_eq_iff split: option.splits)
      moreover have "orswot_wf n ?s'"
        using wf vwf m by (auto simp: orswot_wf_def bt_wf_insert bt_wf_remove split: option.splits)
      moreover have "reg_of ?s' = reg_of s" using m by (intro reg_of_cong) simp_all
      ultimately show ?thesis using True same v by auto
    next
      case new: False
      let ?s' = "?s\<lparr>entries := bt_remove k (entries s), dead := hm_insert k ts (dead s)\<rparr>"
      have "delete_with_source src k ts s = Some (True, ?s')"
        using new True by (cases "reg_of s k") (auto simp: delete_with_source_def v Let_def reg_of_cases [OF wf]
            reg_of_disjoint [OF wf] max_def not_less split: if_splits)
      moreover have "orswot_wf n ?s'"
        using wf vwf by (auto simp: orswot_wf_def bt_wf_remove hm.invar_ins)
      moreover have "max (reg_of s k) (Dead ts) = Dead ts" using new by (auto simp: max_def)
      moreover have "reg_of ?s' = (reg_of s)(k := Dead ts)" by (simp add: reg_of_def fun_eq_iff)
      ultimately show ?thesis using True new v by (auto simp: fun_upd_idem_iff)
    qed
  qed
qed


section \<open>Convergence of accepted operations\<close>

text \<open>
  A replica whose accepted operations join a value to one register. Whatever order the
  operations arrive in, replicas that accepted the same operations agree. The interface
  names the operations, the abstraction to registers and the effect of an operation.
\<close>

primrec accepted_run :: "('o \<Rightarrow> 's \<Rightarrow> 's exec) \<Rightarrow> ('o \<Rightarrow> 's \<Rightarrow> bool) \<Rightarrow> 'o list \<Rightarrow> 's \<Rightarrow> bool" where
  "accepted_run step ok [] s = True"
| "accepted_run step ok (x # xs) s =
     (ok x s \<and> (case step x s of None \<Rightarrow> False | Some s' \<Rightarrow> accepted_run step ok xs s'))"

definition join_effects :: "('o \<Rightarrow> 'k \<times> 'r::linorder) \<Rightarrow> 'o list \<Rightarrow> ('k \<Rightarrow> 'r) \<Rightarrow> 'k \<Rightarrow> 'r" where
  "join_effects eff xs r k = fold max (map (snd \<circ> eff) (filter (\<lambda>x. fst (eff x) = k) xs)) (r k)"

lemma fold_max_Max: "fold max xs (x::'a::linorder) = Max (Set.insert x (set xs))"
  using Max.set_eq_fold [of x xs] by simp

lemma join_effects_set:
  assumes "set xs = set ys"
  shows "join_effects eff xs r = join_effects eff ys r"
  using assms by (auto simp: join_effects_def fold_max_Max fun_eq_iff)

locale lww_replica =
  fixes step :: "'o \<Rightarrow> 's \<Rightarrow> 's exec"
    and accepts :: "'o \<Rightarrow> 's \<Rightarrow> bool"
    and reg :: "'s \<Rightarrow> 'k \<Rightarrow> 'r::linorder"
    and eff :: "'o \<Rightarrow> 'k \<times> 'r"
    and inv :: "'s \<Rightarrow> bool"
  assumes step_inv: "inv s \<Longrightarrow> step x s = Some s' \<Longrightarrow> inv s'"
    and step_reg: "inv s \<Longrightarrow> accepts x s \<Longrightarrow> step x s = Some s' \<Longrightarrow>
      reg s' = (reg s)(fst (eff x) := max (reg s (fst (eff x))) (snd (eff x)))"
begin

lemma run_reg:
  "inv s \<Longrightarrow> accepted_run step accepts xs s \<Longrightarrow>
    \<exists>s'. exec_fold step xs s = Some s' \<and> inv s' \<and> reg s' = join_effects eff xs (reg s)"
proof (induction xs arbitrary: s)
  case Nil
  then show ?case by (simp add: join_effects_def fun_eq_iff)
next
  case (Cons x xs)
  then obtain s1 where s1: "step x s = Some s1" "accepts x s" "accepted_run step accepts xs s1"
    by (auto split: option.splits)
  then obtain s' where "exec_fold step xs s1 = Some s'" "inv s'" "reg s' = join_effects eff xs (reg s1)"
    using Cons.IH [of s1] step_inv Cons.prems(1) by blast
  moreover have "join_effects eff xs (reg s1) = join_effects eff (x # xs) (reg s)"
    using step_reg [OF Cons.prems(1) s1(2,1)] by (auto simp: join_effects_def fun_eq_iff max.commute)
  ultimately show ?case using s1(1) by simp
qed

lemma converge:
  assumes "inv s" "inv t" "reg s = reg t"
    and "accepted_run step accepts xs s" "accepted_run step accepts ys t" "set xs = set ys"
  shows "\<exists>s' t'. exec_fold step xs s = Some s' \<and> exec_fold step ys t = Some t' \<and> reg s' = reg t'"
proof -
  obtain s' where s': "exec_fold step xs s = Some s'" "reg s' = join_effects eff xs (reg s)"
    using run_reg [OF assms(1,4)] by blast
  obtain t' where t': "exec_fold step ys t = Some t'" "reg t' = join_effects eff ys (reg t)"
    using run_reg [OF assms(2,5)] by blast
  show ?thesis using s' t' join_effects_set [OF assms(6)] assms(3) by metis
qed

end

text \<open>The set is such a replica, with its two operations and their sources.\<close>

datatype set_op = InsertOp nat key hlc_timestamp | DeleteOp nat key hlc_timestamp

fun apply_op :: "set_op \<Rightarrow> orswot_set \<Rightarrow> orswot_set exec" where
  "apply_op (InsertOp src k ts) s = map_option snd (insert_with_source src k ts s)"
| "apply_op (DeleteOp src k ts) s = map_option snd (delete_with_source src k ts s)"

fun op_in_order :: "set_op \<Rightarrow> orswot_set \<Rightarrow> bool" where
  "op_in_order (InsertOp src k ts) s = in_order src ts s"
| "op_in_order (DeleteOp src k ts) s = in_order src ts s"

fun op_effect :: "set_op \<Rightarrow> key \<times> lww_register" where
  "op_effect (InsertOp src k ts) = (k, Live ts)"
| "op_effect (DeleteOp src k ts) = (k, Dead ts)"

lemma source_in_range:
  assumes "try_update_max_stamp src ts (versions s) = Some r" "orswot_wf n s"
  shows "src < n"
  using assms by (auto simp: try_update_max_stamp_def orswot_wf_def versions_wf_def split: bind_splits)

lemma apply_op_wf:
  assumes "orswot_wf n s" "apply_op x s = Some s'"
  shows "orswot_wf n s'"
    "reg_of s' = (if op_in_order x s
       then (reg_of s)(fst (op_effect x) := max (reg_of s (fst (op_effect x))) (snd (op_effect x)))
       else reg_of s)"
proof -
  have "orswot_wf n s' \<and> reg_of s' = (if op_in_order x s
       then (reg_of s)(fst (op_effect x) := max (reg_of s (fst (op_effect x))) (snd (op_effect x)))
       else reg_of s)"
  proof (cases x)
    case (InsertOp src k ts)
    then have "src < n"
      using assms source_in_range by (auto simp: insert_with_source_def split: bind_splits)
    then show ?thesis
      using assms InsertOp insert_with_source_reg [of n s src k ts] by auto
  next
    case (DeleteOp src k ts)
    then have "src < n"
      using assms source_in_range by (auto simp: delete_with_source_def split: bind_splits)
    then show ?thesis
      using assms DeleteOp delete_with_source_reg [of n s src k ts] by auto
  qed
  then show "orswot_wf n s'" "reg_of s' = (if op_in_order x s
       then (reg_of s)(fst (op_effect x) := max (reg_of s (fst (op_effect x))) (snd (op_effect x)))
       else reg_of s)" by blast+
qed

interpretation orswot: lww_replica apply_op op_in_order reg_of op_effect "orswot_wf n" for n
  by unfold_locales (auto simp: apply_op_wf)

end
