(* ===== verification/Clock.thy ===== *)
theory Clock
  imports Timestamp
begin

text \<open>
  The clock of a node, \<^verbatim>\<open>datacake-node/src/clock.rs\<close>. The actor \<open>run_clock\<close> takes events from its
  channel one at a time; here the channel is the list of events it takes, each with the time
  since the UNIX epoch the system clock shows then. A reply is the timestamp sent back to
  \<open>get_time\<close>. The panic of \<open>expect\<close> is \<open>None\<close>: it ends the actor, and with it every later call.
\<close>

definition CLOCK_BACKPRESSURE_LIMIT :: u16 where
  "CLOCK_BACKPRESSURE_LIMIT = 65535 - 10"

record clock_handle =
  clock_node_id :: u8

definition clock_new :: "duration \<Rightarrow> u8 \<Rightarrow> (clock_handle \<times> hlc_timestamp) exec" where
  "clock_new unix nd = do { ts \<leftarrow> hlc_now unix 0 nd; Some (\<lparr>clock_node_id = nd\<rparr>, ts) }"

datatype clock_event = GetEv | RegisterEv hlc_timestamp

text \<open>The events a call puts into the channel.\<close>

definition register_ts :: "clock_handle \<Rightarrow> hlc_timestamp \<Rightarrow> clock_event list" where
  "register_ts self ts = (if node ts = clock_node_id self then [] else [RegisterEv ts])"

definition get_time :: "clock_handle \<Rightarrow> clock_event list" where
  "get_time self = [GetEv]"

text \<open>How long the actor sleeps after an event.\<close>

definition back_pressure :: "hlc_timestamp \<Rightarrow> duration" where
  "back_pressure clock = (if CLOCK_BACKPRESSURE_LIMIT \<le> counter clock then from_millis 1 else 0)"

fun clock_step :: "duration \<Rightarrow> clock_event \<Rightarrow> hlc_timestamp \<Rightarrow> (hlc_timestamp option \<times> duration \<times> hlc_timestamp) exec" where
  "clock_step unix GetEv clock =
     do { (r, clock') \<leftarrow> hlc_send unix clock;
          case r of
            Inl e \<Rightarrow> None
          | Inr ts \<Rightarrow> Some (Some ts, back_pressure clock', clock') }"
| "clock_step unix (RegisterEv remote_ts) clock =
     do { (r, clock') \<leftarrow> hlc_recv unix remote_ts clock;
          Some (None, back_pressure clock', clock') }"

primrec run_clock :: "(duration \<times> clock_event) list \<Rightarrow> hlc_timestamp \<Rightarrow> (hlc_timestamp list \<times> hlc_timestamp) exec" where
  "run_clock [] clock = Some ([], clock)"
| "run_clock (e # es) clock =
     do { (reply, slept, clock') \<leftarrow> clock_step (fst e) (snd e) clock;
          (replies, final) \<leftarrow> run_clock es clock';
          Some ((case reply of Some ts \<Rightarrow> [ts] | None \<Rightarrow> []) @ replies, final) }"

text \<open>
  A node's clock seen by its other components: every call of the actor reads the system clock,
  whose successive readings are \<open>wall\<close>, and waits for the reply.
\<close>

record node_clock =
  wall :: "nat \<Rightarrow> duration"
  reads :: nat
  hlc :: hlc_timestamp

definition clock_get :: "node_clock \<Rightarrow> (hlc_timestamp \<times> node_clock) exec" where
  "clock_get nc =
     do { (reply, slept, c) \<leftarrow> clock_step (wall nc (reads nc)) GetEv (hlc nc);
          ts \<leftarrow> reply;
          Some (ts, nc\<lparr>reads := Suc (reads nc), hlc := c\<rparr>) }"

definition clock_register :: "hlc_timestamp \<Rightarrow> node_clock \<Rightarrow> node_clock exec" where
  "clock_register ts nc =
     (if node ts = node (hlc nc) then Some nc
      else do { (reply, slept, c) \<leftarrow> clock_step (wall nc (reads nc)) (RegisterEv ts) (hlc nc);
                Some (nc\<lparr>reads := Suc (reads nc), hlc := c\<rparr>) })"

definition clock_ok :: "node_clock \<Rightarrow> bool" where
  "clock_ok nc \<longleftrightarrow> (\<forall>i. valid_wall (wall nc i))"

section \<open>Timestamps of a node are unique and increasing\<close>

lemma hlc_recv_keeps:
  assumes "valid_wall unix" "hlc_recv unix msg self = Some (r, self')"
  shows "self \<le> self'" "node self' = node self" "r = Inr t \<Longrightarrow> msg < self'"
proof -
  have "self' = self" if "r = Inl e" for e
    using hlc_recv_no_panic [OF assms(1), of msg self] assms(2) that by auto
  then show "self \<le> self'" "node self' = node self" "r = Inr t \<Longrightarrow> msg < self'"
    using hlc_recv_ok [OF assms(1)] assms(2) by (cases r; fastforce)+
qed

lemma clock_step_mono:
  assumes "valid_wall unix" "clock_step unix e c = Some (reply, slept, c')"
  shows "c \<le> c'" "node c' = node c" "reply = Some t \<Longrightarrow> t = c' \<and> c < t"
proof -
  have "c \<le> c' \<and> node c' = node c \<and> (\<forall>t. reply = Some t \<longrightarrow> t = c' \<and> c < t)"
  proof (cases e)
    case GetEv
    then obtain t where t: "hlc_send unix c = Some (Inr t, c')" "reply = Some t"
      using assms(2) by (auto split: bind_splits sum.splits)
    note hlc_send_ok [OF assms(1) t(1)]
    then show ?thesis using t(2) by auto
  next
    case (RegisterEv m)
    then obtain r where "hlc_recv unix m c = Some (r, c')" "reply = None"
      using assms(2) by (auto split: bind_splits)
    then show ?thesis using hlc_recv_keeps [OF assms(1)] by auto
  qed
  then show "c \<le> c'" "node c' = node c" "reply = Some t \<Longrightarrow> t = c' \<and> c < t" by blast+
qed

lemma run_clock_mono:
  assumes "\<forall>e \<in> set es. valid_wall (fst e)" "run_clock es c = Some (replies, c')"
  shows "sorted_wrt (<) (c # replies) \<and> c \<le> c' \<and> node c' = node c \<and>
    (\<forall>t \<in> set replies. node t = node c \<and> t \<le> c')"
  using assms
proof (induction es arbitrary: c replies)
  case (Cons e es)
  obtain reply sl c1 rs where s: "clock_step (fst e) (snd e) c = Some (reply, sl, c1)"
    "run_clock es c1 = Some (rs, c')" "replies = (case reply of Some ts \<Rightarrow> [ts] | None \<Rightarrow> []) @ rs"
    using Cons.prems(2) by (auto split: bind_splits prod.splits)
  have m: "c \<le> c1" "node c1 = node c" "\<And>t. reply = Some t \<Longrightarrow> t = c1 \<and> c < t"
    using clock_step_mono [OF _ s(1)] Cons.prems(1) by auto
  have "sorted_wrt (<) (c1 # rs) \<and> c1 \<le> c' \<and> node c' = node c1 \<and> (\<forall>t \<in> set rs. node t = node c1 \<and> t \<le> c')"
    using Cons.IH [OF _ s(2)] Cons.prems(1) by simp
  then show ?case using m s(3) by (cases reply) (auto dest: le_less_trans)
qed simp

text \<open>Registering a remote timestamp within the drift limit orders everything after it.\<close>

lemma register_then_get:
  assumes "valid_wall u" "hlc_recv u m c = Some (Inr r, c1)"
    and "\<forall>e \<in> set es. valid_wall (fst e)" "run_clock es c1 = Some (replies, c')" "t \<in> set replies"
  shows "m < t"
proof -
  have "m < c1" using hlc_recv_ok [OF assms(1,2)] by simp
  moreover have "c1 < t" using run_clock_mono [OF assms(3,4)] assms(5) by simp
  ultimately show ?thesis by order
qed

lemma clock_get_props:
  assumes "clock_ok nc" "clock_get nc = Some (t, nc')"
  shows "hlc nc < t" "hlc nc' = t" "node t = node (hlc nc)" "clock_ok nc'"
proof -
  have v: "valid_wall (wall nc (reads nc))" using assms(1) by (simp add: clock_ok_def)
  obtain sl where st: "clock_step (wall nc (reads nc)) GetEv (hlc nc) = Some (Some t, sl, hlc nc')"
    and nc': "wall nc' = wall nc"
    using assms(2) by (auto simp: clock_get_def simp del: clock_step.simps split: bind_splits)
  show "hlc nc < t" "hlc nc' = t" "node t = node (hlc nc)"
    using clock_step_mono(2) [OF v st] clock_step_mono(3) [OF v st refl] by auto
  show "clock_ok nc'" using assms(1) nc' by (simp add: clock_ok_def)
qed

lemma clock_register_props:
  assumes "clock_ok nc" "clock_register ts nc = Some nc'"
  shows "hlc nc \<le> hlc nc'" "node (hlc nc') = node (hlc nc)" "clock_ok nc'"
proof -
  have v: "valid_wall (wall nc (reads nc))" using assms(1) by (simp add: clock_ok_def)
  consider "nc' = nc"
    | sl r where "clock_step (wall nc (reads nc)) (RegisterEv ts) (hlc nc) = Some (r, sl, hlc nc')" "wall nc' = wall nc"
    using assms(2) by (auto simp: clock_register_def simp del: clock_step.simps split: bind_splits if_splits)
  then have "hlc nc \<le> hlc nc' \<and> node (hlc nc') = node (hlc nc) \<and> clock_ok nc'"
  proof cases
    case (2 sl r)
    then show ?thesis using clock_step_mono(1,2) [OF v 2(1)] assms(1) by (simp add: clock_ok_def)
  qed (use assms(1) in simp)
  then show "hlc nc \<le> hlc nc'" "node (hlc nc') = node (hlc nc)" "clock_ok nc'" by blast+
qed

text \<open>When \<open>get_time\<close> is answered.\<close>

lemma get_answered:
  assumes "valid_wall unix" "datacake_timestamp c \<le> trunc_tick (unix - DATACAKE_EPOCH) + MAX_CLOCK_DRIFT"
    and "counter c \<noteq> 65535 \<or> datacake_timestamp c < trunc_tick (unix - DATACAKE_EPOCH)"
  shows "\<exists>t slept. clock_step unix GetEv c = Some (Some t, slept, t)"
proof -
  have "unat (counter c) = 65535 \<Longrightarrow> counter c = 65535"
    by (simp add: word_unat_eq_iff)
  then show ?thesis
    using assms(2,3) by (auto simp: hlc_send_cases [OF assms(1)] Let_def)
qed

text \<open>A remote timestamp with the last but one counter, ahead of the wall clock, stops the actor.\<close>

lemma register_poisons:
  assumes wall: "valid_wall u" "valid_wall u'"
    and m: "node m \<noteq> node c" "counter m = 65534" "datacake_timestamp c < datacake_timestamp m"
      "trunc_tick (u - DATACAKE_EPOCH) < datacake_timestamp m"
      "datacake_timestamp m \<le> trunc_tick (u - DATACAKE_EPOCH) + MAX_CLOCK_DRIFT"
    and still: "trunc_tick (u' - DATACAKE_EPOCH) \<le> datacake_timestamp m"
  shows "run_clock [(u, RegisterEv m), (u', GetEv)] c = None"
proof -
  define now where "now = trunc_tick (u - DATACAKE_EPOCH)"
  have mx: "max (max (datacake_timestamp c) now) (datacake_timestamp m) = datacake_timestamp m"
    using m by (simp add: now_def)
  have r: "as_secs (datacake_timestamp m) < 2 ^ 32"
    using drift_in_range(1) [OF wall(1), of "datacake_timestamp m"] m(5) by simp
  let ?c = "HLCTimestamp (pack (datacake_timestamp m) 65535 (node c))"
  have "checked_add 65534 1 = Some 65535" by (simp add: checked_add_def)
  moreover have "\<not> MAX_CLOCK_DRIFT < datacake_timestamp m - now" "datacake_timestamp m \<noteq> datacake_timestamp c"
    using m(3,5) by (simp_all add: now_def)
  moreover have "hlc_new (datacake_timestamp m) k n = Some (HLCTimestamp (pack (datacake_timestamp m) k n))" for k n
    using r by (simp add: hlc_new_def TIMESTAMP_MAX_def rust_assert_def)
  ultimately have recv: "hlc_recv u m c = Some (Inr (HLCTimestamp (pack (datacake_timestamp m) 65535 (node m))), ?c)"
    using m(1) [symmetric] m(2) unfolding hlc_recv_def get_datacake_timestamp_valid [OF wall(1)] now_def [symmetric]
    by (simp add: Let_def mx pack_fields)
  have c: "datacake_timestamp ?c = datacake_timestamp m" "counter ?c = 65535"
    using r by (simp_all add: pack_time pack_fields ticks_datacake_timestamp)
  have "clock_step u' GetEv ?c = None"
    using still unfolding clock_step.simps hlc_send_cases [OF wall(2)] c by (auto simp: Let_def)
  then show ?thesis by (simp add: recv del: clock_step.simps(1))
qed


primrec clock_answers :: "nat \<Rightarrow> node_clock \<Rightarrow> bool" where
  "clock_answers 0 nc = True"
| "clock_answers (Suc n) nc = (case clock_get nc of None \<Rightarrow> False | Some (t, nc') \<Rightarrow> clock_answers n nc')"

text \<open>
  A clock with room: the system clock does not run backwards, and the timestamp is within the drift
  limit and has a counter of at most \<open>m\<close>. A call raises the counter by one at most, and so does a
  remote timestamp whose counter is no higher.
\<close>

definition clock_fit :: "nat \<Rightarrow> node_clock \<Rightarrow> bool" where
  "clock_fit m nc \<longleftrightarrow> clock_ok nc \<and> mono (wall nc) \<and> unat (counter (hlc nc)) \<le> m \<and>
     datacake_timestamp (hlc nc) \<le> trunc_tick (wall nc (reads nc) - DATACAKE_EPOCH) + MAX_CLOCK_DRIFT"

lemma clock_fit_mono: "clock_fit m nc \<Longrightarrow> m \<le> m' \<Longrightarrow> clock_fit m' nc"
  by (simp add: clock_fit_def)

lemma clock_fit_later:
  assumes fit: "clock_fit m nc" and c: "unat (counter c) \<le> m'"
    and d: "datacake_timestamp c \<le> trunc_tick (wall nc (reads nc) - DATACAKE_EPOCH) + MAX_CLOCK_DRIFT"
  shows "clock_fit m' (nc\<lparr>reads := Suc (reads nc), hlc := c\<rparr>)"
proof -
  have "wall nc (reads nc) \<le> wall nc (Suc (reads nc))" using fit by (simp add: clock_fit_def mono_def)
  then have "trunc_tick (wall nc (reads nc) - DATACAKE_EPOCH) \<le> trunc_tick (wall nc (Suc (reads nc)) - DATACAKE_EPOCH)"
    by (simp add: trunc_tick_def ticks_def div_le_mono diff_le_mono)
  then show ?thesis using assms by (simp add: clock_fit_def clock_ok_def)
qed

lemma clock_fit_get:
  assumes fit: "clock_fit m nc" and m: "m < 2 ^ 16 - 1"
  shows "\<exists>t nc'. clock_get nc = Some (t, nc') \<and> clock_fit (Suc m) nc' \<and> unat (counter t) \<le> Suc m \<and>
    node t = node (hlc nc) \<and> node (hlc nc') = node (hlc nc)"
proof -
  let ?u = "wall nc (reads nc)" and ?c = "hlc nc"
  let ?now = "trunc_tick (?u - DATACAKE_EPOCH)"
  have v: "valid_wall ?u" and le: "datacake_timestamp ?c \<le> ?now + MAX_CLOCK_DRIFT" and cnt: "unat (counter ?c) \<le> m"
    using fit by (auto simp: clock_fit_def clock_ok_def)
  have "counter ?c \<noteq> 65535" using cnt m by auto
  then obtain t sl where t: "clock_step ?u GetEv ?c = Some (Some t, sl, t)"
    using get_answered [OF v le] by blast
  then have send: "hlc_send ?u ?c = Some (Inr t, t)" by (auto split: bind_splits sum.splits)
  have "unat (counter ?c + 1) = unat (counter ?c) + 1" using cnt m by (simp add: unat_word_ariths)
  then have tc: "unat (counter t) \<le> Suc m"
    using send cnt m unfolding hlc_send_cases [OF v] by (auto simp: Let_def pack_fields split: if_splits)
  have "datacake_timestamp t \<le> ?now + MAX_CLOCK_DRIFT" using hlc_send_ok(4) [OF v send] le by simp
  then have "clock_fit (Suc m) (nc\<lparr>reads := Suc (reads nc), hlc := t\<rparr>)" by (rule clock_fit_later [OF fit tc])
  then show ?thesis using t tc hlc_send_ok(3) [OF v send] by (simp add: clock_get_def del: clock_step.simps)
qed

lemma recv_counter:
  assumes v: "valid_wall u" and c: "unat (counter c) \<le> m" "unat (counter msg) \<le> m"
    and d: "datacake_timestamp c \<le> trunc_tick (u - DATACAKE_EPOCH) + MAX_CLOCK_DRIFT"
    and r: "hlc_recv u msg c = Some (r, c')"
  shows "unat (counter c') \<le> Suc m \<and> datacake_timestamp c' \<le> trunc_tick (u - DATACAKE_EPOCH) + MAX_CLOCK_DRIFT"
proof (cases r)
  case (Inl e)
  then have "c' = c" using hlc_recv_no_panic [OF v, of msg c] r by auto
  then show ?thesis using c d by simp
next
  case (Inr t)
  define now where "now = trunc_tick (u - DATACAKE_EPOCH)"
  let ?d = "max (max (datacake_timestamp c) now) (datacake_timestamp msg)"
  obtain k where k: "c' = HLCTimestamp (pack ?d k (node c))" "?d - now \<le> MAX_CLOCK_DRIFT" "unat k \<le> Suc m"
    using r Inr c unfolding hlc_recv_def get_datacake_timestamp_valid [OF v] now_def [symmetric]
    by (auto simp: Let_def checked_add_def unat_word_ariths word_le_nat_alt max_def split: if_splits bind_splits)
  have "as_secs ?d < 2 ^ 32" using drift_in_range(1) [OF v, of ?d] k(2) by (simp add: now_def)
  moreover have "trunc_tick ?d = ?d"
    by (intro trunc_tick_max) (simp_all add: ticks_datacake_timestamp now_def trunc_tick_props)
  ultimately have "datacake_timestamp c' = ?d" using k(1) by (simp add: pack_time)
  moreover have "?d \<le> now + MAX_CLOCK_DRIFT" using k(2) by linarith
  moreover have "counter c' = k" using k(1) by (simp add: pack_fields)
  ultimately show ?thesis using k(3) unfolding now_def by simp
qed

lemma clock_fit_register:
  assumes fit: "clock_fit m nc" and m: "unat (counter ts) \<le> m"
  shows "\<exists>nc'. clock_register ts nc = Some nc' \<and> clock_fit (Suc m) nc' \<and> node (hlc nc') = node (hlc nc)"
proof (cases "node ts = node (hlc nc)")
  case True
  then show ?thesis using clock_fit_mono [OF fit, of "Suc m"] by (simp add: clock_register_def)
next
  case False
  let ?u = "wall nc (reads nc)"
  have v: "valid_wall ?u" using fit by (simp add: clock_fit_def clock_ok_def)
  obtain r c' where r: "hlc_recv ?u ts (hlc nc) = Some (r, c')" using hlc_recv_no_panic [OF v] by blast
  then have "clock_register ts nc = Some (nc\<lparr>reads := Suc (reads nc), hlc := c'\<rparr>)"
    using False by (simp add: clock_register_def)
  moreover have "clock_fit (Suc m) (nc\<lparr>reads := Suc (reads nc), hlc := c'\<rparr>)"
    using recv_counter [OF v _ m _ r] fit by (intro clock_fit_later [OF fit]) (auto simp: clock_fit_def)
  ultimately show ?thesis using hlc_recv_keeps(2) [OF v r] by simp
qed

lemma clock_fit_answers: "clock_fit m nc \<Longrightarrow> m + n < 2 ^ 16 \<Longrightarrow> clock_answers n nc"
proof (induction n arbitrary: m nc)
  case (Suc n)
  then show ?case using clock_fit_get [OF Suc.prems(1)] Suc.IH [of "Suc m"] by fastforce
qed simp

lemma clock_answers_enough:
  assumes "clock_ok nc" "mono (wall nc)"
    and "datacake_timestamp (hlc nc) \<le> trunc_tick (wall nc (reads nc) - DATACAKE_EPOCH) + MAX_CLOCK_DRIFT"
    and "unat (counter (hlc nc)) + n < 2 ^ 16"
  shows "clock_answers n nc"
  using assms by (intro clock_fit_answers [of "unat (counter (hlc nc))"]) (simp_all add: clock_fit_def)

section \<open>Properties\<close>

text \<open>C15. The timestamps a clock actor hands out are strictly increasing and so never repeat,
  whatever remote timestamps are registered between the calls, and all carry the node of the
  clock.\<close>

theorem clock_replies_increase:
  assumes "\<forall>e \<in> set es. valid_wall (fst e)" "run_clock es c = Some (replies, c')"
  shows "sorted_wrt (<) replies \<and> (\<forall>t \<in> set replies. c < t \<and> t \<le> c' \<and> node t = node c)"
  using run_clock_mono [OF assms] by simp

definition example_wall :: duration where
  "example_wall = DATACAKE_EPOCH + from_secs 10"

lemma example_send: "hlc_send example_wall (HLCTimestamp 1) =
    Some (Inr (HLCTimestamp (pack (from_secs 10) 0 1)), HLCTimestamp (pack (from_secs 10) 0 1))"
  using trunc_example unfolding example_wall_def hlc_send_cases [OF wall_example] zero_time diff_add_inverse
  by (simp add: Let_def from_secs_positive)

lemma example_run: "run_clock [(example_wall, GetEv)] (HLCTimestamp 1) =
    Some ([HLCTimestamp (pack (from_secs 10) 0 1)], HLCTimestamp (pack (from_secs 10) 0 1))"
  by (simp add: example_send)

theorem clock_replies_increase_witness: "HLCTimestamp 1 < HLCTimestamp (pack (from_secs 10) 0 1)"
  using clock_replies_increase [OF _ example_run] wall_example by (simp add: example_wall_def)


lemma two_time: "datacake_timestamp (HLCTimestamp 2) = 0" "node (HLCTimestamp 2) = 2" "counter (HLCTimestamp 2) = 0"
  by (simp_all add: datacake_timestamp_def parts_as_duration_def seconds_def fractional_def node_def counter_def
      from_secs_def from_millis_def)

lemma example_pack: "datacake_timestamp (HLCTimestamp (pack (from_secs 10) c n)) = from_secs 10"
  using trunc_example by (subst pack_time(2)) (simp_all add: as_secs_def from_secs_def nanos_per_sec_def)

lemma example_new: "hlc_new (from_secs 10) c n = Some (HLCTimestamp (pack (from_secs 10) c n))"
  by (simp add: hlc_new_def TIMESTAMP_MAX_def as_secs_def from_secs_def nanos_per_sec_def)

lemma example_recv: "hlc_recv example_wall (HLCTimestamp 2) (HLCTimestamp 1) =
    Some (Inr (HLCTimestamp (pack (from_secs 10) 0 2)), HLCTimestamp (pack (from_secs 10) 0 1))"
  using trunc_example unfolding hlc_recv_def example_wall_def get_datacake_timestamp_valid [OF wall_example]
    zero_time two_time diff_add_inverse
  by (simp add: Let_def from_secs_positive example_new pack_fields)

lemma example_run2: "run_clock [(example_wall, GetEv)] (HLCTimestamp (pack (from_secs 10) 0 1)) =
    Some ([HLCTimestamp (pack (from_secs 10) 1 1)], HLCTimestamp (pack (from_secs 10) 1 1))"
  using trunc_example unfolding run_clock.simps clock_step.simps fst_conv snd_conv example_wall_def
    hlc_send_cases [OF wall_example] example_pack diff_add_inverse
  by (simp add: Let_def pack_fields)


text \<open>C36. A clock answers \<open>n\<close> calls of \<open>get_time\<close> without a panic if the system clock does not run
  backwards, the clock is within the drift limit of it and its counter leaves room for \<open>n\<close> more.\<close>

theorem clock_answers_calls:
  assumes "clock_ok nc" "mono (wall nc)"
    and "datacake_timestamp (hlc nc) \<le> trunc_tick (wall nc (reads nc) - DATACAKE_EPOCH) + MAX_CLOCK_DRIFT"
    and "unat (counter (hlc nc)) + n < 2 ^ 16"
  shows "clock_answers n nc"
  by (rule clock_answers_enough [OF assms])

definition example_clock :: node_clock where
  "example_clock = \<lparr>wall = (\<lambda>i. example_wall), reads = 0, hlc = HLCTimestamp 1\<rparr>"

lemma example_clock_ok: "clock_ok example_clock" "mono (wall example_clock)"
  using wall_example by (simp_all add: clock_ok_def example_clock_def example_wall_def mono_def)

theorem clock_answers_calls_witness: "clock_answers 1000 example_clock"
  by (rule clock_answers_calls [OF example_clock_ok]) (simp_all add: example_clock_def zero_time)

text \<open>C38. A remote timestamp with the last but one counter value, ahead of the system clock but within
  the drift limit, stops the clock actor: it is accepted, and the next \<open>get_time\<close> panics on the
  counter overflow unless the system clock has passed the registered time by then.\<close>

theorem clock_poisoned_by_remote:
  assumes "valid_wall u" "valid_wall u'"
    and "node m \<noteq> node c" "counter m = 65534" "datacake_timestamp c < datacake_timestamp m"
    and "trunc_tick (u - DATACAKE_EPOCH) < datacake_timestamp m"
    and "datacake_timestamp m \<le> trunc_tick (u - DATACAKE_EPOCH) + MAX_CLOCK_DRIFT"
    and "trunc_tick (u' - DATACAKE_EPOCH) \<le> datacake_timestamp m"
  shows "run_clock [(u, RegisterEv m), (u', GetEv)] c = None"
  by (rule register_poisons [OF assms])

theorem clock_poisoned_by_remote_witness:
  "run_clock [(DATACAKE_EPOCH, RegisterEv (HLCTimestamp (pack (from_secs 10) 65534 2))), (DATACAKE_EPOCH, GetEv)]
     (HLCTimestamp 1) = None"
proof -
  have v: "valid_wall DATACAKE_EPOCH"
    by (simp add: valid_wall_def MAX_CLOCK_DRIFT_def from_secs_def nanos_per_sec_def)
  have t0: "trunc_tick 0 = 0" by (simp add: trunc_tick_def ticks_def)
  show ?thesis
    by (rule clock_poisoned_by_remote [OF v v])
      (use t0 from_secs_positive in \<open>simp_all add: pack_fields zero_time example_pack\<close>,
       simp add: from_secs_def MAX_CLOCK_DRIFT_def nanos_per_sec_def)
qed

end
