(* ===== verification/Storage.thy ===== *)
theory Storage
  imports Orswot Clock "HOL-Library.Multiset"
begin

text \<open>
  Documents (\<^verbatim>\<open>datacake-eventual-consistency/src/core.rs\<close>) and the persistence interface
  (\<^verbatim>\<open>storage.rs\<close>). The trait \<open>Storage\<close> is the record \<open>storage_ops\<close> of its methods over the state
  \<open>'s\<close> of an implementation and its error type \<open>'e\<close>; the laws of the locale \<open>storage\<close> are its contract: what
  the actors rely on, the conformance suite asserts and the stores of the repository do. On one case the documentation
  disagrees with all three: it says that marking a document that does not exist should be a no-op, where the laws, as the
  suite, leave a tombstone.
\<close>

section \<open>Documents\<close>

record document_metadata =
  md_id :: key
  md_last_updated :: hlc_timestamp

record document =
  metadata :: document_metadata
  doc_data :: "u8 list"

definition metadata_new :: "key \<Rightarrow> hlc_timestamp \<Rightarrow> document_metadata" where
  "metadata_new i ts = \<lparr>md_id = i, md_last_updated = ts\<rparr>"

definition document_new :: "key \<Rightarrow> hlc_timestamp \<Rightarrow> u8 list \<Rightarrow> document" where
  "document_new i ts d = \<lparr>metadata = \<lparr>md_id = i, md_last_updated = ts\<rparr>, doc_data = d\<rparr>"

definition doc_id :: "document \<Rightarrow> key" where
  "doc_id d = md_id (metadata d)"

definition last_updated :: "document \<Rightarrow> hlc_timestamp" where
  "last_updated d = md_last_updated (metadata d)"

definition document_eq :: "document \<Rightarrow> document \<Rightarrow> bool" where
  "document_eq a b \<longleftrightarrow> md_id (metadata a) = md_id (metadata b) \<and>
     md_last_updated (metadata a) = md_last_updated (metadata b) \<and> doc_data a = doc_data b"

lemma document_eq_iff: "document_eq a b \<longleftrightarrow> a = b"
  by (cases a; cases b; cases "metadata a"; cases "metadata b") (auto simp: document_eq_def)

lemma document_new_simps [simp]:
  "doc_id (document_new i ts d) = i" "last_updated (document_new i ts d) = ts"
  "doc_data (document_new i ts d) = d"
  by (simp_all add: document_new_def doc_id_def last_updated_def)

section \<open>Progress of a task\<close>

text \<open>
  The tracker is shared by the task and its supervisor: both act on the same two atomics.
  \<open>Instant::now()\<close> is the argument \<open>now\<close>.
\<close>

record progress_tracker =
  progress_counter :: u64
  tracker_done :: bool

definition register_progress :: "progress_tracker \<Rightarrow> progress_tracker" where
  "register_progress t = t\<lparr>progress_counter := progress_counter t + 1\<rparr>"

definition set_done :: "progress_tracker \<Rightarrow> progress_tracker" where
  "set_done t = t\<lparr>tracker_done := True\<rparr>"

record progress_watcher =
  watch_timeout :: duration
  last_tick :: duration
  last_observed_counter :: u64

definition watcher_new :: "duration \<Rightarrow> duration \<Rightarrow> progress_watcher" where
  "watcher_new now timeout = \<lparr>watch_timeout = timeout, last_tick = now, last_observed_counter = 0\<rparr>"

definition has_expired :: "duration \<Rightarrow> progress_tracker \<Rightarrow> progress_watcher \<Rightarrow> bool \<times> progress_watcher" where
  "has_expired now t w =
     (if tracker_done t then (False, w)
      else if progress_counter t > last_observed_counter w
      then (False, w\<lparr>last_tick := now, last_observed_counter := progress_counter t\<rparr>)
      else (now - last_tick w > watch_timeout w, w))"

text \<open>A supervisor that polls a task: the tracker it finds at each poll, and when.\<close>

primrec watch :: "(duration \<times> progress_tracker) list \<Rightarrow> progress_watcher \<Rightarrow> bool" where
  "watch [] w = False"
| "watch (p # ps) w = (let (expired, w') = has_expired (fst p) (snd p) w in expired \<or> watch ps w')"

lemma watch_progress:
  assumes "sorted_wrt (\<lambda>p q. progress_counter (snd p) < progress_counter (snd q)) ps"
    and "\<forall>p \<in> set ps. last_observed_counter w < progress_counter (snd p)"
  shows "\<not> watch ps w"
  using assms by (induction ps arbitrary: w) (auto simp: has_expired_def)

lemma watch_stalled:
  assumes "\<not> tracker_done t" "progress_counter t \<le> last_observed_counter w" "last_tick w + watch_timeout w < now"
  shows "watch ((now, t) # ps) w"
  using assms by (auto simp: has_expired_def)

section \<open>The trait\<close>

record put_context =
  ctx_progress :: progress_tracker
  remote_node_id :: u8
  remote_addr :: string

record 'e bulk_mutation_error =
  bulk_inner :: 'e
  successful_doc_ids :: "key list"

definition bulk_error_new :: "'e \<Rightarrow> key list \<Rightarrow> 'e bulk_mutation_error" where
  "bulk_error_new e ids = \<lparr>bulk_inner = e, successful_doc_ids = ids\<rparr>"

definition empty_with_error :: "'e \<Rightarrow> 'e bulk_mutation_error" where
  "empty_with_error e = bulk_error_new e []"

type_synonym ('s, 'r) action = "'s \<Rightarrow> ('r \<times> 's) exec"
type_synonym 'e bulk_result = "'e bulk_mutation_error + unit"

record ('s, 'e) storage_ops =
  st_get_keyspace_list :: "('s, 'e + string list) action"
  st_iter_metadata :: "string \<Rightarrow> ('s, 'e + (key \<times> hlc_timestamp \<times> bool) list) action"
  st_remove_tombstones :: "string \<Rightarrow> key list \<Rightarrow> ('s, 'e bulk_result) action"
  st_put_with_ctx :: "string \<Rightarrow> document \<Rightarrow> put_context option \<Rightarrow> ('s, 'e + unit) action"
  st_put :: "string \<Rightarrow> document \<Rightarrow> ('s, 'e + unit) action"
  st_multi_put_with_ctx :: "string \<Rightarrow> document list \<Rightarrow> put_context option \<Rightarrow> ('s, 'e bulk_result) action"
  st_multi_put :: "string \<Rightarrow> document list \<Rightarrow> ('s, 'e bulk_result) action"
  st_mark_as_tombstone :: "string \<Rightarrow> key \<Rightarrow> hlc_timestamp \<Rightarrow> ('s, 'e + unit) action"
  st_mark_many_as_tombstone :: "string \<Rightarrow> document_metadata list \<Rightarrow> ('s, 'e bulk_result) action"
  st_get :: "string \<Rightarrow> key \<Rightarrow> ('s, 'e + document option) action"
  st_multi_get :: "string \<Rightarrow> key list \<Rightarrow> ('s, 'e + document list) action"

text \<open>The default bodies of the two methods with a context.\<close>

definition default_put_with_ctx ::
  "(string \<Rightarrow> document \<Rightarrow> ('s, 'e + unit) action) \<Rightarrow> string \<Rightarrow> document \<Rightarrow> put_context option \<Rightarrow> ('s, 'e + unit) action" where
  "default_put_with_ctx put_fn ks d ctx = put_fn ks d"

definition default_multi_put_with_ctx ::
  "(string \<Rightarrow> document list \<Rightarrow> ('s, 'e bulk_result) action) \<Rightarrow> string \<Rightarrow> document list \<Rightarrow> put_context option
    \<Rightarrow> ('s, 'e bulk_result) action" where
  "default_multi_put_with_ctx multi_put_fn ks ds ctx = multi_put_fn ks ds"

section \<open>What an implementation promises\<close>

text \<open>What a store holds for a key: the document, or the marker of a deletion.\<close>

datatype stored = Doc document | Tombstone hlc_timestamp

fun stored_meta :: "stored \<Rightarrow> hlc_timestamp \<times> bool" where
  "stored_meta (Doc d) = (last_updated d, False)"
| "stored_meta (Tombstone t) = (t, True)"

fun stored_doc :: "stored option \<Rightarrow> document option" where
  "stored_doc (Some (Doc d)) = Some d"
| "stored_doc x = None"

text \<open>The ids a bulk operation went through for: all of them, or the ones its error names.\<close>

definition applied :: "'e bulk_result \<Rightarrow> key \<Rightarrow> bool" where
  "applied r i = (case r of Inr u \<Rightarrow> True | Inl e \<Rightarrow> i \<in> set (successful_doc_ids e))"

lemma applied_simps [simp]:
  "applied (Inr u) i" "applied (Inl e) i \<longleftrightarrow> i \<in> set (successful_doc_ids e)"
  by (simp_all add: applied_def)

definition put_docs :: "document list \<Rightarrow> (key \<rightharpoonup> stored) \<Rightarrow> key \<rightharpoonup> stored" where
  "put_docs ds m = m ++ map_of (rev (map (\<lambda>d. (doc_id d, Doc d)) ds))"

definition put_tombstones :: "document_metadata list \<Rightarrow> (key \<rightharpoonup> stored) \<Rightarrow> key \<rightharpoonup> stored" where
  "put_tombstones ds m = m ++ map_of (rev (map (\<lambda>d. (md_id d, Tombstone (md_last_updated d))) ds))"

text \<open>
  Keeping what is stored and which keyspaces exist, and the laws of the two put operations, each
  of which has a form with a context and one without.
\<close>

definition put_law ::
  "('s \<Rightarrow> bool) \<Rightarrow> ('s \<Rightarrow> string \<Rightarrow> bool) \<Rightarrow> ('s \<Rightarrow> string \<Rightarrow> key \<rightharpoonup> stored)
    \<Rightarrow> (string \<Rightarrow> document \<Rightarrow> ('s, 'e + unit) action) \<Rightarrow> bool" where
  "put_law invar known look put_fn \<longleftrightarrow> (\<forall>s ks d. invar s \<longrightarrow> (\<exists>r s'. put_fn ks d s = Some (r, s') \<and> invar s' \<and>
      look s' = (if is_ok r then (look s)(ks := put_docs [d] (look s ks)) else look s) \<and>
      (\<forall>ks'. known s ks' \<or> is_ok r \<and> ks' = ks \<longrightarrow> known s' ks')))"

definition multi_put_law ::
  "('s \<Rightarrow> bool) \<Rightarrow> ('s \<Rightarrow> string \<Rightarrow> bool) \<Rightarrow> ('s \<Rightarrow> string \<Rightarrow> key \<rightharpoonup> stored)
    \<Rightarrow> (string \<Rightarrow> document list \<Rightarrow> ('s, 'e bulk_result) action) \<Rightarrow> bool" where
  "multi_put_law invar known look put_fn \<longleftrightarrow> (\<forall>s ks ds. invar s \<longrightarrow> (\<exists>r s'. put_fn ks ds s = Some (r, s') \<and> invar s' \<and>
      look s' = (look s)(ks := put_docs (filter (\<lambda>d. applied r (doc_id d)) ds) (look s ks)) \<and>
      (\<forall>ks'. known s ks' \<or> is_ok r \<and> ks' = ks \<longrightarrow> known s' ks')))"

locale storage =
  fixes ops :: "('s, 'e) storage_ops"
    and invar :: "'s \<Rightarrow> bool"
    and known :: "'s \<Rightarrow> string \<Rightarrow> bool"
    and look :: "'s \<Rightarrow> string \<Rightarrow> key \<rightharpoonup> stored"
  assumes keyspaces: "invar s \<Longrightarrow> \<exists>r s'. st_get_keyspace_list ops s = Some (r, s') \<and> invar s' \<and> look s' = look s \<and>
      (\<forall>ks'. known s ks' \<longrightarrow> known s' ks') \<and>
      (\<forall>l. r = Inr l \<longrightarrow> (\<forall>ks k. look s ks k \<noteq> None \<longrightarrow> ks \<in> set l))"
    and iterate: "invar s \<Longrightarrow> \<exists>r s'. st_iter_metadata ops ks s = Some (r, s') \<and> invar s' \<and> look s' = look s \<and>
      (\<forall>ks'. known s ks' \<longrightarrow> known s' ks') \<and>
      (\<forall>l. r = Inr l \<longrightarrow> distinct (map fst l) \<and> map_of l = map_option stored_meta \<circ> look s ks)"
    and remove: "invar s \<Longrightarrow> \<forall>k \<in> set keys. \<exists>t. look s ks k = Some (Tombstone t) \<Longrightarrow>
      \<exists>r s'. st_remove_tombstones ops ks keys s = Some (r, s') \<and> invar s' \<and>
        look s' = (look s)(ks := look s ks |` (- {k \<in> set keys. applied r k})) \<and>
        (\<forall>ks'. known s ks' \<longrightarrow> known s' ks')"
    and put: "put_law invar known look (st_put ops)"
    and put_with_ctx: "put_law invar known look (\<lambda>ks d. st_put_with_ctx ops ks d ctx)"
    and multi_put: "multi_put_law invar known look (st_multi_put ops)"
    and multi_put_with_ctx: "multi_put_law invar known look (\<lambda>ks ds. st_multi_put_with_ctx ops ks ds ctx)"
    and tombstone: "invar s \<Longrightarrow> known s ks \<Longrightarrow> \<exists>r s'. st_mark_as_tombstone ops ks k ts s = Some (r, s') \<and> invar s' \<and>
      look s' = (if is_ok r then (look s)(ks := put_tombstones [metadata_new k ts] (look s ks)) else look s) \<and>
      (\<forall>ks'. known s ks' \<longrightarrow> known s' ks')"
    and multi_tombstone: "invar s \<Longrightarrow> known s ks \<Longrightarrow>
      \<exists>r s'. st_mark_many_as_tombstone ops ks ms s = Some (r, s') \<and> invar s' \<and>
        look s' = (look s)(ks := put_tombstones (filter (\<lambda>d. applied r (md_id d)) ms) (look s ks)) \<and>
        (\<forall>ks'. known s ks' \<longrightarrow> known s' ks')"
    and fetch: "invar s \<Longrightarrow> \<exists>r s'. st_get ops ks k s = Some (r, s') \<and> invar s' \<and> look s' = look s \<and>
      (\<forall>d. r = Inr d \<longrightarrow> d = stored_doc (look s ks k)) \<and> (\<forall>ks'. known s ks' \<longrightarrow> known s' ks')"
    and fetch_many: "invar s \<Longrightarrow> \<exists>r s'. st_multi_get ops ks keys s = Some (r, s') \<and> invar s' \<and> look s' = look s \<and>
      (\<forall>ds. r = Inr ds \<longrightarrow> mset ds = mset (List.map_filter (\<lambda>k. stored_doc (look s ks k)) keys)) \<and>
      (\<forall>ks'. known s ks' \<longrightarrow> known s' ks')"

section \<open>Bulk operations in a transaction\<close>

text \<open>\<open>map_err(BulkMutationError::empty_with_error)\<close>: an operation that goes through for all its ids or for none.\<close>

definition bulk :: "('s, 'x + 'a) action \<Rightarrow> ('s, 'x bulk_result) action" where
  "bulk act s = do { (r, s) \<leftarrow> act s; Some (map_sum empty_with_error (\<lambda>a. ()) r, s) }"

lemma bulk_result:
  assumes "act s = Some (r, s')"
  shows "bulk act s = Some (map_sum empty_with_error (\<lambda>a. ()) r, s')" "applied (map_sum empty_with_error (\<lambda>a. ()) r) k = is_ok r"
  using assms by (simp add: bulk_def, cases r) (simp_all add: empty_with_error_def bulk_error_new_def)

lemma bulk_law:
  assumes "\<exists>r s'. act s = Some (r, s') \<and> P s' \<and> f s' = (if is_ok r then g (\<lambda>k. True) else g (\<lambda>k. False))"
  shows "\<exists>r s'. bulk act s = Some (r, s') \<and> P s' \<and> f s' = g (applied r)"
proof -
  obtain r s' where r: "act s = Some (r, s')" "P s'" "f s' = (if is_ok r then g (\<lambda>k. True) else g (\<lambda>k. False))" using assms by blast
  let ?r = "map_sum empty_with_error (\<lambda>a. ()) r"
  have "applied ?r = (\<lambda>k. is_ok r)" using bulk_result(2) [of act, OF r(1)] by blast
  then have "f s' = g (applied ?r)" using r(3) by simp
  then show ?thesis using bulk_result(1) [of act, OF r(1)] r(2) by blast
qed

lemma puts_Cons: "put_docs ds (put_docs [d] m) = put_docs (d # ds) m" "put_tombstones ms (put_tombstones [e] m) = put_tombstones (e # ms) m"
  by (simp_all add: put_docs_def put_tombstones_def)

lemma puts_Nil [simp]: "put_docs [] m = m" "put_tombstones [] m = m"
  by (simp_all add: put_docs_def put_tombstones_def)

end
