(* ===== verification/OrswotMerge.thy ===== *)
theory OrswotMerge
  imports Orswot "HOL-Library.Multiset"
begin

text \<open>
  What the whole-set operations of \<^verbatim>\<open>datacake-crdt/src/orswot.rs\<close> do to the registers of the set:
  \<open>merge\<close>, \<open>diff\<close>, \<open>purge_old_deletes\<close>, \<open>add_raw_tombstones\<close> and \<open>will_apply\<close>. The definitions are
  those of the theory \<open>Orswot\<close>; here is their abstract specification and that they meet it.
\<close>


section \<open>Merging\<close>

text \<open>
  The merge of two sets, key by key. A tombstone of the other set counts unless this set has
  already observed past it; a live entry of this set that the other does not have live counts
  unless the other has observed past it. What counts is joined.
\<close>

definition seen_delete :: "node_versions \<Rightarrow> lww_register \<Rightarrow> lww_register" where
  "seen_delete v r = (case r of
      Dead t \<Rightarrow> if is_ts_before_last_observed_event v t then Absent else r
    | _ \<Rightarrow> r)"

definition seen_insert :: "node_versions \<Rightarrow> lww_register \<Rightarrow> lww_register \<Rightarrow> lww_register" where
  "seen_insert v other r = (case (r, other) of
      (Live t, Live t') \<Rightarrow> r
    | (Live t, _) \<Rightarrow> if is_ts_before_last_observed_event v t then Absent else r
    | _ \<Rightarrow> r)"

definition merge_reg :: "orswot_set \<Rightarrow> orswot_set \<Rightarrow> key \<Rightarrow> lww_register" where
  "merge_reg self other k =
     max (seen_insert (versions other) (reg_of other k) (reg_of self k))
         (seen_delete (versions self) (reg_of other k))"

text \<open>The three places a key is in while the log is replayed, and one log entry on them.\<close>

definition slot :: "key \<Rightarrow> orswot_set \<times> (key, hlc_timestamp) btree_map
    \<Rightarrow> hlc_timestamp option \<times> hlc_timestamp option \<times> hlc_timestamp option" where
  "slot k p = (map_of (entries (fst p)) k, map_of (dead (fst p)) k, map_of (snd p) k)"

lemma merge_log_entry_frame:
  "versions (fst (merge_log_entry (k, ts, del) p)) = versions (fst p)"
  "k' \<noteq> k \<Longrightarrow> slot k' (merge_log_entry (k, ts, del) p) = slot k' p"
proof -
  obtain self old where p: "p = (self, old)" by (cases p)
  show "versions (fst (merge_log_entry (k, ts, del) p)) = versions (fst p)"
    unfolding p by (simp add: mark_dead_def Let_def split: option.split prod.split)
  show "k' \<noteq> k \<Longrightarrow> slot k' (merge_log_entry (k, ts, del) p) = slot k' p"
    unfolding p by (simp add: slot_def mark_dead_def Let_def split: option.split prod.split)
qed

definition log_effect :: "node_versions \<Rightarrow> hlc_timestamp \<Rightarrow> bool \<Rightarrow> hlc_timestamp option \<Rightarrow> hlc_timestamp option
    \<Rightarrow> hlc_timestamp option \<times> hlc_timestamp option \<times> hlc_timestamp option" where
  "log_effect v ts del d e =
    (if del then
       if is_ts_before_last_observed_event v ts then (None, d, e)
       else (None, Some (case d of Some x \<Rightarrow> max x ts | None \<Rightarrow> ts), e)
     else let t = (case e of Some x \<Rightarrow> max ts x | None \<Rightarrow> ts)
          in if (case d of Some x \<Rightarrow> t < x | None \<Rightarrow> False) then (None, d, None) else (Some t, None, None))"

lemma merge_log_entry_slot:
  assumes "slot k p = (None, d, e)"
  shows "slot k (merge_log_entry (k, ts, del) p) = log_effect (versions (fst p)) ts del d e"
proof -
  obtain self old where p: "p = (self, old)" by (cases p)
  show ?thesis using assms
    unfolding p by (auto simp: slot_def log_effect_def mark_dead_def Let_def split: option.splits prod.splits)
qed

lemma merge_log_fold:
  shows "versions (fst (fold merge_log_entry log p)) = versions (fst p)"
    "k \<notin> fst ` set log \<Longrightarrow> slot k (fold merge_log_entry log p) = slot k p"
    "distinct (map fst log) \<Longrightarrow> (k, ts, del) \<in> set log \<Longrightarrow> slot k p = (None, d, e) \<Longrightarrow>
       slot k (fold merge_log_entry log p) = log_effect (versions (fst p)) ts del d e"
proof -
  show v: "versions (fst (fold merge_log_entry log p)) = versions (fst p)" for log p
    by (induction log arbitrary: p) (auto simp: merge_log_entry_frame simp del: merge_log_entry.simps)
  show fr: "k \<notin> fst ` set log \<Longrightarrow> slot k (fold merge_log_entry log p) = slot k p" for log p
    by (induction log arbitrary: p) (auto simp: merge_log_entry_frame simp del: merge_log_entry.simps)
  show "distinct (map fst log) \<Longrightarrow> (k, ts, del) \<in> set log \<Longrightarrow> slot k p = (None, d, e) \<Longrightarrow>
       slot k (fold merge_log_entry log p) = log_effect (versions (fst p)) ts del d e"
  proof (induction log arbitrary: p)
    case (Cons x log)
    obtain k' ts' del' where x: "x = (k', ts', del')" by (cases x)
    show ?case
    proof (cases "k' = k")
      case True
      then have "k \<notin> fst ` set log" "ts' = ts" "del' = del"
        using Cons.prems(1,2) x by force+
      then show ?thesis
        using True x fr merge_log_entry_slot [OF Cons.prems(3)] by (simp del: merge_log_entry.simps)
    next
      case False
      then show ?thesis
        using Cons x by (simp add: merge_log_entry_frame del: merge_log_entry.simps)
    qed
  qed simp
qed

definition kept :: "key \<Rightarrow> orswot_set \<Rightarrow> hlc_timestamp option \<times> hlc_timestamp option" where
  "kept k s = (map_of (entries s) k, map_of (dead s) k)"

lemma merge_remaining_entry:
  "versions (merge_remaining rv (k, t) s) = versions s"
  "k' \<noteq> k \<Longrightarrow> kept k' (merge_remaining rv (k, t) s) = kept k' s"
  "kept k (merge_remaining rv (k, t) s) =
     (if is_ts_before_last_observed_event rv t \<or> (case map_of (dead s) k of Some x \<Rightarrow> t < x | None \<Rightarrow> False)
      then kept k s else (Some t, None))"
  by (auto simp: kept_def Let_def split: option.split)

lemma merge_remaining_fold:
  shows "versions (fold (merge_remaining rv) old s) = versions s"
    "k \<notin> fst ` set old \<Longrightarrow> kept k (fold (merge_remaining rv) old s) = kept k s"
    "distinct (map fst old) \<Longrightarrow> (k, t) \<in> set old \<Longrightarrow> kept k (fold (merge_remaining rv) old s) =
     (if is_ts_before_last_observed_event rv t \<or> (case map_of (dead s) k of Some x \<Rightarrow> t < x | None \<Rightarrow> False)
      then kept k s else (Some t, None))"
proof -
  show "versions (fold (merge_remaining rv) old s) = versions s"
    by (induction old arbitrary: s) (auto simp: merge_remaining_entry simp del: merge_remaining.simps)
  show fr: "k \<notin> fst ` set old \<Longrightarrow> kept k (fold (merge_remaining rv) old s) = kept k s" for old s
    by (induction old arbitrary: s) (auto simp: merge_remaining_entry simp del: merge_remaining.simps)
  show "distinct (map fst old) \<Longrightarrow> (k, t) \<in> set old \<Longrightarrow> kept k (fold (merge_remaining rv) old s) =
     (if is_ts_before_last_observed_event rv t \<or> (case map_of (dead s) k of Some x \<Rightarrow> t < x | None \<Rightarrow> False)
      then kept k s else (Some t, None))"
  proof (induction old arbitrary: s)
    case (Cons x old)
    obtain k' t' where x: "x = (k', t')" by (cases x)
    show ?case
    proof (cases "k' = k")
      case True
      then have "k \<notin> fst ` set old" "t' = t"
        using Cons.prems(1,2) x by force+
      then show ?thesis using True x fr merge_remaining_entry(3) by (simp del: merge_remaining.simps)
    next
      case False
      then have "kept k (merge_remaining rv x s) = kept k s" "(k, t) \<in> set old" "distinct (map fst old)"
        using Cons.prems x merge_remaining_entry(2) [of k k'] by auto
      then show ?thesis using Cons.IH [of "merge_remaining rv x s"] by (simp add: kept_def)
    qed
  qed simp
qed


lemma merge_log_entry_wf:
  assumes "bt_wf (entries (fst p))" "hm_wf (dead (fst p))" "bt_wf (snd p)"
  shows "bt_wf (entries (fst (merge_log_entry x p)))" "hm_wf (dead (fst (merge_log_entry x p)))"
    "bt_wf (snd (merge_log_entry x p))"
proof -
  obtain k ts del self old where x: "x = (k, ts, del)" and p: "p = (self, old)" by (cases x, cases p)
  have "bt_wf (entries (fst (merge_log_entry x p))) \<and> hm_wf (dead (fst (merge_log_entry x p))) \<and>
    bt_wf (snd (merge_log_entry x p))"
    using assms unfolding x p
    by (simp add: mark_dead_def Let_def bt_wf_insert bt_wf_remove hm.invar_ins hm.invar_rem
        split: option.split prod.split)
  then show "bt_wf (entries (fst (merge_log_entry x p)))" "hm_wf (dead (fst (merge_log_entry x p)))"
    "bt_wf (snd (merge_log_entry x p))" by blast+
qed

lemma merge_log_fold_wf:
  assumes "bt_wf (entries (fst p))" "hm_wf (dead (fst p))" "bt_wf (snd p)"
  shows "bt_wf (entries (fst (fold merge_log_entry log p))) \<and> hm_wf (dead (fst (fold merge_log_entry log p))) \<and>
    bt_wf (snd (fold merge_log_entry log p))"
  using assms
  by (induction log arbitrary: p) (simp_all add: merge_log_entry_wf del: merge_log_entry.simps)

lemma merge_remaining_fold_wf:
  assumes "bt_wf (entries s)" "hm_wf (dead s)"
  shows "bt_wf (entries (fold (merge_remaining rv) old s)) \<and> hm_wf (dead (fold (merge_remaining rv) old s))"
  using assms
proof (induction old arbitrary: s)
  case (Cons x old)
  obtain k t where x: "x = (k, t)" by (cases x)
  have "bt_wf (entries (merge_remaining rv x s)) \<and> hm_wf (dead (merge_remaining rv x s))"
    using Cons.prems unfolding x
    by (simp add: Let_def bt_wf_insert hm.invar_ins hm.invar_rem split: option.split)
  then show ?case using Cons.IH by simp
qed simp

lemma merge_log_keys:
  assumes "orswot_wf n other"
  shows "distinct (map fst (merge_log other))"
    "(k, t, del) \<in> set (merge_log other) \<longleftrightarrow> reg_of other k = (if del then Dead t else Live t)"
proof -
  have e: "bt_wf (entries other)" and d: "hm_wf (dead other)"
    and dj: "dom (map_of (entries other)) \<inter> dom (map_of (dead other)) = {}"
    using assms by (auto simp: orswot_wf_def)
  let ?u = "map (\<lambda>(k, ts). (k, ts, False)) (entries other) @ map (\<lambda>(k, ts). (k, ts, True)) (dead other)"
  have m: "map fst ?u = map fst (entries other) @ map fst (dead other)"
    by (simp add: comp_def case_prod_beta)
  have "fst ` set (entries other) \<inter> fst ` set (dead other) = {}"
    using dj by (simp add: dom_map_of_conv_image_fst)
  then have "distinct (map fst ?u)"
    unfolding m using bt_wf_distinct [OF e] d by (simp add: hm_wf_def)
  moreover have "mset (map fst (merge_log other)) = mset (map fst ?u)"
    unfolding mset_map merge_log_def by simp
  ultimately show "distinct (map fst (merge_log other))"
    using mset_eq_imp_distinct_iff by blast
  have "(k, t, del) \<in> set (merge_log other) \<longleftrightarrow>
      (if del then (k, t) \<in> set (dead other) else (k, t) \<in> set (entries other))"
    by (auto simp: merge_log_def)
  then show "(k, t, del) \<in> set (merge_log other) \<longleftrightarrow> reg_of other k = (if del then Dead t else Live t)"
    using bt_iter [OF e] hm_iter [OF d] reg_of_cases [OF assms] by simp
qed

text \<open>Both loops of the merge.\<close>

definition replayed :: "orswot_set \<Rightarrow> orswot_set \<Rightarrow> orswot_set" where
  "replayed self other =
     (case fold merge_log_entry (merge_log other) (self\<lparr>entries := []\<rparr>, entries self) of
        (self1, old) \<Rightarrow> fold (merge_remaining (versions other)) old self1)"

text \<open>A key after the first loop, by what the other set has for it, and after the second.\<close>

lemma replay_slot:
  assumes other: "orswot_wf n other" and p: "fold merge_log_entry (merge_log other) (self\<lparr>entries := []\<rparr>, entries self) = (s1, old)"
  shows "slot k (s1, old) = (case reg_of other k of
      Absent \<Rightarrow> (None, map_of (dead self) k, map_of (entries self) k)
    | Live t \<Rightarrow> log_effect (versions self) t False (map_of (dead self) k) (map_of (entries self) k)
    | Dead t \<Rightarrow> log_effect (versions self) t True (map_of (dead self) k) (map_of (entries self) k))"
proof -
  let ?p0 = "(self\<lparr>entries := []\<rparr>, entries self)"
  have s0: "slot k ?p0 = (None, map_of (dead self) k, map_of (entries self) k)" by (simp add: slot_def)
  note keys = merge_log_keys [OF other]
  show ?thesis
  proof (cases "reg_of other k")
    case Absent
    then have "(k, t, del) \<notin> set (merge_log other)" for t del by (simp add: keys(2))
    then have "k \<notin> fst ` set (merge_log other)" by force
    then show ?thesis using merge_log_fold(2) [of k "merge_log other" ?p0] s0 Absent by (simp add: p)
  next
    case (Dead t)
    then have "(k, t, True) \<in> set (merge_log other)" by (simp add: keys(2))
    then show ?thesis using merge_log_fold(3) [OF keys(1) _ s0] Dead by (simp add: p)
  next
    case (Live t)
    then have "(k, t, False) \<in> set (merge_log other)" by (simp add: keys(2))
    then show ?thesis using merge_log_fold(3) [OF keys(1) _ s0] Live by (simp add: p)
  qed
qed

lemma replay_remaining:
  assumes p: "fold merge_log_entry (merge_log other) (self\<lparr>entries := []\<rparr>, entries self) = (s1, old)" and wf: "bt_wf old"
  shows "kept k (replayed self other) = (case map_of old k of None \<Rightarrow> kept k s1
    | Some t \<Rightarrow> if is_ts_before_last_observed_event (versions other) t \<or>
          (case map_of (dead s1) k of Some x \<Rightarrow> t < x | None \<Rightarrow> False)
        then kept k s1 else (Some t, None))"
proof (cases "map_of old k")
  case None
  then have "k \<notin> fst ` set old" by (simp add: map_of_eq_None_iff)
  then show ?thesis using None by (simp add: replayed_def p merge_remaining_fold(2))
next
  case (Some t)
  then have "(k, t) \<in> set old" by (rule map_of_SomeD)
  then show ?thesis
    using Some merge_remaining_fold(3) [OF bt_wf_distinct [OF wf]] by (simp add: replayed_def p)
qed

lemma kept_replayed:
  assumes self: "orswot_wf n self" and other: "orswot_wf n other"
  shows "kept k (replayed self other) = (case merge_reg self other k of
      Live t \<Rightarrow> (Some t, None) | Dead t \<Rightarrow> (None, Some t) | Absent \<Rightarrow> (None, None))"
    "versions (replayed self other) = versions self"
    "bt_wf (entries (replayed self other))" "hm_wf (dead (replayed self other))"
proof -
  let ?p0 = "(self\<lparr>entries := []\<rparr>, entries self)"
  obtain s1 old where p: "fold merge_log_entry (merge_log other) ?p0 = (s1, old)" by fastforce
  have wf1: "bt_wf (entries s1)" "hm_wf (dead s1)" "bt_wf old"
    using merge_log_fold_wf [of ?p0 "merge_log other"] self unfolding p by (auto simp: orswot_wf_def)
  have v1: "versions s1 = versions self"
    using merge_log_fold(1) [of "merge_log other" ?p0] unfolding p by simp
  show "versions (replayed self other) = versions self"
    by (simp add: replayed_def p v1 merge_remaining_fold)
  show "bt_wf (entries (replayed self other))" "hm_wf (dead (replayed self other))"
    using merge_remaining_fold_wf [OF wf1(1,2)] by (simp_all add: replayed_def p)
  define d e where "d = map_of (dead self) k" and "e = map_of (entries self) k"
  have de: "d = None \<or> e = None" "reg_of self k = reg_val e d"
    using self by (auto simp: orswot_wf_def d_def e_def reg_of_def)
  show "kept k (replayed self other) = (case merge_reg self other k of
      Live t \<Rightarrow> (Some t, None) | Dead t \<Rightarrow> (None, Some t) | Absent \<Rightarrow> (None, None))"
    using replay_slot [OF other p, of k, folded d_def e_def] de unfolding replay_remaining [OF p wf1(3)]
    by (cases "reg_of other k"; cases d; cases e)
      (auto simp: slot_def kept_def merge_reg_def seen_insert_def seen_delete_def log_effect_def Let_def max_def
        split: if_splits)
qed


text \<open>The versions after a merge.\<close>

definition join_stamp :: "hlc_timestamp option \<Rightarrow> hlc_timestamp option \<Rightarrow> hlc_timestamp option" where
  "join_stamp a b = (case (a, b) of
      (Some x, Some y) \<Rightarrow> Some (max x y) | (Some x, None) \<Rightarrow> Some x | (None, b) \<Rightarrow> b)"

lemma merge_stamps_Cons:
  "merge_stamps m ((nd, ts) # other) = merge_stamps
     (case map_of m nd of Some entry \<Rightarrow> if ts < entry then m else bt_insert nd ts m | None \<Rightarrow> bt_insert nd ts m) other"
  by (simp add: merge_stamps_def)

lemma merge_stamps_Nil [simp]: "merge_stamps m [] = m"
  by (simp add: merge_stamps_def)

lemma merge_stamps_lookup:
  "distinct (map fst other) \<Longrightarrow> map_of (merge_stamps m other) nd = join_stamp (map_of m nd) (map_of other nd)"
proof (induction other arbitrary: m)
  case (Cons x other)
  obtain nd' ts where x: "x = (nd', ts)" by (cases x)
  then have "map_of other nd' = None" using Cons.prems by (simp add: map_of_eq_None_iff)
  then show ?case
    using Cons unfolding x merge_stamps_Cons
    by (auto simp: join_stamp_def max_def split: option.splits)
qed (simp add: join_stamp_def split: option.split)

lemma merge_stamps_wf: "bt_wf m \<Longrightarrow> bt_wf (merge_stamps m other)"
proof (induction other arbitrary: m)
  case (Cons x other)
  obtain nd' ts where x: "x = (nd', ts)" by (cases x)
  show ?case
    using Cons unfolding x merge_stamps_Cons by (auto simp: bt_wf_insert split: option.splits)
qed simp

lemma stamp_at_merge_le:
  assumes "distinct (map fst other)" "\<And>t. map_of other nd = Some t \<Longrightarrow> node t = nd"
  shows "stamp_at nd m \<le> stamp_at nd (merge_stamps m other)"
  using assms zero_stamp_le [of _ nd]
  by (auto simp: stamp_at_def merge_stamps_lookup join_stamp_def split: option.splits)

lemma fold_refresh:
  "nodes_max_stamps (fold refresh nds v) = nodes_max_stamps v"
  "versions_wf n v \<Longrightarrow> versions_wf n (fold refresh nds v)"
  by (induction nds arbitrary: v) (simp_all add: versions_wf_refresh)

lemma versions_merge_wf:
  assumes v: "versions_wf n v" and other: "versions_wf n other"
  shows "\<exists>v'. versions_merge v other = Some v' \<and> versions_wf n v' \<and>
    (\<forall>src nd. src < n \<longrightarrow> map_of (nodes_max_stamps v' ! src) nd =
       join_stamp (map_of (nodes_max_stamps v ! src) nd) (map_of (nodes_max_stamps other ! src) nd))"
proof -
  let ?ms = "map2 merge_stamps (nodes_max_stamps v) (nodes_max_stamps other)"
  let ?v = "v\<lparr>nodes_max_stamps := ?ms\<rparr>"
  have len: "length (nodes_max_stamps v) = n" "length (nodes_max_stamps other) = n"
    using assms by (simp_all add: versions_wf_def)
  have d: "distinct (map fst m)" "map_of m nd = Some t \<Longrightarrow> node t = nd"
    if "m \<in> set (nodes_max_stamps other)" for m nd t
    using other that by (simp_all add: versions_wf_def bt_wf_distinct)
  have look: "map_of (?ms ! src) nd =
      join_stamp (map_of (nodes_max_stamps v ! src) nd) (map_of (nodes_max_stamps other ! src) nd)"
    if "src < n" for src nd
    using that d(1) len by (simp add: merge_stamps_lookup)
  have mem: "\<exists>a \<in> set (nodes_max_stamps v). \<exists>b \<in> set (nodes_max_stamps other). m = merge_stamps a b"
    if "m \<in> set ?ms" for m
    using that by (auto dest: set_zip_leftD set_zip_rightD)
  have "bt_wf m \<and> (\<forall>nd t. map_of m nd = Some t \<longrightarrow> node t = nd)" if m: "m \<in> set ?ms" for m
  proof -
    obtain a b where ab: "a \<in> set (nodes_max_stamps v)" "b \<in> set (nodes_max_stamps other)" "m = merge_stamps a b"
      using mem [OF m] by blast
    then have "bt_wf a" "map_of a nd = Some t \<Longrightarrow> node t = nd" for nd t
      using v by (auto simp: versions_wf_def)
    then show ?thesis
      using ab d [OF ab(2)]
      by (auto simp: merge_stamps_wf merge_stamps_lookup join_stamp_def max_def split: option.splits if_splits)
  qed
  moreover have "s \<le> stamp_at nd m"
    if s: "map_of (safe_last_stamps v) nd = Some s" and m: "m \<in> set ?ms" for nd s m
  proof -
    obtain a b where ab: "a \<in> set (nodes_max_stamps v)" "b \<in> set (nodes_max_stamps other)" "m = merge_stamps a b"
      using mem [OF m] by blast
    then have "s \<le> stamp_at nd a" using v s by (auto simp: versions_wf_def)
    also have "\<dots> \<le> stamp_at nd m" unfolding ab(3) using d [OF ab(2)] by (intro stamp_at_merge_le)
    finally show ?thesis .
  qed
  ultimately have "versions_wf n ?v" using v len by (auto simp: versions_wf_def)
  then show ?thesis
    using look by (simp add: versions_merge_def exec_fold_Some [OF compute_safe_last_stamp_eq] fold_refresh)
qed

lemma orswot_merge_reg:
  assumes self: "orswot_wf n self" and other: "orswot_wf n other"
  shows "\<exists>s'. orswot_merge self other = Some s' \<and> orswot_wf n s' \<and> reg_of s' = merge_reg self other \<and>
    (\<forall>src nd. src < n \<longrightarrow> map_of (nodes_max_stamps (versions s') ! src) nd =
       join_stamp (map_of (nodes_max_stamps (versions self) ! src) nd)
         (map_of (nodes_max_stamps (versions other) ! src) nd))"
proof -
  note rep = kept_replayed [OF self other]
  obtain v where v: "versions_merge (versions self) (versions other) = Some v" "versions_wf n v"
    "\<forall>src nd. src < n \<longrightarrow> map_of (nodes_max_stamps v ! src) nd =
       join_stamp (map_of (nodes_max_stamps (versions self) ! src) nd)
         (map_of (nodes_max_stamps (versions other) ! src) nd)"
    using versions_merge_wf [of n "versions self" "versions other"] self other
    unfolding orswot_wf_def by blast
  let ?s = "(replayed self other)\<lparr>versions := v\<rparr>"
  have "orswot_merge self other = Some ?s"
    using v(1) rep(2) by (auto simp: orswot_merge_def replayed_def Let_def split: prod.splits)
  moreover have "k \<notin> dom (map_of (entries (replayed self other))) \<inter> dom (map_of (dead (replayed self other)))" for k
    using rep(1) [of k] by (auto simp: kept_def split: lww_register.splits)
  then have "dom (map_of (entries (replayed self other))) \<inter> dom (map_of (dead (replayed self other))) = {}"
    by blast
  then have "orswot_wf n ?s" using rep(3,4) v(2) by (simp add: orswot_wf_def)
  moreover have "reg_of ?s k = merge_reg self other k" for k
    using rep(1) [of k] by (cases "merge_reg self other k") (auto simp: reg_of_def kept_def)
  ultimately show ?thesis using v(3) by auto
qed


text \<open>
  The merge is the join of the two sets at a key unless one side has observed past the
  timestamp the other still holds: this side past a tombstone, the other past a live entry.
\<close>

definition unobserved :: "orswot_set \<Rightarrow> orswot_set \<Rightarrow> key \<Rightarrow> bool" where
  "unobserved self other k \<longleftrightarrow>
     (case reg_of self k of
        Live t \<Rightarrow> is_ts_before_last_observed_event (versions other) t \<longrightarrow> Live t \<le> reg_of other k
      | _ \<Rightarrow> True) \<and>
     (case reg_of other k of
        Dead t \<Rightarrow> is_ts_before_last_observed_event (versions self) t \<longrightarrow> Dead t \<le> reg_of self k
      | _ \<Rightarrow> True)"

lemma merge_reg_join:
  assumes "unobserved self other k"
  shows "merge_reg self other k = max (reg_of self k) (reg_of other k)"
  using assms
  by (cases "reg_of self k"; cases "reg_of other k")
    (auto simp: unobserved_def merge_reg_def seen_insert_def seen_delete_def max_def split: if_splits)

lemma merge_reg_self: "merge_reg s s k = reg_of s k"
  by (cases "reg_of s k") (auto simp: merge_reg_def seen_insert_def seen_delete_def)

lemma merge_reg_live: "reg_of other k = Live t \<Longrightarrow> Live t \<le> merge_reg self other k"
  by (cases "reg_of self k") (auto simp: merge_reg_def seen_insert_def seen_delete_def max_def)

section \<open>Differences\<close>

definition wanted :: "orswot_set \<Rightarrow> key \<times> hlc_timestamp \<Rightarrow> bool" where
  "wanted self e = (case reg_of self (fst e) of
      Live t \<Rightarrow> t < snd e | Dead t \<Rightarrow> t < snd e
    | Absent \<Rightarrow> \<not> is_ts_before_last_observed_event (versions self) (snd e))"

lemma check_self_then_insert_to_eq:
  "check_self_then_insert_to self k ts values = (if wanted self (k, ts) then values @ [(k, ts)] else values)"
  by (auto simp: check_self_then_insert_to_def wanted_def reg_of_def split: option.splits)

lemma fold_check:
  "fold (\<lambda>(k, ts). check_self_then_insert_to self k ts) es acc = acc @ filter (wanted self) es"
  by (induction es arbitrary: acc) (auto simp: check_self_then_insert_to_eq)

lemma orswot_diff_eq:
  "orswot_diff self other = (filter (wanted self) (entries other), filter (wanted self) (dead other))"
  by (simp add: orswot_diff_def fold_check)

lemma orswot_diff_mem:
  assumes "orswot_wf n other"
  shows "(k, t) \<in> set (fst (orswot_diff self other)) \<longleftrightarrow> reg_of other k = Live t \<and> wanted self (k, t)"
    "(k, t) \<in> set (snd (orswot_diff self other)) \<longleftrightarrow> reg_of other k = Dead t \<and> wanted self (k, t)"
proof -
  have "bt_wf (entries other)" "hm_wf (dead other)" using assms by (auto simp: orswot_wf_def)
  note it = bt_iter [OF this(1)] hm_iter [OF this(2)]
  show "(k, t) \<in> set (fst (orswot_diff self other)) \<longleftrightarrow> reg_of other k = Live t \<and> wanted self (k, t)"
    "(k, t) \<in> set (snd (orswot_diff self other)) \<longleftrightarrow> reg_of other k = Dead t \<and> wanted self (k, t)"
    using it by (auto simp: orswot_diff_eq reg_of_cases [OF assms])
qed

lemma wanted_less: "wanted self (k, t) \<Longrightarrow> reg_of self k < Live t"
  by (cases "reg_of self k") (auto simp: wanted_def)

lemma wanted_less_dead: "wanted self (k, t) \<Longrightarrow> reg_of self k < Dead t"
  by (cases "reg_of self k") (auto simp: wanted_def)

lemma diff_empty_if_dominates:
  assumes "orswot_wf n other" "\<And>k. reg_of other k \<le> reg_of self k"
  shows "orswot_diff self other = ([], [])"
proof -
  have "e \<notin> set (fst (orswot_diff self other))" "e \<notin> set (snd (orswot_diff self other))" for e
    using assms(2) [of "fst e"] wanted_less [of self "fst e" "snd e"] wanted_less_dead [of self "fst e" "snd e"]
      orswot_diff_mem [OF assms(1), of "fst e" "snd e" self] by (auto simp del: reg_order)
  then show ?thesis by (metis prod.collapse set_empty2 subsetI subset_empty)
qed

section \<open>Purging tombstones\<close>

definition purgeable :: "orswot_set \<Rightarrow> key \<times> hlc_timestamp \<Rightarrow> bool" where
  "purgeable s e = is_ts_before_last_observed_event (versions s) (snd e)"

lemma hm_insert_new: "k \<notin> fst ` set m \<Longrightarrow> hm_insert k v m = m @ [(k, v)]"
  by (induction m) auto

lemma purge_fold:
  assumes "distinct (map fst (dead s @ es))"
  shows "fold (\<lambda>(k, stamp) (deleted_keys, s).
             if \<not> is_ts_before_last_observed_event (versions s) stamp
             then (deleted_keys, s\<lparr>dead := hm_insert k stamp (dead s)\<rparr>)
             else (deleted_keys @ [(k, stamp)], s)) es (ks, s) =
    (ks @ filter (purgeable s) es, s\<lparr>dead := dead s @ filter (\<lambda>e. \<not> purgeable s e) es\<rparr>)"
  using assms
proof (induction es arbitrary: s ks)
  case (Cons x es)
  obtain k t where x: "x = (k, t)" by (cases x)
  have new: "k \<notin> fst ` set (dead s)" using Cons.prems x by auto
  have p: "purgeable (s\<lparr>dead := d\<rparr>) = purgeable s" for d by (simp add: purgeable_def fun_eq_iff)
  show ?case
  proof (cases "purgeable s x")
    case True
    then show ?thesis using Cons by (auto simp: x purgeable_def [of s "(k, t)"])
  next
    case False
    let ?s = "s\<lparr>dead := dead s @ [(k, t)]\<rparr>"
    have "distinct (map fst (dead ?s @ es))" using Cons.prems by (auto simp: x)
    from Cons.IH [OF this] show ?thesis
      using False new by (simp add: x purgeable_def [of s "(k, t)"] hm_insert_new p)
  qed
qed simp

lemma purge_old_deletes_eq:
  assumes "hm_wf (dead s)"
  shows "purge_old_deletes s =
    (filter (purgeable s) (dead s), s\<lparr>dead := filter (\<lambda>e. \<not> purgeable s e) (dead s)\<rparr>)"
proof -
  have "purgeable (s\<lparr>dead := d\<rparr>) = purgeable s" for d by (simp add: purgeable_def fun_eq_iff)
  then show ?thesis
    using assms purge_fold [of "s\<lparr>dead := []\<rparr>" "dead s" "[]"]
    by (simp add: purge_old_deletes_def hm_wf_def)
qed

lemma purge_old_deletes_reg:
  assumes wf: "orswot_wf n s"
  defines "s' \<equiv> snd (purge_old_deletes s)"
  shows "orswot_wf n s'" "versions s' = versions s" "entries s' = entries s"
    "reg_of s' k = (case reg_of s k of
        Dead t \<Rightarrow> if is_ts_before_last_observed_event (versions s) t then Absent else Dead t | r \<Rightarrow> r)"
    "(k, t) \<in> set (fst (purge_old_deletes s)) \<longleftrightarrow>
       reg_of s k = Dead t \<and> is_ts_before_last_observed_event (versions s) t"
proof -
  have d: "hm_wf (dead s)" "distinct (map fst (dead s))" using wf by (auto simp: orswot_wf_def hm_wf_def)
  have s': "s' = s\<lparr>dead := filter (\<lambda>e. \<not> purgeable s e) (dead s)\<rparr>"
    by (simp add: s'_def purge_old_deletes_eq [OF d(1)])
  note look = map_of_filter_distinct [OF d(2), of "\<lambda>e. \<not> purgeable s e"]
  have "dom (map_of (dead s')) \<subseteq> dom (map_of (dead s))"
    by (auto simp: s' look split: option.splits)
  then show "orswot_wf n s'"
    using wf by (auto simp: s' orswot_wf_def hm_wf_def distinct_map_filter)
  show "versions s' = versions s" "entries s' = entries s" by (simp_all add: s')
  show "reg_of s' k = (case reg_of s k of
        Dead t \<Rightarrow> if is_ts_before_last_observed_event (versions s) t then Absent else Dead t | r \<Rightarrow> r)"
    by (cases "map_of (entries s) k"; cases "map_of (dead s) k") (auto simp: reg_of_def s' map_of_filter_distinct [OF d(2)] purgeable_def)
  show "(k, t) \<in> set (fst (purge_old_deletes s)) \<longleftrightarrow>
       reg_of s k = Dead t \<and> is_ts_before_last_observed_event (versions s) t"
    using hm_iter [OF d(1), of k t] by (auto simp: purge_old_deletes_eq [OF d(1)] purgeable_def reg_of_cases [OF wf])
qed

lemma add_raw_tombstones_simps:
  "entries (add_raw_tombstones ts s) = entries s" "versions (add_raw_tombstones ts s) = versions s"
  "map_of (dead (add_raw_tombstones ts s)) = map_of (dead s) ++ map_of (rev ts)"
proof -
  show "entries (add_raw_tombstones ts s) = entries s" "versions (add_raw_tombstones ts s) = versions s"
    by (induction ts arbitrary: s) (auto simp: add_raw_tombstones_def)
  have "dead (add_raw_tombstones ts s) = fold (\<lambda>(k, v). hm_insert k v) ts (dead s)"
    by (induction ts arbitrary: s) (auto simp: add_raw_tombstones_def)
  then show "map_of (dead (add_raw_tombstones ts s)) = map_of (dead s) ++ map_of (rev ts)"
    by (simp add: hm.look_extend)
qed

lemma purge_then_restore:
  assumes wf: "orswot_wf n s" and p: "purge_old_deletes s = (ks, s')"
  shows "reg_of (add_raw_tombstones ks s') = reg_of s"
proof (rule reg_of_cong)
  have d: "hm_wf (dead s)" "distinct (map fst (dead s))" using wf by (auto simp: orswot_wf_def hm_wf_def)
  have s': "ks = filter (purgeable s) (dead s)" "s' = s\<lparr>dead := filter (\<lambda>e. \<not> purgeable s e) (dead s)\<rparr>"
    using p by (simp_all add: purge_old_deletes_eq [OF d(1)])
  have "distinct (map fst ks)" using d(2) by (simp add: s' distinct_map_filter)
  then have "map_of (rev ks) = map_of ks" by (metis distinct_rev map_of_inject_set rev_map set_rev)
  then show "map_of (dead (add_raw_tombstones ks s')) = map_of (dead s)"
    using map_of_filter_distinct [OF d(2)]
    by (auto simp: add_raw_tombstones_simps map_add_def s' fun_eq_iff split: option.splits)
  show "map_of (entries (add_raw_tombstones ks s')) = map_of (entries s)"
    by (simp add: add_raw_tombstones_simps s')
qed

text \<open>An operation older than a safe stamp is out of order for every source.\<close>

lemma observed_not_in_order:
  assumes "orswot_wf n s" "is_ts_before_last_observed_event (versions s) t" "ts \<le> t" "node ts = node t"
  shows "\<not> in_order src ts s"
proof (cases "src < n")
  case True
  obtain safe where s: "map_of (safe_last_stamps (versions s)) (node t) = Some safe" "t < safe"
    using assms(2) by (auto simp: is_ts_before_last_observed_event_def split: option.splits)
  let ?m = "nodes_max_stamps (versions s) ! src"
  have "?m \<in> set (nodes_max_stamps (versions s))" "node safe = node t"
    using assms(1) True s(1) by (auto simp: orswot_wf_def versions_wf_def)
  then have "safe \<le> stamp_at (node t) ?m"
    using assms(1) s(1) by (auto simp: orswot_wf_def versions_wf_def)
  then have "ts < stamp_at (node t) ?m" using s(2) assms(3) by order
  then show ?thesis
    using zero_stamp_le [OF assms(4)] assms(4) by (auto simp: in_order_def stamp_at_def split: option.splits)
next
  case False
  then show ?thesis using assms(1) by (simp add: in_order_def orswot_wf_def versions_wf_def)
qed

lemma in_order_not_observed:
  "orswot_wf n s \<Longrightarrow> in_order src ts s \<Longrightarrow> \<not> is_ts_before_last_observed_event (versions s) ts"
  using observed_not_in_order [of n s ts ts src] by auto

lemma will_apply_reg:
  assumes "orswot_wf n s"
  shows "will_apply s k ts \<longleftrightarrow> \<not> is_ts_before_last_observed_event (versions s) ts \<and> reg_of s k < Dead ts"
  using reg_of_disjoint [OF assms]
  by (auto simp: will_apply_def reg_of_def split: option.splits)

lemma will_apply_in_order:
  assumes "orswot_wf n s" "in_order src ts s"
  shows "will_apply s k ts \<longleftrightarrow> reg_of s k < Dead ts"
  using will_apply_reg [OF assms(1)] in_order_not_observed [OF assms] by simp

lemma will_apply_effect:
  assumes wf: "orswot_wf n s" and ord: "in_order src ts s" and ap: "will_apply s k ts"
  shows "\<exists>s'. insert_with_source src k ts s = Some (True, s') \<and> reg_of s' = (reg_of s)(k := Live ts)"
    "\<exists>s'. delete_with_source src k ts s = Some (True, s') \<and> reg_of s' = (reg_of s)(k := Dead ts)"
proof -
  have src: "src < n" using wf ord by (simp add: in_order_def orswot_wf_def versions_wf_def)
  have lt: "reg_of s k < Dead ts" using ap will_apply_in_order [OF wf ord] by simp
  then have m: "max (reg_of s k) (Live ts) = Live ts" "max (reg_of s k) (Dead ts) = Dead ts"
    "reg_of s k \<noteq> Live ts" "reg_of s k \<noteq> Dead ts"
    by (cases "reg_of s k"; auto simp: max_def)+
  then have "(reg_of s)(k := Live ts) \<noteq> reg_of s" "(reg_of s)(k := Dead ts) \<noteq> reg_of s"
    by (metis fun_upd_same)+
  then show "\<exists>s'. insert_with_source src k ts s = Some (True, s') \<and> reg_of s' = (reg_of s)(k := Live ts)"
    "\<exists>s'. delete_with_source src k ts s = Some (True, s') \<and> reg_of s' = (reg_of s)(k := Dead ts)"
    using insert_with_source_reg [OF wf src, of k ts] delete_with_source_reg [OF wf src, of k ts] ord m
    by (auto simp del: reg_order)
qed

lemma add_raw_tombstones_reg:
  assumes wf: "orswot_wf n s" and dist: "distinct (map fst ts)"
    and ab: "\<forall>e \<in> set ts. reg_of s (fst e) = Absent"
  shows "orswot_wf n (add_raw_tombstones ts s)"
    "reg_of (add_raw_tombstones ts s) k = (case map_of ts k of Some t \<Rightarrow> Dead t | None \<Rightarrow> reg_of s k)"
proof -
  have rv: "map_of (rev ts) = map_of ts" using dist by (metis distinct_rev map_of_inject_set rev_map set_rev)
  have "dead (add_raw_tombstones ts s) = fold (\<lambda>(k, v). hm_insert k v) ts (dead s)"
    by (induction ts arbitrary: s) (auto simp: add_raw_tombstones_def)
  then have hm: "hm_wf (dead (add_raw_tombstones ts s))"
    using wf by (simp add: hm.invar_extend orswot_wf_def)
  have e: "map_of (entries s) k = None" if "map_of ts k = Some t" for k t
    using that ab map_of_SomeD reg_of_cases(3) [OF wf] by fastforce
  show "orswot_wf n (add_raw_tombstones ts s)"
    using wf hm e by (auto simp: orswot_wf_def add_raw_tombstones_simps rv)
  show "reg_of (add_raw_tombstones ts s) k = (case map_of ts k of Some t \<Rightarrow> Dead t | None \<Rightarrow> reg_of s k)"
    using e by (auto simp: reg_of_def add_raw_tombstones_simps rv map_add_def split: option.splits)
qed

section \<open>Batches in timestamp order\<close>

fun op_key :: "set_op \<Rightarrow> key" where
  "op_key (InsertOp src k ts) = k" | "op_key (DeleteOp src k ts) = k"

fun op_source :: "set_op \<Rightarrow> nat" where
  "op_source (InsertOp src k ts) = src" | "op_source (DeleteOp src k ts) = src"

fun op_ts :: "set_op \<Rightarrow> hlc_timestamp" where
  "op_ts (InsertOp src k ts) = ts" | "op_ts (DeleteOp src k ts) = ts"

lemma op_fields: "op_in_order x s = in_order (op_source x) (op_ts x) s" "fst (op_effect x) = op_key x"
  by (cases x; simp)+

lemma apply_op_total:
  assumes "orswot_wf n s" "op_source x < n"
  shows "\<exists>s'. apply_op x s = Some s' \<and>
    try_update_max_stamp (op_source x) (op_ts x) (versions s) = Some (op_in_order x s, versions s')"
  using assms insert_with_source_reg [of n s "op_source x" "op_key x" "op_ts x"]
    delete_with_source_reg [of n s "op_source x" "op_key x" "op_ts x"]
  by (cases x) (auto simp del: fun_upd_apply)

lemma nodes_max_stamps_after:
  assumes wf: "orswot_wf n s" and x: "apply_op x s = Some s'" "op_in_order x s"
  shows "nodes_max_stamps (versions s') = (nodes_max_stamps (versions s))[op_source x :=
    bt_insert (node (op_ts x)) (op_ts x) (nodes_max_stamps (versions s) ! op_source x)]"
proof -
  have len: "op_source x < n" "length (nodes_max_stamps (versions s)) = n"
    using wf x(2) by (auto simp: orswot_wf_def versions_wf_def in_order_def op_fields)
  have "try_update_max_stamp (op_source x) (op_ts x) (versions s) = Some (True, versions s')"
    using apply_op_total [OF wf len(1)] x by auto
  then have "versions s' = refresh (node (op_ts x)) (set_max_stamp (op_source x) (op_ts x) (versions s))"
    using len by (auto simp: try_update_max_stamp_eq split: if_splits)
  then show ?thesis by (simp add: set_max_stamp_def)
qed

lemma in_order_after:
  assumes wf: "orswot_wf n s" and x: "op_source x = src" "op_in_order x s" "apply_op x s = Some s'"
    and later: "in_order src t s" "op_ts x \<le> t"
  shows "in_order src t s'"
  using nodes_max_stamps_after [OF wf x(3,2)] later x(1) by (auto simp: in_order_def)

lemma in_order_default: "src < n \<Longrightarrow> in_order src t (default_set n)"
  by (simp add: in_order_def default_set_def default_versions_def)

lemma reg_of_default [simp]: "reg_of (default_set n) k = Absent"
  by (simp add: reg_of_def default_set_def)

lemma accepted_batch:
  assumes "orswot_wf n s" "src < n" "sorted (map op_ts xs)"
    and "\<forall>x \<in> set xs. op_source x = src \<and> op_in_order x s"
  shows "accepted_run apply_op op_in_order xs s"
  using assms
proof (induction xs arbitrary: s)
  case (Cons x xs)
  then obtain s' where s': "apply_op x s = Some s'" using apply_op_total [of n s x] by auto
  have "op_in_order y s'" if "y \<in> set xs" for y
    using in_order_after [OF Cons.prems(1) _ _ s', of src "op_ts y"] that Cons.prems by (auto simp: op_fields)
  then have "accepted_run apply_op op_in_order xs s'"
    using Cons.IH [of s'] Cons.prems apply_op_wf(1) [OF Cons.prems(1) s'] by simp
  then show ?case using Cons.prems s' by simp
qed simp

lemma join_effects_distinct:
  assumes "distinct (map op_key xs)"
  shows "x \<in> set xs \<Longrightarrow> join_effects op_effect xs r (op_key x) = max (r (op_key x)) (snd (op_effect x))"
    "k \<notin> op_key ` set xs \<Longrightarrow> join_effects op_effect xs r k = r k"
proof -
  have none: "filter (\<lambda>y. fst (op_effect y) = k) xs = []" if "k \<notin> op_key ` set xs" for k and xs :: "set_op list"
    using that by (auto simp: op_fields filter_empty_conv)
  show "k \<notin> op_key ` set xs \<Longrightarrow> join_effects op_effect xs r k = r k"
    by (simp add: join_effects_def none)
  have "filter (\<lambda>y. fst (op_effect y) = op_key x) xs = [x]" if "x \<in> set xs" for x
    using assms that
  proof (induction xs)
    case (Cons y xs)
    show ?case
    proof (cases "y = x")
      case True
      then have "op_key x \<notin> op_key ` set xs" using Cons.prems by auto
      then show ?thesis using True none by (simp add: op_fields)
    next
      case False
      then have "x \<in> set xs" "op_key y \<noteq> op_key x" using Cons.prems by auto
      then show ?thesis using Cons by (simp add: op_fields)
    qed
  qed simp
  then show "x \<in> set xs \<Longrightarrow> join_effects op_effect xs r (op_key x) = max (r (op_key x)) (snd (op_effect x))"
    by (simp add: join_effects_def max.commute)
qed

lemma apply_batch:
  assumes wf: "orswot_wf n s" "src < n"
    and xs: "sorted (map op_ts xs)" "\<forall>x \<in> set xs. op_source x = src \<and> op_in_order x s" "distinct (map op_key xs)"
  obtains s' where "exec_fold apply_op xs s = Some s'" "orswot_wf n s'"
    "\<And>x. x \<in> set xs \<Longrightarrow> reg_of s' (op_key x) = max (reg_of s (op_key x)) (snd (op_effect x))"
    "\<And>k. k \<notin> op_key ` set xs \<Longrightarrow> reg_of s' k = reg_of s k"
  using orswot.run_reg [OF wf(1) accepted_batch [OF wf xs(1,2)]] join_effects_distinct [OF xs(3)] that by auto

section \<open>Properties\<close>

lemma orswot_get_reg: "orswot_wf n s \<Longrightarrow> orswot_get s k = (case reg_of s k of Live t \<Rightarrow> Some t | _ \<Rightarrow> None)"
  by (cases "map_of (entries s) k"; cases "map_of (dead s) k") (auto simp: orswot_get_def reg_of_def)

lemma orswot_get_cong:
  "orswot_wf n s \<Longrightarrow> orswot_wf n t \<Longrightarrow> reg_of s = reg_of t \<Longrightarrow> orswot_get s k = orswot_get t k"
  by (simp add: orswot_get_reg)

text \<open>C2. Convergence of the set. Two replicas that start with the same registers and each accept the
  same inserts and deletes, from any sources and in any two orders, end with the same live entries
  and the same tombstones. An operation is accepted when its source delivers it in the order of
  its node's timestamps.\<close>

theorem replicas_converge:
  assumes "orswot_wf n s" "orswot_wf n t" "reg_of s = reg_of t"
    and "accepted_run apply_op op_in_order xs s" "accepted_run apply_op op_in_order ys t" "set xs = set ys"
  shows "\<exists>s' t'. exec_fold apply_op xs s = Some s' \<and> exec_fold apply_op ys t = Some t' \<and>
    reg_of s' = reg_of t' \<and> (\<forall>k. orswot_get s' k = orswot_get t' k)"
proof -
  obtain s' where s': "exec_fold apply_op xs s = Some s'" "orswot_wf n s'" "reg_of s' = join_effects op_effect xs (reg_of s)"
    using orswot.run_reg [OF assms(1,4)] by blast
  obtain t' where t': "exec_fold apply_op ys t = Some t'" "orswot_wf n t'" "reg_of t' = join_effects op_effect ys (reg_of t)"
    using orswot.run_reg [OF assms(2,5)] by blast
  have "reg_of s' = reg_of t'" using s'(3) t'(3) join_effects_set [OF assms(6)] assms(3) by simp
  then show ?thesis using s' t' orswot_get_cong by blast
qed

lemma two_ops_accepted:
  assumes "op_source x < n" "op_source y < n" "node (op_ts x) \<noteq> node (op_ts y)"
  shows "accepted_run apply_op op_in_order [x, y] (default_set n)"
proof -
  have ox: "op_in_order x (default_set n)" using in_order_default [OF assms(1)] by (simp add: op_fields)
  obtain s' where s': "apply_op x (default_set n) = Some s'"
    using apply_op_total [OF orswot_wf_default assms(1)] by blast
  have "nodes_max_stamps (versions s') = (replicate n [])[op_source x := [(node (op_ts x), op_ts x)]]"
    using nodes_max_stamps_after [OF orswot_wf_default s' ox] assms(1)
    by (simp add: default_set_def default_versions_def)
  then have "op_in_order y s'"
    using assms by (simp add: op_fields in_order_def nth_list_update)
  moreover have "\<exists>s''. apply_op y s' = Some s''"
    using apply_op_total [of n s' y] apply_op_wf(1) [OF orswot_wf_default s'] assms(2) by blast
  ultimately show ?thesis using ox s' by auto
qed

theorem replicas_converge_witness:
  "\<exists>s' t'. exec_fold apply_op [InsertOp 0 7 (HLCTimestamp 1), DeleteOp 1 7 (HLCTimestamp 2)] (default_set 2) = Some s' \<and>
    exec_fold apply_op [DeleteOp 1 7 (HLCTimestamp 2), InsertOp 0 7 (HLCTimestamp 1)] (default_set 2) = Some t' \<and>
    reg_of s' = reg_of t'"
proof -
  have n: "node (HLCTimestamp 1) \<noteq> node (HLCTimestamp 2)" by (simp add: node_def)
  have a: "accepted_run apply_op op_in_order [InsertOp 0 7 (HLCTimestamp 1), DeleteOp 1 7 (HLCTimestamp 2)] (default_set 2)"
    "accepted_run apply_op op_in_order [DeleteOp 1 7 (HLCTimestamp 2), InsertOp 0 7 (HLCTimestamp 1)] (default_set 2)"
    using n n [symmetric] by (auto intro!: two_ops_accepted simp del: accepted_run.simps)
  show ?thesis
    using replicas_converge [OF orswot_wf_default orswot_wf_default refl a] by auto
qed

text \<open>What an insert and a delete do, on every branch: they never panic for a known source and keep
  the set well-formed; out of order they change no key; in order they join the key's register with
  the new timestamp or tombstone, an insert winning over a delete of the same timestamp; the result
  says whether a key changed.\<close>

lemma operations_join_register:
  assumes "orswot_wf n s" "src < n"
  shows "(\<exists>b s'. insert_with_source src k ts s = Some (b, s') \<and> orswot_wf n s' \<and>
      reg_of s' = (if in_order src ts s then (reg_of s)(k := max (reg_of s k) (Live ts)) else reg_of s) \<and>
      (b \<longleftrightarrow> reg_of s' \<noteq> reg_of s)) \<and>
    (\<exists>b s'. delete_with_source src k ts s = Some (b, s') \<and> orswot_wf n s' \<and>
      reg_of s' = (if in_order src ts s then (reg_of s)(k := max (reg_of s k) (Dead ts)) else reg_of s) \<and>
      (b \<longleftrightarrow> reg_of s' \<noteq> reg_of s))"
  using insert_with_source_reg [OF assms, of k ts] delete_with_source_reg [OF assms, of k ts] by blast

lemma operations_join_register_witness:
  "(\<exists>b s'. insert_with_source 0 7 (HLCTimestamp 1) (default_set 1) = Some (b, s') \<and> reg_of s' 7 = Live (HLCTimestamp 1)) \<and>
   (\<exists>b s'. delete_with_source 0 7 (HLCTimestamp 1) (default_set 1) = Some (b, s') \<and> reg_of s' 7 = Dead (HLCTimestamp 1))"
  using operations_join_register [OF orswot_wf_default, of 0 1 7 "HLCTimestamp 1"] in_order_default [of 0 1 "HLCTimestamp 1"]
  by auto

text \<open>C3. The merge of two well-formed sets never panics, is well-formed, and has at every key the
  register the specification \<open>merge_reg\<close> gives: the join of both sides less the tombstones this set
  has already observed past and the live entries of this set that the other has observed past. The
  versions are joined source by source and node by node.\<close>

theorem merge_refines_register_join:
  assumes "orswot_wf n self" "orswot_wf n other"
  shows "\<exists>s'. orswot_merge self other = Some s' \<and> orswot_wf n s' \<and> reg_of s' = merge_reg self other \<and>
    (\<forall>src nd. src < n \<longrightarrow> map_of (nodes_max_stamps (versions s') ! src) nd =
       join_stamp (map_of (nodes_max_stamps (versions self) ! src) nd)
         (map_of (nodes_max_stamps (versions other) ! src) nd))"
  by (rule orswot_merge_reg [OF assms])

definition example_left :: orswot_set where
  "example_left = \<lparr>entries = [(7, HLCTimestamp 1), (8, HLCTimestamp 3)], dead = [], versions = default_versions 2\<rparr>"

definition example_right :: orswot_set where
  "example_right = \<lparr>entries = [(9, HLCTimestamp 4)], dead = [(7, HLCTimestamp 2)], versions = default_versions 2\<rparr>"

lemma example_sets_wf: "orswot_wf 2 example_left" "orswot_wf 2 example_right"
  by (auto simp: example_left_def example_right_def orswot_wf_def default_versions_def versions_wf_def hm_wf_def
      split: if_splits)

lemma example_unobserved: "unobserved example_left example_right k" "unobserved example_right example_left k"
  by (simp_all add: unobserved_def example_left_def example_right_def default_versions_def
      is_ts_before_last_observed_event_def split: lww_register.split)

lemma example_regs: "reg_of example_left 7 = Live (HLCTimestamp 1)" "reg_of example_right 7 = Dead (HLCTimestamp 2)"
  by (simp_all add: reg_of_def example_left_def example_right_def)

theorem merge_refines_register_join_witness:
  "\<exists>s'. orswot_merge example_left example_right = Some s' \<and> reg_of s' 7 = Dead (HLCTimestamp 2)"
  using merge_refines_register_join [OF example_sets_wf] merge_reg_join [OF example_unobserved(1), of 7]
  by (auto simp: example_regs less_eq_hlc_timestamp_def word_le_nat_alt)

text \<open>Anti-entropy converges: when neither set has observed past what the other still holds, merging
  each with the other gives both the same registers, the pointwise join, and neither then sees a
  difference to the other.\<close>

lemma mutual_merge_converges:
  assumes "orswot_wf n a" "orswot_wf n b" "\<And>k. unobserved a b k" "\<And>k. unobserved b a k"
  shows "\<exists>a' b'. orswot_merge a b = Some a' \<and> orswot_merge b a = Some b' \<and>
    reg_of a' = reg_of b' \<and> (\<forall>k. reg_of a' k = max (reg_of a k) (reg_of b k)) \<and>
    (\<forall>k. orswot_get a' k = orswot_get b' k) \<and> orswot_diff a' b' = ([], []) \<and> orswot_diff a' b = ([], [])"
proof -
  obtain a' where a': "orswot_merge a b = Some a'" "orswot_wf n a'" "reg_of a' = merge_reg a b"
    using orswot_merge_reg [OF assms(1,2)] by blast
  obtain b' where b': "orswot_merge b a = Some b'" "orswot_wf n b'" "reg_of b' = merge_reg b a"
    using orswot_merge_reg [OF assms(2,1)] by blast
  have j: "reg_of a' k = max (reg_of a k) (reg_of b k)" "reg_of b' k = max (reg_of a k) (reg_of b k)" for k
    using a'(3) b'(3) merge_reg_join [OF assms(3)] merge_reg_join [OF assms(4)] by (simp_all add: max.commute)
  then have eq: "reg_of a' = reg_of b'" by (simp add: fun_eq_iff)
  have "orswot_diff a' b' = ([], [])" "orswot_diff a' b = ([], [])"
    using diff_empty_if_dominates [OF b'(2)] diff_empty_if_dominates [OF assms(2)] eq j(1)
    by (simp_all del: reg_order)
  then show ?thesis using a' b' eq j(1) orswot_get_cong by blast
qed

lemma mutual_merge_converges_witness:
  "\<exists>a' b'. orswot_merge example_left example_right = Some a' \<and> orswot_merge example_right example_left = Some b' \<and>
    reg_of a' = reg_of b' \<and> orswot_diff a' b' = ([], [])"
  using mutual_merge_converges [OF example_sets_wf example_unobserved] by blast


text \<open>C30. The difference lists exactly the other set's live entries and tombstones that are newer than
  what this set holds for their key, and, where this set holds nothing, those it has not yet
  observed past.\<close>

theorem diff_lists_newer_entries:
  assumes "orswot_wf n other"
  shows "((k, t) \<in> set (fst (orswot_diff self other)) \<longleftrightarrow> reg_of other k = Live t \<and>
      (case reg_of self k of Live e \<Rightarrow> e < t | Dead e \<Rightarrow> e < t
       | Absent \<Rightarrow> \<not> is_ts_before_last_observed_event (versions self) t)) \<and>
    ((k, t) \<in> set (snd (orswot_diff self other)) \<longleftrightarrow> reg_of other k = Dead t \<and>
      (case reg_of self k of Live e \<Rightarrow> e < t | Dead e \<Rightarrow> e < t
       | Absent \<Rightarrow> \<not> is_ts_before_last_observed_event (versions self) t))"
  unfolding orswot_diff_mem [OF assms] wanted_def fst_conv snd_conv by blast

theorem diff_lists_newer_entries_witness:
  "(7, HLCTimestamp 2) \<in> set (snd (orswot_diff example_left example_right))"
  using diff_lists_newer_entries [OF example_sets_wf(2), of 7 "HLCTimestamp 2" example_left]
  by (simp add: example_regs less_hlc_timestamp_def word_less_nat_alt)

text \<open>C31. A purge removes exactly the tombstones older than the safe stamp of their node, returns them,
  and leaves every live entry; putting the returned tombstones back restores every register.\<close>

theorem purge_removes_observed_tombstones:
  assumes "orswot_wf n s" "purge_old_deletes s = (ks, s')"
  shows "orswot_wf n s' \<and> entries s' = entries s \<and>
    (\<forall>k. reg_of s' k = (case reg_of s k of
        Dead t \<Rightarrow> if is_ts_before_last_observed_event (versions s) t then Absent else Dead t | r \<Rightarrow> r)) \<and>
    (\<forall>k t. (k, t) \<in> set ks \<longleftrightarrow> reg_of s k = Dead t \<and> is_ts_before_last_observed_event (versions s) t) \<and>
    reg_of (add_raw_tombstones ks s') = reg_of s"
  using purge_old_deletes_reg [OF assms(1)] purge_then_restore [OF assms] assms(2) by simp

definition example_observed :: orswot_set where
  "example_observed = \<lparr>entries = [], dead = [(7, HLCTimestamp 1)],
     versions = \<lparr>nodes_max_stamps = [[(1, HLCTimestamp 513)]], safe_last_stamps = [(1, HLCTimestamp 257)]\<rparr>\<rparr>"

lemma example_observed_wf: "orswot_wf 1 example_observed"
  by (auto simp: example_observed_def orswot_wf_def versions_wf_def hm_wf_def stamp_at_def node_def
      less_eq_hlc_timestamp_def word_le_nat_alt split: if_splits)

lemma example_observed_purge:
  "purge_old_deletes example_observed = ([(7, HLCTimestamp 1)], example_observed\<lparr>dead := []\<rparr>)"
  by (simp add: purge_old_deletes_def example_observed_def is_ts_before_last_observed_event_def node_def
      less_hlc_timestamp_def word_less_nat_alt)

theorem purge_removes_observed_tombstones_witness:
  "reg_of (example_observed\<lparr>dead := []\<rparr>) 7 = Absent \<and>
    reg_of (add_raw_tombstones [(7, HLCTimestamp 1)] (example_observed\<lparr>dead := []\<rparr>)) = reg_of example_observed"
  using purge_removes_observed_tombstones [OF example_observed_wf example_observed_purge]
  by (simp add: reg_of_def example_observed_def)

text \<open>C14. A purged key does not come back by an insert or a delete of the node that deleted it: after the purge, an insert or
  delete of the key with a timestamp of the same node that is not newer than the purged tombstone, whatever the source, is rejected and
  changes no key. An older operation of another node is not covered, and a merge with a set that still
  has the key brings it back (\<open>merge_revives_purged_key\<close>).\<close>

theorem purged_key_stays_absent:
  assumes "orswot_wf n s" "purge_old_deletes s = (ks, s')" "(k, t) \<in> set ks" "ts \<le> t" "node ts = node t" "src < n"
  shows "(\<exists>s1. insert_with_source src k ts s' = Some (False, s1) \<and> reg_of s1 = reg_of s' \<and> reg_of s1 k = Absent) \<and>
    (\<exists>s2. delete_with_source src k ts s' = Some (False, s2) \<and> reg_of s2 = reg_of s' \<and> reg_of s2 k = Absent)"
proof -
  have wf: "orswot_wf n s'" "versions s' = versions s" and t: "reg_of s k = Dead t" "is_ts_before_last_observed_event (versions s) t"
    "reg_of s' k = Absent"
    using purge_old_deletes_reg [OF assms(1)] assms(2,3) by auto
  have "\<not> in_order src ts s'"
    using observed_not_in_order [OF wf(1) _ assms(4,5)] t(2) wf(2) by simp
  then show ?thesis
    using insert_with_source_reg [OF wf(1) assms(6), of k ts] delete_with_source_reg [OF wf(1) assms(6), of k ts] t(3)
    by auto
qed

theorem purged_key_stays_absent_witness:
  "\<exists>s1. insert_with_source 0 7 (HLCTimestamp 1) (example_observed\<lparr>dead := []\<rparr>) = Some (False, s1) \<and> reg_of s1 7 = Absent"
  using purged_key_stays_absent [OF example_observed_wf example_observed_purge, of 7 "HLCTimestamp 1" "HLCTimestamp 1" 0]
  by auto

text \<open>For an operation its source delivers in order, \<open>will_apply\<close> predicts the effect: when it holds,
  the insert or delete is applied and the key's register becomes the new timestamp; when it does
  not, a newer or equal one is already there.\<close>

theorem will_apply_predicts_in_order:
  assumes "orswot_wf n s" "in_order src ts s"
  shows "if will_apply s k ts
    then (\<exists>s'. insert_with_source src k ts s = Some (True, s') \<and> reg_of s' = (reg_of s)(k := Live ts)) \<and>
      (\<exists>s'. delete_with_source src k ts s = Some (True, s') \<and> reg_of s' = (reg_of s)(k := Dead ts))
    else Dead ts \<le> reg_of s k"
  using will_apply_effect [OF assms] will_apply_in_order [OF assms] by (auto simp del: reg_order)

theorem will_apply_predicts_in_order_witness:
  "\<exists>s'. insert_with_source 0 7 (HLCTimestamp 1) (default_set 2) = Some (True, s')"
  using will_apply_predicts_in_order [OF orswot_wf_default in_order_default, of 0 2 7 "HLCTimestamp 1"]
  by (simp add: will_apply_def default_set_def default_versions_def is_ts_before_last_observed_event_def split: if_splits) auto

text \<open>Out of order, \<open>will_apply\<close> promises what is then refused: an operation older than the newest
  its source has delivered from its node, but within the forgiveness period, on a key the set does
  not hold, is announced as applicable and rejected by the insert and the delete.\<close>

theorem will_apply_overpromises:
  assumes "orswot_wf n s" "src < n" "\<not> in_order src ts s"
    and "\<not> is_ts_before_last_observed_event (versions s) ts" "reg_of s k = Absent"
  shows "will_apply s k ts \<and> (\<exists>s'. insert_with_source src k ts s = Some (False, s') \<and> reg_of s' k = Absent) \<and>
    (\<exists>s'. delete_with_source src k ts s = Some (False, s') \<and> reg_of s' k = Absent)"
  using will_apply_reg [OF assms(1), of k ts] insert_with_source_reg [OF assms(1,2), of k ts]
    delete_with_source_reg [OF assms(1,2), of k ts] assms(3-5) by auto

lemma example_newer:
  obtains s where "insert_with_source 0 8 (HLCTimestamp 257) (default_set 2) = Some (True, s)" "orswot_wf 2 s"
    "\<not> in_order 0 (HLCTimestamp 1) s" "\<not> is_ts_before_last_observed_event (versions s) (HLCTimestamp 1)" "reg_of s 7 = Absent"
    "reg_of s = (reg_of (default_set 2))(8 := Live (HLCTimestamp 257))"
proof -
  let ?x = "InsertOp 0 8 (HLCTimestamp 257)"
  have ord: "in_order 0 (HLCTimestamp 257) (default_set 2)" by (simp add: in_order_default)
  obtain b s where s: "insert_with_source 0 8 (HLCTimestamp 257) (default_set 2) = Some (b, s)" "orswot_wf 2 s"
    "reg_of s = (reg_of (default_set 2))(8 := Live (HLCTimestamp 257))" "b \<longleftrightarrow> reg_of s \<noteq> reg_of (default_set 2)"
    using insert_with_source_reg [OF orswot_wf_default, of 0 2 8 "HLCTimestamp 257"] ord by auto
  have "b" using s(3,4) by (metis fun_upd_same lww_register.distinct(3) reg_of_default)
  have ms: "nodes_max_stamps (versions s) = [[(1, HLCTimestamp 257)], []]"
    using nodes_max_stamps_after [OF orswot_wf_default, of ?x 2 s] s(1) ord
    by (simp add: default_set_def default_versions_def node_def eval_nat_numeral)
  then have no: "\<not> in_order 0 (HLCTimestamp 1) s"
    by (simp add: in_order_def node_def less_eq_hlc_timestamp_def word_le_nat_alt)
  have "\<not> HLCTimestamp 1 < safe" if "map_of (safe_last_stamps (versions s)) 1 = Some safe" for safe
  proof -
    have "safe \<le> stamp_at 1 []" using s(2) that ms by (simp add: orswot_wf_def versions_wf_def)
    also have "\<dots> \<le> HLCTimestamp 1" by (simp add: stamp_at_def zero_stamp_le node_def)
    finally show ?thesis by simp
  qed
  then have "\<not> is_ts_before_last_observed_event (versions s) (HLCTimestamp 1)"
    by (auto simp: is_ts_before_last_observed_event_def node_def split: option.splits)
  then show ?thesis using that s(1-3) \<open>b\<close> no by auto
qed

theorem will_apply_overpromises_witness:
  "\<exists>s s'. insert_with_source 0 8 (HLCTimestamp 257) (default_set 2) = Some (True, s) \<and>
     will_apply s 7 (HLCTimestamp 1) \<and> insert_with_source 0 7 (HLCTimestamp 1) s = Some (False, s')"
proof -
  obtain s where s: "insert_with_source 0 8 (HLCTimestamp 257) (default_set 2) = Some (True, s)" "orswot_wf 2 s"
    "\<not> in_order 0 (HLCTimestamp 1) s" "\<not> is_ts_before_last_observed_event (versions s) (HLCTimestamp 1)" "reg_of s 7 = Absent"
    by (rule example_newer)
  have "(0::nat) < 2" by simp
  from will_apply_overpromises [OF s(2) this s(3-5)] show ?thesis using s(1) by blast
qed

text \<open>The merge does not check the other set's live entries against what this set has observed: a
  key that this set has deleted and purged is live again after merging a set that still holds it,
  while the difference, documented to follow the same logic, leaves it out.\<close>

lemma merge_revives_purged_key:
  assumes "orswot_wf n self" "orswot_wf n other" "reg_of self k = Absent"
    and "is_ts_before_last_observed_event (versions self) t" "reg_of other k = Live t"
  shows "(\<exists>s'. orswot_merge self other = Some s' \<and> reg_of s' k = Live t) \<and>
    (k, t) \<notin> set (fst (orswot_diff self other))"
proof
  have "merge_reg self other k = Live t" using assms(3,5) by (simp add: merge_reg_def seen_insert_def seen_delete_def)
  then show "\<exists>s'. orswot_merge self other = Some s' \<and> reg_of s' k = Live t"
    using orswot_merge_reg [OF assms(1,2)] by auto
  show "(k, t) \<notin> set (fst (orswot_diff self other))"
    using orswot_diff_mem(1) [OF assms(2)] assms(3,4) by (simp add: wanted_def)
qed

definition example_stale :: orswot_set where
  "example_stale = \<lparr>entries = [(7, HLCTimestamp 1)], dead = [], versions = default_versions 1\<rparr>"

lemma merge_revives_purged_key_witness:
  "\<exists>s'. orswot_merge (example_observed\<lparr>dead := []\<rparr>) example_stale = Some s' \<and> reg_of s' 7 = Live (HLCTimestamp 1)"
proof -
  have w: "orswot_wf 1 (example_observed\<lparr>dead := []\<rparr>)"
    using purge_old_deletes_reg(1) [OF example_observed_wf] by (simp add: example_observed_purge)
  have o: "orswot_wf 1 example_stale"
    by (auto simp: example_stale_def orswot_wf_def default_versions_def versions_wf_def hm_wf_def)
  show ?thesis
    by (rule merge_revives_purged_key [OF w o, THEN conjunct1])
      (simp_all add: reg_of_def example_observed_def example_stale_def is_ts_before_last_observed_event_def node_def
        less_hlc_timestamp_def word_less_nat_alt)
qed

section \<open>The sets the operations make\<close>

text \<open>A set starts empty and is changed by inserts, deletes, merges with such sets, and purges, after which some of the purged tombstones may be put back.\<close>

inductive made_set :: "nat \<Rightarrow> orswot_set \<Rightarrow> bool" for n where
  made_default: "made_set n (default_set n)"
| made_insert: "made_set n s \<Longrightarrow> insert_with_source src k ts s = Some (b, s') \<Longrightarrow> made_set n s'"
| made_delete: "made_set n s \<Longrightarrow> delete_with_source src k ts s = Some (b, s') \<Longrightarrow> made_set n s'"
| made_merge: "made_set n s \<Longrightarrow> made_set n other \<Longrightarrow> orswot_merge s other = Some s' \<Longrightarrow> made_set n s'"
| made_purge: "made_set n s \<Longrightarrow> purge_old_deletes s = (ks, s') \<Longrightarrow> made_set n (add_raw_tombstones (filter P ks) s')"

lemma restore_some_wf:
  assumes wf: "orswot_wf n s" and p: "purge_old_deletes s = (ks, s')" and sub: "set ts \<subseteq> set ks"
  shows "orswot_wf n (add_raw_tombstones ts s')"
proof -
  note q = purge_old_deletes_reg [OF wf, unfolded p, simplified]
  have "hm_wf (dead s')" using q(1) by (simp add: orswot_wf_def)
  moreover have "dead (add_raw_tombstones ts s') = fold (\<lambda>(k, v). hm_insert k v) ts (dead s')"
    by (induction ts arbitrary: s') (auto simp: add_raw_tombstones_def)
  ultimately have "hm_wf (dead (add_raw_tombstones ts s'))" by (simp add: hm.invar_extend)
  moreover have "map_of (entries s') k = None" if "k \<in> dom (map_of (rev ts))" for k
  proof -
    have "k \<in> fst ` set ks" using that sub by (auto simp: dom_map_of_conv_image_fst)
    then obtain t where "(k, t) \<in> set ks" by auto
    then have "reg_of s k = Dead t" using q(5) by simp
    then have "map_of (dead s) k = Some t" by (simp add: reg_of_cases [OF wf])
    then show ?thesis using q(3) reg_of_disjoint(2) [OF wf] by simp
  qed
  ultimately show ?thesis using q(1) unfolding orswot_wf_def add_raw_tombstones_simps by (auto simp: domIff)
qed

lemma made_set_wf: "made_set n s \<Longrightarrow> orswot_wf n s"
proof (induction rule: made_set.induct)
  case (made_insert s src k ts b s')
  then show ?case using apply_op_wf(1) [of n s "InsertOp src k ts" s'] by simp
next
  case (made_delete s src k ts b s')
  then show ?case using apply_op_wf(1) [of n s "DeleteOp src k ts" s'] by simp
next
  case (made_merge s other s')
  then show ?case using orswot_merge_reg [of n s other] by auto
next
  case (made_purge s ks s' P)
  then show ?case by (intro restore_some_wf) auto
qed (rule orswot_wf_default)

text \<open>C17. Every set the operations make is well-formed: its entries are sorted, no key is both live and
  dead, every stamp is kept under its node and no safe stamp is ahead of what a source has delivered.
  On such sets no operation panics: inserts and deletes of the sources the set was made for, and
  merges with other such sets, give a set.\<close>

theorem made_sets_well_formed:
  assumes "made_set n s" "made_set n other" "src < n"
  shows "orswot_wf n s \<and> (\<forall>k. \<not> (map_of (entries s) k \<noteq> None \<and> map_of (dead s) k \<noteq> None)) \<and>
    (\<exists>b s'. insert_with_source src k ts s = Some (b, s') \<and> made_set n s') \<and>
    (\<exists>b s'. delete_with_source src k ts s = Some (b, s') \<and> made_set n s') \<and>
    (\<exists>s'. orswot_merge s other = Some s' \<and> made_set n s')"
proof -
  note wf = made_set_wf [OF assms(1)] and wf' = made_set_wf [OF assms(2)]
  have "\<not> (map_of (entries s) k \<noteq> None \<and> map_of (dead s) k \<noteq> None)" for k using reg_of_disjoint(2) [OF wf] by auto
  moreover have "\<exists>b s'. insert_with_source src k ts s = Some (b, s') \<and> made_set n s'"
    using insert_with_source_reg [OF wf assms(3), of k ts] made_insert [OF assms(1)] by blast
  moreover have "\<exists>b s'. delete_with_source src k ts s = Some (b, s') \<and> made_set n s'"
    using delete_with_source_reg [OF wf assms(3), of k ts] made_delete [OF assms(1)] by blast
  moreover have "\<exists>s'. orswot_merge s other = Some s' \<and> made_set n s'"
    using orswot_merge_reg [OF wf wf'] made_merge [OF assms(1,2)] by blast
  ultimately show ?thesis using wf by blast
qed

theorem made_sets_well_formed_witness:
  "made_set 2 (default_set 2) \<and> (\<exists>b s'. insert_with_source 1 7 (HLCTimestamp 1) (default_set 2) = Some (b, s') \<and> made_set 2 s')"
  using made_sets_well_formed [OF made_default made_default, of 1 2 7 "HLCTimestamp 1"] made_default [of 2] by simp

end
