(* ===== verification/Keyspace.thy ===== *)
theory Keyspace
  imports Storage OrswotMerge
begin

text \<open>
  The actor that owns a keyspace, \<^verbatim>\<open>datacake-eventual-consistency/src/keyspace/actor.rs\<close>, with its
  messages (\<^verbatim>\<open>messages.rs\<close>). It handles one message at a time, so a handler is a function of the
  actor and of what it shares with the rest of the node: the store and the clock. The lemmas on
  the handlers are proved once for every store that keeps the contract \<open>storage\<close>.
\<close>

definition NUM_SOURCES :: nat where
  "NUM_SOURCES = 2"

record set_msg =
  set_source :: nat
  set_doc :: document
  set_ctx :: "put_context option"

record multi_set_msg =
  mset_source :: nat
  mset_docs :: "document list"
  mset_ctx :: "put_context option"

record del_msg =
  del_source :: nat
  del_doc :: document_metadata

record multi_del_msg =
  mdel_source :: nat
  mdel_docs :: "document_metadata list"

record keyspace_actor =
  ks_name :: string
  ks_state :: orswot_set
  change_timestamp :: hlc_timestamp

record 's world =
  w_store :: 's
  w_clock :: node_clock

definition spawn_keyspace :: "string \<Rightarrow> orswot_set \<Rightarrow> hlc_timestamp \<Rightarrow> keyspace_actor" where
  "spawn_keyspace name state ts = \<lparr>ks_name = name, ks_state = state, change_timestamp = ts\<rparr>"

definition inc_change_timestamp :: "keyspace_actor \<Rightarrow> 's world \<Rightarrow> (keyspace_actor \<times> 's world) exec" where
  "inc_change_timestamp a w =
     do { (ts, c) \<leftarrow> clock_get (w_clock w);
          Some (a\<lparr>change_timestamp := ts\<rparr>, w\<lparr>w_clock := c\<rparr>) }"

definition on_set ::
  "('s, 'e) storage_ops \<Rightarrow> set_msg \<Rightarrow> keyspace_actor \<Rightarrow> 's world \<Rightarrow> (('e + unit) \<times> keyspace_actor \<times> 's world) exec" where
  "on_set ops msg a w =
     (if \<not> will_apply (ks_state a) (doc_id (set_doc msg)) (last_updated (set_doc msg)) then Some (Inr (), a, w)
      else do {
        (res, s) \<leftarrow> st_put_with_ctx ops (ks_name a) (set_doc msg) (set_ctx msg) (w_store w);
        let w = w\<lparr>w_store := s\<rparr>;
        case res of
          Inl e \<Rightarrow> Some (Inl e, a, w)
        | Inr u \<Rightarrow> do {
            (b, st) \<leftarrow> insert_with_source (set_source msg) (doc_id (set_doc msg)) (last_updated (set_doc msg)) (ks_state a);
            (a', w') \<leftarrow> inc_change_timestamp (a\<lparr>ks_state := st\<rparr>) w;
            Some (Inr (), a', w') } })"

text \<open>
  The bulk handlers hand the store a lazy iterator that also records the entries it yields. The
  stores of the repository consume all of it, so here the entries recorded are all the valid ones.
\<close>

definition apply_inserts :: "nat \<Rightarrow> state_changes \<Rightarrow> orswot_set \<Rightarrow> orswot_set exec" where
  "apply_inserts src = exec_fold (\<lambda>(k, ts) st. map_option snd (insert_with_source src k ts st))"

definition apply_deletes :: "nat \<Rightarrow> state_changes \<Rightarrow> orswot_set \<Rightarrow> orswot_set exec" where
  "apply_deletes src = exec_fold (\<lambda>(k, ts) st. map_option snd (delete_with_source src k ts st))"

definition on_multi_set ::
  "('s, 'e) storage_ops \<Rightarrow> multi_set_msg \<Rightarrow> keyspace_actor \<Rightarrow> 's world \<Rightarrow> ('e bulk_result \<times> keyspace_actor \<times> 's world) exec" where
  "on_multi_set ops msg a w =
     do { let docs = filter (\<lambda>d. will_apply (ks_state a) (doc_id d) (last_updated d)) (mset_docs msg);
          let valid_entries = map (\<lambda>d. (doc_id d, last_updated d)) docs;
          (res, s) \<leftarrow> st_multi_put_with_ctx ops (ks_name a) docs (mset_ctx msg) (w_store w);
          let valid_entries = sort_key snd valid_entries;
          (a, w) \<leftarrow> inc_change_timestamp a (w\<lparr>w_store := s\<rparr>);
          case res of
            Inl error \<Rightarrow> do {
              let successful_entries = filter (\<lambda>e. fst e \<in> set (successful_doc_ids error)) valid_entries;
              st \<leftarrow> apply_inserts (mset_source msg) successful_entries (ks_state a);
              Some (Inl error, a\<lparr>ks_state := st\<rparr>, w) }
          | Inr u \<Rightarrow> do {
              st \<leftarrow> apply_inserts (mset_source msg) valid_entries (ks_state a);
              Some (Inr (), a\<lparr>ks_state := st\<rparr>, w) } }"

definition on_del ::
  "('s, 'e) storage_ops \<Rightarrow> del_msg \<Rightarrow> keyspace_actor \<Rightarrow> 's world \<Rightarrow> (('e + unit) \<times> keyspace_actor \<times> 's world) exec" where
  "on_del ops msg a w =
     (if \<not> will_apply (ks_state a) (md_id (del_doc msg)) (md_last_updated (del_doc msg)) then Some (Inr (), a, w)
      else do {
        (res, s) \<leftarrow> st_mark_as_tombstone ops (ks_name a) (md_id (del_doc msg)) (md_last_updated (del_doc msg)) (w_store w);
        let w = w\<lparr>w_store := s\<rparr>;
        case res of
          Inl e \<Rightarrow> Some (Inl e, a, w)
        | Inr u \<Rightarrow> do {
            (b, st) \<leftarrow> delete_with_source (del_source msg) (md_id (del_doc msg)) (md_last_updated (del_doc msg)) (ks_state a);
            (a', w') \<leftarrow> inc_change_timestamp (a\<lparr>ks_state := st\<rparr>) w;
            Some (Inr (), a', w') } })"

definition on_multi_del ::
  "('s, 'e) storage_ops \<Rightarrow> multi_del_msg \<Rightarrow> keyspace_actor \<Rightarrow> 's world \<Rightarrow> ('e bulk_result \<times> keyspace_actor \<times> 's world) exec" where
  "on_multi_del ops msg a w =
     do { let docs = filter (\<lambda>d. will_apply (ks_state a) (md_id d) (md_last_updated d)) (mdel_docs msg);
          let valid_entries = map (\<lambda>d. (md_id d, md_last_updated d)) docs;
          (res, s) \<leftarrow> st_mark_many_as_tombstone ops (ks_name a) docs (w_store w);
          let valid_entries = sort_key snd valid_entries;
          (a, w) \<leftarrow> inc_change_timestamp a (w\<lparr>w_store := s\<rparr>);
          case res of
            Inl error \<Rightarrow> do {
              let successful_entries = filter (\<lambda>e. fst e \<in> set (successful_doc_ids error)) valid_entries;
              st \<leftarrow> apply_deletes (mdel_source msg) successful_entries (ks_state a);
              Some (Inl error, a\<lparr>ks_state := st\<rparr>, w) }
          | Inr u \<Rightarrow> do {
              st \<leftarrow> apply_deletes (mdel_source msg) valid_entries (ks_state a);
              Some (Inr (), a\<lparr>ks_state := st\<rparr>, w) } }"

definition on_purge_tombstones ::
  "('s, 'e) storage_ops \<Rightarrow> keyspace_actor \<Rightarrow> 's world \<Rightarrow> (('e + unit) \<times> keyspace_actor \<times> 's world) exec" where
  "on_purge_tombstones ops a w =
     do { let (changes, st) = purge_old_deletes (ks_state a);
          (res, s) \<leftarrow> st_remove_tombstones ops (ks_name a) (map fst changes) (w_store w);
          let w = w\<lparr>w_store := s\<rparr>;
          case res of
            Inl error \<Rightarrow>
              (let tombstones = filter (\<lambda>e. fst e \<notin> set (successful_doc_ids error)) changes
               in Some (Inl (bulk_inner error), a\<lparr>ks_state := add_raw_tombstones tombstones st\<rparr>, w))
          | Inr u \<Rightarrow> Some (Inr (), a\<lparr>ks_state := st\<rparr>, w) }"

definition on_diff :: "orswot_set \<Rightarrow> keyspace_actor \<Rightarrow> state_changes \<times> state_changes" where
  "on_diff other a = orswot_diff (ks_state a) other"

definition on_sym_diff :: "orswot_set \<Rightarrow> keyspace_actor \<Rightarrow> state_changes \<times> state_changes" where
  "on_sym_diff other a =
     (let (change_left, removal_left) = orswot_diff (ks_state a) other;
          (change_right, removal_right) = orswot_diff other (ks_state a)
      in (change_left @ change_right, removal_left @ removal_right))"

definition on_last_updated :: "keyspace_actor \<Rightarrow> hlc_timestamp" where
  "on_last_updated a = change_timestamp a"


section \<open>The set and the store agree\<close>

fun reg_meta :: "lww_register \<Rightarrow> (hlc_timestamp \<times> bool) option" where
  "reg_meta Absent = None"
| "reg_meta (Live t) = Some (t, False)"
| "reg_meta (Dead t) = Some (t, True)"

definition agrees :: "(string \<Rightarrow> key \<Rightarrow> stored option) \<Rightarrow> keyspace_actor \<Rightarrow> bool" where
  "agrees look a \<longleftrightarrow> (\<forall>k. map_option stored_meta (look (ks_name a) k) = reg_meta (reg_of (ks_state a) k))"

definition actor_wf :: "keyspace_actor \<Rightarrow> bool" where
  "actor_wf a \<longleftrightarrow> orswot_wf NUM_SOURCES (ks_state a)"

lemma put_docs_distinct:
  assumes "distinct (map doc_id ds)"
  shows "d \<in> set ds \<Longrightarrow> put_docs ds m (doc_id d) = Some (Doc d)"
    "k \<notin> doc_id ` set ds \<Longrightarrow> put_docs ds m k = m k"
proof -
  let ?es = "rev (map (\<lambda>d. (doc_id d, Doc d)) ds)"
  have dist: "distinct (map fst ?es)" using assms by (simp flip: rev_map add: comp_def)
  show "d \<in> set ds \<Longrightarrow> put_docs ds m (doc_id d) = Some (Doc d)"
    using map_of_is_SomeI [OF dist, of "doc_id d" "Doc d"] by (auto simp: put_docs_def map_add_def)
  have "map_of ?es k = None" if "k \<notin> doc_id ` set ds"
    using that by (auto simp: map_of_eq_None_iff)
  then show "k \<notin> doc_id ` set ds \<Longrightarrow> put_docs ds m k = m k"
    by (simp add: put_docs_def map_add_def)
qed

lemma put_tombstones_distinct:
  assumes "distinct (map md_id ds)"
  shows "d \<in> set ds \<Longrightarrow> put_tombstones ds m (md_id d) = Some (Tombstone (md_last_updated d))"
    "k \<notin> md_id ` set ds \<Longrightarrow> put_tombstones ds m k = m k"
proof -
  let ?es = "rev (map (\<lambda>d. (md_id d, Tombstone (md_last_updated d))) ds)"
  have dist: "distinct (map fst ?es)" using assms by (simp flip: rev_map add: comp_def)
  show "d \<in> set ds \<Longrightarrow> put_tombstones ds m (md_id d) = Some (Tombstone (md_last_updated d))"
    using map_of_is_SomeI [OF dist, of "md_id d" "Tombstone (md_last_updated d)"]
    by (auto simp: put_tombstones_def map_add_def)
  have "map_of ?es k = None" if "k \<notin> md_id ` set ds"
    using that by (auto simp: map_of_eq_None_iff)
  then show "k \<notin> md_id ` set ds \<Longrightarrow> put_tombstones ds m k = m k"
    by (simp add: put_tombstones_def map_add_def)
qed

lemma put_one: "put_docs [d] m = m(doc_id d \<mapsto> Doc d)"
  "put_tombstones [e] m = m(md_id e \<mapsto> Tombstone (md_last_updated e))"
  by (simp_all add: put_docs_def put_tombstones_def)


lemma inc_change_timestamp_Some:
  "clock_get (w_clock w) = Some (t, c) \<Longrightarrow>
    inc_change_timestamp a w = Some (a\<lparr>change_timestamp := t\<rparr>, w\<lparr>w_clock := c\<rparr>)"
  by (simp add: inc_change_timestamp_def)

lemma apply_inserts_ops:
  "apply_inserts src es = exec_fold apply_op (map (\<lambda>(k, t). InsertOp src k t) es)"
  "apply_deletes src es = exec_fold apply_op (map (\<lambda>(k, t). DeleteOp src k t) es)"
proof -
  have "exec_fold (\<lambda>(k, ts) st. map_option snd (insert_with_source src k ts st)) es st =
      exec_fold apply_op (map (\<lambda>(k, t). InsertOp src k t) es) st"
    "exec_fold (\<lambda>(k, ts) st. map_option snd (delete_with_source src k ts st)) es st =
      exec_fold apply_op (map (\<lambda>(k, t). DeleteOp src k t) es) st" for st
    by (induction es arbitrary: st) (auto split: prod.split)
  then show "apply_inserts src es = exec_fold apply_op (map (\<lambda>(k, t). InsertOp src k t) es)"
    "apply_deletes src es = exec_fold apply_op (map (\<lambda>(k, t). DeleteOp src k t) es)"
    by (simp_all add: apply_inserts_def apply_deletes_def fun_eq_iff)
qed

text \<open>A sorted batch of writable entries, as the bulk handlers apply it.\<close>

lemma apply_entries:
  assumes wf: "orswot_wf n st" "src < n"
    and es: "sorted (map snd es)" "distinct (map fst es)"
      "\<forall>(k, t) \<in> set es. in_order src t st \<and> will_apply st k t"
  shows "\<exists>st'. apply_inserts src es st = Some st' \<and> orswot_wf n st' \<and>
      (\<forall>k. reg_of st' k = (case map_of es k of Some t \<Rightarrow> Live t | None \<Rightarrow> reg_of st k))"
    "\<exists>st'. apply_deletes src es st = Some st' \<and> orswot_wf n st' \<and>
      (\<forall>k. reg_of st' k = (case map_of es k of Some t \<Rightarrow> Dead t | None \<Rightarrow> reg_of st k))"
proof -
  have mx: "max (reg_of st k) (Live t) = Live t" "max (reg_of st k) (Dead t) = Dead t" if "(k, t) \<in> set es" for k t
    using es(3) that will_apply_reg [OF wf(1)] by (cases "reg_of st k"; fastforce simp: max_def)+
  have batch: "\<exists>st'. exec_fold apply_op (map (\<lambda>(k, t). f src k t) es) st = Some st' \<and> orswot_wf n st' \<and>
      (\<forall>k. reg_of st' k = (case map_of es k of Some t \<Rightarrow> max (reg_of st k) (snd (op_effect (f src k t))) | None \<Rightarrow> reg_of st k))"
    if f: "\<And>k t. op_ts (f src k t) = t \<and> op_key (f src k t) = k \<and> op_source (f src k t) = src" for f
  proof -
    let ?xs = "map (\<lambda>(k, t). f src k t) es"
    have a: "map op_ts ?xs = map snd es" "map op_key ?xs = map fst es"
      using f by (auto simp: case_prod_beta)
    have ord: "\<forall>x \<in> set ?xs. op_source x = src \<and> op_in_order x st" using es(3) f by (auto simp: op_fields)
    have srt: "sorted (map op_ts ?xs)" "distinct (map op_key ?xs)" unfolding a using es by blast+
    obtain st' where st': "exec_fold apply_op ?xs st = Some st'" "orswot_wf n st'"
      "\<And>x. x \<in> set ?xs \<Longrightarrow> reg_of st' (op_key x) = max (reg_of st (op_key x)) (snd (op_effect x))"
      "\<And>k. k \<notin> op_key ` set ?xs \<Longrightarrow> reg_of st' k = reg_of st k"
      using apply_batch [OF wf srt(1) ord srt(2)] by blast
    have "reg_of st' k = (case map_of es k of Some t \<Rightarrow> max (reg_of st k) (snd (op_effect (f src k t))) | None \<Rightarrow> reg_of st k)" for k
    proof (cases "map_of es k")
      case None
      then have "k \<notin> op_key ` set ?xs" using a(2) by (metis list.set_map map_of_eq_None_iff)
      then show ?thesis using st'(4) None by simp
    next
      case (Some t)
      then have "f src k t \<in> set ?xs" by (force dest: map_of_SomeD)
      from st'(3) [OF this] show ?thesis using Some f by simp
    qed
    then show ?thesis using st' by blast
  qed
  show "\<exists>st'. apply_inserts src es st = Some st' \<and> orswot_wf n st' \<and>
      (\<forall>k. reg_of st' k = (case map_of es k of Some t \<Rightarrow> Live t | None \<Rightarrow> reg_of st k))"
    using batch [of InsertOp] mx by (fastforce simp: apply_inserts_ops dest: map_of_SomeD split: option.splits)
  show "\<exists>st'. apply_deletes src es st = Some st' \<and> orswot_wf n st' \<and>
      (\<forall>k. reg_of st' k = (case map_of es k of Some t \<Rightarrow> Dead t | None \<Rightarrow> reg_of st k))"
    using batch [of DeleteOp] mx by (fastforce simp: apply_inserts_ops dest: map_of_SomeD split: option.splits)
qed


text \<open>The state of an actor and of the store it writes to, as the handlers keep it.\<close>

definition actor_inv ::
  "('s \<Rightarrow> bool) \<Rightarrow> ('s \<Rightarrow> string \<Rightarrow> key \<rightharpoonup> stored) \<Rightarrow> keyspace_actor \<Rightarrow> 's world \<Rightarrow> bool" where
  "actor_inv invar look a w \<longleftrightarrow> invar (w_store w) \<and> actor_wf a \<and> agrees (look (w_store w)) a"

text \<open>What a handler leaves of other keyspaces.\<close>

definition others_kept ::
  "('s \<Rightarrow> string \<Rightarrow> bool) \<Rightarrow> ('s \<Rightarrow> string \<Rightarrow> key \<rightharpoonup> stored) \<Rightarrow> keyspace_actor \<Rightarrow> 's world \<Rightarrow> keyspace_actor \<Rightarrow> 's world \<Rightarrow> bool" where
  "others_kept known look a w a' w' \<longleftrightarrow> ks_name a' = ks_name a \<and>
     (\<forall>ks. ks \<noteq> ks_name a \<longrightarrow> look (w_store w') ks = look (w_store w) ks) \<and>
     (\<forall>ks. known (w_store w) ks \<longrightarrow> known (w_store w') ks)"

lemma agrees_update:
  assumes "agrees l a" "ks_name a' = ks_name a"
    and "l' (ks_name a) = (l (ks_name a)) ++ u"
    and "\<And>k. reg_of (ks_state a') k = (case u k of None \<Rightarrow> reg_of (ks_state a) k | Some x \<Rightarrow> f x)"
    and "\<And>x. reg_meta (f x) = Some (stored_meta x)"
  shows "agrees l' a'"
  using assms by (auto simp: agrees_def map_add_def split: option.splits)

fun stored_reg :: "stored \<Rightarrow> lww_register" where
  "stored_reg (Doc d) = Live (last_updated d)"
| "stored_reg (Tombstone t) = Dead t"

lemma reg_meta_stored: "reg_meta (stored_reg x) = Some (stored_meta x)"
  by (cases x) auto

lemma sorted_filter: "sorted (map f xs) \<Longrightarrow> sorted (map f (filter P xs))"
  by (induction xs) auto

lemma sorted_batch_keys:
  "distinct (map f ds) \<Longrightarrow> distinct (map fst (sort_key snd (map (\<lambda>d. (f d, g d)) ds)))"
proof -
  assume "distinct (map f ds)"
  then have "distinct (map fst (map (\<lambda>d. (f d, g d)) ds))" by (simp add: comp_def)
  moreover have "mset (map fst (sort_key snd (map (\<lambda>d. (f d, g d)) ds))) = mset (map fst (map (\<lambda>d. (f d, g d)) ds))"
    unfolding mset_map by simp
  ultimately show ?thesis using mset_eq_imp_distinct_iff by blast
qed

text \<open>A purge of which some tombstones are put back removes the others.\<close>

lemma purge_some_reg:
  fixes P :: "key \<Rightarrow> bool"
  assumes wf: "orswot_wf n s" and p: "purge_old_deletes s = (ch, s1)"
  defines "s' \<equiv> add_raw_tombstones (filter (\<lambda>e. \<not> P (fst e)) ch) s1"
  shows "orswot_wf n s'" "reg_of s' k = (if k \<in> set (map fst ch) \<and> P k then Absent else reg_of s k)"
proof -
  note pr = purge_old_deletes_reg [OF wf, unfolded p, simplified]
  let ?tombs = "filter (\<lambda>e. \<not> P (fst e)) ch"
  have dch: "distinct (map fst ch)"
    using wf p purge_old_deletes_eq [of s] by (auto simp: orswot_wf_def hm_wf_def distinct_map_filter)
  have ab: "reg_of s1 k = Absent" "reg_of s k = Dead t" if "(k, t) \<in> set ch" for k t using that pr(4,5) by simp_all
  have "distinct (map fst ?tombs)" "\<forall>e \<in> set ?tombs. reg_of s1 (fst e) = Absent"
    using dch ab(1) by (auto simp: distinct_map_filter)
  note raw = add_raw_tombstones_reg [OF pr(1) this, folded s'_def]
  show "orswot_wf n s'" by (rule raw(1))
  show "reg_of s' k = (if k \<in> set (map fst ch) \<and> P k then Absent else reg_of s k)"
  proof (cases "k \<in> set (map fst ch)")
    case True
    then obtain t where t: "(k, t) \<in> set ch" by auto
    have "map_of ?tombs k = (if P k then None else Some t)"
      using map_of_is_SomeI [OF dch t] by (simp add: map_of_filter_distinct [OF dch])
    then show ?thesis using raw(2) [of k] ab [OF t] True by simp
  next
    case False
    then have "map_of ?tombs k = None" by (auto simp: map_of_eq_None_iff)
    moreover have "reg_of s1 k = reg_of s k"
      using False pr(4) [of k] pr(5) [of k] by (cases "reg_of s k") force+
    ultimately show ?thesis using raw(2) [of k] False by simp
  qed
qed

context storage
begin

lemma on_set_spec:
  assumes inv: "actor_inv invar look a w" and src: "set_source msg < NUM_SOURCES"
    and ord: "in_order (set_source msg) (last_updated (set_doc msg)) (ks_state a)"
    and clk: "clock_get (w_clock w) = Some (t, c)"
  shows "\<exists>r a' w'. on_set ops msg a w = Some (r, a', w') \<and> actor_inv invar look a' w' \<and>
    others_kept known look a w a' w' \<and>
    (if is_ok r \<and> will_apply (ks_state a) (doc_id (set_doc msg)) (last_updated (set_doc msg))
     then reg_of (ks_state a') = (reg_of (ks_state a))(doc_id (set_doc msg) := Live (last_updated (set_doc msg))) \<and>
       look (w_store w') (ks_name a) = (look (w_store w) (ks_name a))(doc_id (set_doc msg) \<mapsto> Doc (set_doc msg)) \<and>
       known (w_store w') (ks_name a) \<and> change_timestamp a' = t
     else reg_of (ks_state a') = reg_of (ks_state a) \<and> look (w_store w') = look (w_store w))"
proof (cases "will_apply (ks_state a) (doc_id (set_doc msg)) (last_updated (set_doc msg))")
  case False
  then have "on_set ops msg a w = Some (Inr (), a, w)" by (simp add: on_set_def)
  then show ?thesis using inv False by (auto simp: others_kept_def)
next
  case True
  let ?d = "set_doc msg" and ?ks = "ks_name a"
  have wf: "orswot_wf NUM_SOURCES (ks_state a)" and iv: "invar (w_store w)" and ag: "agrees (look (w_store w)) a"
    using inv by (auto simp: actor_inv_def actor_wf_def)
  obtain r s' where p: "st_put_with_ctx ops ?ks ?d (set_ctx msg) (w_store w) = Some (r, s')" "invar s'"
    "look s' = (if is_ok r then (look (w_store w))(?ks := put_docs [?d] (look (w_store w) ?ks)) else look (w_store w))"
    "\<And>ks'. known (w_store w) ks' \<or> is_ok r \<and> ks' = ?ks \<Longrightarrow> known s' ks'"
    using put_with_ctx [of "set_ctx msg"] iv unfolding put_law_def by metis
  obtain st where st: "insert_with_source (set_source msg) (doc_id ?d) (last_updated ?d) (ks_state a) = Some (True, st)"
    "reg_of st = (reg_of (ks_state a))(doc_id ?d := Live (last_updated ?d))" "orswot_wf NUM_SOURCES st"
    using will_apply_effect(1) [OF wf ord True] insert_with_source_reg [OF wf src, of "doc_id ?d" "last_updated ?d"] by auto
  show ?thesis
  proof (cases r)
    case (Inl e)
    then have "on_set ops msg a w = Some (r, a, w\<lparr>w_store := s'\<rparr>)"
      using True by (simp add: on_set_def p(1))
    then show ?thesis using Inl p inv by (auto simp: others_kept_def actor_inv_def)
  next
    case (Inr u)
    let ?a = "a\<lparr>ks_state := st, change_timestamp := t\<rparr>" and ?w = "w\<lparr>w_store := s', w_clock := c\<rparr>"
    have run: "on_set ops msg a w = Some (r, ?a, ?w)"
      using True Inr clk by (simp add: on_set_def p(1) st(1) inc_change_timestamp_Some)
    have "agrees (look s') ?a"
      by (rule agrees_update [OF ag, where u = "[doc_id ?d \<mapsto> Doc ?d]" and f = stored_reg])
        (use Inr st(2) in \<open>auto simp: p(3) put_one reg_meta_stored\<close>)
    then have "actor_inv invar look ?a ?w" using p(2) st(3) by (simp add: actor_inv_def actor_wf_def)
    then show ?thesis using run Inr True st(2) p(3,4) by (auto simp: others_kept_def put_one)
  qed
qed

lemma on_del_spec:
  assumes inv: "actor_inv invar look a w" and src: "del_source msg < NUM_SOURCES"
    and kn: "known (w_store w) (ks_name a)"
    and ord: "in_order (del_source msg) (md_last_updated (del_doc msg)) (ks_state a)"
    and clk: "clock_get (w_clock w) = Some (t, c)"
  shows "\<exists>r a' w'. on_del ops msg a w = Some (r, a', w') \<and> actor_inv invar look a' w' \<and>
    others_kept known look a w a' w' \<and>
    (if is_ok r \<and> will_apply (ks_state a) (md_id (del_doc msg)) (md_last_updated (del_doc msg))
     then reg_of (ks_state a') = (reg_of (ks_state a))(md_id (del_doc msg) := Dead (md_last_updated (del_doc msg))) \<and>
       look (w_store w') (ks_name a) =
         (look (w_store w) (ks_name a))(md_id (del_doc msg) \<mapsto> Tombstone (md_last_updated (del_doc msg))) \<and>
       change_timestamp a' = t
     else reg_of (ks_state a') = reg_of (ks_state a) \<and> look (w_store w') = look (w_store w))"
proof (cases "will_apply (ks_state a) (md_id (del_doc msg)) (md_last_updated (del_doc msg))")
  case False
  then have "on_del ops msg a w = Some (Inr (), a, w)" by (simp add: on_del_def)
  then show ?thesis using inv False by (auto simp: others_kept_def)
next
  case True
  let ?k = "md_id (del_doc msg)" and ?ts = "md_last_updated (del_doc msg)" and ?ks = "ks_name a"
  have wf: "orswot_wf NUM_SOURCES (ks_state a)" and iv: "invar (w_store w)" and ag: "agrees (look (w_store w)) a"
    using inv by (auto simp: actor_inv_def actor_wf_def)
  obtain r s' where p: "st_mark_as_tombstone ops ?ks ?k ?ts (w_store w) = Some (r, s')" "invar s'"
    "look s' = (if is_ok r then (look (w_store w))(?ks := put_tombstones [metadata_new ?k ?ts] (look (w_store w) ?ks))
       else look (w_store w))"
    "\<And>ks'. known (w_store w) ks' \<Longrightarrow> known s' ks'"
    using tombstone [OF iv kn] by metis
  obtain st where st: "delete_with_source (del_source msg) ?k ?ts (ks_state a) = Some (True, st)"
    "reg_of st = (reg_of (ks_state a))(?k := Dead ?ts)" "orswot_wf NUM_SOURCES st"
    using will_apply_effect(2) [OF wf ord True] delete_with_source_reg [OF wf src, of ?k ?ts] by auto
  show ?thesis
  proof (cases r)
    case (Inl e)
    then have "on_del ops msg a w = Some (r, a, w\<lparr>w_store := s'\<rparr>)"
      using True by (simp add: on_del_def p(1))
    then show ?thesis using Inl p inv by (auto simp: others_kept_def actor_inv_def)
  next
    case (Inr u)
    let ?a = "a\<lparr>ks_state := st, change_timestamp := t\<rparr>" and ?w = "w\<lparr>w_store := s', w_clock := c\<rparr>"
    have run: "on_del ops msg a w = Some (r, ?a, ?w)"
      using True Inr clk by (simp add: on_del_def p(1) st(1) inc_change_timestamp_Some)
    have "agrees (look s') ?a"
      by (rule agrees_update [OF ag, where u = "[?k \<mapsto> Tombstone ?ts]" and f = stored_reg])
        (use Inr st(2) in \<open>auto simp: p(3) put_one metadata_new_def reg_meta_stored\<close>)
    then have "actor_inv invar look ?a ?w" using p(2) st(3) by (simp add: actor_inv_def actor_wf_def)
    then show ?thesis using run Inr True st(2) p(3,4) by (auto simp: others_kept_def put_one metadata_new_def)
  qed
qed

lemma on_multi_set_spec:
  assumes inv: "actor_inv invar look a w" and src: "mset_source msg < NUM_SOURCES"
    and dist: "distinct (map doc_id (mset_docs msg))"
    and ord: "\<forall>d \<in> set (mset_docs msg). in_order (mset_source msg) (last_updated d) (ks_state a)"
    and clk: "clock_get (w_clock w) = Some (t, c)"
  shows "\<exists>r a' w'. on_multi_set ops msg a w = Some (r, a', w') \<and> actor_inv invar look a' w' \<and>
    others_kept known look a w a' w' \<and> change_timestamp a' = t \<and>
    look (w_store w') (ks_name a) = put_docs (filter (\<lambda>d. will_apply (ks_state a) (doc_id d) (last_updated d) \<and>
      applied r (doc_id d)) (mset_docs msg)) (look (w_store w) (ks_name a))"
proof -
  let ?ks = "ks_name a" and ?src = "mset_source msg"
  define ds where "ds = filter (\<lambda>d. will_apply (ks_state a) (doc_id d) (last_updated d)) (mset_docs msg)"
  have wf: "orswot_wf NUM_SOURCES (ks_state a)" and iv: "invar (w_store w)" and ag: "agrees (look (w_store w)) a"
    using inv by (auto simp: actor_inv_def actor_wf_def)
  obtain r s' where p: "st_multi_put_with_ctx ops ?ks ds (mset_ctx msg) (w_store w) = Some (r, s')" "invar s'"
    "look s' = (look (w_store w))(?ks := put_docs (filter (\<lambda>d. applied r (doc_id d)) ds) (look (w_store w) ?ks))"
    "\<And>ks'. known (w_store w) ks' \<or> is_ok r \<and> ks' = ?ks \<Longrightarrow> known s' ks'"
    using multi_put_with_ctx [of "mset_ctx msg"] iv unfolding multi_put_law_def by metis
  define D where "D = filter (\<lambda>d. applied r (doc_id d)) ds"
  define es where "es = filter (\<lambda>e. applied r (fst e)) (sort_key snd (map (\<lambda>d. (doc_id d, last_updated d)) ds))"
  have es: "sorted (map snd es)" "set es = (\<lambda>d. (doc_id d, last_updated d)) ` set D" "distinct (map fst es)"
    using dist by (auto simp: es_def D_def ds_def sorted_filter sorted_batch_keys distinct_map_filter)
  have "\<forall>(k, ts) \<in> set es. in_order ?src ts (ks_state a) \<and> will_apply (ks_state a) k ts"
    using ord by (auto simp: es(2) D_def ds_def)
  from apply_entries(1) [OF wf src es(1,3) this] obtain st where
    st: "apply_inserts ?src es (ks_state a) = Some st" "orswot_wf NUM_SOURCES st"
      "\<And>k. reg_of st k = (case map_of es k of Some t \<Rightarrow> Live t | None \<Rightarrow> reg_of (ks_state a) k)" by blast
  let ?a = "a\<lparr>ks_state := st, change_timestamp := t\<rparr>" and ?w = "w\<lparr>w_store := s', w_clock := c\<rparr>"
  have run: "on_multi_set ops msg a w = Some (r, ?a, ?w)"
    using st(1) clk by (cases r) (simp_all add: on_multi_set_def Let_def p(1) [unfolded ds_def] inc_change_timestamp_Some
        es_def ds_def)
  have dD: "distinct (map doc_id D)" using dist by (simp add: D_def ds_def distinct_map_filter)
  have "map_option stored_meta (look s' ?ks k) = reg_meta (reg_of st k)" for k
  proof (cases "k \<in> doc_id ` set D")
    case True
    then obtain d where d: "d \<in> set D" "k = doc_id d" by blast
    then have "map_of es k = Some (last_updated d)" using map_of_is_SomeI [OF es(3)] es(2) by blast
    then show ?thesis using d put_docs_distinct(1) [OF dD d(1)] by (simp add: p(3) D_def [symmetric] st(3))
  next
    case False
    then have "map_of es k = None" by (auto simp: map_of_eq_None_iff es(2))
    then show ?thesis
      using ag put_docs_distinct(2) [OF dD False] by (simp add: p(3) D_def [symmetric] st(3) agrees_def)
  qed
  then have "actor_inv invar look ?a ?w" using p(2) st(2) by (simp add: actor_inv_def actor_wf_def agrees_def)
  then show ?thesis using run p(3,4) by (auto simp: others_kept_def ds_def conj_commute)
qed

lemma on_multi_del_spec:
  assumes inv: "actor_inv invar look a w" and src: "mdel_source msg < NUM_SOURCES"
    and kn: "known (w_store w) (ks_name a)"
    and dist: "distinct (map md_id (mdel_docs msg))"
    and ord: "\<forall>d \<in> set (mdel_docs msg). in_order (mdel_source msg) (md_last_updated d) (ks_state a)"
    and clk: "clock_get (w_clock w) = Some (t, c)"
  shows "\<exists>r a' w'. on_multi_del ops msg a w = Some (r, a', w') \<and> actor_inv invar look a' w' \<and>
    others_kept known look a w a' w' \<and> change_timestamp a' = t \<and>
    look (w_store w') (ks_name a) = put_tombstones (filter (\<lambda>d. will_apply (ks_state a) (md_id d) (md_last_updated d) \<and>
      applied r (md_id d)) (mdel_docs msg)) (look (w_store w) (ks_name a))"
proof -
  let ?ks = "ks_name a" and ?src = "mdel_source msg"
  define ds where "ds = filter (\<lambda>d. will_apply (ks_state a) (md_id d) (md_last_updated d)) (mdel_docs msg)"
  have wf: "orswot_wf NUM_SOURCES (ks_state a)" and iv: "invar (w_store w)" and ag: "agrees (look (w_store w)) a"
    using inv by (auto simp: actor_inv_def actor_wf_def)
  obtain r s' where p: "st_mark_many_as_tombstone ops ?ks ds (w_store w) = Some (r, s')" "invar s'"
    "look s' = (look (w_store w))(?ks := put_tombstones (filter (\<lambda>d. applied r (md_id d)) ds) (look (w_store w) ?ks))"
    "\<And>ks'. known (w_store w) ks' \<Longrightarrow> known s' ks'"
    using multi_tombstone [OF iv kn] by metis
  define D where "D = filter (\<lambda>d. applied r (md_id d)) ds"
  define es where "es = filter (\<lambda>e. applied r (fst e)) (sort_key snd (map (\<lambda>d. (md_id d, md_last_updated d)) ds))"
  have es: "sorted (map snd es)" "set es = (\<lambda>d. (md_id d, md_last_updated d)) ` set D" "distinct (map fst es)"
    using dist by (auto simp: es_def D_def ds_def sorted_filter sorted_batch_keys distinct_map_filter)
  have "\<forall>(k, ts) \<in> set es. in_order ?src ts (ks_state a) \<and> will_apply (ks_state a) k ts"
    using ord by (auto simp: es(2) D_def ds_def)
  from apply_entries(2) [OF wf src es(1,3) this] obtain st where
    st: "apply_deletes ?src es (ks_state a) = Some st" "orswot_wf NUM_SOURCES st"
      "\<And>k. reg_of st k = (case map_of es k of Some t \<Rightarrow> Dead t | None \<Rightarrow> reg_of (ks_state a) k)" by blast
  let ?a = "a\<lparr>ks_state := st, change_timestamp := t\<rparr>" and ?w = "w\<lparr>w_store := s', w_clock := c\<rparr>"
  have run: "on_multi_del ops msg a w = Some (r, ?a, ?w)"
    using st(1) clk by (cases r) (simp_all add: on_multi_del_def Let_def p(1) [unfolded ds_def] inc_change_timestamp_Some
        es_def ds_def)
  have dD: "distinct (map md_id D)" using dist by (simp add: D_def ds_def distinct_map_filter)
  have "map_option stored_meta (look s' ?ks k) = reg_meta (reg_of st k)" for k
  proof (cases "k \<in> md_id ` set D")
    case True
    then obtain d where d: "d \<in> set D" "k = md_id d" by blast
    then have "map_of es k = Some (md_last_updated d)" using map_of_is_SomeI [OF es(3)] es(2) by blast
    then show ?thesis using d put_tombstones_distinct(1) [OF dD d(1)] by (simp add: p(3) D_def [symmetric] st(3))
  next
    case False
    then have "map_of es k = None" by (auto simp: map_of_eq_None_iff es(2))
    then show ?thesis
      using ag put_tombstones_distinct(2) [OF dD False] by (simp add: p(3) D_def [symmetric] st(3) agrees_def)
  qed
  then have "actor_inv invar look ?a ?w" using p(2) st(2) by (simp add: actor_inv_def actor_wf_def agrees_def)
  then show ?thesis using run p(3,4) by (auto simp: others_kept_def ds_def conj_commute)
qed

lemma on_purge_tombstones_spec:
  assumes inv: "actor_inv invar look a w"
  shows "\<exists>r a' w'. on_purge_tombstones ops a w = Some (r, a', w') \<and> actor_inv invar look a' w' \<and>
    others_kept known look a w a' w' \<and>
    entries (ks_state a') = entries (ks_state a) \<and> versions (ks_state a') = versions (ks_state a) \<and>
    (\<forall>k. reg_of (ks_state a') k = reg_of (ks_state a) k \<or>
       reg_of (ks_state a') k = Absent \<and>
       (\<exists>t. reg_of (ks_state a) k = Dead t \<and> is_ts_before_last_observed_event (versions (ks_state a)) t))"
proof -
  let ?ks = "ks_name a" and ?st = "ks_state a"
  have wf: "orswot_wf NUM_SOURCES ?st" and iv: "invar (w_store w)" and ag: "agrees (look (w_store w)) a"
    using inv by (auto simp: actor_inv_def actor_wf_def)
  obtain ch st where p: "purge_old_deletes ?st = (ch, st)" by fastforce
  note pr = purge_old_deletes_reg [OF wf, unfolded p, simplified]
  have chm: "(k, t) \<in> set ch \<Longrightarrow> reg_of ?st k = Dead t" for k t using pr(5) by blast
  have "\<exists>t. look (w_store w) ?ks k = Some (Tombstone t)" if k: "k \<in> set (map fst ch)" for k
  proof -
    obtain t where "reg_of ?st k = Dead t" using k chm by auto
    then have "map_option stored_meta (look (w_store w) ?ks k) = Some (t, True)" using ag by (simp add: agrees_def)
    then show ?thesis by (cases "look (w_store w) ?ks k" rule: option.exhaust [case_product stored.exhaust]) (auto elim: stored_meta.elims)
  qed
  then obtain r s' where q: "st_remove_tombstones ops ?ks (map fst ch) (w_store w) = Some (r, s')" "invar s'"
    "look s' = (look (w_store w))(?ks := look (w_store w) ?ks |` (- {k \<in> set (map fst ch). applied r k}))"
    "\<And>ks'. known (w_store w) ks' \<Longrightarrow> known s' ks'"
    using remove [OF iv] by meson
  let ?a = "a\<lparr>ks_state := add_raw_tombstones (filter (\<lambda>e. \<not> applied r (fst e)) ch) st\<rparr>" and ?w = "w\<lparr>w_store := s'\<rparr>"
  have run: "\<exists>r'. on_purge_tombstones ops a w = Some (r', ?a, ?w)"
    by (cases r) (simp_all add: on_purge_tombstones_def p q(1) add_raw_tombstones_def)
  note regs = purge_some_reg [OF wf p, of "applied r"]
  have "agrees (look s') ?a"
    using ag by (auto simp: agrees_def q(3) regs(2) restrict_map_def)
  then have "actor_inv invar look ?a ?w" using q(2) regs(1) by (simp add: actor_inv_def actor_wf_def)
  moreover have "k \<in> set (map fst ch) \<Longrightarrow> \<exists>t. reg_of ?st k = Dead t \<and> is_ts_before_last_observed_event (versions ?st) t" for k
    using pr(5) by auto
  ultimately show ?thesis
    using run q(3,4) pr(2,3) regs(2) by (auto simp: others_kept_def add_raw_tombstones_simps)
qed

end

end
