(* ===== verification/Group.thy ===== *)
theory Group
  imports Keyspace "HOL-Library.List_Lexorder" "HOL-Library.Char_ord"
begin

text \<open>
  The keyspaces of a node, \<^verbatim>\<open>datacake-eventual-consistency/src/keyspace/group.rs\<close>. Spawned actors
  are the list \<open>g_actors\<close>; a mailbox is the index of its actor. The cell with the change timestamp
  is shared between an actor and \<open>keyspace_timestamps\<close>: the map holds the index of the actor that
  owns the cell, and loading the cell reads the actor. Maps keyed by a name are ordered as the
  names are, byte by byte.
\<close>

record 's keyspace_group =
  g_world :: "'s world"
  g_actors :: "keyspace_actor list"
  g_group :: "(string, nat) btree_map"
  keyspace_timestamps :: "(string, nat) btree_map"

record keyspace_info =
  info_timestamp :: hlc_timestamp
  info_keyspace_timestamps :: "(string, hlc_timestamp) btree_map"

definition group_new :: "'s world \<Rightarrow> 's keyspace_group" where
  "group_new w = \<lparr>g_world = w, g_actors = [], g_group = [], keyspace_timestamps = []\<rparr>"

text \<open>The cell of the change timestamp of a keyspace.\<close>

definition load_cell :: "'s keyspace_group \<Rightarrow> nat \<Rightarrow> hlc_timestamp" where
  "load_cell g i = change_timestamp (g_actors g ! i)"

definition as_serializable :: "'s keyspace_group \<Rightarrow> (string, hlc_timestamp) btree_map" where
  "as_serializable g =
     fold (\<lambda>(name, i) es. bt_insert name (load_cell g i) es) (keyspace_timestamps g) []"

text \<open>\<open>KeyspaceTimestamps::diff\<close>: the names whose timestamps differ or that one side lacks.\<close>

definition process_timestamp ::
  "string \<Rightarrow> hlc_timestamp \<Rightarrow> (string, hlc_timestamp \<times> nat \<times> bool) hash_map
    \<Rightarrow> (string, hlc_timestamp \<times> nat \<times> bool) hash_map" where
  "process_timestamp name val processed =
     (case map_of processed name of
        Some (existing, cnt, is_diff) \<Rightarrow> hm_insert name (existing, cnt + 1, is_diff \<or> existing \<noteq> val) processed
      | None \<Rightarrow> hm_insert name (val, 1, False) processed)"

definition timestamps_diff ::
  "(string, hlc_timestamp) btree_map \<Rightarrow> (string, hlc_timestamp) btree_map \<Rightarrow> string list" where
  "timestamps_diff self other =
     (let processed = fold (\<lambda>(name, val). process_timestamp name val) self [];
          processed = fold (\<lambda>(name, val). process_timestamp name val) other processed
      in map fst (filter (\<lambda>(name, val, cnt, is_diff). is_diff \<or> cnt \<noteq> 2) processed))"

definition get_keyspace_info :: "'s keyspace_group \<Rightarrow> (keyspace_info \<times> 's keyspace_group) exec" where
  "get_keyspace_info g =
     do { (ts, c) \<leftarrow> clock_get (w_clock (g_world g));
          let g = g\<lparr>g_world := (g_world g)\<lparr>w_clock := c\<rparr>\<rparr>;
          Some (\<lparr>info_timestamp = ts, info_keyspace_timestamps = as_serializable g\<rparr>, g) }"

text \<open>Creating an actor and its cell, before either map is changed.\<close>

definition spawn_state :: "string \<Rightarrow> orswot_set \<Rightarrow> 's keyspace_group \<Rightarrow> (nat \<times> 's keyspace_group) exec" where
  "spawn_state name state g =
     do { (ts, c) \<leftarrow> clock_get (w_clock (g_world g));
          Some (length (g_actors g),
            g\<lparr>g_world := (g_world g)\<lparr>w_clock := c\<rparr>, g_actors := g_actors g @ [spawn_keyspace name state ts]\<rparr>) }"

definition add_state :: "string \<Rightarrow> orswot_set \<Rightarrow> 's keyspace_group \<Rightarrow> (nat \<times> 's keyspace_group) exec" where
  "add_state name state g =
     do { (i, g) \<leftarrow> spawn_state name state g;
          Some (i, g\<lparr>g_group := bt_insert name i (g_group g),
                     keyspace_timestamps := bt_insert name i (keyspace_timestamps g)\<rparr>) }"

definition get_or_create_keyspace :: "string \<Rightarrow> 's keyspace_group \<Rightarrow> (nat \<times> 's keyspace_group) exec" where
  "get_or_create_keyspace name g =
     (case map_of (g_group g) name of
        Some i \<Rightarrow> Some (i, g)
      | None \<Rightarrow> add_state name (default_set NUM_SOURCES) g)"

primrec spawn_states ::
  "(string \<times> orswot_set) list \<Rightarrow> 's keyspace_group \<Rightarrow> ((string \<times> nat) list \<times> 's keyspace_group) exec" where
  "spawn_states [] g = Some ([], g)"
| "spawn_states (x # xs) g =
     do { (i, g) \<leftarrow> spawn_state (fst x) (snd x) g;
          (created, g) \<leftarrow> spawn_states xs g;
          Some ((fst x, i) # created, g) }"

definition load_states :: "(string \<times> orswot_set) list \<Rightarrow> 's keyspace_group \<Rightarrow> 's keyspace_group exec" where
  "load_states states g =
     do { (created, g) \<leftarrow> spawn_states states g;
          Some (g\<lparr>g_group := fold (\<lambda>(name, i). bt_insert name i) created (g_group g),
                  keyspace_timestamps := fold (\<lambda>(name, i). bt_insert name i) created (keyspace_timestamps g)\<rparr>) }"

text \<open>The set a keyspace's metadata rows stand for, replayed in timestamp order.\<close>

definition replay_entry :: "key \<times> hlc_timestamp \<times> bool \<Rightarrow> orswot_set \<Rightarrow> orswot_set exec" where
  "replay_entry = (\<lambda>(k, ts, tombstone) state.
     map_option snd (if tombstone then orswot_delete k ts state else orswot_insert k ts state))"

definition replay_metadata :: "(key \<times> hlc_timestamp \<times> bool) list \<Rightarrow> orswot_set exec" where
  "replay_metadata rows = exec_fold replay_entry (sort_key (\<lambda>e. fst (snd e)) rows) (default_set NUM_SOURCES)"

primrec read_states ::
  "('s, 'e) storage_ops \<Rightarrow> string list \<Rightarrow> (string, orswot_set) btree_map \<Rightarrow> ('s, 'e + (string, orswot_set) btree_map) action" where
  "read_states ops [] states s = Some (Inr states, s)"
| "read_states ops (ks # kss) states s =
     do { (r, s) \<leftarrow> st_iter_metadata ops ks s;
          case r of
            Inl e \<Rightarrow> Some (Inl e, s)
          | Inr rows \<Rightarrow>
              do { state \<leftarrow> replay_metadata rows;
                   read_states ops kss (bt_insert ks state states) s } }"

definition load_states_from_storage ::
  "('s, 'e) storage_ops \<Rightarrow> 's keyspace_group \<Rightarrow> (('e + unit) \<times> 's keyspace_group) exec" where
  "load_states_from_storage ops g =
     do { (r, s) \<leftarrow> st_get_keyspace_list ops (w_store (g_world g));
          case r of
            Inl e \<Rightarrow> Some (Inl e, g\<lparr>g_world := (g_world g)\<lparr>w_store := s\<rparr>\<rparr>)
          | Inr kss \<Rightarrow>
              do { (r, s) \<leftarrow> read_states ops kss [] s;
                   let g = g\<lparr>g_world := (g_world g)\<lparr>w_store := s\<rparr>\<rparr>;
                   case r of
                     Inl e \<Rightarrow> Some (Inl e, g)
                   | Inr states \<Rightarrow> do { g \<leftarrow> load_states states g; Some (Inr (), g) } } }"

text \<open>Sending a message to an actor: its handler runs on the actor and the node's store and clock.\<close>

definition send_to ::
  "nat \<Rightarrow> (keyspace_actor \<Rightarrow> 's world \<Rightarrow> ('r \<times> keyspace_actor \<times> 's world) exec) \<Rightarrow> 's keyspace_group
    \<Rightarrow> ('r \<times> 's keyspace_group) exec" where
  "send_to i handler g =
     do { rust_assert (i < length (g_actors g));
          (r, a, w) \<leftarrow> handler (g_actors g ! i) (g_world g);
          Some (r, g\<lparr>g_world := w, g_actors := (g_actors g)[i := a]\<rparr>) }"

text \<open>One round of \<open>keyspace_purge_task\<close>; a failed purge is only logged.\<close>

definition purge_round :: "('s, 'e) storage_ops \<Rightarrow> 's keyspace_group \<Rightarrow> 's keyspace_group exec" where
  "purge_round ops g =
     exec_fold (\<lambda>(name, i) g. map_option snd (send_to i (on_purge_tombstones ops) g)) (g_group g) g"


section \<open>Comparing keyspace timestamps\<close>

fun process_val :: "hlc_timestamp \<Rightarrow> (hlc_timestamp \<times> nat \<times> bool) option \<Rightarrow> hlc_timestamp \<times> nat \<times> bool" where
  "process_val val (Some (existing, cnt, is_diff)) = (existing, cnt + 1, is_diff \<or> existing \<noteq> val)"
| "process_val val None = (val, 1, False)"

lemma process_timestamp_eq: "process_timestamp name val P = hm_insert name (process_val val (map_of P name)) P"
  by (auto simp: process_timestamp_def split: option.split)

lemma fold_process:
  "hm_wf P \<Longrightarrow> distinct (map fst l) \<Longrightarrow> hm_wf (fold (\<lambda>(name, val). process_timestamp name val) l P) \<and>
    map_of (fold (\<lambda>(name, val). process_timestamp name val) l P) name =
      (case map_of l name of None \<Rightarrow> map_of P name | Some val \<Rightarrow> Some (process_val val (map_of P name)))"
proof (induction l arbitrary: P)
  case (Cons x l)
  obtain n v where x: "x = (n, v)" by (cases x)
  have "map_of l n = None" using Cons.prems(2) by (simp add: x map_of_eq_None_iff)
  moreover have "hm_wf (process_timestamp n v P)" using Cons.prems(1) by (simp add: process_timestamp_eq hm.invar_ins)
  ultimately show ?case
    using Cons.IH [of "process_timestamp n v P"] Cons.prems(2)
    by (auto simp: x process_timestamp_eq split: option.splits)
qed simp

lemma timestamps_diff_set:
  assumes "distinct (map fst self)" "distinct (map fst other)"
  shows "set (timestamps_diff self other) = {name. map_of self name \<noteq> map_of other name}"
    "distinct (timestamps_diff self other)"
proof -
  let ?P1 = "fold (\<lambda>(name, val). process_timestamp name val) self []"
  let ?P = "fold (\<lambda>(name, val). process_timestamp name val) other ?P1"
  have 1: "hm_wf ?P1" "\<And>n. map_of ?P1 n = map_option (\<lambda>v. (v, 1, False)) (map_of self n)"
    using fold_process [of "[]" self] assms(1) by (auto simp: hm_wf_def split: option.splits)
  have 2: "hm_wf ?P" "\<And>n. map_of ?P n = (case map_of other n of None \<Rightarrow> map_option (\<lambda>v. (v, 1, False)) (map_of self n)
      | Some w \<Rightarrow> Some (case map_of self n of None \<Rightarrow> (w, 1, False) | Some v \<Rightarrow> (v, 2, v \<noteq> w)))"
    using fold_process [OF 1(1) assms(2)] 1(2) by (auto split: option.splits)
  define P where "P = ?P"
  have td: "timestamps_diff self other = map fst (filter (\<lambda>(name, val, cnt, is_diff). is_diff \<or> cnt \<noteq> 2) P)"
    by (simp add: timestamps_diff_def P_def)
  have "n \<in> set (timestamps_diff self other) \<longleftrightarrow> (\<exists>v c d. map_of P n = Some (v, c, d) \<and> (d \<or> c \<noteq> 2))" for n
    unfolding td using hm_iter [OF 2(1) [folded P_def], of n] by (auto simp: image_iff)
  then show "set (timestamps_diff self other) = {name. map_of self name \<noteq> map_of other name}"
    using 2(2) [folded P_def] by (auto split: option.splits)
  show "distinct (timestamps_diff self other)"
    unfolding td using 2(1) [folded P_def] by (simp add: hm_wf_def distinct_map_filter)
qed

section \<open>Recovery\<close>

definition row_op :: "key \<times> hlc_timestamp \<times> bool \<Rightarrow> set_op" where
  "row_op = (\<lambda>(k, ts, tombstone). if tombstone then DeleteOp 0 k ts else InsertOp 0 k ts)"

lemma row_op_fields:
  "op_key (row_op e) = fst e" "op_ts (row_op e) = fst (snd e)" "op_source (row_op e) = 0"
  "reg_meta (snd (op_effect (row_op e))) = Some (snd e)"
  by (cases e; simp add: row_op_def)+

lemma replay_ops: "exec_fold replay_entry rows st = exec_fold apply_op (map row_op rows) st"
  by (induction rows arbitrary: st)
    (auto simp: replay_entry_def row_op_def orswot_insert_def orswot_delete_def split: prod.split)

text \<open>Replaying the rows gives a set with exactly these rows, in whatever order they come.\<close>

lemma replay_metadata_reg:
  assumes "distinct (map fst rows)"
  shows "\<exists>st. replay_metadata rows = Some st \<and> orswot_wf NUM_SOURCES st \<and> (\<forall>k. reg_meta (reg_of st k) = map_of rows k)"
proof -
  define xs where "xs = sort_key (\<lambda>e. fst (snd e)) rows"
  have ms: "mset xs = mset rows" by (simp add: xs_def)
  then have "mset (map fst xs) = mset (map fst rows)" by simp
  then have dist: "distinct (map fst xs)" using assms mset_eq_imp_distinct_iff by blast
  have keys: "map op_key (map row_op xs) = map fst xs" "map op_ts (map row_op xs) = map (\<lambda>e. fst (snd e)) xs"
    by (simp_all add: row_op_fields)
  have n: "0 < NUM_SOURCES" by (simp add: NUM_SOURCES_def)
  have srt: "sorted (map op_ts (map row_op xs))" "distinct (map op_key (map row_op xs))"
    unfolding keys using dist by (simp_all add: xs_def)
  have ord: "\<forall>x \<in> set (map row_op xs). op_source x = 0 \<and> op_in_order x (default_set NUM_SOURCES)"
    using in_order_default [OF n] by (auto simp: op_fields row_op_fields)
  obtain st where st: "exec_fold apply_op (map row_op xs) (default_set NUM_SOURCES) = Some st" "orswot_wf NUM_SOURCES st"
    "\<And>x. x \<in> set (map row_op xs) \<Longrightarrow> reg_of st (op_key x) = snd (op_effect x)"
    "\<And>k. k \<notin> op_key ` set (map row_op xs) \<Longrightarrow> reg_of st k = Absent"
    using apply_batch [OF orswot_wf_default n srt(1) ord srt(2)] unfolding reg_of_default max_reg_simps by blast
  have "reg_meta (reg_of st k) = map_of rows k" for k
  proof (cases "map_of rows k")
    case None
    then have "k \<notin> fst ` set xs" using ms by (simp add: map_of_eq_None_iff xs_def)
    then have "k \<notin> op_key ` set (map row_op xs)" by (simp add: row_op_fields image_image)
    then show ?thesis using st(4) None by simp
  next
    case (Some v)
    then have "(k, v) \<in> set xs" by (auto simp: xs_def dest: map_of_SomeD)
    then have "reg_of st (op_key (row_op (k, v))) = snd (op_effect (row_op (k, v)))" using st(3) by auto
    then show ?thesis using Some by (simp add: row_op_fields)
  qed
  then show ?thesis using st by (auto simp: replay_metadata_def replay_ops xs_def)
qed


text \<open>
  A well-formed group: both maps name the same actors, and the actor under a name carries it.
  Two names never share an actor.
\<close>

definition group_wf :: "'s keyspace_group \<Rightarrow> bool" where
  "group_wf g \<longleftrightarrow> bt_wf (g_group g) \<and> keyspace_timestamps g = g_group g \<and>
     (\<forall>name i. map_of (g_group g) name = Some i \<longrightarrow> i < length (g_actors g) \<and> ks_name (g_actors g ! i) = name)"

lemma group_wf_new: "group_wf (group_new w)"
  by (simp add: group_wf_def group_new_def)

lemma spawn_state_Some:
  assumes "spawn_state name st g = Some (i, g')"
  shows "i = length (g_actors g)" "g_group g' = g_group g" "keyspace_timestamps g' = keyspace_timestamps g"
    "w_store (g_world g') = w_store (g_world g)"
    "\<exists>ts c. clock_get (w_clock (g_world g)) = Some (ts, c) \<and> w_clock (g_world g') = c \<and>
       g_actors g' = g_actors g @ [spawn_keyspace name st ts]"
  using assms by (auto simp: spawn_state_def split: bind_splits)

lemma add_state_spec:
  assumes wf: "group_wf g" and clk: "clock_get (w_clock (g_world g)) = Some (ts, c)"
  shows "\<exists>g'. add_state name st g = Some (length (g_actors g), g') \<and> group_wf g' \<and>
    w_store (g_world g') = w_store (g_world g) \<and>
    map_of (g_group g') = (map_of (g_group g))(name \<mapsto> length (g_actors g)) \<and>
    g_actors g' = g_actors g @ [spawn_keyspace name st ts]"
  using assms
  by (auto simp: add_state_def spawn_state_def group_wf_def bt_wf_insert spawn_keyspace_def nth_append less_Suc_eq)

lemma get_or_create_keyspace_spec:
  assumes wf: "group_wf g" and clk: "clock_get (w_clock (g_world g)) = Some (ts, c)"
  shows "\<exists>i g'. get_or_create_keyspace name g = Some (i, g') \<and> group_wf g' \<and>
    map_of (g_group g') name = Some i \<and> i < length (g_actors g') \<and> ks_name (g_actors g' ! i) = name \<and>
    w_store (g_world g') = w_store (g_world g) \<and>
    (\<forall>j < length (g_actors g). g_actors g' ! j = g_actors g ! j) \<and>
    (map_of (g_group g) name = None \<longrightarrow> ks_state (g_actors g' ! i) = default_set NUM_SOURCES) \<and>
    (map_of (g_group g) name \<noteq> None \<longrightarrow> g' = g)"
proof (cases "map_of (g_group g) name")
  case None
  obtain g' where "add_state name (default_set NUM_SOURCES) g = Some (length (g_actors g), g')" "group_wf g'"
    "map_of (g_group g') = (map_of (g_group g))(name \<mapsto> length (g_actors g))"
    "g_actors g' = g_actors g @ [spawn_keyspace name (default_set NUM_SOURCES) ts]"
    "w_store (g_world g') = w_store (g_world g)"
    using add_state_spec [OF assms] by blast
  then show ?thesis using None
    by (auto simp: get_or_create_keyspace_def spawn_keyspace_def nth_append)
next
  case (Some i)
  then show ?thesis using wf by (auto simp: get_or_create_keyspace_def group_wf_def)
qed

lemma spawn_states_spec:
  assumes "clock_answers (length sts) (w_clock (g_world g))"
  shows "\<exists>created g'. spawn_states sts g = Some (created, g') \<and> map fst created = map fst sts \<and>
    g_group g' = g_group g \<and> keyspace_timestamps g' = keyspace_timestamps g \<and>
    w_store (g_world g') = w_store (g_world g) \<and>
    (\<forall>j < length (g_actors g). j < length (g_actors g') \<and> g_actors g' ! j = g_actors g ! j) \<and>
    length (g_actors g) \<le> length (g_actors g') \<and>
    (\<forall>(x, e) \<in> set (zip sts created). snd e < length (g_actors g') \<and>
       ks_name (g_actors g' ! snd e) = fst x \<and> ks_state (g_actors g' ! snd e) = snd x)"
  using assms
proof (induction sts arbitrary: g)
  case (Cons x sts)
  obtain ts c where c: "clock_get (w_clock (g_world g)) = Some (ts, c)" "clock_answers (length sts) c"
    using Cons.prems by (auto split: option.splits)
  let ?g = "g\<lparr>g_world := (g_world g)\<lparr>w_clock := c\<rparr>, g_actors := g_actors g @ [spawn_keyspace (fst x) (snd x) ts]\<rparr>"
  have s: "spawn_state (fst x) (snd x) g = Some (length (g_actors g), ?g)"
    by (simp add: spawn_state_def c(1))
  obtain created g' where ih: "spawn_states sts ?g = Some (created, g')" "map fst created = map fst sts"
    "g_group g' = g_group g" "keyspace_timestamps g' = keyspace_timestamps g" "w_store (g_world g') = w_store (g_world g)"
    "\<And>j. j < Suc (length (g_actors g)) \<Longrightarrow> j < length (g_actors g') \<and> g_actors g' ! j = g_actors ?g ! j"
    "\<forall>(x, e) \<in> set (zip sts created). snd e < length (g_actors g') \<and>
       ks_name (g_actors g' ! snd e) = fst x \<and> ks_state (g_actors g' ! snd e) = snd x"
    using Cons.IH [of ?g] c(2) by auto
  have "j < length (g_actors g') \<and> g_actors g' ! j = g_actors g ! j" if "j < length (g_actors g)" for j
    using ih(6) [of j] that by (simp add: nth_append)
  moreover have "length (g_actors g) < length (g_actors g') \<and> g_actors g' ! length (g_actors g) = spawn_keyspace (fst x) (snd x) ts"
    using ih(6) [of "length (g_actors g)"] by simp
  moreover have "length (g_actors g) \<le> length (g_actors g')"
    using ih(6) [of "length (g_actors g)"] by simp
  ultimately show ?case
    using ih(1-5,7) s by (auto simp: spawn_keyspace_def)
qed simp

lemma load_states_spec:
  assumes wf: "group_wf g" and clk: "clock_answers (length sts) (w_clock (g_world g))" and dist: "distinct (map fst sts)"
  shows "\<exists>g'. load_states sts g = Some g' \<and> group_wf g' \<and> w_store (g_world g') = w_store (g_world g) \<and>
    (\<forall>(name, st) \<in> set sts. \<exists>i. map_of (g_group g') name = Some i \<and> ks_state (g_actors g' ! i) = st) \<and>
    (\<forall>name. name \<notin> fst ` set sts \<longrightarrow> map_of (g_group g') name = map_of (g_group g) name) \<and>
    (\<forall>j < length (g_actors g). g_actors g' ! j = g_actors g ! j)"
proof -
  obtain created g1 where c: "spawn_states sts g = Some (created, g1)" "map fst created = map fst sts"
    "g_group g1 = g_group g" "keyspace_timestamps g1 = keyspace_timestamps g" "w_store (g_world g1) = w_store (g_world g)"
    "\<forall>j < length (g_actors g). j < length (g_actors g1) \<and> g_actors g1 ! j = g_actors g ! j"
    "\<forall>(x, e) \<in> set (zip sts created). snd e < length (g_actors g1) \<and>
       ks_name (g_actors g1 ! snd e) = fst x \<and> ks_state (g_actors g1 ! snd e) = snd x"
    using spawn_states_spec [OF clk] by blast
  define m where "m = fold (\<lambda>(name, i). bt_insert name i) created (g_group g)"
  let ?g = "g1\<lparr>g_group := m, keyspace_timestamps := m\<rparr>"
  have run: "load_states sts g = Some ?g"
    using wf by (simp add: load_states_def c(1,3,4) m_def group_wf_def)
  have dc: "distinct (map fst created)" using dist c(2) by simp
  then have look: "map_of m = map_of (g_group g) ++ map_of created"
    by (simp add: m_def bt.look_extend) (metis distinct_rev map_of_inject_set rev_map set_rev)
  have mw: "bt_wf m" using wf by (simp add: m_def group_wf_def bt.invar_extend)
  have pair: "\<exists>x. (x, e) \<in> set (zip sts created) \<and> fst x = fst e" if "e \<in> set created" for e
    using that c(2) by (metis in_set_conv_nth in_set_zip length_map nth_map fst_conv snd_conv)
  have cr: "i < length (g_actors g1) \<and> ks_name (g_actors g1 ! i) = name" if "map_of created name = Some i" for name i
    using pair [of "(name, i)"] that c(7) by (fastforce dest: map_of_SomeD)
  have "group_wf ?g"
    using wf mw cr c(6) by (auto simp: group_wf_def look map_add_def split: option.splits)
  moreover have "\<exists>i. map_of m name = Some i \<and> ks_state (g_actors g1 ! i) = st" if mem: "(name, st) \<in> set sts" for name st
  proof -
    obtain j where j: "j < length sts" "sts ! j = (name, st)" using mem by (auto simp: in_set_conv_nth)
    then have len: "j < length created" using c(2) by (metis length_map)
    then have "((name, st), created ! j) \<in> set (zip sts created)" using j by (metis in_set_zip fst_conv snd_conv)
    moreover have "fst (created ! j) = name" using c(2) j len by (metis nth_map fst_conv)
    then have "map_of created name = Some (snd (created ! j))" using dc len by (metis map_of_is_SomeI nth_mem prod.collapse)
    ultimately show ?thesis using c(7) by (auto simp: look map_add_def)
  qed
  moreover have "map_of m name = map_of (g_group g) name" if "name \<notin> fst ` set sts" for name
  proof -
    have "name \<notin> fst ` set created" using that c(2) by (metis list.set_map)
    then have "map_of created name = None" by (simp add: map_of_eq_None_iff)
    then show ?thesis by (simp add: look map_add_def)
  qed
  ultimately show ?thesis using run c(5,6) by auto
qed


text \<open>
  A node in order: every keyspace with something stored has an actor, and every actor agrees with
  the store.
\<close>

definition group_inv ::
  "('s \<Rightarrow> bool) \<Rightarrow> ('s \<Rightarrow> string \<Rightarrow> key \<rightharpoonup> stored) \<Rightarrow> 's keyspace_group \<Rightarrow> bool" where
  "group_inv invar look g \<longleftrightarrow> group_wf g \<and> invar (w_store (g_world g)) \<and>
     (\<forall>name i. map_of (g_group g) name = Some i \<longrightarrow> actor_inv invar look (g_actors g ! i) (g_world g)) \<and>
     (\<forall>name. map_of (g_group g) name = None \<longrightarrow> look (w_store (g_world g)) name = Map.empty)"

lemma actor_inv_cong:
  "w_store w' = w_store w \<Longrightarrow> actor_inv invar look a w' = actor_inv invar look a w"
  by (simp add: actor_inv_def)

lemma group_inv_create:
  assumes inv: "group_inv invar look g" and run: "get_or_create_keyspace name g = Some (i, g')"
    and clk: "clock_get (w_clock (g_world g)) = Some (ts, c)"
  shows "group_inv invar look g'" "map_of (g_group g') name = Some i"
proof -
  have wf: "group_wf g" using inv by (simp add: group_inv_def)
  have g': "group_wf g'" "map_of (g_group g') name = Some i" "ks_name (g_actors g' ! i) = name"
    "w_store (g_world g') = w_store (g_world g)" "\<forall>j < length (g_actors g). g_actors g' ! j = g_actors g ! j"
    "map_of (g_group g) name = None \<Longrightarrow> ks_state (g_actors g' ! i) = default_set NUM_SOURCES"
    "map_of (g_group g) name \<noteq> None \<Longrightarrow> g' = g"
    using get_or_create_keyspace_spec [OF wf clk, of name] run by auto
  show "map_of (g_group g') name = Some i" by (rule g'(2))
  show "group_inv invar look g'"
  proof (cases "map_of (g_group g) name")
    case None
    have m: "map_of (g_group g') = (map_of (g_group g))(name \<mapsto> i)"
      using run None clk by (auto simp: get_or_create_keyspace_def add_state_def spawn_state_def)
    have "actor_inv invar look (g_actors g' ! i) (g_world g')"
      using inv None g'(3,4,6) orswot_wf_default by (simp add: group_inv_def actor_inv_def actor_wf_def agrees_def)
    moreover have "actor_inv invar look (g_actors g' ! j) (g_world g')" if "map_of (g_group g) n = Some j" for n j
      using inv that g'(4,5) by (auto simp: group_inv_def group_wf_def actor_inv_cong [OF g'(4)])
    ultimately show ?thesis using inv g'(1,4) by (auto simp: group_inv_def m)
  qed (use g'(7) inv in simp)
qed

lemma send_to_inv:
  assumes inv: "group_inv invar look g" and i: "map_of (g_group g) name = Some i"
    and h: "h (g_actors g ! i) (g_world g) = Some (r, a', w')"
    and keep: "actor_inv invar look a' w'" "others_kept known look (g_actors g ! i) (g_world g) a' w'"
  shows "\<exists>g'. send_to i h g = Some (r, g') \<and> group_inv invar look g' \<and> g_group g' = g_group g \<and>
    g_world g' = w' \<and> g_actors g' = (g_actors g)[i := a']"
proof -
  have wf: "i < length (g_actors g)" "ks_name (g_actors g ! i) = name" using inv i by (auto simp: group_inv_def group_wf_def)
  let ?g = "g\<lparr>g_world := w', g_actors := (g_actors g)[i := a']\<rparr>"
  have nm: "ks_name a' = name" and oth: "\<And>n. n \<noteq> name \<Longrightarrow> look (w_store w') n = look (w_store (g_world g)) n"
    using keep(2) wf(2) by (auto simp: others_kept_def)
  have run: "send_to i h g = Some (r, ?g)" using wf h by (simp add: send_to_def)
  have act: "actor_inv invar look (g_actors ?g ! j) w'" if j: "map_of (g_group g) n = Some j" for n j
  proof (cases "j = i")
    case True
    then show ?thesis using keep(1) wf by simp
  next
    case False
    have nj: "ks_name (g_actors g ! j) = n" "actor_inv invar look (g_actors g ! j) (g_world g)"
      using inv j by (auto simp: group_inv_def group_wf_def)
    have "n \<noteq> name" using False j i by auto
    then show ?thesis using False nj keep(1) oth by (simp add: actor_inv_def agrees_def)
  qed
  have "n = name" if "map_of (g_group g) n = Some i" for n
    using that inv wf(2) by (auto simp: group_inv_def group_wf_def)
  then have "group_wf ?g" using inv nm wf(1) by (auto simp: group_inv_def group_wf_def nth_list_update)
  moreover have "look (w_store w') n = Map.empty" if "map_of (g_group g) n = None" for n
  proof -
    have "n \<noteq> name" using that i by auto
    then show ?thesis using inv that oth [of n] by (simp add: group_inv_def)
  qed
  ultimately have "group_inv invar look ?g" using act keep(1) by (simp add: group_inv_def actor_inv_def)
  then show ?thesis using run by simp
qed

text \<open>A set that stands for what is stored of a keyspace.\<close>

definition restored :: "(key \<Rightarrow> stored option) \<Rightarrow> orswot_set \<Rightarrow> bool" where
  "restored m st \<longleftrightarrow> orswot_wf NUM_SOURCES st \<and> (\<forall>k. reg_meta (reg_of st k) = map_option stored_meta (m k))"

context storage
begin

lemma read_states_spec:
  assumes "invar s" "\<forall>ks st. map_of states ks = Some st \<longrightarrow> restored (look s ks) st" "bt_wf states"
  shows "\<exists>r s'. read_states ops kss states s = Some (r, s') \<and> invar s' \<and> look s' = look s \<and>
    (\<forall>ks'. known s ks' \<longrightarrow> known s' ks') \<and>
    (\<forall>sts. r = Inr sts \<longrightarrow> bt_wf sts \<and> dom (map_of sts) = dom (map_of states) \<union> set kss \<and>
       (\<forall>ks st. map_of sts ks = Some st \<longrightarrow> restored (look s ks) st))"
  using assms
proof (induction kss arbitrary: states s)
  case (Cons ks kss)
  obtain r s1 where it: "st_iter_metadata ops ks s = Some (r, s1)" "invar s1" "look s1 = look s"
    "\<forall>ks'. known s ks' \<longrightarrow> known s1 ks'"
    "\<And>l. r = Inr l \<Longrightarrow> distinct (map fst l) \<and> map_of l = map_option stored_meta \<circ> look s ks"
    using iterate [OF Cons.prems(1), of ks] by blast
  show ?case
  proof (cases r)
    case (Inr rows)
    obtain st where st: "replay_metadata rows = Some st" "orswot_wf NUM_SOURCES st"
      "\<And>k. reg_meta (reg_of st k) = map_of rows k"
      using replay_metadata_reg it(5) [OF Inr] by blast
    have "restored (look s ks) st" using st(2,3) it(5) [OF Inr] by (simp add: restored_def)
    then have "\<forall>ks' st'. map_of (bt_insert ks st states) ks' = Some st' \<longrightarrow> restored (look s1 ks') st'"
      using Cons.prems(2) by (simp add: it(3))
    from Cons.IH [OF it(2) this] show ?thesis
      using Cons.prems(3) it Inr st(1) by (auto simp: bt_wf_insert)
  qed (use it in auto)
qed auto

text \<open>When every keyspace read has an actor with the state read, and nothing is stored elsewhere, node and store agree.\<close>

lemma loaded_inv:
  assumes sts: "distinct (map fst sts)" "dom (map_of sts) = K" "\<forall>ks st. map_of sts ks = Some st \<longrightarrow> restored (look s ks) st"
    and stored: "\<forall>ks k. look s ks k \<noteq> None \<longrightarrow> ks \<in> K"
    and g: "group_wf g" "\<forall>(name, st) \<in> set sts. \<exists>i. map_of (g_group g) name = Some i \<and> ks_state (g_actors g ! i) = st"
      "\<And>name. name \<notin> fst ` set sts \<Longrightarrow> map_of (g_group g) name = None"
    and s: "invar (w_store (g_world g))" "look (w_store (g_world g)) = look s"
  shows "group_inv invar look g"
proof -
  have "actor_inv invar look (g_actors g ! i) (g_world g)" if i: "map_of (g_group g) name = Some i" for name i
  proof -
    have "name \<in> fst ` set sts" using g(3) i by force
    then obtain st where st: "(name, st) \<in> set sts" by auto
    then have "restored (look s name) st" using sts(1,3) by simp
    moreover have "ks_state (g_actors g ! i) = st" "ks_name (g_actors g ! i) = name"
      using g(1,2) st i by (auto simp: group_wf_def)
    ultimately show ?thesis using s by (simp add: actor_inv_def actor_wf_def agrees_def restored_def)
  qed
  moreover have "look s name = Map.empty" if n: "map_of (g_group g) name = None" for name
  proof -
    have "(name, st) \<notin> set sts" for st using g(2) n by fastforce
    then have "name \<notin> dom (map_of sts)" by (auto dest: map_of_SomeD)
    then have "look s name k = None" for k using stored sts(2) by blast
    then show ?thesis by (simp add: fun_eq_iff)
  qed
  ultimately show ?thesis using g(1) s by (simp add: group_inv_def)
qed

lemma load_states_from_storage_spec:
  assumes inv: "invar (w_store (g_world g))" and fresh: "g_group g = []" "keyspace_timestamps g = []"
    and clk: "\<And>kss s1. st_get_keyspace_list ops (w_store (g_world g)) = Some (Inr kss, s1) \<Longrightarrow>
      clock_answers (card (set kss)) (w_clock (g_world g))"
  shows "\<exists>r g'. load_states_from_storage ops g = Some (r, g') \<and>
    look (w_store (g_world g')) = look (w_store (g_world g)) \<and>
    (is_ok r \<longrightarrow> group_inv invar look g')"
proof -
  let ?s = "w_store (g_world g)"
  obtain r s1 where l: "st_get_keyspace_list ops ?s = Some (r, s1)" "invar s1" "look s1 = look ?s"
    "\<And>kss. r = Inr kss \<Longrightarrow> \<forall>ks k. look ?s ks k \<noteq> None \<longrightarrow> ks \<in> set kss"
    using keyspaces [OF inv] by blast
  show ?thesis
  proof (cases r)
    case (Inl e)
    then show ?thesis using l by (simp add: load_states_from_storage_def)
  next
    case (Inr kss)
    obtain r2 s2 where r: "read_states ops kss [] s1 = Some (r2, s2)" "invar s2" "look s2 = look ?s"
      "\<And>sts. r2 = Inr sts \<Longrightarrow> bt_wf sts \<and> dom (map_of sts) = set kss \<and>
         (\<forall>ks st. map_of sts ks = Some st \<longrightarrow> restored (look ?s ks) st)"
      using read_states_spec [OF l(2), of "[]" kss] l(3) by auto
    let ?g = "g\<lparr>g_world := (g_world g)\<lparr>w_store := s2\<rparr>\<rparr>"
    show ?thesis
    proof (cases r2)
      case Inl2: (Inl e)
      then show ?thesis using l Inr r by (simp add: load_states_from_storage_def)
    next
      case Inr2: (Inr sts)
      note sts = r(4) [OF Inr2]
      have wf: "group_wf ?g" using fresh by (simp add: group_wf_def)
      have dist: "distinct (map fst sts)" using sts by (simp add: bt_wf_distinct)
      have "length sts = card (set kss)"
        using dist sts by (metis distinct_card dom_map_of_conv_image_fst length_map list.set_map)
      then have ans: "clock_answers (length sts) (w_clock (g_world ?g))"
        using clk [of kss s1] l(1) Inr by simp
      obtain g' where g': "load_states sts ?g = Some g'" "group_wf g'" "w_store (g_world g') = s2"
        "\<forall>(name, st) \<in> set sts. \<exists>i. map_of (g_group g') name = Some i \<and> ks_state (g_actors g' ! i) = st"
        "\<And>name. name \<notin> fst ` set sts \<Longrightarrow> map_of (g_group g') name = None"
        using load_states_spec [OF wf ans dist] fresh by auto
      have "group_inv invar look g'"
        using sts r(2,3) by (intro loaded_inv [OF dist _ _ l(4) [OF Inr] g'(2,4,5)]) (simp_all add: g'(3))
      then show ?thesis using l(1) Inr r(1,3) Inr2 g'(1,3) by (simp add: load_states_from_storage_def)
    qed
  qed
qed

lemma purge_round_spec:
  assumes "group_inv invar look g"
  shows "\<exists>g'. purge_round ops g = Some g' \<and> group_inv invar look g' \<and> g_group g' = g_group g \<and>
    (\<forall>name i. map_of (g_group g) name = Some i \<longrightarrow>
       entries (ks_state (g_actors g' ! i)) = entries (ks_state (g_actors g ! i)))"
proof -
  have step: "\<exists>g'. exec_fold (\<lambda>(name, i) g. map_option snd (send_to i (on_purge_tombstones ops) g)) xs g1 = Some g' \<and>
      group_inv invar look g' \<and> g_group g' = g_group g1 \<and>
      (\<forall>name i. map_of (g_group g1) name = Some i \<longrightarrow>
        entries (ks_state (g_actors g' ! i)) = entries (ks_state (g_actors g1 ! i)))"
    if "group_inv invar look g1" "\<forall>(name, i) \<in> set xs. map_of (g_group g1) name = Some i" for xs g1
    using that
  proof (induction xs arbitrary: g1)
    case (Cons x xs)
    obtain name i where x: "x = (name, i)" "map_of (g_group g1) name = Some i" using Cons.prems(2) by (cases x) auto
    then have i: "i < length (g_actors g1)" "actor_inv invar look (g_actors g1 ! i) (g_world g1)"
      using Cons.prems(1) by (auto simp: group_inv_def group_wf_def)
    obtain r a' w' where p: "on_purge_tombstones ops (g_actors g1 ! i) (g_world g1) = Some (r, a', w')"
      "actor_inv invar look a' w'" "others_kept known look (g_actors g1 ! i) (g_world g1) a' w'"
      "entries (ks_state a') = entries (ks_state (g_actors g1 ! i))"
      using on_purge_tombstones_spec [OF i(2)] by blast
    obtain g2 where g2: "send_to i (on_purge_tombstones ops) g1 = Some (r, g2)" "group_inv invar look g2"
      "g_group g2 = g_group g1" "g_actors g2 = (g_actors g1)[i := a']"
      using send_to_inv [where h = "on_purge_tombstones ops", OF Cons.prems(1) x(2) p(1-3)] by blast
    have "entries (ks_state (g_actors g2 ! j)) = entries (ks_state (g_actors g1 ! j))" for j
      using g2(4) p(4) i(1) by (cases "j = i") auto
    then show ?case using Cons.IH [OF g2(2)] Cons.prems(2) g2(1,3) x(1) by auto
  qed auto
  have "bt_wf (g_group g)" using assms by (simp add: group_inv_def group_wf_def)
  then have "\<forall>(name, i) \<in> set (g_group g). map_of (g_group g) name = Some i" by (auto simp: bt_iter)
  then show ?thesis using step [OF assms, of "g_group g"] by (simp add: purge_round_def)
qed

end

end
