(* ===== verification/Services.thy ===== *)
theory Services
  imports Group
begin

text \<open>
  The two RPC services of a node, \<^verbatim>\<open>datacake-eventual-consistency/src/rpc/services/\<close>, and the clients
  other nodes call them with, \<^verbatim>\<open>rpc/client.rs\<close>, with the error type of the RPC layer,
  \<^verbatim>\<open>datacake-rpc/src/net/status.rs\<close>. A handler is a function of the node's group. A received buffer
  is a \<open>view\<close>: \<open>None\<close> when the serialisation library \<open>rkyv\<close> does not read it as a value of its type.
  The bytes a set is sent as are the library's too: the parameters \<open>ser\<close> and \<open>deser\<close>. A client sends
  through a parameter \<open>rpc\<close>, the connection to a node, which may fail.
\<close>

section \<open>Status\<close>

datatype error_code = ServiceUnavailable | InternalError | InvalidPayload | ConnectionError | Timeout

record status =
  status_code :: error_code
  status_message :: string

definition unavailable :: "string \<Rightarrow> status" where
  "unavailable msg = \<lparr>status_code = ServiceUnavailable, status_message = msg\<rparr>"

definition internal :: "string \<Rightarrow> status" where
  "internal msg = \<lparr>status_code = InternalError, status_message = msg\<rparr>"

definition invalid :: status where
  "invalid = \<lparr>status_code = InvalidPayload,
     status_message = ''Invalid message payload was provided to be deserialized.''\<rparr>"

definition connection :: "string \<Rightarrow> status" where
  "connection msg = \<lparr>status_code = ConnectionError, status_message = msg\<rparr>"

definition timeout :: status where
  "timeout = \<lparr>status_code = Timeout, status_message = ''The operation took to long to be completed.''\<rparr>"

primrec error_code_debug :: "error_code \<Rightarrow> string" where
  "error_code_debug ServiceUnavailable = ''ServiceUnavailable''"
| "error_code_debug InternalError = ''InternalError''"
| "error_code_debug InvalidPayload = ''InvalidPayload''"
| "error_code_debug ConnectionError = ''ConnectionError''"
| "error_code_debug Timeout = ''Timeout''"

definition status_display :: "status \<Rightarrow> string" where
  "status_display st = error_code_debug (status_code st) @ '': '' @ status_message st"

type_synonym 'm view = "'m option"

text \<open>\<open>DataView::to_owned\<close> with its error as an internal one.\<close>

definition to_owned :: "'m view \<Rightarrow> status + 'm" where
  "to_owned v = ok_or (internal ''View cannot be made for type with provided data.'') v"

section \<open>Messages\<close>

definition CONSISTENCY_SOURCE_ID :: nat where
  "CONSISTENCY_SOURCE_ID = 0"

definition READ_REPAIR_SOURCE_ID :: nat where
  "READ_REPAIR_SOURCE_ID = 1"

record rpc_context =
  cx_node_id :: u8
  cx_node_addr :: string

record put_payload =
  pp_keyspace :: string
  pp_ctx :: "rpc_context option"
  pp_document :: document
  pp_timestamp :: hlc_timestamp

record multi_put_payload =
  mp_keyspace :: string
  mp_ctx :: "rpc_context option"
  mp_documents :: "document list"
  mp_timestamp :: hlc_timestamp

record remove_payload =
  rp_keyspace :: string
  rp_document :: document_metadata
  rp_timestamp :: hlc_timestamp

record multi_remove_payload =
  mr_keyspace :: string
  mr_documents :: "document_metadata list"
  mr_timestamp :: hlc_timestamp

record batch_payload =
  bp_timestamp :: hlc_timestamp
  bp_modified :: "multi_put_payload list"
  bp_removed :: "multi_remove_payload list"

record get_state_msg =
  gs_keyspace :: string
  gs_timestamp :: hlc_timestamp

record keyspace_orswot_set =
  ko_timestamp :: hlc_timestamp
  ko_last_updated :: hlc_timestamp
  ko_set :: "u8 list"

record fetch_docs_msg =
  fd_keyspace :: string
  fd_doc_ids :: "key list"
  fd_timestamp :: hlc_timestamp

record fetched_docs =
  fe_documents :: "document list"
  fe_timestamp :: hlc_timestamp

section \<open>The consistency service\<close>

text \<open>The error texts of the store are the parameter \<open>text\<close>.\<close>

type_synonym ('s, 'r) handler = "'s keyspace_group \<Rightarrow> ((status + 'r) \<times> 's keyspace_group) exec"

definition group_get_time :: "'s keyspace_group \<Rightarrow> (hlc_timestamp \<times> 's keyspace_group) exec" where
  "group_get_time g =
     do { (ts, c) \<leftarrow> clock_get (w_clock (g_world g)); Some (ts, g\<lparr>g_world := (g_world g)\<lparr>w_clock := c\<rparr>\<rparr>) }"

definition group_register_ts :: "hlc_timestamp \<Rightarrow> 's keyspace_group \<Rightarrow> 's keyspace_group exec" where
  "group_register_ts ts g =
     do { c \<leftarrow> clock_register ts (w_clock (g_world g)); Some (g\<lparr>g_world := (g_world g)\<lparr>w_clock := c\<rparr>\<rparr>) }"

definition get_put_ctx :: "rpc_context option \<Rightarrow> status + put_context option" where
  "get_put_ctx ctx = Inr (map_option (\<lambda>info. \<lparr>ctx_progress = \<lparr>progress_counter = 0, tracker_done = False\<rparr>,
     remote_node_id = cx_node_id info, remote_addr = cx_node_addr info\<rparr>) ctx)"

definition try_send ::
  "('x \<Rightarrow> string) \<Rightarrow> nat \<Rightarrow> (keyspace_actor \<Rightarrow> 's world \<Rightarrow> (('x + unit) \<times> keyspace_actor \<times> 's world) exec) \<Rightarrow> ('s, unit) handler" where
  "try_send text i h g =
     do { (r, g) \<leftarrow> send_to i h g;
          Some (case r of Inl e \<Rightarrow> Inl (internal (text e)) | Inr u \<Rightarrow> Inr (), g) }"

text \<open>What the four handlers of a single message share.\<close>

definition handle_write ::
  "('x \<Rightarrow> string) \<Rightarrow> hlc_timestamp \<Rightarrow> string \<Rightarrow>
    (keyspace_actor \<Rightarrow> 's world \<Rightarrow> (('x + unit) \<times> keyspace_actor \<times> 's world) exec) \<Rightarrow> ('s, hlc_timestamp) handler" where
  "handle_write text ts name h g =
     do { g \<leftarrow> group_register_ts ts g;
          (i, g) \<leftarrow> get_or_create_keyspace name g;
          (r, g) \<leftarrow> try_send text i h g;
          case r of
            Inl e \<Rightarrow> Some (Inl e, g)
          | Inr u \<Rightarrow> do { (ts, g) \<leftarrow> group_get_time g; Some (Inr ts, g) } }"

definition on_put_payload ::
  "('s, 'e) storage_ops \<Rightarrow> ('e \<Rightarrow> string) \<Rightarrow> put_payload view \<Rightarrow> ('s, hlc_timestamp) handler" where
  "on_put_payload ops text msg g =
     (case to_owned msg of Inl e \<Rightarrow> Some (Inl e, g) | Inr payload \<Rightarrow>
      case get_put_ctx (pp_ctx payload) of Inl e \<Rightarrow> Some (Inl e, g) | Inr ctx \<Rightarrow>
        handle_write text (pp_timestamp payload) (pp_keyspace payload)
          (on_set ops \<lparr>set_source = CONSISTENCY_SOURCE_ID, set_doc = pp_document payload, set_ctx = ctx\<rparr>) g)"

definition on_multi_put_payload ::
  "('s, 'e) storage_ops \<Rightarrow> ('e bulk_mutation_error \<Rightarrow> string) \<Rightarrow> multi_put_payload view \<Rightarrow> ('s, hlc_timestamp) handler" where
  "on_multi_put_payload ops text msg g =
     (case to_owned msg of Inl e \<Rightarrow> Some (Inl e, g) | Inr payload \<Rightarrow>
      case get_put_ctx (mp_ctx payload) of Inl e \<Rightarrow> Some (Inl e, g) | Inr ctx \<Rightarrow>
        handle_write text (mp_timestamp payload) (mp_keyspace payload)
          (on_multi_set ops \<lparr>mset_source = CONSISTENCY_SOURCE_ID, mset_docs = mp_documents payload, mset_ctx = ctx\<rparr>) g)"

definition on_remove_payload ::
  "('s, 'e) storage_ops \<Rightarrow> ('e \<Rightarrow> string) \<Rightarrow> remove_payload view \<Rightarrow> ('s, hlc_timestamp) handler" where
  "on_remove_payload ops text msg g =
     (case to_owned msg of Inl e \<Rightarrow> Some (Inl e, g) | Inr payload \<Rightarrow>
        handle_write text (rp_timestamp payload) (rp_keyspace payload)
          (on_del ops \<lparr>del_source = CONSISTENCY_SOURCE_ID, del_doc = rp_document payload\<rparr>) g)"

definition on_multi_remove_payload ::
  "('s, 'e) storage_ops \<Rightarrow> ('e bulk_mutation_error \<Rightarrow> string) \<Rightarrow> multi_remove_payload view \<Rightarrow> ('s, hlc_timestamp) handler" where
  "on_multi_remove_payload ops text msg g =
     (case to_owned msg of Inl e \<Rightarrow> Some (Inl e, g) | Inr payload \<Rightarrow>
        handle_write text (mr_timestamp payload) (mr_keyspace payload)
          (on_multi_del ops \<lparr>mdel_source = CONSISTENCY_SOURCE_ID, mdel_docs = mr_documents payload\<rparr>) g)"

text \<open>The two loops of a batch, which stop at the first error.\<close>

primrec batch_removed ::
  "('s, 'e) storage_ops \<Rightarrow> ('e bulk_mutation_error \<Rightarrow> string) \<Rightarrow> multi_remove_payload list \<Rightarrow> ('s, unit) handler" where
  "batch_removed ops text [] g = Some (Inr (), g)"
| "batch_removed ops text (p # ps) g =
     do { (i, g) \<leftarrow> get_or_create_keyspace (mr_keyspace p) g;
          (r, g) \<leftarrow> try_send text i (on_multi_del ops \<lparr>mdel_source = CONSISTENCY_SOURCE_ID, mdel_docs = mr_documents p\<rparr>) g;
          case r of Inl e \<Rightarrow> Some (Inl e, g) | Inr u \<Rightarrow> batch_removed ops text ps g }"

primrec batch_modified ::
  "('s, 'e) storage_ops \<Rightarrow> ('e bulk_mutation_error \<Rightarrow> string) \<Rightarrow> multi_put_payload list \<Rightarrow> ('s, unit) handler" where
  "batch_modified ops text [] g = Some (Inr (), g)"
| "batch_modified ops text (p # ps) g =
     (case get_put_ctx (mp_ctx p) of Inl e \<Rightarrow> Some (Inl e, g) | Inr ctx \<Rightarrow>
      do { (i, g) \<leftarrow> get_or_create_keyspace (mp_keyspace p) g;
           (r, g) \<leftarrow> try_send text i (on_multi_set ops \<lparr>mset_source = CONSISTENCY_SOURCE_ID, mset_docs = mp_documents p, mset_ctx = ctx\<rparr>) g;
           case r of Inl e \<Rightarrow> Some (Inl e, g) | Inr u \<Rightarrow> batch_modified ops text ps g })"

definition on_batch_payload ::
  "('s, 'e) storage_ops \<Rightarrow> ('e bulk_mutation_error \<Rightarrow> string) \<Rightarrow> batch_payload view \<Rightarrow> ('s, hlc_timestamp) handler" where
  "on_batch_payload ops text msg g =
     (case to_owned msg of Inl e \<Rightarrow> Some (Inl e, g) | Inr payload \<Rightarrow>
      do { g \<leftarrow> group_register_ts (bp_timestamp payload) g;
           (r, g) \<leftarrow> batch_removed ops text (bp_removed payload) g;
           case r of Inl e \<Rightarrow> Some (Inl e, g) | Inr u \<Rightarrow>
           do { (r, g) \<leftarrow> batch_modified ops text (bp_modified payload) g;
                case r of Inl e \<Rightarrow> Some (Inl e, g) | Inr u \<Rightarrow>
                do { (ts, g) \<leftarrow> group_get_time g; Some (Inr ts, g) } } })"

section \<open>Dispatch\<close>

datatype consistency_request =
  PutReq put_payload | MultiPutReq multi_put_payload | RemoveReq remove_payload | MultiRemoveReq multi_remove_payload

text \<open>The handler registered for each kind of message but the batch, on a readable message.\<close>

primrec on_request ::
  "('s, 'e) storage_ops \<Rightarrow> ('e \<Rightarrow> string) \<Rightarrow> ('e bulk_mutation_error \<Rightarrow> string) \<Rightarrow> consistency_request \<Rightarrow> ('s, hlc_timestamp) handler" where
  "on_request ops text btext (PutReq p) = on_put_payload ops text (Some p)"
| "on_request ops text btext (MultiPutReq p) = on_multi_put_payload ops btext (Some p)"
| "on_request ops text btext (RemoveReq p) = on_remove_payload ops text (Some p)"
| "on_request ops text btext (MultiRemoveReq p) = on_multi_remove_payload ops btext (Some p)"

section \<open>The replication service\<close>

definition on_serialize :: "(orswot_set \<Rightarrow> u8 list option) \<Rightarrow> keyspace_actor \<Rightarrow> status + u8 list" where
  "on_serialize ser a = ok_or (internal ''Failed to (de)serialize state.'') (ser (ks_state a))"

definition on_poll_keyspace :: "hlc_timestamp view \<Rightarrow> ('s, keyspace_info) handler" where
  "on_poll_keyspace msg g =
     (case to_owned msg of Inl e \<Rightarrow> Some (Inl e, g) | Inr ts \<Rightarrow>
      do { g \<leftarrow> group_register_ts ts g; (info, g) \<leftarrow> get_keyspace_info g; Some (Inr info, g) })"

definition on_get_state ::
  "(orswot_set \<Rightarrow> u8 list option) \<Rightarrow> get_state_msg view \<Rightarrow> ('s, keyspace_orswot_set) handler" where
  "on_get_state ser msg g =
     (case to_owned msg of Inl e \<Rightarrow> Some (Inl e, g) | Inr msg \<Rightarrow>
      do { g \<leftarrow> group_register_ts (gs_timestamp msg) g;
           (i, g) \<leftarrow> get_or_create_keyspace (gs_keyspace msg) g;
           (updated, g) \<leftarrow> send_to i (\<lambda>a w. Some (on_last_updated a, a, w)) g;
           (r, g) \<leftarrow> send_to i (\<lambda>a w. Some (on_serialize ser a, a, w)) g;
           case r of Inl e \<Rightarrow> Some (Inl e, g) | Inr bytes \<Rightarrow>
           do { (ts, g) \<leftarrow> group_get_time g;
                Some (Inr \<lparr>ko_timestamp = ts, ko_last_updated = updated, ko_set = bytes\<rparr>, g) } })"

text \<open>A single document is read alone.\<close>

definition read_docs :: "('s, 'e) storage_ops \<Rightarrow> string \<Rightarrow> key list \<Rightarrow> ('s, 'e + document list) action" where
  "read_docs ops name doc_ids s =
     (case doc_ids of
        [k] \<Rightarrow> do { (r, s) \<leftarrow> st_get ops name k s;
                    Some (case r of Inl e \<Rightarrow> Inl e | Inr None \<Rightarrow> Inr [] | Inr (Some doc) \<Rightarrow> Inr [doc], s) }
      | _ \<Rightarrow> st_multi_get ops name doc_ids s)"

definition on_fetch_docs ::
  "('s, 'e) storage_ops \<Rightarrow> ('e \<Rightarrow> string) \<Rightarrow> fetch_docs_msg view \<Rightarrow> ('s, fetched_docs) handler" where
  "on_fetch_docs ops text msg g =
     (case to_owned msg of Inl e \<Rightarrow> Some (Inl e, g) | Inr msg \<Rightarrow>
      do { g \<leftarrow> group_register_ts (fd_timestamp msg) g;
           (r, s) \<leftarrow> read_docs ops (fd_keyspace msg) (fd_doc_ids msg) (w_store (g_world g));
           let g = g\<lparr>g_world := (g_world g)\<lparr>w_store := s\<rparr>\<rparr>;
           case r of Inl e \<Rightarrow> Some (Inl (internal (text e)), g) | Inr documents \<Rightarrow>
           do { (ts, g) \<leftarrow> group_get_time g;
                Some (Inr \<lparr>fe_documents = documents, fe_timestamp = ts\<rparr>, g) } })"

section \<open>The clients\<close>

text \<open>A client keeps the clock of its own node; \<open>'n\<close> is the state of the network behind it.\<close>

type_synonym ('n, 'q, 'r) rpc = "'q \<Rightarrow> 'n \<Rightarrow> ((status + 'r view) \<times> 'n) exec"

definition finish_call :: "status + hlc_timestamp view \<Rightarrow> node_clock \<Rightarrow> 'n \<Rightarrow> ((status + unit) \<times> node_clock \<times> 'n) exec" where
  "finish_call r clock net =
     (case and_then r to_owned of
        Inl e \<Rightarrow> Some (Inl e, clock, net)
      | Inr ts \<Rightarrow> do { clock \<leftarrow> clock_register ts clock; Some (Inr (), clock, net) })"

definition client_put ::
  "('n, put_payload, hlc_timestamp) rpc \<Rightarrow> string \<Rightarrow> document \<Rightarrow> u8 \<Rightarrow> string \<Rightarrow> node_clock \<Rightarrow> 'n \<Rightarrow> ((status + unit) \<times> node_clock \<times> 'n) exec" where
  "client_put rpc name doc node_id node_addr clock net =
     do { (ts, clock) \<leftarrow> clock_get clock;
          (r, net) \<leftarrow> rpc \<lparr>pp_keyspace = name, pp_ctx = Some \<lparr>cx_node_id = node_id, cx_node_addr = node_addr\<rparr>,
                         pp_document = doc, pp_timestamp = ts\<rparr> net;
          finish_call r clock net }"

definition client_multi_put ::
  "('n, multi_put_payload, hlc_timestamp) rpc \<Rightarrow> string \<Rightarrow> document list \<Rightarrow> u8 \<Rightarrow> string \<Rightarrow> node_clock \<Rightarrow> 'n \<Rightarrow> ((status + unit) \<times> node_clock \<times> 'n) exec" where
  "client_multi_put rpc name docs node_id node_addr clock net =
     do { (ts, clock) \<leftarrow> clock_get clock;
          (r, net) \<leftarrow> rpc \<lparr>mp_keyspace = name, mp_ctx = Some \<lparr>cx_node_id = node_id, cx_node_addr = node_addr\<rparr>,
                         mp_documents = docs, mp_timestamp = ts\<rparr> net;
          finish_call r clock net }"

definition client_del ::
  "('n, remove_payload, hlc_timestamp) rpc \<Rightarrow> string \<Rightarrow> key \<Rightarrow> hlc_timestamp \<Rightarrow> node_clock \<Rightarrow> 'n \<Rightarrow> ((status + unit) \<times> node_clock \<times> 'n) exec" where
  "client_del rpc name k doc_ts clock net =
     do { (ts, clock) \<leftarrow> clock_get clock;
          (r, net) \<leftarrow> rpc \<lparr>rp_keyspace = name, rp_document = metadata_new k doc_ts, rp_timestamp = ts\<rparr> net;
          finish_call r clock net }"

definition client_multi_del ::
  "('n, multi_remove_payload, hlc_timestamp) rpc \<Rightarrow> string \<Rightarrow> document_metadata list \<Rightarrow> node_clock \<Rightarrow> 'n \<Rightarrow> ((status + unit) \<times> node_clock \<times> 'n) exec" where
  "client_multi_del rpc name docs clock net =
     do { (ts, clock) \<leftarrow> clock_get clock;
          (r, net) \<leftarrow> rpc \<lparr>mr_keyspace = name, mr_documents = docs, mr_timestamp = ts\<rparr> net;
          finish_call r clock net }"

definition apply_batch_call ::
  "('n, batch_payload, hlc_timestamp) rpc \<Rightarrow> batch_payload \<Rightarrow> node_clock \<Rightarrow> 'n \<Rightarrow> ((status + unit) \<times> node_clock \<times> 'n) exec" where
  "apply_batch_call rpc batch clock net = do { (r, net) \<leftarrow> rpc batch net; finish_call r clock net }"

definition client_poll_keyspace ::
  "('n, hlc_timestamp, keyspace_info) rpc \<Rightarrow> node_clock \<Rightarrow> 'n
    \<Rightarrow> ((status + (string, hlc_timestamp) btree_map) \<times> node_clock \<times> 'n) exec" where
  "client_poll_keyspace rpc clock net =
     do { (ts, clock) \<leftarrow> clock_get clock;
          (r, net) \<leftarrow> rpc ts net;
          case and_then r to_owned of
            Inl e \<Rightarrow> Some (Inl e, clock, net)
          | Inr info \<Rightarrow> do { clock \<leftarrow> clock_register (info_timestamp info) clock;
                             Some (Inr (info_keyspace_timestamps info), clock, net) } }"

definition client_get_state ::
  "(u8 list \<Rightarrow> orswot_set option) \<Rightarrow> ('n, get_state_msg, keyspace_orswot_set) rpc \<Rightarrow> string \<Rightarrow> node_clock \<Rightarrow> 'n
    \<Rightarrow> ((status + hlc_timestamp \<times> orswot_set) \<times> node_clock \<times> 'n) exec" where
  "client_get_state deser rpc name clock net =
     do { (ts, clock) \<leftarrow> clock_get clock;
          (r, net) \<leftarrow> rpc \<lparr>gs_keyspace = name, gs_timestamp = ts\<rparr> net;
          case and_then r to_owned of
            Inl e \<Rightarrow> Some (Inl e, clock, net)
          | Inr inner \<Rightarrow>
              do { clock \<leftarrow> clock_register (ko_timestamp inner) clock;
                   Some (and_then (ok_or invalid (deser (ko_set inner))) (\<lambda>state. Inr (ko_last_updated inner, state)), clock, net) } }"

text \<open>Here a reply that is not readable panics.\<close>

definition client_fetch_docs ::
  "('n, fetch_docs_msg, fetched_docs) rpc \<Rightarrow> string \<Rightarrow> key list \<Rightarrow> node_clock \<Rightarrow> 'n
    \<Rightarrow> ((status + document list) \<times> node_clock \<times> 'n) exec" where
  "client_fetch_docs rpc name doc_ids clock net =
     do { (ts, clock) \<leftarrow> clock_get clock;
          (r, net) \<leftarrow> rpc \<lparr>fd_keyspace = name, fd_doc_ids = doc_ids, fd_timestamp = ts\<rparr> net;
          case r of
            Inl e \<Rightarrow> Some (Inl e, clock, net)
          | Inr inner \<Rightarrow>
              do { payload \<leftarrow> inner;
                   clock \<leftarrow> clock_register (fe_timestamp payload) clock;
                   Some (Inr (fe_documents payload), clock, net) } }"

end
