(* ===== verification/MemStore.thy ===== *)
theory MemStore
  imports Storage
begin

text \<open>
  The in-memory store of \<^verbatim>\<open>benchmarks/src/stores/memstore.rs\<close>, a copy of the one in
  \<^verbatim>\<open>datacake-eventual-consistency/src/test_utils.rs\<close>. It keeps two maps from keyspaces, one to the
  metadata of every key and one to the documents of the live ones, and fails never.
\<close>

datatype mem_store_error = MemStoreError string

record mem_store =
  ms_metadata :: "(string, (key, hlc_timestamp \<times> bool) hash_map) hash_map"
  ms_data :: "(string, (key, document) hash_map) hash_map"

definition mem_default :: mem_store where
  "mem_default = \<lparr>ms_metadata = [], ms_data = []\<rparr>"

text \<open>\<open>entry(k).and_modify(f)\<close>, without and with \<open>or_insert_with\<close>.\<close>

definition entry_modify :: "'k \<Rightarrow> ('v \<Rightarrow> 'v) \<Rightarrow> ('k, 'v) hash_map \<Rightarrow> ('k, 'v) hash_map" where
  "entry_modify k f m = (case map_of m k of Some v \<Rightarrow> hm_insert k (f v) m | None \<Rightarrow> m)"

definition entry_modify_or_insert :: "'k \<Rightarrow> ('v \<Rightarrow> 'v) \<Rightarrow> 'v \<Rightarrow> ('k, 'v) hash_map \<Rightarrow> ('k, 'v) hash_map" where
  "entry_modify_or_insert k f v0 m =
     (case map_of m k of Some v \<Rightarrow> hm_insert k (f v) m | None \<Rightarrow> hm_insert k v0 m)"

definition mem_get_keyspace_list :: "(mem_store, mem_store_error + string list) action" where
  "mem_get_keyspace_list s = Some (Inr (map fst (ms_metadata s)), s)"

definition mem_iter_metadata :: "string \<Rightarrow> (mem_store, mem_store_error + (key \<times> hlc_timestamp \<times> bool) list) action" where
  "mem_iter_metadata ks s =
     Some (Inr (case map_of (ms_metadata s) ks of
                  Some m \<Rightarrow> map (\<lambda>(k, ts, tombstone). (k, ts, tombstone)) m
                | None \<Rightarrow> []), s)"

definition mem_remove_tombstones :: "string \<Rightarrow> key list \<Rightarrow> (mem_store, mem_store_error bulk_result) action" where
  "mem_remove_tombstones ks keys s =
     Some (Inr (), s\<lparr>ms_metadata := entry_modify ks (fold hm_remove keys) (ms_metadata s)\<rparr>)"

definition mem_multi_put :: "string \<Rightarrow> document list \<Rightarrow> (mem_store, mem_store_error bulk_result) action" where
  "mem_multi_put ks docs s =
     Some (Inr (),
       s\<lparr>ms_data := entry_modify_or_insert ks
            (fold (\<lambda>d. hm_insert (doc_id d) d) docs) (fold (\<lambda>d. hm_insert (doc_id d) d) docs []) (ms_data s),
         ms_metadata := entry_modify_or_insert ks
            (fold (\<lambda>d. hm_insert (doc_id d) (last_updated d, False)) docs)
            (fold (\<lambda>d. hm_insert (doc_id d) (last_updated d, False)) docs []) (ms_metadata s)\<rparr>)"

definition mem_put :: "string \<Rightarrow> document \<Rightarrow> (mem_store, mem_store_error + unit) action" where
  "mem_put ks d s =
     do { (r, s') \<leftarrow> mem_multi_put ks [d] s;
          Some (case r of Inl e \<Rightarrow> Inl (bulk_inner e) | Inr u \<Rightarrow> Inr u, s') }"

definition mem_mark_many_as_tombstone :: "string \<Rightarrow> document_metadata list \<Rightarrow> (mem_store, mem_store_error bulk_result) action" where
  "mem_mark_many_as_tombstone ks docs s =
     Some (Inr (),
       s\<lparr>ms_data := entry_modify ks (fold (\<lambda>d. hm_remove (md_id d)) docs) (ms_data s),
         ms_metadata := entry_modify ks (fold (\<lambda>d. hm_insert (md_id d) (md_last_updated d, True)) docs) (ms_metadata s)\<rparr>)"

definition mem_mark_as_tombstone :: "string \<Rightarrow> key \<Rightarrow> hlc_timestamp \<Rightarrow> (mem_store, mem_store_error + unit) action" where
  "mem_mark_as_tombstone ks k ts s =
     do { (r, s') \<leftarrow> mem_mark_many_as_tombstone ks [\<lparr>md_id = k, md_last_updated = ts\<rparr>] s;
          Some (case r of Inl e \<Rightarrow> Inl (bulk_inner e) | Inr u \<Rightarrow> Inr u, s') }"

definition mem_get :: "string \<Rightarrow> key \<Rightarrow> (mem_store, mem_store_error + document option) action" where
  "mem_get ks k s = Some (Inr (case map_of (ms_data s) ks of Some m \<Rightarrow> map_of m k | None \<Rightarrow> None), s)"

definition mem_multi_get :: "string \<Rightarrow> key list \<Rightarrow> (mem_store, mem_store_error + document list) action" where
  "mem_multi_get ks keys s =
     Some (Inr (case map_of (ms_data s) ks of
                  Some m \<Rightarrow> fold (\<lambda>k docs. case map_of m k of Some d \<Rightarrow> docs @ [d] | None \<Rightarrow> docs) keys []
                | None \<Rightarrow> []), s)"

definition mem_ops :: "(mem_store, mem_store_error) storage_ops" where
  "mem_ops = \<lparr>st_get_keyspace_list = mem_get_keyspace_list, st_iter_metadata = mem_iter_metadata,
     st_remove_tombstones = mem_remove_tombstones, st_put_with_ctx = default_put_with_ctx mem_put,
     st_put = mem_put, st_multi_put_with_ctx = default_multi_put_with_ctx mem_multi_put,
     st_multi_put = mem_multi_put, st_mark_as_tombstone = mem_mark_as_tombstone,
     st_mark_many_as_tombstone = mem_mark_many_as_tombstone, st_get = mem_get, st_multi_get = mem_multi_get\<rparr>"

section \<open>The store keeps the contract\<close>

definition nested :: "('k, ('j, 'v) hash_map) hash_map \<Rightarrow> 'k \<Rightarrow> 'j \<Rightarrow> 'v option" where
  "nested m k = (case map_of m k of Some i \<Rightarrow> map_of i | None \<Rightarrow> Map.empty)"

fun mem_stored :: "document option \<Rightarrow> (hlc_timestamp \<times> bool) option \<Rightarrow> stored option" where
  "mem_stored (Some d) m = Some (Doc d)"
| "mem_stored None (Some (t, True)) = Some (Tombstone t)"
| "mem_stored None m = None"

definition mem_look :: "mem_store \<Rightarrow> string \<Rightarrow> key \<Rightarrow> stored option" where
  "mem_look s ks k = mem_stored (nested (ms_data s) ks k) (nested (ms_metadata s) ks k)"

definition mem_known :: "mem_store \<Rightarrow> string \<Rightarrow> bool" where
  "mem_known s ks \<longleftrightarrow> map_of (ms_metadata s) ks \<noteq> None"

definition nested_wf :: "('k, ('j, 'v) hash_map) hash_map \<Rightarrow> bool" where
  "nested_wf m \<longleftrightarrow> hm_wf m \<and> (\<forall>k i. map_of m k = Some i \<longrightarrow> hm_wf i)"

definition mem_inv :: "mem_store \<Rightarrow> bool" where
  "mem_inv s \<longleftrightarrow> nested_wf (ms_metadata s) \<and> nested_wf (ms_data s) \<and>
     dom (map_of (ms_metadata s)) = dom (map_of (ms_data s)) \<and>
     (\<forall>ks k. nested (ms_metadata s) ks k = map_option stored_meta (mem_look s ks k))"

lemma fold_hm_insert:
  "fold (\<lambda>d. hm_insert (f d) (g d)) ds m = fold (\<lambda>(k, v). hm_insert k v) (map (\<lambda>d. (f d, g d)) ds) m"
  by (induction ds arbitrary: m) simp_all

lemma fold_hm_remove: "fold (\<lambda>d. hm_remove (f d)) ds m = fold hm_remove (map f ds) m"
  by (induction ds arbitrary: m) simp_all

lemma map_of_fold_insert:
  "map_of (fold (\<lambda>d. hm_insert (f d) (g d)) ds m) = map_of m ++ map_of (rev (map (\<lambda>d. (f d, g d)) ds))"
  by (subst fold_hm_insert) (simp only: hm.look_extend)

lemma hm_wf_fold_insert: "hm_wf m \<Longrightarrow> hm_wf (fold (\<lambda>d. hm_insert (f d) (g d)) ds m)"
  by (subst fold_hm_insert) (rule hm.invar_extend)

lemma map_of_fold_remove: "map_of (fold (\<lambda>d. hm_remove (f d)) ds m) = map_of m |` (- f ` set ds)"
  by (subst fold_hm_remove) (simp only: hm.look_remove_all set_map)

lemma hm_wf_fold_remove: "hm_wf m \<Longrightarrow> hm_wf (fold (\<lambda>d. hm_remove (f d)) ds m)"
  by (subst fold_hm_remove) (rule hm.invar_remove_all)

lemma nested_entry_modify:
  "nested (entry_modify k f m) = (case map_of m k of Some i \<Rightarrow> (nested m)(k := map_of (f i)) | None \<Rightarrow> nested m)"
  by (auto simp: nested_def entry_modify_def fun_eq_iff split: option.splits)

lemma nested_entry_modify_or_insert:
  assumes "\<And>i. map_of (f i) = map_of i ++ u" "map_of v0 = u"
  shows "nested (entry_modify_or_insert k f v0 m) = (nested m)(k := nested m k ++ u)"
  using assms by (auto simp: nested_def entry_modify_or_insert_def fun_eq_iff split: option.splits)

lemma nested_wf_entry:
  assumes "nested_wf m" "\<And>i. hm_wf i \<Longrightarrow> hm_wf (f i)"
  shows "nested_wf (entry_modify k f m)"
    "hm_wf v0 \<Longrightarrow> nested_wf (entry_modify_or_insert k f v0 m)"
  using assms by (auto simp: nested_wf_def entry_modify_def entry_modify_or_insert_def hm.invar_ins split: option.splits if_splits)

lemma dom_entry:
  "dom (map_of (entry_modify k f m)) = dom (map_of m)"
  "dom (map_of (entry_modify_or_insert k f v0 m)) = insert k (dom (map_of m))"
  by (auto simp: entry_modify_def entry_modify_or_insert_def split: option.splits if_splits)


lemma map_of_rev_map:
  "map_of (rev (map (\<lambda>d. (f d, h (g d))) ds)) = map_option h \<circ> map_of (rev (map (\<lambda>d. (f d, g d)) ds))"
proof -
  have "rev (map (\<lambda>d. (f d, h (g d))) ds) = map (\<lambda>(k, v). (k, h v)) (rev (map (\<lambda>d. (f d, g d)) ds))"
    by (simp add: rev_map comp_def)
  then show ?thesis by (simp only: map_of_map)
qed

lemma map_add_option:
  "(m ++ (map_option h \<circ> u)) k = (case u k of Some x \<Rightarrow> Some (h x) | None \<Rightarrow> m k)"
  by (simp add: map_add_def split: option.split)

lemma dom_map_of_rev: "dom (map_of (rev (map (\<lambda>d. (f d, g d)) ds))) = f ` set ds"
  by (simp add: dom_map_of_conv_image_fst image_image)

lemma mem_multi_put_law:
  assumes inv: "mem_inv s"
  shows "\<exists>s'. mem_multi_put ks ds s = Some (Inr (), s') \<and> mem_inv s' \<and>
    mem_look s' = (mem_look s)(ks := put_docs ds (mem_look s ks)) \<and>
    mem_known s' = (mem_known s)(ks := True)"
proof -
  let ?u = "map_of (rev (map (\<lambda>d. (doc_id d, d)) ds))"
  let ?v = "map_of (rev (map (\<lambda>d. (doc_id d, (last_updated d, False))) ds))"
  obtain s' where s': "mem_multi_put ks ds s = Some (Inr (), s')" by (simp add: mem_multi_put_def)
  then have eqs: "ms_data s' = entry_modify_or_insert ks (fold (\<lambda>d. hm_insert (doc_id d) d) ds) (fold (\<lambda>d. hm_insert (doc_id d) d) ds []) (ms_data s)"
    "ms_metadata s' = entry_modify_or_insert ks (fold (\<lambda>d. hm_insert (doc_id d) (last_updated d, False)) ds)
      (fold (\<lambda>d. hm_insert (doc_id d) (last_updated d, False)) ds []) (ms_metadata s)"
    by (auto simp: mem_multi_put_def)
  have n: "nested (ms_data s') = (nested (ms_data s))(ks := nested (ms_data s) ks ++ ?u)"
    "nested (ms_metadata s') = (nested (ms_metadata s))(ks := nested (ms_metadata s) ks ++ ?v)"
    unfolding eqs by (rule nested_entry_modify_or_insert; simp add: map_of_fold_insert)+
  have v: "?v = map_option (\<lambda>d. (last_updated d, False)) \<circ> ?u"
    by (rule map_of_rev_map [of _ _ "\<lambda>d. d", simplified])
  have "map_of (rev (map (\<lambda>d. (doc_id d, Doc d)) ds)) = map_option Doc \<circ> ?u"
    by (rule map_of_rev_map [of _ _ "\<lambda>d. d", simplified])
  then have look: "mem_look s' = (mem_look s)(ks := put_docs ds (mem_look s ks))"
    by (auto simp: mem_look_def n v put_docs_def map_add_option map_add_def fun_eq_iff split: option.splits)
  have "nested (ms_metadata s') ks' k = map_option stored_meta (mem_look s' ks' k)" for ks' k
    using inv unfolding look n v
    by (auto simp: mem_inv_def put_docs_def map_of_rev_map [of _ Doc "\<lambda>d. d", simplified] map_add_option map_add_def split: option.splits)
  moreover have "nested_wf (ms_metadata s')" "nested_wf (ms_data s')"
    using inv unfolding eqs by (auto simp: mem_inv_def hm_wf_fold_insert hm_wf_def intro!: nested_wf_entry hm_wf_fold_insert)
  ultimately have "mem_inv s'"
    using inv unfolding mem_inv_def by (simp add: eqs dom_entry)
  moreover have "mem_known s' = (mem_known s)(ks := True)"
    by (auto simp: mem_known_def eqs entry_modify_or_insert_def fun_eq_iff split: option.splits)
  ultimately show ?thesis using s' look by blast
qed


lemma mem_tombstone_law:
  assumes inv: "mem_inv s" and kn: "mem_known s ks"
  shows "\<exists>s'. mem_mark_many_as_tombstone ks ms s = Some (Inr (), s') \<and> mem_inv s' \<and>
    mem_look s' = (mem_look s)(ks := put_tombstones ms (mem_look s ks)) \<and> mem_known s' = mem_known s"
proof -
  let ?w = "map_of (rev (map (\<lambda>d. (md_id d, md_last_updated d)) ms))"
  let ?v = "map_of (rev (map (\<lambda>d. (md_id d, (md_last_updated d, True))) ms))"
  obtain s' where s': "mem_mark_many_as_tombstone ks ms s = Some (Inr (), s')"
    by (simp add: mem_mark_many_as_tombstone_def)
  then have eqs: "ms_data s' = entry_modify ks (fold (\<lambda>d. hm_remove (md_id d)) ms) (ms_data s)"
    "ms_metadata s' = entry_modify ks (fold (\<lambda>d. hm_insert (md_id d) (md_last_updated d, True)) ms) (ms_metadata s)"
    by (auto simp: mem_mark_many_as_tombstone_def)
  have "ks \<in> dom (map_of (ms_metadata s))" using kn by (simp add: mem_known_def domIff)
  moreover have "ks \<in> dom (map_of (ms_data s))" using calculation inv by (simp add: mem_inv_def)
  ultimately obtain i j where ij: "map_of (ms_metadata s) ks = Some i" "map_of (ms_data s) ks = Some j"
    by (meson domD)
  have v: "?v = map_option (\<lambda>t. (t, True)) \<circ> ?w" by (rule map_of_rev_map)
  have w: "map_of (rev (map (\<lambda>d. (md_id d, Tombstone (md_last_updated d))) ms)) = map_option Tombstone \<circ> ?w"
    by (rule map_of_rev_map)
  have dw: "dom ?w = md_id ` set ms" by (rule dom_map_of_rev)
  have n: "nested (ms_data s') = (nested (ms_data s))(ks := nested (ms_data s) ks |` (- dom ?w))"
    "nested (ms_metadata s') = (nested (ms_metadata s))(ks := nested (ms_metadata s) ks ++ ?v)"
    unfolding eqs nested_entry_modify ij dw
    by (simp_all add: map_of_fold_remove map_of_fold_insert nested_def ij)
  have look: "mem_look s' = (mem_look s)(ks := put_tombstones ms (mem_look s ks))"
    by (auto simp: mem_look_def n v put_tombstones_def w map_add_option map_add_def restrict_map_def fun_eq_iff
        split: option.splits)
  have "nested (ms_metadata s') ks' k = map_option stored_meta (mem_look s' ks' k)" for ks' k
    using inv unfolding look n v
    by (auto simp: mem_inv_def put_tombstones_def w map_add_option map_add_def split: option.splits)
  moreover have "nested_wf (ms_metadata s')" "nested_wf (ms_data s')"
    using inv unfolding eqs mem_inv_def
    by (auto intro!: nested_wf_entry hm_wf_fold_insert hm_wf_fold_remove)
  ultimately have "mem_inv s'"
    using inv unfolding mem_inv_def by (simp add: eqs dom_entry)
  moreover have "mem_known s' = mem_known s"
    by (auto simp: mem_known_def eqs entry_modify_def fun_eq_iff split: option.splits)
  ultimately show ?thesis using s' look by blast
qed

lemma mem_remove_law:
  assumes inv: "mem_inv s" and tombs: "\<forall>k \<in> set keys. \<exists>t. mem_look s ks k = Some (Tombstone t)"
  shows "\<exists>s'. mem_remove_tombstones ks keys s = Some (Inr (), s') \<and> mem_inv s' \<and>
    mem_look s' = (mem_look s)(ks := mem_look s ks |` (- set keys)) \<and> mem_known s' = mem_known s"
proof -
  obtain s' where s': "mem_remove_tombstones ks keys s = Some (Inr (), s')" by (simp add: mem_remove_tombstones_def)
  then have eqs: "ms_data s' = ms_data s" "ms_metadata s' = entry_modify ks (fold hm_remove keys) (ms_metadata s)"
    by (auto simp: mem_remove_tombstones_def)
  have n: "nested (ms_metadata s') = (nested (ms_metadata s))(ks := nested (ms_metadata s) ks |` (- set keys))"
    unfolding eqs nested_entry_modify
    by (auto simp: hm.look_remove_all nested_def fun_eq_iff restrict_map_def split: option.splits)
  have nodata: "nested (ms_data s) ks k = None" if "k \<in> set keys" for k
    using tombs that by (cases "nested (ms_data s) ks k") (auto simp: mem_look_def)
  have look: "mem_look s' = (mem_look s)(ks := mem_look s ks |` (- set keys))"
    by (auto simp: mem_look_def eqs(1) n nodata fun_eq_iff restrict_map_def)
  have "nested (ms_metadata s') ks' k = map_option stored_meta (mem_look s' ks' k)" for ks' k
    using inv unfolding look n by (auto simp: mem_inv_def restrict_map_def)
  moreover have "nested_wf (ms_metadata s')"
    using inv unfolding eqs mem_inv_def by (auto intro!: nested_wf_entry hm.invar_remove_all)
  ultimately have "mem_inv s'"
    using inv unfolding mem_inv_def by (simp add: eqs dom_entry)
  moreover have "mem_known s' = mem_known s"
    by (auto simp: mem_known_def eqs entry_modify_def fun_eq_iff split: option.splits)
  ultimately show ?thesis using s' look by blast
qed

lemma mem_iterate_law:
  assumes "mem_inv s" "mem_iter_metadata ks s = Some (Inr l, s')"
  shows "s' = s" "distinct (map fst l)" "map_of l = map_option stored_meta \<circ> mem_look s ks"
proof -
  have l: "l = (case map_of (ms_metadata s) ks of Some m \<Rightarrow> m | None \<Rightarrow> [])" "s' = s"
    using assms(2) by (auto simp: mem_iter_metadata_def split: option.splits)
  then have "map_of l = nested (ms_metadata s) ks" by (auto simp: nested_def split: option.splits)
  then show "map_of l = map_option stored_meta \<circ> mem_look s ks"
    using assms(1) by (auto simp: mem_inv_def fun_eq_iff)
  show "distinct (map fst l)"
    using assms(1) l by (auto simp: mem_inv_def nested_wf_def hm_wf_def split: option.splits)
  show "s' = s" by (rule l)
qed

lemma stored_doc_mem_look: "stored_doc (mem_look s ks k) = nested (ms_data s) ks k"
proof -
  have "stored_doc (mem_stored d m) = d" for d m by (induction d m rule: mem_stored.induct) auto
  then show ?thesis by (simp add: mem_look_def)
qed

lemma fold_push: "fold (\<lambda>k docs. case f k of Some d \<Rightarrow> docs @ [d] | None \<Rightarrow> docs) keys acc = acc @ List.map_filter f keys"
  by (induction keys arbitrary: acc) (auto simp: map_filter_simps split: option.splits)

lemma mem_fetch_law:
  "mem_get ks k s = Some (Inr (stored_doc (mem_look s ks k)), s)"
  "mem_multi_get ks keys s = Some (Inr (List.map_filter (\<lambda>k. stored_doc (mem_look s ks k)) keys), s)"
  by (auto simp: mem_get_def mem_multi_get_def stored_doc_mem_look nested_def fold_push map_filter_def split: option.splits)

lemma mem_keyspaces_law:
  assumes "mem_inv s" "mem_look s ks k \<noteq> None"
  shows "ks \<in> fst ` set (ms_metadata s)"
proof -
  have "nested (ms_metadata s) ks k \<noteq> None" using assms by (auto simp: mem_inv_def)
  then have "map_of (ms_metadata s) ks \<noteq> None" by (auto simp: nested_def split: option.splits)
  then show ?thesis by (simp add: map_of_eq_None_iff)
qed

lemma mem_put_law:
  "put_law mem_inv mem_known mem_look mem_put"
  "multi_put_law mem_inv mem_known mem_look mem_multi_put"
proof -
  show "put_law mem_inv mem_known mem_look mem_put"
    unfolding put_law_def
  proof (intro allI impI)
    fix s ks d assume "mem_inv s"
    then obtain s' where "mem_multi_put ks [d] s = Some (Inr (), s')" "mem_inv s'"
      "mem_look s' = (mem_look s)(ks := put_docs [d] (mem_look s ks))" "mem_known s' = (mem_known s)(ks := True)"
      using mem_multi_put_law by blast
    then show "\<exists>r s'. mem_put ks d s = Some (r, s') \<and> mem_inv s' \<and>
      mem_look s' = (if is_ok r then (mem_look s)(ks := put_docs [d] (mem_look s ks)) else mem_look s) \<and>
      (\<forall>ks'. mem_known s ks' \<or> is_ok r \<and> ks' = ks \<longrightarrow> mem_known s' ks')"
      by (auto simp: mem_put_def)
  qed
  show "multi_put_law mem_inv mem_known mem_look mem_multi_put"
    unfolding multi_put_law_def
  proof (intro allI impI)
    fix s ks ds assume "mem_inv s"
    then obtain s' where "mem_multi_put ks ds s = Some (Inr (), s')" "mem_inv s'"
      "mem_look s' = (mem_look s)(ks := put_docs ds (mem_look s ks))" "mem_known s' = (mem_known s)(ks := True)"
      using mem_multi_put_law by blast
    then show "\<exists>r s'. mem_multi_put ks ds s = Some (r, s') \<and> mem_inv s' \<and>
      mem_look s' = (mem_look s)(ks := put_docs (filter (\<lambda>d. applied r (doc_id d)) ds) (mem_look s ks)) \<and>
      (\<forall>ks'. mem_known s ks' \<or> is_ok r \<and> ks' = ks \<longrightarrow> mem_known s' ks')"
      by (intro exI [of _ "Inr ()"] exI [of _ s']) auto
  qed
qed

lemma mem_ops_simps [simp]:
  "st_get_keyspace_list mem_ops = mem_get_keyspace_list" "st_iter_metadata mem_ops = mem_iter_metadata"
  "st_remove_tombstones mem_ops = mem_remove_tombstones" "st_put_with_ctx mem_ops = (\<lambda>ks d ctx. mem_put ks d)"
  "st_put mem_ops = mem_put" "st_multi_put_with_ctx mem_ops = (\<lambda>ks ds ctx. mem_multi_put ks ds)"
  "st_multi_put mem_ops = mem_multi_put" "st_mark_as_tombstone mem_ops = mem_mark_as_tombstone"
  "st_mark_many_as_tombstone mem_ops = mem_mark_many_as_tombstone" "st_get mem_ops = mem_get"
  "st_multi_get mem_ops = mem_multi_get"
  by (simp_all add: mem_ops_def default_put_with_ctx_def default_multi_put_with_ctx_def fun_eq_iff)

interpretation mem: storage mem_ops mem_inv mem_known mem_look
proof
  fix s :: mem_store and ks keys ms k ts ctx
  assume inv: "mem_inv s"
  show "\<exists>r s'. st_get_keyspace_list mem_ops s = Some (r, s') \<and> mem_inv s' \<and> mem_look s' = mem_look s \<and>
      (\<forall>ks'. mem_known s ks' \<longrightarrow> mem_known s' ks') \<and>
      (\<forall>l. r = Inr l \<longrightarrow> (\<forall>ks k. mem_look s ks k \<noteq> None \<longrightarrow> ks \<in> set l))"
    using inv mem_keyspaces_law [OF inv] by (auto simp: mem_get_keyspace_list_def)
  show "\<exists>r s'. st_iter_metadata mem_ops ks s = Some (r, s') \<and> mem_inv s' \<and> mem_look s' = mem_look s \<and>
      (\<forall>ks'. mem_known s ks' \<longrightarrow> mem_known s' ks') \<and>
      (\<forall>l. r = Inr l \<longrightarrow> distinct (map fst l) \<and> map_of l = map_option stored_meta \<circ> mem_look s ks)"
    using inv mem_iterate_law [OF inv, of ks] by (simp add: mem_iter_metadata_def)
  show "\<exists>r s'. st_get mem_ops ks k s = Some (r, s') \<and> mem_inv s' \<and> mem_look s' = mem_look s \<and>
      (\<forall>d. r = Inr d \<longrightarrow> d = stored_doc (mem_look s ks k)) \<and> (\<forall>ks'. mem_known s ks' \<longrightarrow> mem_known s' ks')"
    using inv by (simp add: mem_fetch_law)
  show "\<exists>r s'. st_multi_get mem_ops ks keys s = Some (r, s') \<and> mem_inv s' \<and> mem_look s' = mem_look s \<and>
      (\<forall>ds. r = Inr ds \<longrightarrow> mset ds = mset (List.map_filter (\<lambda>k. stored_doc (mem_look s ks k)) keys)) \<and>
      (\<forall>ks'. mem_known s ks' \<longrightarrow> mem_known s' ks')"
    using inv by (simp add: mem_fetch_law)
  show "\<forall>k \<in> set keys. \<exists>t. mem_look s ks k = Some (Tombstone t) \<Longrightarrow>
      \<exists>r s'. st_remove_tombstones mem_ops ks keys s = Some (r, s') \<and> mem_inv s' \<and>
        mem_look s' = (mem_look s)(ks := mem_look s ks |` (- {k \<in> set keys. applied r k})) \<and>
        (\<forall>ks'. mem_known s ks' \<longrightarrow> mem_known s' ks')"
    using mem_remove_law [OF inv, of keys ks] by auto
  assume kn: "mem_known s ks"
  show "\<exists>r s'. st_mark_as_tombstone mem_ops ks k ts s = Some (r, s') \<and> mem_inv s' \<and>
      mem_look s' = (if is_ok r then (mem_look s)(ks := put_tombstones [metadata_new k ts] (mem_look s ks)) else mem_look s) \<and>
      (\<forall>ks'. mem_known s ks' \<longrightarrow> mem_known s' ks')"
    using mem_tombstone_law [OF inv kn, of "[metadata_new k ts]"]
    by (auto simp: mem_mark_as_tombstone_def metadata_new_def)
  show "\<exists>r s'. st_mark_many_as_tombstone mem_ops ks ms s = Some (r, s') \<and> mem_inv s' \<and>
        mem_look s' = (mem_look s)(ks := put_tombstones (filter (\<lambda>d. applied r (md_id d)) ms) (mem_look s ks)) \<and>
        (\<forall>ks'. mem_known s ks' \<longrightarrow> mem_known s' ks')"
    using mem_tombstone_law [OF inv kn, of ms] by auto
qed (simp_all add: mem_put_law)

lemma mem_default_inv: "mem_inv mem_default" "mem_look mem_default = (\<lambda>ks k. None)"
proof -
  show l: "mem_look mem_default = (\<lambda>ks k. None)"
    by (simp add: mem_look_def mem_default_def nested_def fun_eq_iff)
  show "mem_inv mem_default"
    by (simp add: mem_inv_def l) (simp add: mem_default_def nested_wf_def hm_wf_def nested_def)
qed

text \<open>
  Marking in a keyspace the store does not have changes nothing: the marker is lost, where the
  interface asks for the keyspace to be created.
\<close>

lemma mem_tombstone_lost:
  assumes "mem_inv s" "\<not> mem_known s ks"
  shows "mem_mark_many_as_tombstone ks ms s = Some (Inr (), s)"
proof -
  have "map_of (ms_metadata s) ks = None" "map_of (ms_data s) ks = None"
    using assms unfolding mem_inv_def mem_known_def by auto
  then show ?thesis by (simp add: mem_mark_many_as_tombstone_def entry_modify_def)
qed

end
