(* ===== verification/NodeState.thy ===== *)
theory NodeState
  imports Group MemStore
begin

text \<open>
  What a node's keyspaces guarantee together with their store, for every store that keeps the
  contract \<open>storage\<close>. The in-memory store is the instance the examples run on.
\<close>

section \<open>An example node\<close>

definition example_actor :: keyspace_actor where
  "example_actor = spawn_keyspace ''ks'' (default_set NUM_SOURCES) (HLCTimestamp 1)"

definition example_world :: "mem_store world" where
  "example_world = \<lparr>w_store = mem_default, w_clock = example_clock\<rparr>"

definition example_doc :: document where
  "example_doc = document_new 7 (HLCTimestamp 2) [1, 2, 3]"

lemma example_actor_inv: "actor_inv mem_inv mem_look example_actor example_world"
  by (simp add: actor_inv_def actor_wf_def example_actor_def example_world_def spawn_keyspace_def orswot_wf_default
      mem_default_inv agrees_def)

lemma example_clock_get: "\<exists>t c. clock_get example_clock = Some (t, c)"
  by (simp add: clock_get_def example_clock_def example_send)

lemma example_in_order: "src < NUM_SOURCES \<Longrightarrow> in_order src t (ks_state example_actor)"
  by (simp add: example_actor_def spawn_keyspace_def in_order_default)

lemma example_will_apply: "will_apply (ks_state example_actor) k t"
  by (simp add: example_actor_def spawn_keyspace_def will_apply_def default_set_def default_versions_def
      is_ts_before_last_observed_event_def)

section \<open>Properties\<close>

text \<open>Setting a document, for every store that keeps the contract: delivered in order, the handler
  does not panic, keeps the set in agreement with the store and leaves other keyspaces alone. If
  the write is not superseded and the store takes it, the document is stored and the key is live at
  its timestamp; otherwise nothing changes, an error of the store included.\<close>

theorem set_keeps_agreement:
  assumes "storage ops invar known look" "actor_inv invar look a w" "set_source msg < NUM_SOURCES"
    and "in_order (set_source msg) (last_updated (set_doc msg)) (ks_state a)"
    and "clock_get (w_clock w) = Some (t, c)"
  shows "\<exists>r a' w'. on_set ops msg a w = Some (r, a', w') \<and> actor_inv invar look a' w' \<and>
    others_kept known look a w a' w' \<and>
    (if is_ok r \<and> will_apply (ks_state a) (doc_id (set_doc msg)) (last_updated (set_doc msg))
     then reg_of (ks_state a') = (reg_of (ks_state a))(doc_id (set_doc msg) := Live (last_updated (set_doc msg))) \<and>
       look (w_store w') (ks_name a) = (look (w_store w) (ks_name a))(doc_id (set_doc msg) \<mapsto> Doc (set_doc msg)) \<and>
       known (w_store w') (ks_name a) \<and> change_timestamp a' = t
     else reg_of (ks_state a') = reg_of (ks_state a) \<and> look (w_store w') = look (w_store w))"
  by (rule storage.on_set_spec [OF assms])

theorem set_keeps_agreement_witness:
  "\<exists>r a' w'. on_set mem_ops \<lparr>set_source = 0, set_doc = example_doc, set_ctx = None\<rparr> example_actor example_world =
     Some (r, a', w') \<and> actor_inv mem_inv mem_look a' w'"
proof -
  obtain t c where "clock_get (w_clock example_world) = Some (t, c)"
    using example_clock_get by (auto simp: example_world_def)
  then show ?thesis
    using set_keeps_agreement [OF mem.storage_axioms example_actor_inv, of "\<lparr>set_source = 0, set_doc = example_doc, set_ctx = None\<rparr>" t c]
      example_in_order by (auto simp: NUM_SOURCES_def)
qed

text \<open>C13. Setting several documents, for a batch that has no key twice and whose documents are all in order at the set for its source,
  when the clock answers and set and store agree before. For every store that keeps the contract, with a partial failure
  as the interface allows it, the store then holds exactly the applicable documents it reported as
  written, and the set agrees with it again. For a batch out of order this fails: the handler stores
  a document that the set refuses.\<close>

theorem multi_set_keeps_agreement:
  assumes "storage ops invar known look" "actor_inv invar look a w" "mset_source msg < NUM_SOURCES"
    and "distinct (map doc_id (mset_docs msg))"
    and "\<forall>d \<in> set (mset_docs msg). in_order (mset_source msg) (last_updated d) (ks_state a)"
    and "clock_get (w_clock w) = Some (t, c)"
  shows "\<exists>r a' w'. on_multi_set ops msg a w = Some (r, a', w') \<and> actor_inv invar look a' w' \<and>
    others_kept known look a w a' w' \<and> change_timestamp a' = t \<and>
    look (w_store w') (ks_name a) = put_docs (filter (\<lambda>d. will_apply (ks_state a) (doc_id d) (last_updated d) \<and>
      applied r (doc_id d)) (mset_docs msg)) (look (w_store w) (ks_name a))"
  by (rule storage.on_multi_set_spec [OF assms])

theorem multi_set_keeps_agreement_witness:
  "\<exists>r a' w'. on_multi_set mem_ops \<lparr>mset_source = 1, mset_docs = [example_doc, document_new 8 (HLCTimestamp 1) []], mset_ctx = None\<rparr>
     example_actor example_world = Some (r, a', w') \<and> actor_inv mem_inv mem_look a' w'"
proof -
  obtain t c where "clock_get (w_clock example_world) = Some (t, c)"
    using example_clock_get by (auto simp: example_world_def)
  then show ?thesis
    using multi_set_keeps_agreement [OF mem.storage_axioms example_actor_inv,
        of "\<lparr>mset_source = 1, mset_docs = [example_doc, document_new 8 (HLCTimestamp 1) []], mset_ctx = None\<rparr>" t c]
      example_in_order by (auto simp: NUM_SOURCES_def example_doc_def)
qed

text \<open>Deleting a document, for every store that keeps the contract and has the keyspace: as
  setting one, with a tombstone.\<close>

theorem del_keeps_agreement:
  assumes "storage ops invar known look" "actor_inv invar look a w" "del_source msg < NUM_SOURCES"
    and "known (w_store w) (ks_name a)"
    and "in_order (del_source msg) (md_last_updated (del_doc msg)) (ks_state a)"
    and "clock_get (w_clock w) = Some (t, c)"
  shows "\<exists>r a' w'. on_del ops msg a w = Some (r, a', w') \<and> actor_inv invar look a' w' \<and>
    others_kept known look a w a' w' \<and>
    (if is_ok r \<and> will_apply (ks_state a) (md_id (del_doc msg)) (md_last_updated (del_doc msg))
     then reg_of (ks_state a') = (reg_of (ks_state a))(md_id (del_doc msg) := Dead (md_last_updated (del_doc msg))) \<and>
       look (w_store w') (ks_name a) =
         (look (w_store w) (ks_name a))(md_id (del_doc msg) \<mapsto> Tombstone (md_last_updated (del_doc msg))) \<and>
       change_timestamp a' = t
     else reg_of (ks_state a') = reg_of (ks_state a) \<and> look (w_store w') = look (w_store w))"
  by (rule storage.on_del_spec [OF assms])

definition example_store :: mem_store where
  "example_store = \<lparr>ms_metadata = [(''ks'', [])], ms_data = [(''ks'', [])]\<rparr>"

lemma example_store_inv:
  "mem_inv example_store" "mem_known example_store ''ks''" "mem_look example_store = (\<lambda>ks k. None)"
proof -
  show l: "mem_look example_store = (\<lambda>ks k. None)"
    by (simp add: mem_look_def example_store_def nested_def fun_eq_iff)
  have "nested (ms_metadata example_store) ks k = None" for ks k by (simp add: example_store_def nested_def)
  then show "mem_inv example_store"
    by (simp add: mem_inv_def l) (simp add: example_store_def nested_wf_def hm_wf_def)
  show "mem_known example_store ''ks''" by (simp add: mem_known_def example_store_def)
qed

lemma example_actor_store_inv: "actor_inv mem_inv mem_look example_actor (example_world\<lparr>w_store := example_store\<rparr>)"
  by (simp add: actor_inv_def actor_wf_def example_actor_def spawn_keyspace_def orswot_wf_default
      example_store_inv agrees_def)

theorem del_keeps_agreement_witness:
  "\<exists>r a' w'. on_del mem_ops \<lparr>del_source = 0, del_doc = metadata_new 7 (HLCTimestamp 2)\<rparr> example_actor
     (example_world\<lparr>w_store := example_store\<rparr>) = Some (r, a', w') \<and> actor_inv mem_inv mem_look a' w'"
proof -
  obtain t c where "clock_get (w_clock (example_world\<lparr>w_store := example_store\<rparr>)) = Some (t, c)"
    using example_clock_get by (auto simp: example_world_def)
  then show ?thesis
    using del_keeps_agreement [OF mem.storage_axioms example_actor_store_inv,
        of "\<lparr>del_source = 0, del_doc = metadata_new 7 (HLCTimestamp 2)\<rparr>" t c]
      example_in_order example_store_inv(2)
    by (auto simp: NUM_SOURCES_def example_actor_def spawn_keyspace_def)
qed

text \<open>Deleting several documents, for every store that keeps the contract and has the keyspace, with a
  partial failure as the interface allows it.\<close>

theorem multi_del_keeps_agreement:
  assumes "storage ops invar known look" "actor_inv invar look a w" "mdel_source msg < NUM_SOURCES"
    and "known (w_store w) (ks_name a)" "distinct (map md_id (mdel_docs msg))"
    and "\<forall>d \<in> set (mdel_docs msg). in_order (mdel_source msg) (md_last_updated d) (ks_state a)"
    and "clock_get (w_clock w) = Some (t, c)"
  shows "\<exists>r a' w'. on_multi_del ops msg a w = Some (r, a', w') \<and> actor_inv invar look a' w' \<and>
    others_kept known look a w a' w' \<and> change_timestamp a' = t \<and>
    look (w_store w') (ks_name a) = put_tombstones (filter (\<lambda>d. will_apply (ks_state a) (md_id d) (md_last_updated d) \<and>
      applied r (md_id d)) (mdel_docs msg)) (look (w_store w) (ks_name a))"
  by (rule storage.on_multi_del_spec [OF assms])

theorem multi_del_keeps_agreement_witness:
  "\<exists>r a' w'. on_multi_del mem_ops \<lparr>mdel_source = 0, mdel_docs = [metadata_new 7 (HLCTimestamp 2), metadata_new 8 (HLCTimestamp 1)]\<rparr>
     example_actor (example_world\<lparr>w_store := example_store\<rparr>) = Some (r, a', w') \<and> actor_inv mem_inv mem_look a' w'"
proof -
  obtain t c where "clock_get (w_clock (example_world\<lparr>w_store := example_store\<rparr>)) = Some (t, c)"
    using example_clock_get by (auto simp: example_world_def)
  then show ?thesis
    using multi_del_keeps_agreement [OF mem.storage_axioms example_actor_store_inv,
        of "\<lparr>mdel_source = 0, mdel_docs = [metadata_new 7 (HLCTimestamp 2), metadata_new 8 (HLCTimestamp 1)]\<rparr>" t c]
      example_in_order example_store_inv(2)
    by (auto simp: NUM_SOURCES_def example_actor_def spawn_keyspace_def metadata_new_def)
qed

text \<open>Purging, for every store that keeps the contract: whether the store removes all the tombstones,
  some of them or none, the set agrees with it afterwards; live entries stay, and a tombstone that
  went was older than the safe stamp of its node.\<close>

theorem purge_keeps_agreement:
  assumes "storage ops invar known look" "actor_inv invar look a w"
  shows "\<exists>r a' w'. on_purge_tombstones ops a w = Some (r, a', w') \<and> actor_inv invar look a' w' \<and>
    others_kept known look a w a' w' \<and>
    entries (ks_state a') = entries (ks_state a) \<and> versions (ks_state a') = versions (ks_state a) \<and>
    (\<forall>k. reg_of (ks_state a') k = reg_of (ks_state a) k \<or>
       reg_of (ks_state a') k = Absent \<and>
       (\<exists>t. reg_of (ks_state a) k = Dead t \<and> is_ts_before_last_observed_event (versions (ks_state a)) t))"
  by (rule storage.on_purge_tombstones_spec [OF assms])

theorem purge_keeps_agreement_witness:
  "\<exists>r a' w'. on_purge_tombstones mem_ops example_actor example_world = Some (r, a', w') \<and> actor_inv mem_inv mem_look a' w'"
  using purge_keeps_agreement [OF mem.storage_axioms example_actor_inv] by blast

lemma example_list_answers:
  "st_get_keyspace_list mem_ops (w_store (example_world\<lparr>w_store := example_store\<rparr>)) = Some (Inr kss, s1) \<Longrightarrow>
    clock_answers (card (set kss)) (w_clock (example_world\<lparr>w_store := example_store\<rparr>))"
  using clock_answers_enough [OF example_clock_ok, of 1]
  by (auto simp: mem_get_keyspace_list_def example_store_def example_world_def zero_time) (simp add: example_clock_def zero_time)

text \<open>Restart: loading a node's keyspaces from a store that keeps the contract gives a node in order.
  Every keyspace with something stored has an actor, and every actor agrees with the store.\<close>

theorem load_restores_agreement:
  assumes "storage ops invar known look" "invar (w_store w)"
    and "\<And>kss s1. st_get_keyspace_list ops (w_store w) = Some (Inr kss, s1) \<Longrightarrow> clock_answers (card (set kss)) (w_clock w)"
  shows "\<exists>r g'. load_states_from_storage ops (group_new w) = Some (r, g') \<and>
    look (w_store (g_world g')) = look (w_store w) \<and> (is_ok r \<longrightarrow> group_inv invar look g')"
  using storage.load_states_from_storage_spec [OF assms(1), of "group_new w"] assms(2,3)
  by (simp add: group_new_def)

theorem load_restores_agreement_witness:
  "\<exists>r g'. load_states_from_storage mem_ops (group_new (example_world\<lparr>w_store := example_store\<rparr>)) = Some (r, g') \<and>
    (is_ok r \<longrightarrow> group_inv mem_inv mem_look g')"
  using load_restores_agreement [OF mem.storage_axioms _ example_list_answers] example_store_inv(1) by fastforce

lemma reg_meta_inj: "reg_meta r = reg_meta s \<Longrightarrow> r = s"
  by (cases r; cases s) auto

lemma same_store_same_registers:
  assumes "group_inv invar look g" "group_inv invar look g'" "look (w_store (g_world g')) = look (w_store (g_world g))"
    and "map_of (g_group g) name = Some i" "map_of (g_group g') name = Some j"
  shows "reg_of (ks_state (g_actors g' ! j)) = reg_of (ks_state (g_actors g ! i))"
proof
  fix k
  have "ks_name (g_actors g ! i) = name" "ks_name (g_actors g' ! j) = name"
    using assms by (auto simp: group_inv_def group_wf_def)
  moreover have "agrees (look (w_store (g_world g))) (g_actors g ! i)" "agrees (look (w_store (g_world g'))) (g_actors g' ! j)"
    using assms by (auto simp: group_inv_def actor_inv_def)
  ultimately have "reg_meta (reg_of (ks_state (g_actors g' ! j)) k) = reg_meta (reg_of (ks_state (g_actors g ! i)) k)"
    using assms(3) unfolding agrees_def by metis
  then show "reg_of (ks_state (g_actors g' ! j)) k = reg_of (ks_state (g_actors g ! i)) k" by (rule reg_meta_inj)
qed

lemma nothing_stored_absent:
  assumes "group_inv invar look g" "map_of (g_group g) name = Some i" "look (w_store (g_world g)) name = Map.empty"
  shows "reg_of (ks_state (g_actors g ! i)) k = Absent"
proof -
  have "agrees (look (w_store (g_world g))) (g_actors g ! i)" "ks_name (g_actors g ! i) = name"
    using assms(1,2) by (auto simp: group_inv_def group_wf_def actor_inv_def)
  then have "reg_meta (reg_of (ks_state (g_actors g ! i)) k) = reg_meta Absent" using assms(3) by (simp add: agrees_def)
  then show ?thesis by (rule reg_meta_inj)
qed

text \<open>C9. A restart loses nothing: when a node in order stops and its keyspaces are loaded again from the
  same store, every keyspace has the live entries and the tombstones it had; one that is not loaded
  had none.\<close>

theorem restart_preserves_registers:
  assumes "storage ops invar known look" "group_inv invar look g" "w_store w = w_store (g_world g)"
    and "\<And>kss s1. st_get_keyspace_list ops (w_store w) = Some (Inr kss, s1) \<Longrightarrow> clock_answers (card (set kss)) (w_clock w)"
    and "map_of (g_group g) name = Some i"
  shows "\<exists>r g'. load_states_from_storage ops (group_new w) = Some (r, g') \<and>
    (is_ok r \<longrightarrow> reg_of (ks_state (g_actors g ! i)) = (case map_of (g_group g') name of
        Some j \<Rightarrow> reg_of (ks_state (g_actors g' ! j)) | None \<Rightarrow> (\<lambda>k. Absent)))"
proof -
  have iv: "invar (w_store w)" using assms(2,3) by (simp add: group_inv_def)
  obtain r g' where l: "load_states_from_storage ops (group_new w) = Some (r, g')"
    "look (w_store (g_world g')) = look (w_store w)" "is_ok r \<Longrightarrow> group_inv invar look g'"
    using storage.load_states_from_storage_spec [OF assms(1), of "group_new w"] iv assms(4) by (auto simp: group_new_def)
  have "reg_of (ks_state (g_actors g ! i)) = (case map_of (g_group g') name of
      Some j \<Rightarrow> reg_of (ks_state (g_actors g' ! j)) | None \<Rightarrow> (\<lambda>k. Absent))" if ok: "is_ok r"
  proof (cases "map_of (g_group g') name")
    case None
    then have "look (w_store (g_world g)) name = Map.empty"
      using l(2) l(3) [OF ok] assms(3) by (simp add: group_inv_def)
    then show ?thesis using nothing_stored_absent [OF assms(2,5)] None by auto
  next
    case (Some j)
    then show ?thesis using same_store_same_registers [OF assms(2) l(3) [OF ok] _ assms(5)] l(2) assms(3) by simp
  qed
  then show ?thesis using l(1) by blast
qed

definition example_group :: "mem_store keyspace_group" where
  "example_group = \<lparr>g_world = example_world\<lparr>w_store := example_store\<rparr>, g_actors = [example_actor],
     g_group = [(''ks'', 0)], keyspace_timestamps = [(''ks'', 0)]\<rparr>"

lemma example_group_inv: "group_inv mem_inv mem_look example_group"
proof -
  have n: "ks_name example_actor = ''ks''" by (simp add: example_actor_def spawn_keyspace_def)
  then have "group_wf example_group" by (auto simp: group_wf_def example_group_def split: if_splits)
  then show ?thesis
    using example_actor_store_inv example_store_inv
    by (auto simp: group_inv_def example_group_def split: if_splits)
qed

theorem restart_preserves_registers_witness:
  "\<exists>r g'. load_states_from_storage mem_ops (group_new (example_world\<lparr>w_store := example_store\<rparr>)) = Some (r, g') \<and>
    (is_ok r \<longrightarrow> reg_of (ks_state example_actor) = (case map_of (g_group g') ''ks'' of
        Some j \<Rightarrow> reg_of (ks_state (g_actors g' ! j)) | None \<Rightarrow> (\<lambda>k. Absent)))"
proof -
  have e: "w_store (example_world\<lparr>w_store := example_store\<rparr>) = w_store (g_world example_group)"
    "map_of (g_group example_group) ''ks'' = Some 0" "g_actors example_group ! 0 = example_actor"
    by (simp_all add: example_group_def)
  show ?thesis
    using restart_preserves_registers [OF mem.storage_axioms example_group_inv e(1) example_list_answers e(2)]
    unfolding e(3) .
qed

text \<open>One round of the purge task over a node in order goes through every keyspace without a panic,
  leaves the node in order and keeps every live entry.\<close>

theorem purge_round_keeps_order:
  assumes "storage ops invar known look" "group_inv invar look g"
  shows "\<exists>g'. purge_round ops g = Some g' \<and> group_inv invar look g' \<and> g_group g' = g_group g \<and>
    (\<forall>name i. map_of (g_group g) name = Some i \<longrightarrow>
       entries (ks_state (g_actors g' ! i)) = entries (ks_state (g_actors g ! i)))"
  by (rule storage.purge_round_spec [OF assms])

theorem purge_round_keeps_order_witness:
  "\<exists>g'. purge_round mem_ops example_group = Some g' \<and> group_inv mem_inv mem_look g'"
  using purge_round_keeps_order [OF mem.storage_axioms example_group_inv] by blast

text \<open>Out of order the agreement is lost: a document that is announced as applicable but that its
  source delivers after a newer one of the same node is written to the store, while the set does not
  record it. The handler reports success.\<close>

lemma set_out_of_order_diverges:
  assumes "storage ops invar known look" "actor_inv invar look a w" "set_source msg < NUM_SOURCES"
    and "\<not> in_order (set_source msg) (last_updated (set_doc msg)) (ks_state a)"
    and "\<not> is_ts_before_last_observed_event (versions (ks_state a)) (last_updated (set_doc msg))"
    and "reg_of (ks_state a) (doc_id (set_doc msg)) = Absent"
    and "st_put_with_ctx ops (ks_name a) (set_doc msg) (set_ctx msg) (w_store w) = Some (Inr (), s')"
    and "clock_get (w_clock w) = Some (t, c)"
  shows "\<exists>a' w'. on_set ops msg a w = Some (Inr (), a', w') \<and>
    look (w_store w') (ks_name a) (doc_id (set_doc msg)) = Some (Doc (set_doc msg)) \<and>
    reg_of (ks_state a') (doc_id (set_doc msg)) = Absent \<and> \<not> agrees (look (w_store w')) a'"
proof -
  let ?d = "set_doc msg"
  have wf: "orswot_wf NUM_SOURCES (ks_state a)" and iv: "invar (w_store w)"
    using assms(2) by (auto simp: actor_inv_def actor_wf_def)
  have ap: "will_apply (ks_state a) (doc_id ?d) (last_updated ?d)"
    using will_apply_reg [OF wf] assms(5,6) by auto
  obtain b st where st: "insert_with_source (set_source msg) (doc_id ?d) (last_updated ?d) (ks_state a) = Some (b, st)"
    "reg_of st = reg_of (ks_state a)"
    using insert_with_source_reg [OF wf assms(3)] assms(4) by (metis (full_types))
  obtain r s1 where "st_put_with_ctx ops (ks_name a) ?d (set_ctx msg) (w_store w) = Some (r, s1)"
    "look s1 = (if is_ok r then (look (w_store w))(ks_name a := put_docs [?d] (look (w_store w) (ks_name a))) else look (w_store w))"
    using storage.put_with_ctx [OF assms(1), of "set_ctx msg"] iv unfolding put_law_def by blast
  then have look: "look s' (ks_name a) (doc_id ?d) = Some (Doc ?d)" using assms(7) by (auto simp: put_one)
  let ?a = "a\<lparr>ks_state := st, change_timestamp := t\<rparr>" and ?w = "w\<lparr>w_store := s', w_clock := c\<rparr>"
  have "on_set ops msg a w = Some (Inr (), ?a, ?w)"
    using ap assms(7,8) by (simp add: on_set_def st(1) inc_change_timestamp_Some)
  moreover have "\<not> agrees (look s') ?a"
    using look st(2) assms(6) by (auto simp: agrees_def intro!: exI [of _ "doc_id ?d"])
  ultimately show ?thesis using look st(2) assms(6) by auto
qed

definition example_doc8 :: document where
  "example_doc8 = document_new 8 (HLCTimestamp 257) []"

definition example_store8 :: mem_store where
  "example_store8 = \<lparr>ms_metadata = [(''ks'', [(8, (HLCTimestamp 257, False))])], ms_data = [(''ks'', [(8, example_doc8)])]\<rparr>"

lemma example_store8_inv:
  "mem_inv example_store8" "mem_look example_store8 = (\<lambda>ks k. None)(''ks'' := [8 \<mapsto> Doc example_doc8])"
proof -
  show l: "mem_look example_store8 = (\<lambda>ks k. None)(''ks'' := [8 \<mapsto> Doc example_doc8])"
    by (auto simp: mem_look_def example_store8_def nested_def fun_eq_iff)
  show "mem_inv example_store8"
    unfolding mem_inv_def l
    by (auto simp: example_store8_def nested_def nested_wf_def hm_wf_def example_doc8_def split: if_splits)
qed

lemma set_out_of_order_diverges_witness:
  "\<exists>a w a' w'. on_set mem_ops \<lparr>set_source = 0, set_doc = document_new 7 (HLCTimestamp 1) [], set_ctx = None\<rparr> a w = Some (Inr (), a', w') \<and>
    agrees (mem_look (w_store w)) a \<and> \<not> agrees (mem_look (w_store w')) a'"
proof -
  obtain s where s: "orswot_wf 2 s" "\<not> in_order 0 (HLCTimestamp 1) s"
    "\<not> is_ts_before_last_observed_event (versions s) (HLCTimestamp 1)" "reg_of s 7 = Absent"
    "reg_of s = (reg_of (default_set 2))(8 := Live (HLCTimestamp 257))"
    by (rule example_newer)
  let ?a = "example_actor\<lparr>ks_state := s\<rparr>" and ?w = "example_world\<lparr>w_store := example_store8\<rparr>"
  let ?msg = "\<lparr>set_source = 0, set_doc = document_new 7 (HLCTimestamp 1) [], set_ctx = None\<rparr>"
  have ag: "agrees (mem_look example_store8) ?a"
    by (auto simp: agrees_def example_actor_def spawn_keyspace_def s(5) example_store8_inv(2) example_doc8_def)
  then have inv: "actor_inv mem_inv mem_look ?a ?w"
    using s(1) by (simp add: actor_inv_def actor_wf_def example_store8_inv(1) NUM_SOURCES_def)
  obtain t c where clk: "clock_get (w_clock ?w) = Some (t, c)"
    using example_clock_get by (auto simp: example_world_def)
  obtain s' where put: "st_put_with_ctx mem_ops (ks_name ?a) (set_doc ?msg) (set_ctx ?msg) (w_store ?w) = Some (Inr (), s')"
    by (simp add: mem_put_def mem_multi_put_def)
  have "\<exists>a' w'. on_set mem_ops ?msg ?a ?w = Some (Inr (), a', w') \<and> \<not> agrees (mem_look (w_store w')) a'"
    using set_out_of_order_diverges [OF mem.storage_axioms inv _ _ _ _ put clk] s(2-4) by (auto simp: NUM_SOURCES_def)
  moreover have "agrees (mem_look (w_store ?w)) ?a" using ag by simp
  ultimately show ?thesis by blast
qed

text \<open>The keyspaces a node fetches from a peer: comparing two maps of change timestamps lists, once
  each, exactly the keyspaces whose timestamps differ or that one side lacks.\<close>

theorem timestamps_diff_exact:
  assumes "distinct (map fst self)" "distinct (map fst other)"
  shows "set (timestamps_diff self other) = {name. map_of self name \<noteq> map_of other name} \<and>
    distinct (timestamps_diff self other)"
  using timestamps_diff_set [OF assms] by blast

theorem timestamps_diff_exact_witness:
  "''b'' \<in> set (timestamps_diff [(''a'', HLCTimestamp 1), (''b'', HLCTimestamp 1)] [(''a'', HLCTimestamp 1), (''b'', HLCTimestamp 2)])"
  using timestamps_diff_exact [of "[(''a'', HLCTimestamp 1), (''b'', HLCTimestamp 1)]" "[(''a'', HLCTimestamp 1), (''b'', HLCTimestamp 2)]"]
  by simp

text \<open>The in-memory store loses a deletion: marking tombstones in a keyspace it does not have returns
  success and changes nothing, where the interface asks for the keyspace to be created.\<close>

theorem mem_store_loses_tombstone:
  assumes "mem_inv s" "\<not> mem_known s ks"
  shows "mem_mark_many_as_tombstone ks ms s = Some (Inr (), s)"
  by (rule mem_tombstone_lost [OF assms])

theorem mem_store_loses_tombstone_witness:
  "mem_mark_many_as_tombstone ''ks'' [metadata_new 7 (HLCTimestamp 1)] mem_default = Some (Inr (), mem_default)"
  by (rule mem_store_loses_tombstone [OF mem_default_inv(1)]) (simp add: mem_known_def mem_default_def)

end
