(* ===== verification/ServiceWrites.thy ===== *)
theory ServiceWrites
  imports Services NodeState
begin

text \<open>
  What the consistency service does to a node: that operations delivered in order stay in order
  across the handlers, the effect of each request on the registers of its keyspace, the effect of a
  batch, and the batch that loses a document.
\<close>

section \<open>Operations that stay in order\<close>

lemma in_order_kept:
  assumes wf: "orswot_wf n s" and x: "apply_op x s = Some s'" "op_source x < n"
    and t: "in_order src t s" "op_source x = src \<Longrightarrow> node (op_ts x) = node t \<Longrightarrow> op_ts x \<le> t"
  shows "in_order src t s'"
proof -
  have len: "op_source x < length (nodes_max_stamps (versions s))"
    using wf x(2) by (simp add: orswot_wf_def versions_wf_def)
  have u: "try_update_max_stamp (op_source x) (op_ts x) (versions s) = Some (op_in_order x s, versions s')"
    using apply_op_total [OF wf x(2)] x(1) by auto
  then have "versions s' = refresh (node (op_ts x)) (versions s) \<or>
      versions s' = refresh (node (op_ts x)) (set_max_stamp (op_source x) (op_ts x) (versions s))"
    using len by (auto simp: try_update_max_stamp_eq split: if_splits)
  then have "nodes_max_stamps (versions s') = nodes_max_stamps (versions s) \<or>
      nodes_max_stamps (versions s') = (nodes_max_stamps (versions s))[op_source x :=
        bt_insert (node (op_ts x)) (op_ts x) (nodes_max_stamps (versions s) ! op_source x)]"
    by (auto simp: set_max_stamp_def)
  then show ?thesis
    using t len by (cases "op_source x = src") (auto simp: in_order_def split: option.splits if_splits)
qed

lemma in_order_kept_fold:
  assumes "orswot_wf n s" "exec_fold apply_op xs s = Some s'" "\<forall>x \<in> set xs. op_source x < n" "in_order src t s"
    and "\<forall>x \<in> set xs. op_source x = src \<longrightarrow> node (op_ts x) = node t \<longrightarrow> op_ts x \<le> t"
  shows "in_order src t s'"
  using assms
proof (induction xs arbitrary: s)
  case (Cons x xs)
  obtain s1 where s1: "apply_op x s = Some s1" "exec_fold apply_op xs s1 = Some s'"
    using Cons.prems(2) by (auto split: bind_splits)
  then show ?case
    using Cons.IH [OF _ s1(2)] Cons.prems apply_op_wf(1) [OF Cons.prems(1) s1(1)] in_order_kept [OF Cons.prems(1) s1(1)] by auto
qed simp

lemma on_multi_del_in_order:
  assumes "actor_wf a" "mdel_source msg < NUM_SOURCES" "on_multi_del ops msg a w = Some (r, a', w')"
    and "in_order src t (ks_state a)"
    and "\<forall>d \<in> set (mdel_docs msg). mdel_source msg = src \<longrightarrow> node (md_last_updated d) = node t \<longrightarrow> md_last_updated d \<le> t"
  shows "in_order src t (ks_state a')"
proof -
  obtain es where es: "apply_deletes (mdel_source msg) es (ks_state a) = Some (ks_state a')"
    "set es \<subseteq> (\<lambda>d. (md_id d, md_last_updated d)) ` set (mdel_docs msg)"
    using assms(3) by (fastforce simp: on_multi_del_def inc_change_timestamp_def Let_def split: bind_splits sum.splits)
  then show ?thesis
    using in_order_kept_fold [where xs = "map (\<lambda>(k, t). DeleteOp (mdel_source msg) k t) es" and n = NUM_SOURCES and s = "ks_state a"] assms
    by (force simp: apply_inserts_ops actor_wf_def)
qed

lemma on_multi_set_in_order:
  assumes "actor_wf a" "mset_source msg < NUM_SOURCES" "on_multi_set ops msg a w = Some (r, a', w')"
    and "in_order src t (ks_state a)"
    and "\<forall>d \<in> set (mset_docs msg). mset_source msg = src \<longrightarrow> node (last_updated d) = node t \<longrightarrow> last_updated d \<le> t"
  shows "in_order src t (ks_state a')"
proof -
  obtain es where es: "apply_inserts (mset_source msg) es (ks_state a) = Some (ks_state a')"
    "set es \<subseteq> (\<lambda>d. (doc_id d, last_updated d)) ` set (mset_docs msg)"
    using assms(3) by (fastforce simp: on_multi_set_def inc_change_timestamp_def Let_def split: bind_splits sum.splits)
  then show ?thesis
    using in_order_kept_fold [where xs = "map (\<lambda>(k, t). InsertOp (mset_source msg) k t) es" and n = NUM_SOURCES and s = "ks_state a"] assms
    by (force simp: apply_inserts_ops actor_wf_def)
qed

section \<open>The clock across a handler\<close>

definition clock_used :: "'s world \<Rightarrow> 's world \<Rightarrow> bool" where
  "clock_used w w' \<longleftrightarrow> w_clock w' = w_clock w \<or> (\<exists>t. clock_get (w_clock w) = Some (t, w_clock w'))"

lemma clock_answers_less: "clock_answers n c \<Longrightarrow> m \<le> n \<Longrightarrow> clock_answers m c"
proof (induction n arbitrary: c m)
  case (Suc n)
  then show ?case by (cases m) (auto split: option.splits)
qed simp

lemma clock_answers_get: "clock_answers (Suc n) c \<Longrightarrow> \<exists>t c'. clock_get c = Some (t, c') \<and> clock_answers n c'"
  by (auto split: option.splits)

lemma clock_used_answers: "clock_used w w' \<Longrightarrow> clock_answers (Suc n) (w_clock w) \<Longrightarrow> clock_answers n (w_clock w')"
  using clock_answers_less [of "Suc n" "w_clock w" n] by (auto simp: clock_used_def)

lemma handlers_clock:
  "on_set ops m1 a w = Some (r1, a', w') \<Longrightarrow> clock_used w w'"
  "on_multi_set ops m2 a w = Some (r2, a', w') \<Longrightarrow> clock_used w w'"
  "on_del ops m3 a w = Some (r3, a', w') \<Longrightarrow> clock_used w w'"
  "on_multi_del ops m4 a w = Some (r4, a', w') \<Longrightarrow> clock_used w w'"
  by (fastforce simp: on_set_def on_multi_set_def on_del_def on_multi_del_def inc_change_timestamp_def clock_used_def Let_def
      split: if_splits bind_splits sum.splits)+

section \<open>What the handlers do to a node\<close>

text \<open>The set and the registers of a keyspace; a keyspace without an actor has none.\<close>

definition group_set :: "'s keyspace_group \<Rightarrow> string \<Rightarrow> orswot_set" where
  "group_set g name = (case map_of (g_group g) name of
     Some i \<Rightarrow> ks_state (g_actors g ! i) | None \<Rightarrow> default_set NUM_SOURCES)"

definition group_reg :: "'s keyspace_group \<Rightarrow> string \<Rightarrow> key \<Rightarrow> lww_register" where
  "group_reg g name = reg_of (group_set g name)"

lemma create_keeps:
  assumes inv: "group_inv invar look g" and clk: "clock_answers (Suc n) (w_clock (g_world g))"
  shows "\<exists>i g'. get_or_create_keyspace name g = Some (i, g') \<and> group_inv invar look g' \<and>
    map_of (g_group g') name = Some i \<and> w_store (g_world g') = w_store (g_world g) \<and>
    group_set g' = group_set g \<and> clock_answers n (w_clock (g_world g'))"
proof -
  obtain t c where c: "clock_get (w_clock (g_world g)) = Some (t, c)" "clock_answers n c"
    using clock_answers_get [OF clk] by blast
  have wf: "group_wf g" using inv by (simp add: group_inv_def)
  obtain i g' where g': "get_or_create_keyspace name g = Some (i, g')" "w_store (g_world g') = w_store (g_world g)"
    "\<forall>j < length (g_actors g). g_actors g' ! j = g_actors g ! j"
    "map_of (g_group g) name = None \<longrightarrow> ks_state (g_actors g' ! i) = default_set NUM_SOURCES"
    using get_or_create_keyspace_spec [OF wf c(1), of name] by auto
  note cr = group_inv_create [OF inv g'(1) c(1)]
  have "w_clock (g_world g') = w_clock (g_world g) \<and> map_of (g_group g') = map_of (g_group g) \<or>
      w_clock (g_world g') = c \<and> map_of (g_group g) name = None \<and> map_of (g_group g') = (map_of (g_group g))(name \<mapsto> i)"
    using g'(1) c(1) by (auto simp: get_or_create_keyspace_def add_state_def spawn_state_def split: option.splits)
  moreover from this have "group_set g' n = group_set g n" for n
    using g'(3,4) wf by (auto simp: group_set_def group_wf_def split: option.splits if_splits)
  ultimately show ?thesis
    using g'(1,2) cr c(2) clock_answers_less [OF clk, of n] by auto
qed

lemma send_to_group:
  assumes inv: "group_inv invar look g" and i: "map_of (g_group g) name = Some i"
    and h: "h (g_actors g ! i) (g_world g) = Some (r, a', w')"
    and keep: "actor_inv invar look a' w'" "others_kept known look (g_actors g ! i) (g_world g) a' w'"
  shows "\<exists>g'. send_to i h g = Some (r, g') \<and> group_inv invar look g' \<and> g_group g' = g_group g \<and> g_world g' = w' \<and>
    g_actors g' ! i = a' \<and> group_set g' = (group_set g)(name := ks_state a')"
proof -
  obtain g' where g': "send_to i h g = Some (r, g')" "group_inv invar look g'" "g_group g' = g_group g"
    "g_world g' = w'" "g_actors g' = (g_actors g)[i := a']"
    using send_to_inv [where h = h, OF assms] by blast
  have "i < length (g_actors g)" "ks_name (g_actors g ! i) = name" "map_of (g_group g) n = Some i \<Longrightarrow> ks_name (g_actors g ! i) = n" for n
    using inv i by (auto simp: group_inv_def group_wf_def)
  then have "group_set g' n = ((group_set g)(name := ks_state a')) n" for n
    using i by (auto simp: group_set_def g'(3,5) nth_list_update split: option.splits)
  then show ?thesis using g' \<open>i < length (g_actors g)\<close> by auto
qed

text \<open>A handler whose message the actor takes, whatever the store answers.\<close>

definition takes ::
  "('s \<Rightarrow> bool) \<Rightarrow> ('s \<Rightarrow> string \<Rightarrow> bool) \<Rightarrow> ('s \<Rightarrow> string \<Rightarrow> key \<rightharpoonup> stored) \<Rightarrow> keyspace_actor \<Rightarrow> 's world
    \<Rightarrow> (keyspace_actor \<Rightarrow> 's world \<Rightarrow> ('r \<times> keyspace_actor \<times> 's world) exec) \<Rightarrow> ('r \<Rightarrow> orswot_set \<Rightarrow> bool) \<Rightarrow> bool" where
  "takes invar known look a w h Q \<longleftrightarrow> (\<exists>r a' w'. h a w = Some (r, a', w') \<and> actor_inv invar look a' w' \<and>
     others_kept known look a w a' w' \<and> clock_used w w' \<and> Q r (ks_state a'))"

lemma try_send_takes:
  assumes inv: "group_inv invar look g" and i: "map_of (g_group g) name = Some i"
    and h: "takes invar known look (g_actors g ! i) (g_world g) h Q" and clk: "clock_answers (Suc n) (w_clock (g_world g))"
  shows "\<exists>r g'. try_send te i h g = Some (case r of Inl e \<Rightarrow> Inl (internal (te e)) | Inr u \<Rightarrow> Inr (), g') \<and> group_inv invar look g' \<and>
    (\<forall>ks. known (w_store (g_world g)) ks \<longrightarrow> known (w_store (g_world g')) ks) \<and>
    (\<exists>st. group_set g' = (group_set g)(name := st) \<and> Q r st) \<and> clock_answers n (w_clock (g_world g'))"
proof -
  obtain r a' w' where r: "h (g_actors g ! i) (g_world g) = Some (r, a', w')" "actor_inv invar look a' w'"
    "others_kept known look (g_actors g ! i) (g_world g) a' w'" "clock_used (g_world g) w'" "Q r (ks_state a')"
    using h by (auto simp: takes_def)
  obtain g' where g': "send_to i h g = Some (r, g')" "group_inv invar look g'" "g_world g' = w'"
    "group_set g' = (group_set g)(name := ks_state a')"
    using send_to_group [where h = h, OF inv i r(1-3)] by blast
  then show ?thesis
    using r(3,5) clock_used_answers [OF r(4) clk] by (auto simp: try_send_def others_kept_def)
qed

lemma handle_write_spec:
  assumes inv: "group_inv invar look g"
    and reg: "clock_register ts (w_clock (g_world g)) = Some c" "clock_answers 3 c"
    and h: "\<And>a w. actor_inv invar look a w \<Longrightarrow> ks_name a = name \<Longrightarrow> ks_state a = group_set g name \<Longrightarrow>
      w_store w = w_store (g_world g) \<Longrightarrow> clock_answers 1 (w_clock w) \<Longrightarrow> takes invar known look a w h Q"
  shows "\<exists>r g' st. handle_write te ts name h g = Some (r, g') \<and> group_inv invar look g' \<and>
    (\<forall>ks. known (w_store (g_world g)) ks \<longrightarrow> known (w_store (g_world g')) ks) \<and>
    group_set g' = (group_set g)(name := st) \<and>
    (case r of Inl e \<Rightarrow> \<exists>x. Q (Inl x) st | Inr reply \<Rightarrow> Q (Inr ()) st)"
proof -
  let ?g = "g\<lparr>g_world := (g_world g)\<lparr>w_clock := c\<rparr>\<rparr>"
  have g0: "group_register_ts ts g = Some ?g" using reg(1) by (simp add: group_register_ts_def)
  have inv0: "group_inv invar look ?g" using inv by (auto simp: group_inv_def group_wf_def actor_inv_def)
  have set0: "group_set ?g = group_set g" by (simp add: group_set_def fun_eq_iff split: option.split)
  have "clock_answers (Suc 2) (w_clock (g_world ?g))" using reg(2) by (simp add: numeral_3_eq_3 numeral_2_eq_2)
  from create_keeps [OF inv0 this, of name] obtain i g1 where
    g1: "get_or_create_keyspace name ?g = Some (i, g1)" "group_inv invar look g1" "map_of (g_group g1) name = Some i"
      "w_store (g_world g1) = w_store (g_world g)" "group_set g1 = group_set g" "clock_answers 2 (w_clock (g_world g1))"
    unfolding set0 by auto
  have a1: "actor_inv invar look (g_actors g1 ! i) (g_world g1)" "ks_name (g_actors g1 ! i) = name"
    using g1(2,3) by (auto simp: group_inv_def group_wf_def)
  have "ks_state (g_actors g1 ! i) = group_set g1 name" using g1(3) by (simp add: group_set_def)
  then have "takes invar known look (g_actors g1 ! i) (g_world g1) h Q"
    using h [OF a1] g1(4,5) clock_answers_less [OF g1(6), of 1] by simp
  from try_send_takes [OF g1(2,3) this, of 1 te] g1(6) obtain r g2 st where
    g2: "try_send te i h g1 = Some (case r of Inl e \<Rightarrow> Inl (internal (te e)) | Inr u \<Rightarrow> Inr (), g2)" "group_inv invar look g2"
      "\<forall>ks. known (w_store (g_world g1)) ks \<longrightarrow> known (w_store (g_world g2)) ks"
      "group_set g2 = (group_set g1)(name := st)" "Q r st" "clock_answers 1 (w_clock (g_world g2))"
    by (auto simp: numeral_2_eq_2)
  obtain t c2 where c2: "clock_get (w_clock (g_world g2)) = Some (t, c2)"
    using g2(6) by (auto split: option.splits)
  let ?g2 = "g2\<lparr>g_world := (g_world g2)\<lparr>w_clock := c2\<rparr>\<rparr>"
  have inv2: "group_inv invar look ?g2" using g2(2) by (auto simp: group_inv_def group_wf_def actor_inv_def)
  have set2: "group_set ?g2 = group_set g2" by (simp add: group_set_def fun_eq_iff split: option.split)
  have ok: "handle_write te ts name h g = (case r of Inl e \<Rightarrow> Some (Inl (internal (te e)), g2) | Inr u \<Rightarrow> Some (Inr t, ?g2))"
    by (cases r) (simp_all add: handle_write_def g0 g1(1) g2(1) group_get_time_def c2)
  show ?thesis
  proof (cases r)
    case (Inl e)
    then show ?thesis using ok g2 g1(4,5) by (auto intro!: exI [of _ e])
  next
    case (Inr u)
    then show ?thesis using ok g2 g1(4,5) inv2 set2 by auto
  qed
qed

text \<open>A write takes effect on a register with no timestamp as new.\<close>

fun overwrite :: "lww_register \<Rightarrow> lww_register \<Rightarrow> lww_register" where
  "overwrite r Absent = r"
| "overwrite r (Live t) = (if r < Dead t then Live t else r)"
| "overwrite r (Dead t) = (if r < Dead t then Dead t else r)"

lemma overwrite_max: "(\<And>t. e = Live t \<Longrightarrow> r \<noteq> Dead t) \<Longrightarrow> overwrite r e = max r e"
  by (cases r; cases e) (auto simp: max_def)

text \<open>The entries a request writes to the set, for the keys that went through.\<close>

definition writes :: "(key \<times> lww_register) list \<Rightarrow> (key \<Rightarrow> bool) \<Rightarrow> orswot_set \<Rightarrow> orswot_set \<Rightarrow> bool" where
  "writes es P st st' \<longleftrightarrow> (\<forall>k. reg_of st' k =
     (case map_of es k of Some e \<Rightarrow> if P k then overwrite (reg_of st k) e else reg_of st k | None \<Rightarrow> reg_of st k))"

definition live_entries :: "document list \<Rightarrow> (key \<times> lww_register) list" where
  "live_entries ds = map (\<lambda>d. (doc_id d, Live (last_updated d))) ds"

definition dead_entries :: "document_metadata list \<Rightarrow> (key \<times> lww_register) list" where
  "dead_entries ds = map (\<lambda>d. (md_id d, Dead (md_last_updated d))) ds"

lemma reg_metaD: "reg_meta r = Some (t, b) \<Longrightarrow> r = (if b then Dead t else Live t)"
  by (cases r) auto

lemma reg_meta_inject: "reg_meta r = reg_meta s \<Longrightarrow> r = s"
  by (cases r; cases s) auto

text \<open>Operations that were in order stay so, unless one of their node and source that is newer came in between.\<close>

definition keeps_order :: "nat \<Rightarrow> hlc_timestamp list \<Rightarrow> orswot_set \<Rightarrow> orswot_set \<Rightarrow> bool" where
  "keeps_order src ts st st' \<longleftrightarrow> (\<forall>t. in_order src t st \<longrightarrow> (\<forall>u \<in> set ts. node u = node t \<longrightarrow> u \<le> t) \<longrightarrow> in_order src t st')"

text \<open>From what the store holds before and after to the registers.\<close>

lemma writes_docs:
  assumes inv: "actor_inv invar look a w" "actor_inv invar look a' w'" "ks_name a' = ks_name a"
    and ds: "distinct (map doc_id ds)" "\<forall>d \<in> set ds. in_order src (last_updated d) (ks_state a)"
    and lk: "look (w_store w') (ks_name a) = put_docs (filter (\<lambda>d. will_apply (ks_state a) (doc_id d) (last_updated d) \<and> P (doc_id d)) ds)
      (look (w_store w) (ks_name a))"
  shows "writes (live_entries ds) P (ks_state a) (ks_state a')"
proof -
  let ?ds = "filter (\<lambda>d. will_apply (ks_state a) (doc_id d) (last_updated d) \<and> P (doc_id d)) ds"
  have dist: "distinct (map doc_id ?ds)" using ds(1) by (simp add: distinct_map_filter)
  have wf: "orswot_wf NUM_SOURCES (ks_state a)" using inv(1) by (simp add: actor_inv_def actor_wf_def)
  have ag: "reg_meta (reg_of (ks_state a) k) = map_option stored_meta (look (w_store w) (ks_name a) k)"
    "reg_meta (reg_of (ks_state a') k) = map_option stored_meta (put_docs ?ds (look (w_store w) (ks_name a)) k)" for k
    using inv lk by (simp_all add: actor_inv_def agrees_def)
  have other: "reg_of (ks_state a') k = reg_of (ks_state a) k" if "k \<notin> doc_id ` set ?ds" for k
    using ag [of k] put_docs_distinct(2) [OF dist that] by (intro reg_meta_inject) simp
  have "reg_of (ks_state a') k = (case map_of (live_entries ds) k of
      Some e \<Rightarrow> if P k then overwrite (reg_of (ks_state a) k) e else reg_of (ks_state a) k | None \<Rightarrow> reg_of (ks_state a) k)" for k
  proof (cases "k \<in> doc_id ` set ds")
    case False
    then have "map_of (live_entries ds) k = None" by (auto simp: live_entries_def map_of_eq_None_iff)
    then show ?thesis using other [of k] False by auto
  next
    case True
    then obtain d where d: "d \<in> set ds" "k = doc_id d" by blast
    have m: "map_of (live_entries ds) k = Some (Live (last_updated d))"
      using d ds(1) by (auto simp: live_entries_def comp_def intro!: map_of_is_SomeI)
    have wa: "will_apply (ks_state a) k (last_updated d) \<longleftrightarrow> reg_of (ks_state a) k < Dead (last_updated d)"
      using will_apply_in_order [OF wf] ds(2) d(1) by blast
    show ?thesis
    proof (cases "P k \<and> will_apply (ks_state a) k (last_updated d)")
      case True
      then have "d \<in> set ?ds" using d by simp
      then have "reg_meta (reg_of (ks_state a') k) = Some (last_updated d, False)"
        using ag(2) [of k] put_docs_distinct(1) [OF dist] d(2) by simp
      then show ?thesis using m True wa by (auto dest: reg_metaD)
    next
      case False
      then have "k \<notin> doc_id ` set ?ds" using d ds(1) by (auto simp: distinct_map dest: inj_onD)
      then show ?thesis using other m False wa by auto
    qed
  qed
  then show ?thesis by (simp add: writes_def)
qed

lemma writes_tombstones:
  assumes inv: "actor_inv invar look a w" "actor_inv invar look a' w'" "ks_name a' = ks_name a"
    and ds: "distinct (map md_id ds)" "\<forall>d \<in> set ds. in_order src (md_last_updated d) (ks_state a)"
    and lk: "look (w_store w') (ks_name a) = put_tombstones (filter (\<lambda>d. will_apply (ks_state a) (md_id d) (md_last_updated d) \<and> P (md_id d)) ds)
      (look (w_store w) (ks_name a))"
  shows "writes (dead_entries ds) P (ks_state a) (ks_state a')"
proof -
  let ?ds = "filter (\<lambda>d. will_apply (ks_state a) (md_id d) (md_last_updated d) \<and> P (md_id d)) ds"
  have dist: "distinct (map md_id ?ds)" using ds(1) by (simp add: distinct_map_filter)
  have wf: "orswot_wf NUM_SOURCES (ks_state a)" using inv(1) by (simp add: actor_inv_def actor_wf_def)
  have ag: "reg_meta (reg_of (ks_state a) k) = map_option stored_meta (look (w_store w) (ks_name a) k)"
    "reg_meta (reg_of (ks_state a') k) = map_option stored_meta (put_tombstones ?ds (look (w_store w) (ks_name a)) k)" for k
    using inv lk by (simp_all add: actor_inv_def agrees_def)
  have other: "reg_of (ks_state a') k = reg_of (ks_state a) k" if "k \<notin> md_id ` set ?ds" for k
    using ag [of k] put_tombstones_distinct(2) [OF dist that] by (intro reg_meta_inject) simp
  have "reg_of (ks_state a') k = (case map_of (dead_entries ds) k of
      Some e \<Rightarrow> if P k then overwrite (reg_of (ks_state a) k) e else reg_of (ks_state a) k | None \<Rightarrow> reg_of (ks_state a) k)" for k
  proof (cases "k \<in> md_id ` set ds")
    case False
    then have "map_of (dead_entries ds) k = None" by (auto simp: dead_entries_def map_of_eq_None_iff)
    then show ?thesis using other [of k] False by auto
  next
    case True
    then obtain d where d: "d \<in> set ds" "k = md_id d" by blast
    have m: "map_of (dead_entries ds) k = Some (Dead (md_last_updated d))"
      using d ds(1) by (auto simp: dead_entries_def comp_def intro!: map_of_is_SomeI)
    have wa: "will_apply (ks_state a) k (md_last_updated d) \<longleftrightarrow> reg_of (ks_state a) k < Dead (md_last_updated d)"
      using will_apply_in_order [OF wf] ds(2) d(1) by blast
    show ?thesis
    proof (cases "P k \<and> will_apply (ks_state a) k (md_last_updated d)")
      case True
      then have "d \<in> set ?ds" using d by simp
      then have "reg_meta (reg_of (ks_state a') k) = Some (md_last_updated d, True)"
        using ag(2) [of k] put_tombstones_distinct(1) [OF dist] d(2) by simp
      then show ?thesis using m True wa by (auto dest: reg_metaD)
    next
      case False
      then have "k \<notin> md_id ` set ?ds" using d ds(1) by (auto simp: distinct_map dest: inj_onD)
      then show ?thesis using other m False wa by auto
    qed
  qed
  then show ?thesis by (simp add: writes_def)
qed

context storage
begin

lemma on_set_takes:
  assumes inv: "actor_inv invar look a w" and src: "set_source msg < NUM_SOURCES"
    and ord: "in_order (set_source msg) (last_updated (set_doc msg)) (ks_state a)"
    and clk: "clock_answers 1 (w_clock w)"
  shows "takes invar known look a w (on_set ops msg) (\<lambda>r. writes (live_entries [set_doc msg]) (\<lambda>k. is_ok r) (ks_state a))"
proof -
  obtain t c where c: "clock_get (w_clock w) = Some (t, c)" using clk by (auto split: option.splits)
  obtain r a' w' where r: "on_set ops msg a w = Some (r, a', w')" "actor_inv invar look a' w'"
    "others_kept known look a w a' w'"
    "if is_ok r \<and> will_apply (ks_state a) (doc_id (set_doc msg)) (last_updated (set_doc msg))
     then look (w_store w') (ks_name a) = (look (w_store w) (ks_name a))(doc_id (set_doc msg) \<mapsto> Doc (set_doc msg))
     else look (w_store w') = look (w_store w)"
    using on_set_spec [OF inv src ord c] by metis
  have "look (w_store w') (ks_name a) = put_docs (filter (\<lambda>d. will_apply (ks_state a) (doc_id d) (last_updated d) \<and> is_ok r) [set_doc msg])
      (look (w_store w) (ks_name a))"
    using r(4) by (auto simp: put_one put_docs_def split: if_splits)
  then have "writes (live_entries [set_doc msg]) (\<lambda>k. is_ok r) (ks_state a) (ks_state a')"
    using r(3) ord by (intro writes_docs [OF inv r(2), where src = "set_source msg"]) (auto simp: others_kept_def)
  then show ?thesis using r(1-3) handlers_clock(1) [OF r(1)] by (auto simp: takes_def)
qed

lemma on_multi_set_takes:
  assumes inv: "actor_inv invar look a w" and src: "mset_source msg < NUM_SOURCES"
    and dist: "distinct (map doc_id (mset_docs msg))"
    and ord: "\<forall>d \<in> set (mset_docs msg). in_order (mset_source msg) (last_updated d) (ks_state a)"
    and clk: "clock_answers 1 (w_clock w)"
  shows "takes invar known look a w (on_multi_set ops msg) (\<lambda>r st. writes (live_entries (mset_docs msg)) (applied r) (ks_state a) st \<and>
    keeps_order (mset_source msg) (map last_updated (mset_docs msg)) (ks_state a) st)"
proof -
  obtain t c where c: "clock_get (w_clock w) = Some (t, c)" using clk by (auto split: option.splits)
  obtain r a' w' where r: "on_multi_set ops msg a w = Some (r, a', w')" "actor_inv invar look a' w'"
    "others_kept known look a w a' w'"
    "look (w_store w') (ks_name a) = put_docs (filter (\<lambda>d. will_apply (ks_state a) (doc_id d) (last_updated d) \<and>
      applied r (doc_id d)) (mset_docs msg)) (look (w_store w) (ks_name a))"
    using on_multi_set_spec [OF inv src dist ord c] by blast
  have "writes (live_entries (mset_docs msg)) (applied r) (ks_state a) (ks_state a')"
    using r(3) by (intro writes_docs [OF inv r(2) _ dist ord r(4)]) (simp add: others_kept_def)
  moreover have "keeps_order (mset_source msg) (map last_updated (mset_docs msg)) (ks_state a) (ks_state a')"
    using on_multi_set_in_order [OF _ src r(1)] inv by (auto simp: keeps_order_def actor_inv_def)
  ultimately show ?thesis using r(1-3) handlers_clock(2) [OF r(1)] by (auto simp: takes_def)
qed

lemma on_del_takes:
  assumes inv: "actor_inv invar look a w" and src: "del_source msg < NUM_SOURCES"
    and kn: "known (w_store w) (ks_name a)"
    and ord: "in_order (del_source msg) (md_last_updated (del_doc msg)) (ks_state a)"
    and clk: "clock_answers 1 (w_clock w)"
  shows "takes invar known look a w (on_del ops msg) (\<lambda>r. writes (dead_entries [del_doc msg]) (\<lambda>k. is_ok r) (ks_state a))"
proof -
  obtain t c where c: "clock_get (w_clock w) = Some (t, c)" using clk by (auto split: option.splits)
  obtain r a' w' where r: "on_del ops msg a w = Some (r, a', w')" "actor_inv invar look a' w'"
    "others_kept known look a w a' w'"
    "if is_ok r \<and> will_apply (ks_state a) (md_id (del_doc msg)) (md_last_updated (del_doc msg))
     then look (w_store w') (ks_name a) = (look (w_store w) (ks_name a))(md_id (del_doc msg) \<mapsto> Tombstone (md_last_updated (del_doc msg)))
     else look (w_store w') = look (w_store w)"
    using on_del_spec [OF inv src kn ord c] by metis
  have "look (w_store w') (ks_name a) = put_tombstones (filter (\<lambda>d. will_apply (ks_state a) (md_id d) (md_last_updated d) \<and> is_ok r) [del_doc msg])
      (look (w_store w) (ks_name a))"
    using r(4) by (auto simp: put_one put_tombstones_def split: if_splits)
  then have "writes (dead_entries [del_doc msg]) (\<lambda>k. is_ok r) (ks_state a) (ks_state a')"
    using r(3) ord by (intro writes_tombstones [OF inv r(2), where src = "del_source msg"]) (auto simp: others_kept_def)
  then show ?thesis using r(1-3) handlers_clock(3) [OF r(1)] by (auto simp: takes_def)
qed

lemma on_multi_del_takes:
  assumes inv: "actor_inv invar look a w" and src: "mdel_source msg < NUM_SOURCES"
    and kn: "known (w_store w) (ks_name a)"
    and dist: "distinct (map md_id (mdel_docs msg))"
    and ord: "\<forall>d \<in> set (mdel_docs msg). in_order (mdel_source msg) (md_last_updated d) (ks_state a)"
    and clk: "clock_answers 1 (w_clock w)"
  shows "takes invar known look a w (on_multi_del ops msg) (\<lambda>r st. writes (dead_entries (mdel_docs msg)) (applied r) (ks_state a) st \<and>
    keeps_order (mdel_source msg) (map md_last_updated (mdel_docs msg)) (ks_state a) st)"
proof -
  obtain t c where c: "clock_get (w_clock w) = Some (t, c)" using clk by (auto split: option.splits)
  obtain r a' w' where r: "on_multi_del ops msg a w = Some (r, a', w')" "actor_inv invar look a' w'"
    "others_kept known look a w a' w'"
    "look (w_store w') (ks_name a) = put_tombstones (filter (\<lambda>d. will_apply (ks_state a) (md_id d) (md_last_updated d) \<and>
      applied r (md_id d)) (mdel_docs msg)) (look (w_store w) (ks_name a))"
    using on_multi_del_spec [OF inv src kn dist ord c] by blast
  have "writes (dead_entries (mdel_docs msg)) (applied r) (ks_state a) (ks_state a')"
    using r(3) by (intro writes_tombstones [OF inv r(2) _ dist ord r(4)]) (simp add: others_kept_def)
  moreover have "keeps_order (mdel_source msg) (map md_last_updated (mdel_docs msg)) (ks_state a) (ks_state a')"
    using on_multi_del_in_order [OF _ src r(1)] inv by (auto simp: keeps_order_def actor_inv_def)
  ultimately show ?thesis using r(1-3) handlers_clock(4) [OF r(1)] by (auto simp: takes_def)
qed

end

section \<open>Requests to a node\<close>

primrec req_keyspace :: "consistency_request \<Rightarrow> string" where
  "req_keyspace (PutReq p) = pp_keyspace p" | "req_keyspace (MultiPutReq p) = mp_keyspace p"
| "req_keyspace (RemoveReq p) = rp_keyspace p" | "req_keyspace (MultiRemoveReq p) = mr_keyspace p"

primrec req_timestamp :: "consistency_request \<Rightarrow> hlc_timestamp" where
  "req_timestamp (PutReq p) = pp_timestamp p" | "req_timestamp (MultiPutReq p) = mp_timestamp p"
| "req_timestamp (RemoveReq p) = rp_timestamp p" | "req_timestamp (MultiRemoveReq p) = mr_timestamp p"

primrec req_entries :: "consistency_request \<Rightarrow> (key \<times> lww_register) list" where
  "req_entries (PutReq p) = live_entries [pp_document p]" | "req_entries (MultiPutReq p) = live_entries (mp_documents p)"
| "req_entries (RemoveReq p) = dead_entries [rp_document p]" | "req_entries (MultiRemoveReq p) = dead_entries (mr_documents p)"

primrec is_removal :: "consistency_request \<Rightarrow> bool" where
  "is_removal (PutReq p) = False" | "is_removal (MultiPutReq p) = False"
| "is_removal (RemoveReq p) = True" | "is_removal (MultiRemoveReq p) = True"

fun reg_ts :: "lww_register \<Rightarrow> hlc_timestamp option" where
  "reg_ts Absent = None" | "reg_ts (Live t) = Some t" | "reg_ts (Dead t) = Some t"

text \<open>A request whose entries are for distinct keys and in order at the keyspace's set.\<close>

definition entries_ok :: "nat \<Rightarrow> (key \<times> lww_register) list \<Rightarrow> orswot_set \<Rightarrow> bool" where
  "entries_ok src es st \<longleftrightarrow> distinct (map fst es) \<and>
     list_all (\<lambda>e. case reg_ts (snd e) of Some t \<Rightarrow> in_order src t st | None \<Rightarrow> True) es"

lemma entries_ok_docs [simp]:
  "entries_ok src (live_entries ds) st \<longleftrightarrow> distinct (map doc_id ds) \<and> (\<forall>d \<in> set ds. in_order src (last_updated d) st)"
  "entries_ok src (dead_entries ms) st \<longleftrightarrow> distinct (map md_id ms) \<and> (\<forall>d \<in> set ms. in_order src (md_last_updated d) st)"
  by (auto simp: entries_ok_def live_entries_def dead_entries_def comp_def list_all_iff)

lemma sources: "CONSISTENCY_SOURCE_ID < NUM_SOURCES" "READ_REPAIR_SOURCE_ID < NUM_SOURCES"
  by (simp_all add: CONSISTENCY_SOURCE_ID_def READ_REPAIR_SOURCE_ID_def NUM_SOURCES_def)

text \<open>All of its entries are written if the reply is no error, else some of them.\<close>

definition effect_of :: "(key \<times> lww_register) list \<Rightarrow> orswot_set \<Rightarrow> 'e + 'a \<Rightarrow> orswot_set \<Rightarrow> bool" where
  "effect_of es st r st' \<longleftrightarrow> (\<exists>P. (is_ok r \<longrightarrow> P = (\<lambda>k. True)) \<and> writes es P st st')"

lemma effect_of_single: "writes es (\<lambda>k. is_ok r) st st' \<Longrightarrow> effect_of es st r st'"
  unfolding effect_of_def by (intro exI [of _ "\<lambda>k. is_ok r"]) auto

lemma effect_of_bulk: "writes es (applied r) st st' \<and> A \<Longrightarrow> effect_of es st r st'"
  unfolding effect_of_def by (intro exI [of _ "applied r"]) (cases r; auto)

lemma effect_of_ok: "effect_of es st r st' \<Longrightarrow> is_ok r = is_ok r' \<Longrightarrow> effect_of es st r' st'"
  by (simp add: effect_of_def)

lemma takes_mono:
  "takes invar known look a w h Q \<Longrightarrow> (\<And>r st. Q r st \<Longrightarrow> Q' r st) \<Longrightarrow> takes invar known look a w h Q'"
  unfolding takes_def by blast

context storage
begin

lemma request_spec:
  assumes inv: "group_inv invar look g" and ok: "entries_ok CONSISTENCY_SOURCE_ID (req_entries q) (group_set g (req_keyspace q))"
    and kn: "is_removal q \<Longrightarrow> known (w_store (g_world g)) (req_keyspace q)"
    and clk: "clock_register (req_timestamp q) (w_clock (g_world g)) = Some c" "clock_answers 3 c"
  shows "\<exists>r g' st. on_request ops text btext q g = Some (r, g') \<and> group_inv invar look g' \<and>
    group_set g' = (group_set g)(req_keyspace q := st) \<and>
    effect_of (req_entries q) (group_set g (req_keyspace q)) r st"
proof -
  let ?st = "group_set g (req_keyspace q)"
  have fin: ?thesis if run: "on_request ops text btext q g = handle_write te (req_timestamp q) (req_keyspace q) h g"
    and h: "\<And>a w. actor_inv invar look a w \<Longrightarrow> ks_name a = req_keyspace q \<Longrightarrow> ks_state a = ?st \<Longrightarrow>
      w_store w = w_store (g_world g) \<Longrightarrow> clock_answers 1 (w_clock w) \<Longrightarrow> takes invar known look a w h (effect_of (req_entries q) ?st)"
    for te :: "'x \<Rightarrow> string" and h
  proof -
    obtain r g' st where r: "handle_write te (req_timestamp q) (req_keyspace q) h g = Some (r, g')" "group_inv invar look g'"
      "group_set g' = (group_set g)(req_keyspace q := st)"
      "case r of Inl e \<Rightarrow> \<exists>x :: 'x. effect_of (req_entries q) ?st (Inl x :: 'x + unit) st
        | Inr reply \<Rightarrow> effect_of (req_entries q) ?st (Inr () :: 'x + unit) st"
      using handle_write_spec [where h = h and te = te, OF inv clk h] by blast
    have "effect_of (req_entries q) ?st r st"
      using r(4) by (cases r) (auto elim: effect_of_ok)
    then show ?thesis using r(1-3) run by auto
  qed
  show ?thesis
  proof (cases q)
    case (PutReq p)
    show ?thesis
      by (rule fin [OF _ takes_mono [OF on_set_takes effect_of_single]])
        (use ok sources in \<open>auto simp: PutReq on_put_payload_def to_owned_def get_put_ctx_def\<close>)
  next
    case (MultiPutReq p)
    show ?thesis
      by (rule fin [OF _ takes_mono [OF on_multi_set_takes effect_of_bulk]])
        (use ok sources in \<open>auto simp: MultiPutReq on_multi_put_payload_def to_owned_def get_put_ctx_def\<close>)
  next
    case (RemoveReq p)
    show ?thesis
      by (rule fin [OF _ takes_mono [OF on_del_takes effect_of_single]])
        (use ok kn sources in \<open>auto simp: RemoveReq on_remove_payload_def to_owned_def\<close>)
  next
    case (MultiRemoveReq p)
    show ?thesis
      by (rule fin [OF _ takes_mono [OF on_multi_del_takes effect_of_bulk]])
        (use ok kn sources in \<open>auto simp: MultiRemoveReq on_multi_remove_payload_def to_owned_def\<close>)
  qed
qed

end

section \<open>Batches\<close>

primrec run_writes ::
  "('x \<Rightarrow> string) \<Rightarrow> (string \<times> (keyspace_actor \<Rightarrow> 's world \<Rightarrow> (('x + unit) \<times> keyspace_actor \<times> 's world) exec)) list \<Rightarrow> ('s, unit) handler" where
  "run_writes te [] g = Some (Inr (), g)"
| "run_writes te (x # xs) g =
     do { (i, g) \<leftarrow> get_or_create_keyspace (fst x) g;
          (r, g) \<leftarrow> try_send te i (snd x) g;
          case r of Inl e \<Rightarrow> Some (Inl e, g) | Inr u \<Rightarrow> run_writes te xs g }"

lemma batch_loops:
  "batch_removed ops te ps = run_writes te (map (\<lambda>p. (mr_keyspace p,
     on_multi_del ops \<lparr>mdel_source = CONSISTENCY_SOURCE_ID, mdel_docs = mr_documents p\<rparr>)) ps)"
  "batch_modified ops te qs = run_writes te (map (\<lambda>p. (mp_keyspace p,
     on_multi_set ops \<lparr>mset_source = CONSISTENCY_SOURCE_ID, mset_docs = mp_documents p,
       mset_ctx = map_option (\<lambda>info. \<lparr>ctx_progress = \<lparr>progress_counter = 0, tracker_done = False\<rparr>,
         remote_node_id = cx_node_id info, remote_addr = cx_node_addr info\<rparr>) (mp_ctx p)\<rparr>)) qs)"
proof -
  have "batch_removed ops te ps g = run_writes te (map (\<lambda>p. (mr_keyspace p,
     on_multi_del ops \<lparr>mdel_source = CONSISTENCY_SOURCE_ID, mdel_docs = mr_documents p\<rparr>)) ps) g" for g
    by (induction ps arbitrary: g) (auto split: sum.splits intro!: Option.bind_cong)
  moreover have "batch_modified ops te qs g = run_writes te (map (\<lambda>p. (mp_keyspace p,
     on_multi_set ops \<lparr>mset_source = CONSISTENCY_SOURCE_ID, mset_docs = mp_documents p,
       mset_ctx = map_option (\<lambda>info. \<lparr>ctx_progress = \<lparr>progress_counter = 0, tracker_done = False\<rparr>,
         remote_node_id = cx_node_id info, remote_addr = cx_node_addr info\<rparr>) (mp_ctx p)\<rparr>)) qs) g" for g
    by (induction qs arbitrary: g) (auto simp: get_put_ctx_def split: sum.splits intro!: Option.bind_cong)
  ultimately show
    "batch_removed ops te ps = run_writes te (map (\<lambda>p. (mr_keyspace p,
       on_multi_del ops \<lparr>mdel_source = CONSISTENCY_SOURCE_ID, mdel_docs = mr_documents p\<rparr>)) ps)"
    "batch_modified ops te qs = run_writes te (map (\<lambda>p. (mp_keyspace p,
       on_multi_set ops \<lparr>mset_source = CONSISTENCY_SOURCE_ID, mset_docs = mp_documents p,
         mset_ctx = map_option (\<lambda>info. \<lparr>ctx_progress = \<lparr>progress_counter = 0, tracker_done = False\<rparr>,
           remote_node_id = cx_node_id info, remote_addr = cx_node_addr info\<rparr>) (mp_ctx p)\<rparr>)) qs)"
    by (auto simp: fun_eq_iff)
qed

text \<open>Writes to distinct keyspaces: each acts on the set its keyspace had at the start.\<close>

definition ready ::
  "('s \<Rightarrow> bool) \<Rightarrow> ('s \<Rightarrow> string \<Rightarrow> bool) \<Rightarrow> ('s \<Rightarrow> string \<Rightarrow> key \<rightharpoonup> stored) \<Rightarrow> 's keyspace_group \<Rightarrow>
    (string \<times> (keyspace_actor \<Rightarrow> 's world \<Rightarrow> ('r \<times> keyspace_actor \<times> 's world) exec)) \<Rightarrow> (string \<Rightarrow> 'r \<Rightarrow> orswot_set \<Rightarrow> bool) \<Rightarrow> bool" where
  "ready invar known look g x Q \<longleftrightarrow> (\<forall>a w. actor_inv invar look a w \<longrightarrow> ks_name a = fst x \<longrightarrow> ks_state a = group_set g (fst x) \<longrightarrow>
     (\<forall>ks. known (w_store (g_world g)) ks \<longrightarrow> known (w_store w) ks) \<longrightarrow> clock_answers 1 (w_clock w) \<longrightarrow>
     takes invar known look a w (snd x) (Q (fst x)))"

lemma ready_later:
  "ready invar known look g x Q \<Longrightarrow> group_set g' (fst x) = group_set g (fst x) \<Longrightarrow>
    (\<forall>ks. known (w_store (g_world g)) ks \<longrightarrow> known (w_store (g_world g')) ks) \<Longrightarrow> ready invar known look g' x Q"
  by (auto simp: ready_def)

lemma run_writes_spec:
  assumes "group_inv invar look g" "clock_answers (2 * length xs + n) (w_clock (g_world g))" "distinct (map fst xs)"
    and "\<forall>x \<in> set xs. ready invar known look g x Q"
  shows "\<exists>r g'. run_writes te xs g = Some (r, g') \<and> group_inv invar look g' \<and>
    (\<forall>ks. known (w_store (g_world g)) ks \<longrightarrow> known (w_store (g_world g')) ks) \<and> clock_answers n (w_clock (g_world g')) \<and>
    (\<forall>name. name \<notin> fst ` set xs \<longrightarrow> group_set g' name = group_set g name) \<and>
    (\<forall>x \<in> set xs. (is_ok r \<longrightarrow> Q (fst x) (Inr ()) (group_set g' (fst x))) \<and>
       (group_set g' (fst x) = group_set g (fst x) \<or> (\<exists>r0. Q (fst x) r0 (group_set g' (fst x)))))"
  using assms
proof (induction xs arbitrary: g)
  case (Cons x xs)
  have c: "clock_answers (Suc (Suc (2 * length xs + n))) (w_clock (g_world g))" using Cons.prems(2) by simp
  obtain i g1 where g1: "get_or_create_keyspace (fst x) g = Some (i, g1)" "group_inv invar look g1"
    "map_of (g_group g1) (fst x) = Some i" "w_store (g_world g1) = w_store (g_world g)" "group_set g1 = group_set g"
    "clock_answers (Suc (2 * length xs + n)) (w_clock (g_world g1))"
    using create_keeps [OF Cons.prems(1) c, of "fst x"] by blast
  have a1: "actor_inv invar look (g_actors g1 ! i) (g_world g1)" "ks_name (g_actors g1 ! i) = fst x"
    "ks_state (g_actors g1 ! i) = group_set g (fst x)"
    using g1(2,3,5) by (auto simp: group_inv_def group_wf_def group_set_def fun_eq_iff) (metis option.simps(5))
  have "clock_answers 1 (w_clock (g_world g1))" using clock_answers_less [OF g1(6), of 1] by simp
  then have "takes invar known look (g_actors g1 ! i) (g_world g1) (snd x) (Q (fst x))"
    using Cons.prems(4) a1 g1(4) unfolding ready_def by simp
  from try_send_takes [OF g1(2,3) this g1(6), of te] obtain r g2 st where
    g2: "try_send te i (snd x) g1 = Some (case r of Inl e \<Rightarrow> Inl (internal (te e)) | Inr u \<Rightarrow> Inr (), g2)" "group_inv invar look g2"
      "\<forall>ks. known (w_store (g_world g1)) ks \<longrightarrow> known (w_store (g_world g2)) ks"
      "group_set g2 = (group_set g1)(fst x := st)" "Q (fst x) r st" "clock_answers (2 * length xs + n) (w_clock (g_world g2))"
    by blast
  show ?case
  proof (cases r)
    case (Inl e)
    have "clock_answers n (w_clock (g_world g2))" using clock_answers_less [OF g2(6), of n] by simp
    then show ?thesis using g1(1,4,5) g2 Inl by (auto intro!: exI [of _ r])
  next
    case (Inr u)
    have ne: "fst y \<noteq> fst x" if "y \<in> set xs" for y using Cons.prems(3) imageI [OF that, of fst] unfolding list.map distinct.simps set_map by metis
    have "ready invar known look g2 y Q" if "y \<in> set xs" for y
      using that ne [OF that] Cons.prems(4) g1(4,5) g2(3,4) by (intro ready_later [of invar known look g y Q g2]) auto
    then obtain r' g' where g': "run_writes te xs g2 = Some (r', g')" "group_inv invar look g'"
      "\<forall>ks. known (w_store (g_world g2)) ks \<longrightarrow> known (w_store (g_world g')) ks" "clock_answers n (w_clock (g_world g'))"
      "\<forall>name. name \<notin> fst ` set xs \<longrightarrow> group_set g' name = group_set g2 name"
      "\<forall>y \<in> set xs. (is_ok r' \<longrightarrow> Q (fst y) (Inr ()) (group_set g' (fst y))) \<and>
       (group_set g' (fst y) = group_set g2 (fst y) \<or> (\<exists>r0. Q (fst y) r0 (group_set g' (fst y))))"
      using Cons.IH [OF g2(2,6)] Cons.prems(3) by auto
    have x: "fst x \<notin> fst ` set xs" "group_set g' (fst x) = st" using Cons.prems(3) g'(5) g2(4) by auto
    have "run_writes te (x # xs) g = Some (r', g')" using g1(1) g2(1) g'(1) Inr by simp
    moreover have "group_set g2 (fst y) = group_set g (fst y)" if "y \<in> set xs" for y using g2(4) g1(5) ne [OF that] by simp
    ultimately show ?thesis
      using g'(2-6) g2(3-5) g1(4,5) x Inr by (auto simp: old.unit.exhaust)
  qed
qed auto

definition removed_docs :: "batch_payload \<Rightarrow> string \<Rightarrow> document_metadata list" where
  "removed_docs b name = concat (map (\<lambda>p. if mr_keyspace p = name then mr_documents p else []) (bp_removed b))"

definition modified_docs :: "batch_payload \<Rightarrow> string \<Rightarrow> document list" where
  "modified_docs b name = concat (map (\<lambda>p. if mp_keyspace p = name then mp_documents p else []) (bp_modified b))"

definition entry_at :: "(key \<times> lww_register) list \<Rightarrow> key \<Rightarrow> lww_register" where
  "entry_at es k = (case map_of es k of Some e \<Rightarrow> e | None \<Rightarrow> Absent)"

text \<open>
  A batch as the distributor sends it, with its entries in order, in which no deletion is newer
  than a document of the same node in the same keyspace.
\<close>

definition batch_ok :: "batch_payload \<Rightarrow> 's keyspace_group \<Rightarrow> bool" where
  "batch_ok b g \<longleftrightarrow> distinct (map mr_keyspace (bp_removed b)) \<and> distinct (map mp_keyspace (bp_modified b)) \<and>
     (\<forall>name. entries_ok CONSISTENCY_SOURCE_ID (dead_entries (removed_docs b name)) (group_set g name) \<and>
        entries_ok CONSISTENCY_SOURCE_ID (live_entries (modified_docs b name)) (group_set g name) \<and>
        (\<forall>d \<in> set (removed_docs b name). \<forall>e \<in> set (modified_docs b name).
           node (md_last_updated d) = node (last_updated e) \<longrightarrow> md_last_updated d \<le> last_updated e))"

lemma concat_distinct_key:
  "distinct (map f ps) \<Longrightarrow> p \<in> set ps \<Longrightarrow> concat (map (\<lambda>q. if f q = f p then h q else []) ps) = h p"
proof (induction ps)
  case (Cons x ps)
  show ?case
  proof (cases "x = p")
    case True
    have "\<forall>q \<in> set ps. f q \<noteq> f p" using Cons.prems(1) True by (auto simp: image_iff)
    then show ?thesis using True by (simp cong: map_cong)
  next
    case False
    then have "f x \<noteq> f p" using Cons.prems by (auto simp: image_iff)
    then show ?thesis using Cons False by auto
  qed
qed simp

lemma concat_no_key: "n \<notin> f ` set ps \<Longrightarrow> concat (map (\<lambda>q. if f q = n then h q else []) ps) = []"
  by auto

lemma writes_entry: "writes es (\<lambda>k. True) st st' \<Longrightarrow> reg_of st' k = overwrite (reg_of st k) (entry_at es k)"
  by (auto simp: writes_def entry_at_def split: option.splits)

lemma applied_ok: "applied (Inr u) = (\<lambda>k. True)"
  by (simp add: fun_eq_iff)

lemma entry_at_Nil [simp]: "entry_at [] k = Absent"
  by (simp add: entry_at_def)

context storage
begin

lemma ready_del:
  assumes "entries_ok CONSISTENCY_SOURCE_ID (dead_entries docs) (group_set g name)" "known (w_store (g_world g)) name"
  shows "ready invar known look g (name, on_multi_del ops \<lparr>mdel_source = CONSISTENCY_SOURCE_ID, mdel_docs = docs\<rparr>)
    (\<lambda>n r st. writes (dead_entries docs) (applied r) (group_set g n) st \<and>
       keeps_order CONSISTENCY_SOURCE_ID (map md_last_updated docs) (group_set g n) st)"
  unfolding ready_def fst_conv snd_conv
proof (intro allI impI)
  fix a w
  assume a: "actor_inv invar look a w" "ks_name a = name" "ks_state a = group_set g name"
    "\<forall>ks. known (w_store (g_world g)) ks \<longrightarrow> known (w_store w) ks" "clock_answers 1 (w_clock w)"
  show "takes invar known look a w (on_multi_del ops \<lparr>mdel_source = CONSISTENCY_SOURCE_ID, mdel_docs = docs\<rparr>)
    (\<lambda>r st. writes (dead_entries docs) (applied r) (group_set g name) st \<and>
       keeps_order CONSISTENCY_SOURCE_ID (map md_last_updated docs) (group_set g name) st)"
    using on_multi_del_takes [OF a(1), of "\<lparr>mdel_source = CONSISTENCY_SOURCE_ID, mdel_docs = docs\<rparr>"] a(2-5) assms sources
    by simp
qed

lemma ready_set:
  assumes "entries_ok CONSISTENCY_SOURCE_ID (live_entries docs) (group_set g name)"
  shows "ready invar known look g (name, on_multi_set ops \<lparr>mset_source = CONSISTENCY_SOURCE_ID, mset_docs = docs, mset_ctx = ctx\<rparr>)
    (\<lambda>n r st. writes (live_entries docs) (applied r) (group_set g n) st)"
  using assms on_multi_set_takes [of _ _ "\<lparr>mset_source = CONSISTENCY_SOURCE_ID, mset_docs = docs, mset_ctx = ctx\<rparr>"] sources
  by (fastforce simp: ready_def elim: takes_mono)

lemma batch_removed_spec:
  assumes inv: "group_inv invar look g" "clock_answers (2 * length (bp_removed b) + n) (w_clock (g_world g))"
    and ok: "batch_ok b g" and kn: "\<forall>p \<in> set (bp_removed b). known (w_store (g_world g)) (mr_keyspace p)"
  shows "\<exists>r g'. batch_removed ops te (bp_removed b) g = Some (r, g') \<and> group_inv invar look g' \<and> clock_answers n (w_clock (g_world g')) \<and>
    (\<forall>name. keeps_order CONSISTENCY_SOURCE_ID (map md_last_updated (removed_docs b name)) (group_set g name) (group_set g' name) \<and>
      (is_ok r \<longrightarrow> (\<forall>k. group_reg g' name k = overwrite (group_reg g name k) (entry_at (dead_entries (removed_docs b name)) k))))"
proof -
  define xs where "xs = map (\<lambda>p. (mr_keyspace p, on_multi_del ops \<lparr>mdel_source = CONSISTENCY_SOURCE_ID, mdel_docs = mr_documents p\<rparr>)) (bp_removed b)"
  define Q where "Q = (\<lambda>n (r :: 'e bulk_result) st. writes (dead_entries (removed_docs b n)) (applied r) (group_set g n) st \<and>
       keeps_order CONSISTENCY_SOURCE_ID (map md_last_updated (removed_docs b n)) (group_set g n) st)"
  have dist: "distinct (map mr_keyspace (bp_removed b))" using ok by (simp add: batch_ok_def)
  have docs: "removed_docs b (mr_keyspace p) = mr_documents p" if "p \<in> set (bp_removed b)" for p
    unfolding removed_docs_def by (rule concat_distinct_key [OF dist that])
  have rd: "\<forall>x \<in> set xs. ready invar known look g x Q"
  proof
    fix x assume "x \<in> set xs"
    then obtain p where p: "p \<in> set (bp_removed b)"
      "x = (mr_keyspace p, on_multi_del ops \<lparr>mdel_source = CONSISTENCY_SOURCE_ID, mdel_docs = mr_documents p\<rparr>)"
      by (auto simp: xs_def)
    have "entries_ok CONSISTENCY_SOURCE_ID (dead_entries (mr_documents p)) (group_set g (mr_keyspace p))"
      using ok docs [OF p(1)] unfolding batch_ok_def by metis
    from ready_del [OF this] kn p show "ready invar known look g x Q" by (simp add: ready_def docs Q_def)
  qed
  have pre: "clock_answers (2 * length xs + n) (w_clock (g_world g))" "distinct (map fst xs)"
    using inv(2) dist by (simp_all add: xs_def comp_def)
  obtain r g' where g': "run_writes te xs g = Some (r, g')" "group_inv invar look g'" "clock_answers n (w_clock (g_world g'))"
    "\<And>name. name \<notin> fst ` set xs \<Longrightarrow> group_set g' name = group_set g name"
    "\<And>x. x \<in> set xs \<Longrightarrow> (is_ok r \<longrightarrow> Q (fst x) (Inr ()) (group_set g' (fst x))) \<and>
       (group_set g' (fst x) = group_set g (fst x) \<or> (\<exists>r0. Q (fst x) r0 (group_set g' (fst x))))"
    using run_writes_spec [OF inv(1) pre rd, of te] by blast
  have "keeps_order CONSISTENCY_SOURCE_ID (map md_last_updated (removed_docs b name)) (group_set g name) (group_set g' name) \<and>
      (is_ok r \<longrightarrow> (\<forall>k. group_reg g' name k = overwrite (group_reg g name k) (entry_at (dead_entries (removed_docs b name)) k)))" for name
  proof (cases "name \<in> fst ` set xs")
    case False
    then have "removed_docs b name = []" unfolding removed_docs_def xs_def by (intro concat_no_key) force
    then show ?thesis using g'(4) [OF False] by (simp add: group_reg_def keeps_order_def dead_entries_def)
  next
    case True
    then obtain x where "x \<in> set xs" "name = fst x" by blast
    with g'(5) [of x] show ?thesis
      using writes_entry by (auto simp: group_reg_def keeps_order_def applied_ok Q_def)
  qed
  then show ?thesis using g'(1-3) by (auto simp: batch_loops xs_def)
qed

lemma batch_modified_spec:
  assumes inv: "group_inv invar look g" "clock_answers (2 * length (bp_modified b) + n) (w_clock (g_world g))"
    and dist: "distinct (map mp_keyspace (bp_modified b))"
    and ok: "\<forall>name. entries_ok CONSISTENCY_SOURCE_ID (live_entries (modified_docs b name)) (group_set g name)"
  shows "\<exists>r g'. batch_modified ops te (bp_modified b) g = Some (r, g') \<and> group_inv invar look g' \<and> clock_answers n (w_clock (g_world g')) \<and>
    (is_ok r \<longrightarrow> (\<forall>name k. group_reg g' name k = overwrite (group_reg g name k) (entry_at (live_entries (modified_docs b name)) k)))"
proof -
  define hd where "hd = (\<lambda>p :: multi_put_payload. on_multi_set ops \<lparr>mset_source = CONSISTENCY_SOURCE_ID, mset_docs = mp_documents p,
       mset_ctx = map_option (\<lambda>info. \<lparr>ctx_progress = \<lparr>progress_counter = 0, tracker_done = False\<rparr>,
         remote_node_id = cx_node_id info, remote_addr = cx_node_addr info\<rparr>) (mp_ctx p)\<rparr>)"
  define xs where "xs = map (\<lambda>p. (mp_keyspace p, hd p)) (bp_modified b)"
  define Q where "Q = (\<lambda>n (r :: 'e bulk_result) st. writes (live_entries (modified_docs b n)) (applied r) (group_set g n) st)"
  have docs: "modified_docs b (mp_keyspace p) = mp_documents p" if "p \<in> set (bp_modified b)" for p
    unfolding modified_docs_def by (rule concat_distinct_key [OF dist that])
  have rd: "\<forall>x \<in> set xs. ready invar known look g x Q"
  proof
    fix x assume "x \<in> set xs"
    then obtain p where p: "p \<in> set (bp_modified b)" "x = (mp_keyspace p, hd p)" by (auto simp: xs_def)
    have "entries_ok CONSISTENCY_SOURCE_ID (live_entries (mp_documents p)) (group_set g (mp_keyspace p))"
      using ok docs [OF p(1)] by metis
    from ready_set [OF this] p show "ready invar known look g x Q" by (simp add: ready_def docs Q_def hd_def)
  qed
  have pre: "clock_answers (2 * length xs + n) (w_clock (g_world g))" "distinct (map fst xs)"
    using inv(2) dist by (simp_all add: xs_def comp_def)
  obtain r g' where g': "run_writes te xs g = Some (r, g')" "group_inv invar look g'" "clock_answers n (w_clock (g_world g'))"
    "\<And>name. name \<notin> fst ` set xs \<Longrightarrow> group_set g' name = group_set g name"
    "\<And>x. x \<in> set xs \<Longrightarrow> is_ok r \<longrightarrow> Q (fst x) (Inr ()) (group_set g' (fst x))"
    using run_writes_spec [OF inv(1) pre rd, of te] by blast
  have "group_reg g' name k = overwrite (group_reg g name k) (entry_at (live_entries (modified_docs b name)) k)" if "is_ok r" for name k
  proof (cases "name \<in> fst ` set xs")
    case False
    then have "modified_docs b name = []" unfolding modified_docs_def xs_def by (intro concat_no_key) force
    then show ?thesis using g'(4) [OF False] by (simp add: group_reg_def live_entries_def)
  next
    case True
    then obtain x where "x \<in> set xs" "name = fst x" by blast
    with g'(5) [of x] that show ?thesis using writes_entry by (auto simp: group_reg_def applied_ok Q_def)
  qed
  then show ?thesis using g'(1-3) by (auto simp: batch_loops xs_def hd_def)
qed

lemma batch_spec:
  assumes inv: "group_inv invar look g" and ok: "batch_ok b g"
    and kn: "\<forall>p \<in> set (bp_removed b). known (w_store (g_world g)) (mr_keyspace p)"
    and clk: "clock_register (bp_timestamp b) (w_clock (g_world g)) = Some c"
      "clock_answers (2 * length (bp_removed b) + (2 * length (bp_modified b) + 1)) c"
  shows "\<exists>r g'. on_batch_payload ops te (Some b) g = Some (r, g') \<and> group_inv invar look g' \<and>
    (is_ok r \<longrightarrow> (\<forall>name k. group_reg g' name k = overwrite (overwrite (group_reg g name k)
       (entry_at (dead_entries (removed_docs b name)) k)) (entry_at (live_entries (modified_docs b name)) k)))"
proof -
  let ?g = "g\<lparr>g_world := (g_world g)\<lparr>w_clock := c\<rparr>\<rparr>"
  have g0: "group_register_ts (bp_timestamp b) g = Some ?g" using clk(1) by (simp add: group_register_ts_def)
  have inv0: "group_inv invar look ?g" using inv by (auto simp: group_inv_def group_wf_def actor_inv_def)
  have set0: "group_set ?g = group_set g" by (simp add: group_set_def fun_eq_iff split: option.split)
  have "batch_ok b ?g" using ok by (simp add: batch_ok_def set0)
  from batch_removed_spec [OF inv0 _ this, of "2 * length (bp_modified b) + 1" te] clk(2) kn obtain r1 g1 where
    g1: "batch_removed ops te (bp_removed b) ?g = Some (r1, g1)" "group_inv invar look g1"
      "clock_answers (2 * length (bp_modified b) + 1) (w_clock (g_world g1))"
      "\<And>name. keeps_order CONSISTENCY_SOURCE_ID (map md_last_updated (removed_docs b name)) (group_set g name) (group_set g1 name)"
      "is_ok r1 \<Longrightarrow> (\<forall>name k. group_reg g1 name k = overwrite (group_reg g name k) (entry_at (dead_entries (removed_docs b name)) k))"
    unfolding set0 group_reg_def by auto
  show ?thesis
  proof (cases r1)
    case (Inl e)
    then show ?thesis using g0 g1 by (simp add: on_batch_payload_def to_owned_def)
  next
    case (Inr u)
    have "entries_ok CONSISTENCY_SOURCE_ID (live_entries (modified_docs b name)) (group_set g1 name)" for name
      using ok g1(4) [of name] unfolding batch_ok_def keeps_order_def by (auto simp: entries_ok_docs)
    from batch_modified_spec [OF g1(2,3) _ allI [OF this], of te] ok obtain r2 g2 where
      g2: "batch_modified ops te (bp_modified b) g1 = Some (r2, g2)" "group_inv invar look g2" "clock_answers 1 (w_clock (g_world g2))"
        "is_ok r2 \<Longrightarrow> (\<forall>name k. group_reg g2 name k = overwrite (group_reg g1 name k) (entry_at (live_entries (modified_docs b name)) k))"
      by (auto simp: batch_ok_def)
    obtain t c2 where c2: "clock_get (w_clock (g_world g2)) = Some (t, c2)" using g2(3) by (auto split: option.splits)
    let ?g2 = "g2\<lparr>g_world := (g_world g2)\<lparr>w_clock := c2\<rparr>\<rparr>"
    have inv2: "group_inv invar look ?g2" using g2(2) by (auto simp: group_inv_def group_wf_def actor_inv_def)
    have set2: "group_reg ?g2 = group_reg g2" by (simp add: group_reg_def group_set_def fun_eq_iff split: option.split)
    show ?thesis
    proof (cases r2)
      case Inl
      then show ?thesis using g0 g1(1) g2 Inr by (simp add: on_batch_payload_def to_owned_def)
    next
      case ok2: Inr
      have "on_batch_payload ops te (Some b) g = Some (Inr t, ?g2)"
        using g0 g1(1) g2(1) Inr ok2 c2 by (simp add: on_batch_payload_def to_owned_def group_get_time_def)
      then show ?thesis using g1(5) g2(4) Inr ok2 inv2 set2 by simp
    qed
  qed
qed

end

text \<open>
  A document older than the newest operation its source has delivered from its node, while another
  source has delivered nothing from that node: nothing is known to be observed, so it is announced
  as applicable.
\<close>

lemma not_observed:
  assumes wf: "orswot_wf n s" and src: "src < n" "map_of (nodes_max_stamps (versions s) ! src) (node t) = None"
  shows "\<not> is_ts_before_last_observed_event (versions s) t"
proof -
  have "\<not> t < safe" if "map_of (safe_last_stamps (versions s)) (node t) = Some safe" for safe
  proof -
    have "safe \<le> stamp_at (node t) (nodes_max_stamps (versions s) ! src)"
      using wf src(1) that by (auto simp: orswot_wf_def versions_wf_def)
    also have "\<dots> \<le> t" using src(2) by (simp add: stamp_at_def zero_stamp_le)
    finally show ?thesis by simp
  qed
  then show ?thesis by (auto simp: is_ts_before_last_observed_event_def split: option.splits)
qed

lemma clock_answers_next: "clock_answers n c \<Longrightarrow> 0 < n \<Longrightarrow> \<exists>t c'. clock_get c = Some (t, c') \<and> clock_answers (n - 1) c'"
  using clock_answers_get [of "n - 1"] by auto

lemma is_ok_unit: "is_ok r \<Longrightarrow> r = Inr ()" for r :: "'x + unit"
  by (cases r) auto

context storage
begin

lemma set_after_newer_diverges:
  assumes inv: "actor_inv invar look a w" and src: "src < NUM_SOURCES" "src' < NUM_SOURCES"
    and no: "\<not> in_order src t (ks_state a)" "map_of (nodes_max_stamps (versions (ks_state a)) ! src') (node t) = None"
    and new: "reg_of (ks_state a) k = Absent"
    and sok: "\<And>ds ctx s r s'. st_multi_put_with_ctx ops (ks_name a) ds ctx s = Some (r, s') \<Longrightarrow> is_ok r"
    and clk: "clock_get (w_clock w) = Some (u, c)"
  shows "\<exists>a' w'. on_multi_set ops \<lparr>mset_source = src, mset_docs = [document_new k t data], mset_ctx = ctx\<rparr> a w = Some (Inr (), a', w') \<and>
    w_clock w' = c \<and> look (w_store w') (ks_name a) k = Some (Doc (document_new k t data)) \<and> reg_of (ks_state a') k = Absent"
proof -
  let ?d = "document_new k t data"
  have wf: "orswot_wf NUM_SOURCES (ks_state a)" and iv: "invar (w_store w)" using inv by (auto simp: actor_inv_def actor_wf_def)
  have ap: "will_apply (ks_state a) k t"
    using will_apply_reg [OF wf] not_observed [OF wf src(2) no(2)] new by auto
  obtain r s' where p: "st_multi_put_with_ctx ops (ks_name a) [?d] ctx (w_store w) = Some (r, s')"
    "look s' = (look (w_store w))(ks_name a := put_docs (filter (\<lambda>d. applied r (doc_id d)) [?d]) (look (w_store w) (ks_name a)))"
    using multi_put_with_ctx [of ctx] iv unfolding multi_put_law_def by metis
  have r: "r = Inr ()" using sok [OF p(1)] by (rule is_ok_unit)
  obtain b st where st: "insert_with_source src k t (ks_state a) = Some (b, st)" "reg_of st = reg_of (ks_state a)"
    using insert_with_source_reg [OF wf src(1)] no(1) by (metis (full_types))
  have "on_multi_set ops \<lparr>mset_source = src, mset_docs = [?d], mset_ctx = ctx\<rparr> a w =
      Some (Inr (), a\<lparr>ks_state := st, change_timestamp := u\<rparr>, w\<lparr>w_store := s', w_clock := c\<rparr>)"
    using ap st(1) clk p(1) r by (simp add: on_multi_set_def apply_inserts_def inc_change_timestamp_Some)
  then show ?thesis using p(2) r st(2) new by (simp add: put_one)
qed

lemma del_leaves_versions:
  assumes wf: "orswot_wf NUM_SOURCES (ks_state a)"
    and ord: "in_order src t' (ks_state a)" "will_apply (ks_state a) k' t'"
    and run: "on_multi_del ops \<lparr>mdel_source = src, mdel_docs = [metadata_new k' t']\<rparr> a w = Some (Inr (), a', w')"
  shows "nodes_max_stamps (versions (ks_state a')) = (nodes_max_stamps (versions (ks_state a)))[src :=
    bt_insert (node t') t' (nodes_max_stamps (versions (ks_state a)) ! src)]"
proof -
  have "\<exists>b. delete_with_source src k' t' (ks_state a) = Some (b, ks_state a')"
    using run ord(2) by (auto simp: on_multi_del_def Let_def apply_deletes_def inc_change_timestamp_def metadata_new_def split: bind_splits sum.splits)
  then have "apply_op (DeleteOp src k' t') (ks_state a) = Some (ks_state a')" by auto
  from nodes_max_stamps_after [OF wf this] ord(1) show ?thesis by simp
qed

lemma batch_diverges:
  assumes inv: "group_inv invar look g" and kn: "known (w_store (g_world g)) name"
    and clk: "clock_register ts (w_clock (g_world g)) = Some c" "clock_answers 5 c"
    and sok: "\<And>ds ctx s r s'. st_multi_put_with_ctx ops name ds ctx s = Some (r, s') \<Longrightarrow> is_ok r"
      "\<And>ds s r s'. st_mark_many_as_tombstone ops name ds s = Some (r, s') \<Longrightarrow> is_ok r"
    and ord: "in_order CONSISTENCY_SOURCE_ID t' (group_set g name)" "node t = node t'" "t < t'"
    and new: "group_reg g name k = Absent" "group_reg g name k' = Absent" "k \<noteq> k'"
    and rr: "map_of (nodes_max_stamps (versions (group_set g name)) ! READ_REPAIR_SOURCE_ID) (node t) = None"
  shows "\<exists>reply g'. on_batch_payload ops te (Some \<lparr>bp_timestamp = ts,
      bp_modified = [\<lparr>mp_keyspace = name, mp_ctx = ctx, mp_documents = [document_new k t data], mp_timestamp = ts\<rparr>],
      bp_removed = [\<lparr>mr_keyspace = name, mr_documents = [metadata_new k' t'], mr_timestamp = ts\<rparr>]\<rparr>) g = Some (Inr reply, g') \<and>
    look (w_store (g_world g')) name k = Some (Doc (document_new k t data)) \<and> group_reg g' name k = Absent"
proof -
  let ?src = CONSISTENCY_SOURCE_ID
  let ?g = "g\<lparr>g_world := (g_world g)\<lparr>w_clock := c\<rparr>\<rparr>" and ?del = "\<lparr>mdel_source = ?src, mdel_docs = [metadata_new k' t']\<rparr>"
  have g0: "group_register_ts ts g = Some ?g" using clk(1) by (simp add: group_register_ts_def)
  have inv0: "group_inv invar look ?g" using inv by (auto simp: group_inv_def group_wf_def actor_inv_def)
  have set0: "group_set ?g = group_set g" by (simp add: group_set_def fun_eq_iff split: option.split)
  have "clock_answers (Suc 4) (w_clock (g_world ?g))" using clk(2) by (simp add: eval_nat_numeral)
  from create_keeps [OF inv0 this, of name] obtain i g1 where
    g1: "get_or_create_keyspace name ?g = Some (i, g1)" "group_inv invar look g1" "map_of (g_group g1) name = Some i"
      "w_store (g_world g1) = w_store (g_world g)" "group_set g1 = group_set g" "clock_answers 4 (w_clock (g_world g1))"
    unfolding set0 by auto
  let ?a = "g_actors g1 ! i"
  have a1: "actor_inv invar look ?a (g_world g1)" "ks_name ?a = name" "i < length (g_actors g1)" using g1(2,3) by (auto simp: group_inv_def group_wf_def)
  have st1: "ks_state ?a = group_set g name" using g1(3,5) by (auto simp: group_set_def fun_eq_iff) (metis option.simps(5))
  have wf: "orswot_wf NUM_SOURCES (ks_state ?a)" using a1(1) by (simp add: actor_inv_def actor_wf_def)
  obtain u1 c1 where c1: "clock_get (w_clock (g_world g1)) = Some (u1, c1)" "clock_answers 3 c1"
    using clock_answers_next [OF g1(6)] by auto
  obtain r a2 w2 where d: "on_multi_del ops ?del ?a (g_world g1) = Some (r, a2, w2)" "actor_inv invar look a2 w2"
    "others_kept known look ?a (g_world g1) a2 w2" "writes (dead_entries [metadata_new k' t']) (applied r) (ks_state ?a) (ks_state a2)"
    using on_multi_del_takes [OF a1(1), of ?del] sources ord(1) kn a1(2) g1(4) st1 c1(1) unfolding takes_def
    by (auto simp: metadata_new_def)
  have "r = Inr ()" using d(1) sok(2) a1(2) by (auto simp: on_multi_del_def Let_def inc_change_timestamp_def intro!: is_ok_unit split: bind_splits sum.splits)
  moreover have wc: "w_clock w2 = c1" using d(1) c1(1) by (auto simp: on_multi_del_def Let_def inc_change_timestamp_def split: bind_splits sum.splits)
  ultimately have d1: "on_multi_del ops ?del ?a (g_world g1) = Some (Inr (), a2, w2)" using d(1) by simp
  have dead: "will_apply (ks_state ?a) k' t'"
    using will_apply_in_order [OF wf] ord(1) new(2) by (simp add: st1 group_reg_def)
  have ms: "nodes_max_stamps (versions (ks_state a2)) = (nodes_max_stamps (versions (ks_state ?a)))[?src :=
      bt_insert (node t') t' (nodes_max_stamps (versions (ks_state ?a)) ! ?src)]"
    using del_leaves_versions [OF wf _ dead d1] ord(1) st1 by simp
  have len: "length (nodes_max_stamps (versions (ks_state ?a))) = NUM_SOURCES" using wf by (simp add: orswot_wf_def versions_wf_def)
  have no: "\<not> in_order ?src t (ks_state a2)" "map_of (nodes_max_stamps (versions (ks_state a2)) ! READ_REPAIR_SOURCE_ID) (node t) = None"
    using ord(2,3) sources rr len by (auto simp: in_order_def ms st1 CONSISTENCY_SOURCE_ID_def READ_REPAIR_SOURCE_ID_def)
  have new2: "reg_of (ks_state a2) k = Absent"
    using d(4) new(1,3) by (simp add: writes_def dead_entries_def metadata_new_def st1 group_reg_def)
  have n2: "ks_name a2 = name" using d(3) a1(2) by (simp add: others_kept_def)
  obtain u2 c2 where c2: "clock_get (w_clock w2) = Some (u2, c2)" "clock_answers 2 c2"
    using clock_answers_next [OF c1(2)] wc by auto
  obtain u3 c3 where c3: "clock_get c2 = Some (u3, c3)" using clock_answers_next [OF c2(2)] by auto
  let ?ctx = "map_option (\<lambda>info. \<lparr>ctx_progress = \<lparr>progress_counter = 0, tracker_done = False\<rparr>,
         remote_node_id = cx_node_id info, remote_addr = cx_node_addr info\<rparr>) ctx"
  obtain a3 w3 where p: "on_multi_set ops \<lparr>mset_source = ?src, mset_docs = [document_new k t data], mset_ctx = ?ctx\<rparr> a2 w2 = Some (Inr (), a3, w3)"
    "w_clock w3 = c2" "look (w_store w3) name k = Some (Doc (document_new k t data))" "reg_of (ks_state a3) k = Absent"
    using set_after_newer_diverges [OF d(2) sources no new2 _ c2(1), of data ?ctx] sok(1) unfolding n2 by blast
  let ?g4 = "g1\<lparr>g_world := w3\<lparr>w_clock := c3\<rparr>, g_actors := (g_actors g1)[i := a3]\<rparr>"
  have "on_batch_payload ops te (Some \<lparr>bp_timestamp = ts,
      bp_modified = [\<lparr>mp_keyspace = name, mp_ctx = ctx, mp_documents = [document_new k t data], mp_timestamp = ts\<rparr>],
      bp_removed = [\<lparr>mr_keyspace = name, mr_documents = [metadata_new k' t'], mr_timestamp = ts\<rparr>]\<rparr>) g = Some (Inr u3, ?g4)"
    using g0 g1(1,3) a1(3) d1 p(1,2) c3
    by (simp add: on_batch_payload_def to_owned_def try_send_def send_to_def get_put_ctx_def get_or_create_keyspace_def group_get_time_def)
  then show ?thesis using p(3,4) g1(3) a1(3) by (simp add: group_reg_def group_set_def)
qed

end

section \<open>The services of a node in order\<close>

text \<open>C20. A request to the consistency service of a node in order, whose entries are in order at the set of their keyspace and have no
  key twice, with the keyspace of a removal known to the store and room in the clock. The node answers without a panic
  and stays in order. Without an error every entry of the request is written to the registers of its
  keyspace, unless what is there is as new; with an error some of them are. No other keyspace changes. For an
  entry out of order this fails (\<open>set_out_of_order_diverges\<close>).\<close>

theorem request_writes_entries:
  assumes "storage ops invar known look" "group_inv invar look g"
    and "entries_ok CONSISTENCY_SOURCE_ID (req_entries q) (group_set g (req_keyspace q))"
    and "is_removal q \<Longrightarrow> known (w_store (g_world g)) (req_keyspace q)"
    and "clock_register (req_timestamp q) (w_clock (g_world g)) = Some c" "clock_answers 3 c"
  shows "\<exists>r g' st. on_request ops text btext q g = Some (r, g') \<and> group_inv invar look g' \<and>
    group_set g' = (group_set g)(req_keyspace q := st) \<and>
    effect_of (req_entries q) (group_set g (req_keyspace q)) r st"
  by (rule storage.request_spec [OF assms])

definition example_request :: consistency_request where
  "example_request = RemoveReq \<lparr>rp_keyspace = ''ks'', rp_document = metadata_new 7 (HLCTimestamp 257), rp_timestamp = HLCTimestamp 1\<rparr>"

lemma example_group_set: "group_set example_group ''ks'' = default_set NUM_SOURCES"
  by (simp add: group_set_def example_group_def example_actor_def spawn_keyspace_def NUM_SOURCES_def)

lemma example_group_clock: "clock_register (HLCTimestamp 1) (w_clock (g_world example_group)) = Some example_clock" "clock_answers 5 example_clock"
  using clock_answers_enough [OF example_clock_ok, of 5]
  by (simp_all add: clock_register_def example_group_def example_world_def example_clock_def zero_time)

lemma example_group_known: "mem_known (w_store (g_world example_group)) ''ks''"
  using example_store_inv by (simp add: example_group_def)

theorem request_writes_entries_witness:
  "\<exists>r g' st. on_request mem_ops (\<lambda>e. []) (\<lambda>e. []) example_request example_group = Some (r, g') \<and> group_inv mem_inv mem_look g' \<and>
    group_set g' = (group_set example_group)(''ks'' := st) \<and>
    effect_of (dead_entries [metadata_new 7 (HLCTimestamp 257)]) (group_set example_group ''ks'') r st"
  using request_writes_entries [OF mem.storage_axioms example_group_inv, of example_request example_clock "\<lambda>e. []" "\<lambda>e. []"]
    in_order_default [OF sources(1)] example_group_set example_group_clock(1) example_group_known
    clock_answers_less [OF example_group_clock(2), of 3]
  by (simp add: example_request_def)

text \<open>A batch of deletions and documents, in order and with no deletion newer than a document of its
  node, leaves a node in order; without an error every register of every keyspace has first the
  batch's deletion and then its document written to it.\<close>

lemma batch_writes_entries:
  assumes "storage ops invar known look" "group_inv invar look g" "batch_ok b g"
    and "\<forall>p \<in> set (bp_removed b). known (w_store (g_world g)) (mr_keyspace p)"
    and "clock_register (bp_timestamp b) (w_clock (g_world g)) = Some c"
    and "clock_answers (2 * length (bp_removed b) + (2 * length (bp_modified b) + 1)) c"
  shows "\<exists>r g'. on_batch_payload ops te (Some b) g = Some (r, g') \<and> group_inv invar look g' \<and>
    (is_ok r \<longrightarrow> (\<forall>name k. group_reg g' name k = overwrite (overwrite (group_reg g name k)
       (entry_at (dead_entries (removed_docs b name)) k)) (entry_at (live_entries (modified_docs b name)) k)))"
  by (rule storage.batch_spec [OF assms])

definition example_batch :: "hlc_timestamp \<Rightarrow> hlc_timestamp \<Rightarrow> batch_payload" where
  "example_batch del_ts put_ts = \<lparr>bp_timestamp = HLCTimestamp 1,
      bp_modified = [\<lparr>mp_keyspace = ''ks'', mp_ctx = None, mp_documents = [document_new 7 put_ts []], mp_timestamp = HLCTimestamp 1\<rparr>],
      bp_removed = [\<lparr>mr_keyspace = ''ks'', mr_documents = [metadata_new 8 del_ts], mr_timestamp = HLCTimestamp 1\<rparr>]\<rparr>"

lemma example_batch_ok: "del_ts \<le> put_ts \<Longrightarrow> batch_ok (example_batch del_ts put_ts) example_group"
  using in_order_default [OF sources(1)] example_group_set
  by (auto simp: batch_ok_def example_batch_def removed_docs_def modified_docs_def metadata_new_def)

lemma batch_writes_entries_witness:
  "\<exists>r g'. on_batch_payload mem_ops (\<lambda>e. []) (Some (example_batch (HLCTimestamp 1) (HLCTimestamp 257))) example_group = Some (r, g') \<and>
    group_inv mem_inv mem_look g'"
proof -
  have le: "HLCTimestamp 1 \<le> HLCTimestamp 257" by (simp add: less_eq_hlc_timestamp_def word_le_nat_alt)
  show ?thesis
    using batch_writes_entries [OF mem.storage_axioms example_group_inv example_batch_ok [OF le], of example_clock "\<lambda>e. []"]
      example_group_clock example_group_known by (auto simp: example_batch_def)
qed

text \<open>C39. A node puts a document and then deletes another one. The batch that carries both is applied
  deletions first, so at a node that has nothing else from that node the deletion is the newest
  operation of its source when the older document arrives: the store takes the document, the set
  refuses it, and the reply is a success.\<close>

theorem batch_loses_older_put:
  assumes "storage ops invar known look" "group_inv invar look g" "known (w_store (g_world g)) name"
    and "clock_register ts (w_clock (g_world g)) = Some c" "clock_answers 5 c"
    and "\<And>ds ctx s r s'. st_multi_put_with_ctx ops name ds ctx s = Some (r, s') \<Longrightarrow> is_ok r"
    and "\<And>ds s r s'. st_mark_many_as_tombstone ops name ds s = Some (r, s') \<Longrightarrow> is_ok r"
    and "in_order CONSISTENCY_SOURCE_ID t' (group_set g name)" "node t = node t'" "t < t'"
    and "group_reg g name k = Absent" "group_reg g name k' = Absent" "k \<noteq> k'"
    and "map_of (nodes_max_stamps (versions (group_set g name)) ! READ_REPAIR_SOURCE_ID) (node t) = None"
  shows "\<exists>reply g'. on_batch_payload ops te (Some \<lparr>bp_timestamp = ts,
      bp_modified = [\<lparr>mp_keyspace = name, mp_ctx = ctx, mp_documents = [document_new k t data], mp_timestamp = ts\<rparr>],
      bp_removed = [\<lparr>mr_keyspace = name, mr_documents = [metadata_new k' t'], mr_timestamp = ts\<rparr>]\<rparr>) g = Some (Inr reply, g') \<and>
    look (w_store (g_world g')) name k = Some (Doc (document_new k t data)) \<and> group_reg g' name k = Absent"
  by (rule storage.batch_diverges [OF assms])

lemma example_no_repair: "map_of (nodes_max_stamps (versions (default_set NUM_SOURCES)) ! READ_REPAIR_SOURCE_ID) nd = None"
  by (simp add: default_set_def default_versions_def NUM_SOURCES_def READ_REPAIR_SOURCE_ID_def)

theorem batch_loses_older_put_witness:
  "\<exists>reply g'. on_batch_payload mem_ops (\<lambda>e. []) (Some (example_batch (HLCTimestamp 257) (HLCTimestamp 1))) example_group = Some (Inr reply, g') \<and>
    mem_look (w_store (g_world g')) ''ks'' 7 = Some (Doc (document_new 7 (HLCTimestamp 1) [])) \<and> group_reg g' ''ks'' 7 = Absent"
  unfolding example_batch_def
  by (rule batch_loses_older_put [OF mem.storage_axioms example_group_inv example_group_known example_group_clock])
    (auto simp: mem_multi_put_def mem_mark_many_as_tombstone_def default_multi_put_with_ctx_def group_reg_def example_group_set
      in_order_default [OF sources(1)] node_def less_hlc_timestamp_def word_less_nat_alt example_no_repair)

end
