(* ===== verification/TimestampText.thy ===== *)
theory TimestampText
  imports Timestamp
begin

text \<open>
  The text form of a timestamp, \<open>Display\<close> and \<open>FromStr\<close> of \<^verbatim>\<open>datacake-crdt/src/timestamp.rs\<close>, with
  what they use of the standard library: integer formatting with a radix and a minimal width,
  \<open>splitn\<close>, and \<open>from_str_radix\<close> on unsigned integers, which takes a leading \<open>+\<close> and fails on an
  empty string, a foreign digit or an overflow.
\<close>

definition digit_char :: "nat \<Rightarrow> char" where
  "digit_char d = char_of (if d < 10 then 48 + d else 55 + d)"

definition to_digit :: "nat \<Rightarrow> char \<Rightarrow> nat option" where
  "to_digit radix c =
     (let x = (of_char c :: nat);
          d = (if 48 \<le> x \<and> x \<le> 57 then x - 48
               else if 65 \<le> x \<and> x \<le> 90 then x - 55
               else if 97 \<le> x \<and> x \<le> 122 then x - 87 else radix)
      in if d < radix then Some d else None)"

fun show_radix :: "nat \<Rightarrow> nat \<Rightarrow> string" where
  "show_radix r n = (if r < 2 \<or> n < r then [digit_char n] else show_radix r (n div r) @ [digit_char (n mod r)])"

declare show_radix.simps [simp del]

definition pad_zero :: "nat \<Rightarrow> string \<Rightarrow> string" where
  "pad_zero w s = replicate (w - length s) CHR ''0'' @ s"

fun parse_from :: "nat \<Rightarrow> nat \<Rightarrow> nat \<Rightarrow> string \<Rightarrow> nat option" where
  "parse_from radix mx acc [] = Some acc"
| "parse_from radix mx acc (c # cs) =
     (case to_digit radix c of
        None \<Rightarrow> None
      | Some d \<Rightarrow> if acc * radix + d \<le> mx then parse_from radix mx (acc * radix + d) cs else None)"

definition from_str_radix :: "nat \<Rightarrow> nat \<Rightarrow> string \<Rightarrow> nat option" where
  "from_str_radix radix mx s =
     (case s of
        [] \<Rightarrow> None
      | c # cs \<Rightarrow> if c = CHR ''+'' then (if cs = [] then None else parse_from radix mx 0 cs)
                  else parse_from radix mx 0 s)"

fun splitn :: "nat \<Rightarrow> char \<Rightarrow> string \<Rightarrow> string list" where
  "splitn 0 sep s = []"
| "splitn (Suc 0) sep s = [s]"
| "splitn (Suc (Suc n)) sep s =
     (if sep \<in> set s
      then takeWhile (\<lambda>c. c \<noteq> sep) s # splitn (Suc n) sep (tl (dropWhile (\<lambda>c. c \<noteq> sep) s))
      else [s])"

definition hlc_display :: "hlc_timestamp \<Rightarrow> string" where
  "hlc_display t =
     show_radix 10 (unat (seconds t)) @ ''-'' @
     pad_zero 4 (show_radix 10 (unat (fractional t))) @ ''-'' @
     pad_zero 4 (show_radix 16 (unat (counter t))) @ ''-'' @
     pad_zero 4 (show_radix 10 (unat (node t)))"

datatype invalid_format = InvalidFormat

definition next_parsed :: "string list \<Rightarrow> nat \<Rightarrow> nat \<Rightarrow> nat \<Rightarrow> invalid_format + nat" where
  "next_parsed splits i radix mx =
     ok_or InvalidFormat (if i < length splits then from_str_radix radix mx (splits ! i) else None)"

definition hlc_from_str :: "string \<Rightarrow> (invalid_format + hlc_timestamp) exec" where
  "hlc_from_str s =
     (let splits = splitn 4 CHR ''-'' s in
      case and_then (next_parsed splits 0 10 (2 ^ 64 - 1)) (\<lambda>secs.
           and_then (next_parsed splits 1 10 (2 ^ 8 - 1)) (\<lambda>frac.
           and_then (next_parsed splits 2 16 (2 ^ 16 - 1)) (\<lambda>ctr.
           and_then (next_parsed splits 3 10 (2 ^ 8 - 1)) (\<lambda>nd.
             Inr (secs, frac, ctr, nd))))) of
        Inl e \<Rightarrow> Some (Inl e)
      | Inr (secs, frac, ctr, nd) \<Rightarrow>
          do { t \<leftarrow> hlc_new (parts_as_duration (of_nat secs) (of_nat frac)) (of_nat ctr) (of_nat nd);
               Some (Inr t) })"

section \<open>Printing and parsing\<close>

lemma to_digit_digit_char:
  assumes "d < r" "r \<le> 16"
  shows "to_digit r (digit_char d) = Some d" "digit_char d \<noteq> CHR ''-''" "digit_char d \<noteq> CHR ''+''"
proof -
  have c: "of_char (digit_char d) = (if d < 10 then 48 + d else 55 + d)"
    using assms by (auto simp: digit_char_def of_char_of)
  then show "to_digit r (digit_char d) = Some d" using assms by (simp add: to_digit_def Let_def)
  show "digit_char d \<noteq> CHR ''-''" "digit_char d \<noteq> CHR ''+''"
    using c by (auto split: if_splits)
qed

lemma parse_from_append:
  "parse_from r mx acc (xs @ ys) = do { a \<leftarrow> parse_from r mx acc xs; parse_from r mx a ys }"
  by (induction xs arbitrary: acc) (auto split: option.splits)

lemma parse_show:
  assumes "2 \<le> r" "r \<le> 16" "n \<le> mx"
  shows "parse_from r mx 0 (show_radix r n) = Some n"
  using assms
proof (induction r n rule: show_radix.induct)
  case (1 r n)
  show ?case
  proof (cases "n < r")
    case True
    then show ?thesis using 1 by (subst show_radix.simps) (simp add: to_digit_digit_char)
  next
    case False
    have "n div r \<le> mx" using 1(4) div_le_dividend le_trans by blast
    then have "parse_from r mx 0 (show_radix r (n div r)) = Some (n div r)"
      using 1 False by simp
    moreover have "to_digit r (digit_char (n mod r)) = Some (n mod r)"
      using 1(2,3) by (intro to_digit_digit_char) simp_all
    ultimately show ?thesis
      using 1 False by (subst show_radix.simps) (simp add: parse_from_append)
  qed
qed

lemma show_radix_chars:
  assumes "2 \<le> r" "r \<le> 16" "c \<in> set (show_radix r n)"
  shows "c \<noteq> CHR ''-''" "c \<noteq> CHR ''+''"
proof -
  have "\<exists>d < r. c = digit_char d"
    using assms(1,3)
  proof (induction r n rule: show_radix.induct)
    case (1 r n)
    consider "n < r" "c = digit_char n" | "\<not> n < r" "c \<in> set (show_radix r (n div r))" | "c = digit_char (n mod r)"
      using 1(2,3) by (subst (asm) show_radix.simps) (auto split: if_splits)
    then show ?case
    proof cases
      case 2
      then show ?thesis using 1(1,2) by simp
    next
      case 3
      have "n mod r < r" using 1(2) by simp
      then show ?thesis using 3 by (intro exI [of _ "n mod r"]) simp
    qed (rule exI [of _ n], simp)
  qed
  then obtain d where "d < r" "c = digit_char d" by blast
  then show "c \<noteq> CHR ''-''" "c \<noteq> CHR ''+''"
    using assms(2) to_digit_digit_char(2,3) [of d r] by simp_all
qed

lemma show_radix_not_Nil: "show_radix r n \<noteq> []"
  by (subst show_radix.simps) simp

lemma parse_zeros: "2 \<le> r \<Longrightarrow> parse_from r mx 0 (replicate k CHR ''0'' @ s) = parse_from r mx 0 s"
  by (induction k) (auto simp: to_digit_def)

lemma pad_zero_chars: "c \<in> set (pad_zero w s) \<Longrightarrow> c = CHR ''0'' \<or> c \<in> set s"
  by (auto simp: pad_zero_def)

lemma from_str_radix_shown:
  assumes "2 \<le> r" "r \<le> 16" "n \<le> mx"
  shows "from_str_radix r mx (pad_zero w (show_radix r n)) = Some n"
    "CHR ''-'' \<notin> set (pad_zero w (show_radix r n))"
proof -
  let ?s = "pad_zero w (show_radix r n)"
  have p: "parse_from r mx 0 ?s = Some n"
    using assms by (simp add: pad_zero_def parse_zeros parse_show)
  have ne: "?s \<noteq> []" by (simp add: pad_zero_def show_radix_not_Nil)
  have "c \<noteq> CHR ''+''" "c \<noteq> CHR ''-''" if "c \<in> set ?s" for c
    using pad_zero_chars [OF that] show_radix_chars [OF assms(1,2)] by auto
  then show "CHR ''-'' \<notin> set ?s" "from_str_radix r mx ?s = Some n"
    using p ne by (auto simp: from_str_radix_def split: list.splits)
qed

lemma splitn_step:
  assumes "sep \<notin> set a"
  shows "splitn (Suc (Suc n)) sep (a @ sep # b) = a # splitn (Suc n) sep b"
proof -
  have "takeWhile (\<lambda>c. c \<noteq> sep) (a @ sep # b) = a" "dropWhile (\<lambda>c. c \<noteq> sep) (a @ sep # b) = sep # b"
    using assms by (induction a) auto
  then show ?thesis by simp
qed

lemma split_display:
  assumes "CHR ''-'' \<notin> set a" "CHR ''-'' \<notin> set b" "CHR ''-'' \<notin> set c"
  shows "splitn 4 CHR ''-'' (a @ ''-'' @ b @ ''-'' @ c @ ''-'' @ d) = [a, b, c, d]"
proof -
  have "splitn (Suc (Suc (Suc (Suc 0)))) CHR ''-'' (a @ ''-'' @ b @ ''-'' @ c @ ''-'' @ d) = [a, b, c, d]"
    using splitn_step [OF assms(1)] splitn_step [OF assms(2)] splitn_step [OF assms(3)]
    by (simp del: splitn.simps(3))
  then show ?thesis by (simp add: eval_nat_numeral)
qed

lemma from_str_display:
  "hlc_from_str (hlc_display t) =
     map_option Inr (hlc_new (datacake_timestamp t) (counter t) (node t))"
proof -
  note b = field_bounds [of t]
  have sec: "pad_zero 0 s = s" for s by (simp add: pad_zero_def)
  note sh = from_str_radix_shown [of 10 "unat (seconds t)" "2 ^ 64 - 1" 0, unfolded sec]
    from_str_radix_shown [of 10 "unat (fractional t)" "2 ^ 8 - 1" 4]
    from_str_radix_shown [of 16 "unat (counter t)" "2 ^ 16 - 1" 4]
    from_str_radix_shown [of 10 "unat (node t)" "2 ^ 8 - 1" 4]
  have "splitn 4 CHR ''-'' (hlc_display t) =
      [show_radix 10 (unat (seconds t)), pad_zero 4 (show_radix 10 (unat (fractional t))),
       pad_zero 4 (show_radix 16 (unat (counter t))), pad_zero 4 (show_radix 10 (unat (node t)))]"
    unfolding hlc_display_def by (rule split_display) (use sh b in auto)
  then show ?thesis
    using sh b by (simp add: hlc_from_str_def next_parsed_def datacake_timestamp_def bind_map_option
        map_conv_bind_option comp_def)
qed

lemma display_roundtrip:
  assumes "unat (fractional t) < 250"
  shows "hlc_from_str (hlc_display t) = Some (Inr t)"
proof -
  let ?d = "datacake_timestamp t"
  have tk: "ticks ?d = unat (seconds t) * 250 + unat (fractional t)" by (rule ticks_datacake_timestamp)
  then have secs: "as_secs ?d = unat (seconds t)" using assms by (simp add: as_secs_ticks)
  then have r: "as_secs ?d < 2 ^ 32" using field_bounds(1) [of t] by simp
  have "time40 (HLCTimestamp (pack ?d (counter t) (node t))) = time40 t"
    using r tk assms by (simp add: pack_time(1) upper_def time40_def [of t])
  then have "\<not> t < HLCTimestamp (pack ?d (counter t) (node t))" "\<not> HLCTimestamp (pack ?d (counter t) (node t)) < t"
    by (simp_all add: hlc_less_iff pack_fields)
  then have "HLCTimestamp (pack ?d (counter t) (node t)) = t" by simp
  then show ?thesis
    using r by (simp add: from_str_display hlc_new_def TIMESTAMP_MAX_def rust_assert_def)
qed


section \<open>Properties\<close>

text \<open>C37. Parsing what \<open>Display\<close> prints gives the timestamp back, for every timestamp whose fraction
  of a second is one the packing produces (below 250, in units of four milliseconds).\<close>

theorem display_parses_back:
  assumes "unat (fractional t) < 250"
  shows "hlc_from_str (hlc_display t) = Some (Inr t)"
  by (rule display_roundtrip [OF assms])

theorem display_parses_back_witness:
  "hlc_from_str (hlc_display (HLCTimestamp 0x100000201)) = Some (Inr (HLCTimestamp 0x100000201))"
  by (rule display_parses_back) (simp add: fractional_def)

text \<open>A string that names a time beyond 32 bits of seconds is not an \<open>InvalidFormat\<close>: parsing it
  panics.\<close>

theorem from_str_panics_beyond_range:
  assumes "2 ^ 32 \<le> secs" "secs < 2 ^ 64"
  shows "hlc_from_str (show_radix 10 secs @ ''-0-0-0'') = None"
proof -
  have sec: "pad_zero 0 s = s" for s by (simp add: pad_zero_def)
  note sh = from_str_radix_shown [of 10 secs "2 ^ 64 - 1" 0, unfolded sec]
  have z: "from_str_radix r m ''0'' = Some 0" if "r \<in> {10, 16}" for r m
    using that by (auto simp: from_str_radix_def to_digit_def)
  have "splitn 4 CHR ''-'' (show_radix 10 secs @ ''-0-0-0'') = [show_radix 10 secs, ''0'', ''0'', ''0'']"
    using split_display [of "show_radix 10 secs" "''0''" "''0''" "''0''"] sh(2) assms by simp
  moreover have "as_secs (parts_as_duration (of_nat secs) 0) = secs"
    using assms by (simp add: parts_as_duration_def from_millis_def unat_of_nat as_secs_def from_secs_def nanos_per_sec_def)
  ultimately show ?thesis
    using sh(1) assms by (simp add: hlc_from_str_def next_parsed_def z hlc_new_def TIMESTAMP_MAX_def rust_assert_def)
qed

theorem from_str_panics_beyond_range_witness: "hlc_from_str (show_radix 10 4294967296 @ ''-0-0-0'') = None"
  by (rule from_str_panics_beyond_range) simp_all

end
