(* ===== verification/Selector.thy ===== *)
theory Selector
  imports Collections "HOL-Library.List_Lexorder" "HOL-Library.Char_ord" "HOL-Library.Multiset"
begin

text \<open>
  The choice of the replicas a write is sent to, \<^verbatim>\<open>datacake-node/src/nodes_selector.rs\<close>: the cycler
  over the nodes of a data center, the data center aware selector and the actor that caches its
  answers. Addresses are their text. Counters are \<open>usize\<close>, here \<open>nat\<close>: a subtraction below zero is
  a panic. The random choice of data centers (\<open>choose_multiple\<close> of the crate \<open>rand\<close>) is the parameter
  \<open>rnd\<close>, with what its documentation says of it as \<open>rnd_ok\<close>.
\<close>

type_synonym addr = string

record node_cycler =
  cursor :: nat
  cyc_nodes :: "addr list"

type_synonym dc_map = "(string, node_cycler) btree_map"

definition cycler_from :: "addr list \<Rightarrow> node_cycler" where
  "cycler_from ns = \<lparr>cursor = 0, cyc_nodes = ns\<rparr>"

definition cycler_len :: "node_cycler \<Rightarrow> nat" where
  "cycler_len c = length (cyc_nodes c)"

definition cycler_extend :: "addr list \<Rightarrow> node_cycler \<Rightarrow> node_cycler" where
  "cycler_extend ns c = c\<lparr>cyc_nodes := cyc_nodes c @ ns\<rparr>"

definition cycler_next :: "node_cycler \<Rightarrow> addr option \<times> node_cycler" where
  "cycler_next c =
     (let i = (if cursor c \<ge> length (cyc_nodes c) then 0 else cursor c)
      in (if i < length (cyc_nodes c) then Some (cyc_nodes c ! i) else None, c\<lparr>cursor := i + 1\<rparr>))"

datatype consistency = CNone | COne | CTwo | CThree | CQuorum | CLocalQuorum | CAll | CEachQuorum

datatype consistency_error = NotEnoughNodes nat nat | ConsistencyFailure nat nat nat

text \<open>\<open>usize\<close> subtraction.\<close>

definition usize_sub :: "nat \<Rightarrow> nat \<Rightarrow> nat exec" where
  "usize_sub a b = (if b \<le> a then Some (a - b) else None)"

section \<open>Selecting n nodes\<close>

record pick_state =
  pk_dcs :: dc_map
  pk_extra :: nat
  pk_count :: nat
  pk_selected :: "addr list"

text \<open>The loop that takes further nodes of a data center.\<close>

primrec extra_picks :: "nat \<Rightarrow> addr \<Rightarrow> node_cycler \<times> nat \<times> addr list \<Rightarrow> (node_cycler \<times> nat \<times> addr list) exec" where
  "extra_picks 0 local_node s = Some s"
| "extra_picks (Suc i) local_node s =
     (case s of (dc_nodes, num_extra, selected) \<Rightarrow>
       (let (r, dc_nodes) = cycler_next dc_nodes in
        case r of
          None \<Rightarrow> extra_picks i local_node (dc_nodes, num_extra, selected)
        | Some nd \<Rightarrow>
            if nd = local_node \<or> nd \<in> set selected
            then extra_picks i local_node (dc_nodes, num_extra, selected)
            else do { num_extra \<leftarrow> usize_sub num_extra 1;
                      extra_picks i local_node (dc_nodes, num_extra, selected @ [nd]) }))"

text \<open>The node a data center starts with: its next, or the one after if that is the local node.\<close>

definition first_pick :: "addr \<Rightarrow> node_cycler \<Rightarrow> (addr option \<times> node_cycler) exec" where
  "first_pick local_node dc_nodes =
     (let (r, dc_nodes) = cycler_next dc_nodes in
      case r of
        None \<Rightarrow> Some (None, dc_nodes)
      | Some nd \<Rightarrow>
          if nd = local_node then
            if cycler_len dc_nodes \<le> 1 then Some (None, dc_nodes)
            else (let (r, dc_nodes) = cycler_next dc_nodes in
                  do { nd \<leftarrow> r; Some (Some nd, dc_nodes) })
          else Some (Some nd, dc_nodes))"

definition pick_dc :: "addr \<Rightarrow> string \<times> node_cycler \<Rightarrow> pick_state \<Rightarrow> pick_state exec" where
  "pick_dc local_node dc st =
     do { (r, dc_nodes) \<leftarrow> first_pick local_node (snd dc);
          case r of
            None \<Rightarrow> do { cnt \<leftarrow> usize_sub (pk_count st) 1;
                         Some (st\<lparr>pk_dcs := bt_insert (fst dc) dc_nodes (pk_dcs st),
                                  pk_extra := pk_extra st + 1, pk_count := cnt\<rparr>) }
          | Some nd \<Rightarrow>
              (let selected = pk_selected st @ [nd] in
               if pk_extra st = 0
               then Some (st\<lparr>pk_dcs := bt_insert (fst dc) dc_nodes (pk_dcs st), pk_selected := selected\<rparr>)
               else do { d \<leftarrow> usize_sub (pk_count st) 1;
                         let per_dc = pk_extra st div max d 1;
                         (dc_nodes, num_extra, selected) \<leftarrow> extra_picks per_dc local_node (dc_nodes, pk_extra st, selected);
                         cnt \<leftarrow> usize_sub (pk_count st) 1;
                         Some \<lparr>pk_dcs = bt_insert (fst dc) dc_nodes (pk_dcs st), pk_extra = num_extra,
                               pk_count = cnt, pk_selected = selected\<rparr> }) }"

text \<open>The last subtraction is the argument of the warning, which is evaluated where warnings are logged.\<close>

type_synonym choice = "nat \<Rightarrow> string list \<Rightarrow> string list"

definition select_n_nodes ::
  "choice \<Rightarrow> addr \<Rightarrow> string \<Rightarrow> nat \<Rightarrow> nat \<Rightarrow> dc_map \<Rightarrow> ((consistency_error + addr list) \<times> dc_map) exec" where
  "select_n_nodes rnd local_node local_dc n total_nodes data_centers =
     do { num_nodes_outside_dc \<leftarrow> usize_sub total_nodes
            (case map_of data_centers local_dc of Some c \<Rightarrow> cycler_len c | None \<Rightarrow> 0);
          let can_skip_local_dc = (num_nodes_outside_dc \<ge> n);
          num_data_centers \<leftarrow> (if can_skip_local_dc then usize_sub (length data_centers) 1
                                else Some (length data_centers));
          let eligible = filter (\<lambda>dc. \<not> (can_skip_local_dc \<and> fst dc = local_dc)) data_centers;
          let num_extra_nodes = (if num_data_centers \<le> n then n - num_data_centers else 0);
          let selected_dcs = (if num_data_centers \<le> n then eligible
                              else map (\<lambda>name. (name, the (map_of eligible name))) (rnd n (map fst eligible)));
          st \<leftarrow> exec_fold (pick_dc local_node) selected_dcs
            \<lparr>pk_dcs = data_centers, pk_extra = num_extra_nodes, pk_count = length selected_dcs, pk_selected = []\<rparr>;
          if length (pk_selected st) \<ge> n then Some (Inr (pk_selected st), pk_dcs st)
          else do { live_nodes \<leftarrow> usize_sub total_nodes 1;
                    Some (Inl (NotEnoughNodes (length (pk_selected st)) n), pk_dcs st) } }"

section \<open>The selector\<close>

text \<open>The nodes of a data center other than the local one.\<close>

definition remote_nodes :: "addr \<Rightarrow> node_cycler \<Rightarrow> addr list" where
  "remote_nodes local_node c = filter (\<lambda>a. a \<noteq> local_node) (cyc_nodes c)"

lemma sum_drop_less: "concat (map (take 1) iters) \<noteq> [] \<Longrightarrow> sum_list (map length (map (drop 1) iters)) < sum_list (map length iters)"
proof (induction iters)
  case (Cons x iters)
  have le: "sum_list (map length (map (drop 1) ys)) \<le> sum_list (map length ys)" for ys :: "'a list list"
    by (induction ys) auto
  show ?case
  proof (cases x)
    case (Cons a y)
    then show ?thesis using le [of iters] by simp
  qed (use Cons in simp)
qed simp

text \<open>One node of every data center per round, until there are enough or no node is left.\<close>

function quorum_loop :: "nat \<Rightarrow> addr list \<Rightarrow> addr list list \<Rightarrow> consistency_error + addr list" where
  "quorum_loop majority selected iters =
     (if majority \<le> length selected then Inr selected
      else let heads = concat (map (take 1) iters)
           in if heads = [] then Inl (NotEnoughNodes (length selected) majority)
              else quorum_loop majority (selected @ heads) (map (drop 1) iters))"
  by auto

termination quorum_loop
  by (relation "measure (\<lambda>(m, s, iters). sum_list (map length iters))") (use sum_drop_less in auto)

declare quorum_loop.simps [simp del]

definition each_majority :: "string \<Rightarrow> string \<times> node_cycler \<Rightarrow> nat" where
  "each_majority local_dc dc = (if fst dc = local_dc then cycler_len (snd dc) div 2 else cycler_len (snd dc) div 2 + 1)"

definition select_nodes ::
  "choice \<Rightarrow> addr \<Rightarrow> string \<Rightarrow> nat \<Rightarrow> dc_map \<Rightarrow> consistency \<Rightarrow> ((consistency_error + addr list) \<times> dc_map) exec" where
  "select_nodes rnd local_node local_dc total_nodes data_centers c =
     (case c of
        COne \<Rightarrow> select_n_nodes rnd local_node local_dc 1 total_nodes data_centers
      | CTwo \<Rightarrow> select_n_nodes rnd local_node local_dc 2 total_nodes data_centers
      | CThree \<Rightarrow> select_n_nodes rnd local_node local_dc 3 total_nodes data_centers
      | CQuorum \<Rightarrow> Some (quorum_loop (total_nodes div 2) [] (map (\<lambda>dc. remote_nodes local_node (snd dc)) data_centers), data_centers)
      | CLocalQuorum \<Rightarrow>
          Some (Inr (case map_of data_centers local_dc of
                       Some nodes \<Rightarrow> take (cycler_len nodes div 2) (remote_nodes local_node nodes)
                     | None \<Rightarrow> []), data_centers)
      | CAll \<Rightarrow> Some (Inr (filter (\<lambda>a. a \<noteq> local_node) (concat (map (\<lambda>dc. cyc_nodes (snd dc)) data_centers))), data_centers)
      | CEachQuorum \<Rightarrow>
          Some (Inr (concat (map (\<lambda>dc. take (each_majority local_dc dc) (remote_nodes local_node (snd dc))) data_centers)), data_centers)
      | CNone \<Rightarrow> Some (Inr [], data_centers))"

section \<open>The actor\<close>

definition NODE_CACHE_TIMEOUT :: duration where
  "NODE_CACHE_TIMEOUT = from_secs 2"

datatype selector_op = SetNodes "(string, addr list) btree_map" | GetNodes consistency

record selector_state =
  sel_total :: nat
  sel_dcs :: dc_map
  sel_cache :: "(consistency, duration \<times> addr list) hash_map"

definition selector_init :: selector_state where
  "selector_init = \<lparr>sel_total = 0, sel_dcs = [], sel_cache = []\<rparr>"

definition selector_set_nodes :: "(string, addr list) btree_map \<Rightarrow> selector_state \<Rightarrow> selector_state" where
  "selector_set_nodes new st =
     \<lparr>sel_total = sum_list (map (\<lambda>dc. length (snd dc)) new),
      sel_dcs = fold (\<lambda>(name, ns). bt_insert name (cycler_from ns)) new (sel_dcs st),
      sel_cache = []\<rparr>"

text \<open>The clock reads \<open>now\<close> when the request arrives and \<open>done_at\<close> when the selection is done.\<close>

definition selector_get_nodes ::
  "choice \<Rightarrow> addr \<Rightarrow> string \<Rightarrow> duration \<Rightarrow> duration \<Rightarrow> consistency \<Rightarrow> selector_state
    \<Rightarrow> ((consistency_error + addr list) \<times> selector_state) exec" where
  "selector_get_nodes rnd local_node local_dc now done_at c st =
     (let refresh =
        do { (r, dcs) \<leftarrow> select_nodes rnd local_node local_dc (sel_total st) (sel_dcs st) c;
             Some (r, st\<lparr>sel_dcs := dcs, sel_cache := (case r of
               Inr nodes \<Rightarrow> hm_insert c (done_at, nodes) (sel_cache st) | Inl e \<Rightarrow> sel_cache st)\<rparr>) }
      in case map_of (sel_cache st) c of
           Some (last_refreshed, nodes) \<Rightarrow>
             if now - last_refreshed < NODE_CACHE_TIMEOUT then Some (Inr nodes, st) else refresh
         | None \<Rightarrow> refresh)"

definition selector_step ::
  "choice \<Rightarrow> addr \<Rightarrow> string \<Rightarrow> duration \<Rightarrow> duration \<Rightarrow> selector_op \<Rightarrow> selector_state
    \<Rightarrow> ((consistency_error + addr list) option \<times> selector_state) exec" where
  "selector_step rnd local_node local_dc now done_at op st =
     (case op of
        SetNodes new \<Rightarrow> Some (None, selector_set_nodes new st)
      | GetNodes c \<Rightarrow> do { (r, st) \<leftarrow> selector_get_nodes rnd local_node local_dc now done_at c st; Some (Some r, st) })"

text \<open>The actor's loop over the messages of its channel, with its replies in order.\<close>

primrec run_selector ::
  "choice \<Rightarrow> addr \<Rightarrow> string \<Rightarrow> (duration \<times> duration \<times> selector_op) list \<Rightarrow> selector_state
    \<Rightarrow> ((consistency_error + addr list) list \<times> selector_state) exec" where
  "run_selector rnd local_node local_dc [] st = Some ([], st)"
| "run_selector rnd local_node local_dc (m # ms) st =
     do { (r, st) \<leftarrow> selector_step rnd local_node local_dc (fst m) (fst (snd m)) (snd (snd m)) st;
          (rs, st) \<leftarrow> run_selector rnd local_node local_dc ms st;
          Some ((case r of Some r \<Rightarrow> r # rs | None \<Rightarrow> rs), st) }"

section \<open>Well-formed data centers\<close>

definition all_nodes :: "dc_map \<Rightarrow> addr list" where
  "all_nodes dcs = concat (map (\<lambda>dc. cyc_nodes (snd dc)) dcs)"

text \<open>No address is listed twice, in one data center or in two.\<close>

definition dcs_wf :: "dc_map \<Rightarrow> bool" where
  "dcs_wf dcs \<longleftrightarrow> bt_wf dcs \<and> distinct (all_nodes dcs)"

text \<open>The data centers without their cursors.\<close>

definition dc_view :: "dc_map \<Rightarrow> (string \<times> addr list) list" where
  "dc_view dcs = map (\<lambda>dc. (fst dc, cyc_nodes (snd dc))) dcs"

definition rnd_ok :: "choice \<Rightarrow> bool" where
  "rnd_ok rnd \<longleftrightarrow> (\<forall>n xs. distinct xs \<longrightarrow>
     distinct (rnd n xs) \<and> set (rnd n xs) \<subseteq> set xs \<and> length (rnd n xs) = min n (length xs))"

lemma dc_view_nodes: "all_nodes dcs = concat (map snd (dc_view dcs))"
  by (simp add: all_nodes_def dc_view_def comp_def)

lemma dc_view_keys: "map fst (dc_view dcs) = map fst dcs"
  by (simp add: dc_view_def)

lemma dcs_wf_view: "dc_view dcs' = dc_view dcs \<Longrightarrow> dcs_wf dcs' = dcs_wf dcs"
  using dc_view_keys [of dcs] dc_view_keys [of dcs'] by (simp add: dcs_wf_def dc_view_nodes bt_wf_def)

lemma dc_view_insert:
  "bt_wf dcs \<Longrightarrow> map_of dcs n = Some c \<Longrightarrow> cyc_nodes c' = cyc_nodes c \<Longrightarrow>
    dc_view (bt_insert n c' dcs) = dc_view dcs"
proof (induction n c' dcs rule: bt_insert.induct)
  case (2 k v k' v' m)
  then have "k < k' \<Longrightarrow> False" using map_of_SomeD by (fastforce split: if_splits)
  then show ?case using 2 by (auto simp: dc_view_def split: if_splits)
qed simp

lemma cycler_next_props:
  assumes "cycler_next c = (r, c')"
  shows "cyc_nodes c' = cyc_nodes c" "r = Some nd \<Longrightarrow> nd \<in> set (cyc_nodes c)"
    "r = None \<longleftrightarrow> cyc_nodes c = []"
  using assms by (auto simp: cycler_next_def Let_def split: if_splits)

lemma first_pick_props:
  assumes "distinct (cyc_nodes c)"
  shows "\<exists>r c'. first_pick local_node c = Some (r, c') \<and> cyc_nodes c' = cyc_nodes c \<and>
    (\<forall>nd. r = Some nd \<longrightarrow> nd \<in> set (cyc_nodes c) \<and> nd \<noteq> local_node)"
proof -
  obtain r1 c1 where n1: "cycler_next c = (r1, c1)" by fastforce
  note p1 = cycler_next_props [OF n1]
  show ?thesis
  proof (cases "r1 = Some local_node \<and> 1 < length (cyc_nodes c)")
    case True
    obtain r2 c2 where n2: "cycler_next c1 = (r2, c2)" by fastforce
    note p2 = cycler_next_props [OF n2]
    obtain nd where nd: "r2 = Some nd" using p2(3) p1(1) True by fastforce
    have "nd \<noteq> local_node"
      using True n1 n2 nd assms by (auto simp: cycler_next_def Let_def nth_eq_iff_index_eq split: if_splits)
    then show ?thesis
      using True n1 n2 nd p1(1) p2(1,2) by (auto simp: first_pick_def cycler_len_def)
  next
    case False
    then show ?thesis
      using n1 p1 by (auto simp: first_pick_def cycler_len_def Let_def split: option.splits)
  qed
qed

lemma extra_picks_props:
  assumes "k \<le> extra" "distinct sel" "local_node \<notin> set sel"
  shows "\<exists>c' extra' sel'. extra_picks k local_node (c, extra, sel) = Some (c', extra', sel') \<and> cyc_nodes c' = cyc_nodes c \<and>
    distinct sel' \<and> local_node \<notin> set sel' \<and> set sel \<subseteq> set sel' \<and> set sel' \<subseteq> set sel \<union> set (cyc_nodes c)"
  using assms
proof (induction k arbitrary: c extra sel)
  case (Suc k)
  obtain r c1 where n: "cycler_next c = (r, c1)" by fastforce
  note p = cycler_next_props [OF n]
  show ?case
  proof (cases "\<exists>nd. r = Some nd \<and> nd \<noteq> local_node \<and> nd \<notin> set sel")
    case True
    then obtain nd where nd: "r = Some nd" "nd \<noteq> local_node" "nd \<notin> set sel" by blast
    have "usize_sub extra 1 = Some (extra - 1)" using Suc.prems(1) by (simp add: usize_sub_def)
    then show ?thesis
      using Suc.IH [of "extra - 1" "sel @ [nd]" c1] Suc.prems n nd p(1) p(2) [OF nd(1)] by (fastforce simp: Let_def)
  next
    case False
    then have "extra_picks (Suc k) local_node (c, extra, sel) = extra_picks k local_node (c1, extra, sel)"
      using n by (auto split: option.splits)
    then show ?thesis using Suc.IH [of extra sel c1] Suc.prems p(1) by simp
  qed
qed auto

lemma pick_dc_props:
  assumes c: "distinct (cyc_nodes c)" "set (pk_selected st) \<inter> set (cyc_nodes c) = {}"
    and st: "bt_wf (pk_dcs st)" "map_of (pk_dcs st) name = Some c" "1 \<le> pk_count st"
      "distinct (pk_selected st)" "local_node \<notin> set (pk_selected st)"
  shows "\<exists>st' c'. pick_dc local_node (name, c) st = Some st' \<and> pk_count st \<le> Suc (pk_count st') \<and>
    pk_dcs st' = bt_insert name c' (pk_dcs st) \<and> cyc_nodes c' = cyc_nodes c \<and>
    distinct (pk_selected st') \<and> local_node \<notin> set (pk_selected st') \<and>
    set (pk_selected st') \<subseteq> set (pk_selected st) \<union> set (cyc_nodes c)"
proof -
  obtain r c1 where f: "first_pick local_node c = Some (r, c1)" "cyc_nodes c1 = cyc_nodes c"
    "\<And>nd. r = Some nd \<Longrightarrow> nd \<in> set (cyc_nodes c) \<and> nd \<noteq> local_node"
    using first_pick_props [OF c(1)] by blast
  have sub: "usize_sub (pk_count st) 1 = Some (pk_count st - 1)" using st(3) by (simp add: usize_sub_def)
  show ?thesis
  proof (cases r)
    case None
    then show ?thesis using f sub st by (auto simp: pick_dc_def)
  next
    case (Some nd)
    let ?sel = "pk_selected st @ [nd]"
    have sel: "distinct ?sel" "local_node \<notin> set ?sel" using f(3) [OF Some] c(2) st(4,5) by auto
    show ?thesis
    proof (cases "pk_extra st = 0")
      case True
      then show ?thesis using Some f(1,2) f(3) [OF Some] sel st by (auto simp: pick_dc_def Let_def)
    next
      case False
      let ?k = "pk_extra st div max (pk_count st - 1) 1"
      obtain c2 ex sel' where e: "extra_picks ?k local_node (c1, pk_extra st, ?sel) = Some (c2, ex, sel')"
        "cyc_nodes c2 = cyc_nodes c1" "distinct sel'" "local_node \<notin> set sel'" "set sel' \<subseteq> set ?sel \<union> set (cyc_nodes c1)"
        using extra_picks_props [OF div_le_dividend sel] by blast
      then show ?thesis
        using Some f(1,2) f(3) [OF Some] False sub st(3) by (auto simp: pick_dc_def Let_def)
    qed
  qed
qed

lemma pick_fold:
  assumes "distinct (concat (map (\<lambda>dc. cyc_nodes (snd dc)) ds))" "distinct (map fst ds)"
    and "set (pk_selected st) \<inter> set (concat (map (\<lambda>dc. cyc_nodes (snd dc)) ds)) = {}"
    and "bt_wf (pk_dcs st)" "\<forall>dc \<in> set ds. map_of (pk_dcs st) (fst dc) = Some (snd dc)" "length ds \<le> pk_count st"
    and "distinct (pk_selected st)" "local_node \<notin> set (pk_selected st)"
  shows "\<exists>st'. exec_fold (pick_dc local_node) ds st = Some st' \<and> dc_view (pk_dcs st') = dc_view (pk_dcs st) \<and>
    distinct (pk_selected st') \<and> local_node \<notin> set (pk_selected st') \<and>
    set (pk_selected st') \<subseteq> set (pk_selected st) \<union> set (concat (map (\<lambda>dc. cyc_nodes (snd dc)) ds))"
  using assms
proof (induction ds arbitrary: st)
  case (Cons dc ds)
  obtain name c where dc: "dc = (name, c)" by (cases dc)
  have c: "distinct (cyc_nodes c)" "set (pk_selected st) \<inter> set (cyc_nodes c) = {}" "map_of (pk_dcs st) name = Some c"
    "1 \<le> pk_count st" "set (cyc_nodes c) \<inter> set (concat (map (\<lambda>dc. cyc_nodes (snd dc)) ds)) = {}"
    using Cons.prems by (auto simp: dc)
  obtain st1 c1 where s: "pick_dc local_node (name, c) st = Some st1" "pk_count st \<le> Suc (pk_count st1)"
    "pk_dcs st1 = bt_insert name c1 (pk_dcs st)" "cyc_nodes c1 = cyc_nodes c"
    "distinct (pk_selected st1)" "local_node \<notin> set (pk_selected st1)"
    "set (pk_selected st1) \<subseteq> set (pk_selected st) \<union> set (cyc_nodes c)"
    using pick_dc_props [OF c(1,2) Cons.prems(4) c(3,4) Cons.prems(7,8)] by blast
  have "\<forall>dc \<in> set ds. map_of (pk_dcs st1) (fst dc) = Some (snd dc)"
    using Cons.prems(2,5) by (auto simp: s(3) dc)
  moreover have "set (pk_selected st1) \<inter> set (concat (map (\<lambda>dc. cyc_nodes (snd dc)) ds)) = {}"
    using s(7) c(5) Cons.prems(3) by auto
  ultimately obtain st' where st': "exec_fold (pick_dc local_node) ds st1 = Some st'" "dc_view (pk_dcs st') = dc_view (pk_dcs st1)"
    "distinct (pk_selected st')" "local_node \<notin> set (pk_selected st')"
    "set (pk_selected st') \<subseteq> set (pk_selected st1) \<union> set (concat (map (\<lambda>dc. cyc_nodes (snd dc)) ds))"
    using Cons.IH [of st1] Cons.prems s by (auto simp: bt_wf_insert)
  have "dc_view (pk_dcs st1) = dc_view (pk_dcs st)"
    unfolding s(3) by (rule dc_view_insert [OF Cons.prems(4) c(3) s(4)])
  then show ?case using st' s(1,7) by (auto simp: dc)
qed simp

lemma all_nodes_filter:
  assumes "distinct (all_nodes dcs)"
  shows "distinct (all_nodes (filter P dcs))" "set (all_nodes (filter P dcs)) \<subseteq> set (all_nodes dcs)"
  using assms by (induction dcs) (auto simp: all_nodes_def)

lemma all_nodes_picked:
  assumes "distinct (all_nodes dcs)" "distinct ns" "\<forall>n \<in> set ns. map_of dcs n \<noteq> None"
  shows "distinct (all_nodes (map (\<lambda>n. (n, the (map_of dcs n))) ns))"
    "set (all_nodes (map (\<lambda>n. (n, the (map_of dcs n))) ns)) \<subseteq> set (all_nodes dcs)"
proof -
  have one: "distinct (cyc_nodes c)" "set (cyc_nodes c) \<subseteq> set (all_nodes dcs)" if "map_of dcs n = Some c" for n c
    using assms(1) map_of_SomeD [OF that] by (auto simp: all_nodes_def distinct_concat_iff)
  have dj: "set (cyc_nodes c) \<inter> set (cyc_nodes c') = {}"
    if "map_of dcs n = Some c" "map_of dcs n' = Some c'" "n \<noteq> n'" for n c n' c'
    using assms(1) that
  proof (induction dcs)
    case (Cons dc dcs)
    have "set (cyc_nodes (snd dc)) \<inter> set (cyc_nodes x) = {}" if "map_of dcs m = Some x" for m x
      using Cons.prems(1) map_of_SomeD [OF that] by (force simp: all_nodes_def)
    then show ?case using Cons by (fastforce simp: all_nodes_def split: if_splits)
  qed simp
  show "set (all_nodes (map (\<lambda>n. (n, the (map_of dcs n))) ns)) \<subseteq> set (all_nodes dcs)"
    using assms(3) one(2) by (fastforce simp: all_nodes_def)
  show "distinct (all_nodes (map (\<lambda>n. (n, the (map_of dcs n))) ns))"
    using assms(2,3)
  proof (induction ns)
    case (Cons n ns)
    obtain c where c: "map_of dcs n = Some c" using Cons.prems by auto
    have "set (cyc_nodes c) \<inter> set (all_nodes (map (\<lambda>n. (n, the (map_of dcs n))) ns)) = {}"
      using Cons.prems c dj by (fastforce simp: all_nodes_def)
    then show ?case using Cons one(1) [OF c] c by (simp add: all_nodes_def)
  qed (simp add: all_nodes_def)
qed

lemma select_n_nodes_sound:
  assumes wf: "dcs_wf dcs" and rnd: "rnd_ok rnd" and n: "1 \<le> n"
    and tot: "1 \<le> tot" "tot \<le> length (all_nodes dcs)" "\<And>c. map_of dcs local_dc = Some c \<Longrightarrow> cycler_len c \<le> tot"
  shows "\<exists>r dcs'. select_n_nodes rnd local_node local_dc n tot dcs = Some (r, dcs') \<and> dc_view dcs' = dc_view dcs \<and>
    (case r of
       Inr ns \<Rightarrow> n \<le> length ns \<and> distinct ns \<and> local_node \<notin> set ns \<and> set ns \<subseteq> set (all_nodes dcs)
     | Inl e \<Rightarrow> \<exists>live < n. e = NotEnoughNodes live n)"
proof -
  let ?loc = "case map_of dcs local_dc of Some c \<Rightarrow> cycler_len c | None \<Rightarrow> 0"
  let ?skip = "tot - ?loc \<ge> n"
  have bt: "bt_wf dcs" "distinct (map fst dcs)" and dist: "distinct (all_nodes dcs)"
    using wf by (auto simp: dcs_wf_def bt_wf_distinct)
  have u1: "usize_sub tot ?loc = Some (tot - ?loc)"
    using tot(3) by (auto simp: usize_sub_def split: option.splits)
  have "?skip \<Longrightarrow> dcs \<noteq> []" using n tot(2) by (auto simp: all_nodes_def)
  then have "?skip \<Longrightarrow> 1 \<le> length dcs" by (cases dcs) simp_all
  then have "(if ?skip then usize_sub (length dcs) 1 else Some (length dcs)) =
      Some (if ?skip then length dcs - 1 else length dcs)" by (simp add: usize_sub_def)
  then obtain nd where nd: "(if ?skip then usize_sub (length dcs) 1 else Some (length dcs)) = Some nd" by blast
  define el where "el = filter (\<lambda>dc. \<not> (?skip \<and> fst dc = local_dc)) dcs"
  define ds where "ds = (if nd \<le> n then el else map (\<lambda>name. (name, the (map_of el name))) (rnd n (map fst el)))"
  have el: "distinct (map fst el)" "distinct (all_nodes el)" "set (all_nodes el) \<subseteq> set (all_nodes dcs)" "set el \<subseteq> set dcs"
    using bt(2) all_nodes_filter [OF dist] by (auto simp: el_def distinct_map_filter)
  have r: "distinct (rnd n (map fst el))" "set (rnd n (map fst el)) \<subseteq> set (map fst el)"
    using rnd el(1) unfolding rnd_ok_def by blast+
  have some: "map_of el m \<noteq> None" if "m \<in> set (rnd n (map fst el))" for m
    using r(2) that by (auto simp: map_of_eq_None_iff)
  have ds: "distinct (all_nodes ds)" "set (all_nodes ds) \<subseteq> set (all_nodes dcs)" "distinct (map fst ds)"
    using el(1-3) all_nodes_picked [OF el(2) r(1)] some r(1) by (auto simp: ds_def comp_def)
  have "dc \<in> set dcs" if "dc \<in> set ds" for dc
    using that el(4) some map_of_SomeD [of el] by (fastforce simp: ds_def split: if_splits)
  then have look: "\<forall>dc \<in> set ds. map_of dcs (fst dc) = Some (snd dc)" using bt(2) by simp
  let ?st = "\<lparr>pk_dcs = dcs, pk_extra = if nd \<le> n then n - nd else 0, pk_count = length ds, pk_selected = []\<rparr>"
  obtain st' where st': "exec_fold (pick_dc local_node) ds ?st = Some st'" "dc_view (pk_dcs st') = dc_view dcs"
    "distinct (pk_selected st')" "local_node \<notin> set (pk_selected st')" "set (pk_selected st') \<subseteq> set (all_nodes ds)"
    using pick_fold [of ds ?st local_node] ds look bt(1) by (auto simp: all_nodes_def)
  have u2: "usize_sub tot 1 = Some (tot - 1)" using tot(1) by (simp add: usize_sub_def)
  have "select_n_nodes rnd local_node local_dc n tot dcs =
      Some (if length (pk_selected st') \<ge> n then Inr (pk_selected st') else Inl (NotEnoughNodes (length (pk_selected st')) n), pk_dcs st')"
    unfolding select_n_nodes_def u1 u2 Option.bind.bind_lunit Let_def nd el_def [symmetric] ds_def [symmetric] st'(1) by simp
  then show ?thesis using st'(2-5) ds(2) by auto
qed

lemma mset_rounds: "mset (concat iters) = mset (concat (map (take 1) iters)) + mset (concat (map (drop 1) iters))"
proof (induction iters)
  case (Cons x iters)
  have "mset x = mset (take 1 x) + mset (drop 1 x)" by (metis append_take_drop_id mset_append)
  then show ?case using Cons by simp
qed simp

lemma quorum_loop_spec:
  "if majority \<le> length sel + length (concat iters)
   then \<exists>ns. quorum_loop majority sel iters = Inr ns \<and> majority \<le> length ns \<and> mset ns \<subseteq># mset sel + mset (concat iters)
   else quorum_loop majority sel iters = Inl (NotEnoughNodes (length sel + length (concat iters)) majority)"
proof (induction majority sel iters rule: quorum_loop.induct)
  case (1 majority sel iters)
  let ?h = "concat (map (take 1) iters)" and ?t = "map (drop 1) iters"
  have m: "mset (concat iters) = mset ?h + mset (concat ?t)" by (rule mset_rounds)
  then have len: "length (concat iters) = length ?h + length (concat ?t)"
    by (metis size_mset size_union)
  show ?case
  proof (cases "majority \<le> length sel")
    case True
    then have "quorum_loop majority sel iters = Inr sel" by (subst quorum_loop.simps) simp
    then show ?thesis using True by simp
  next
    case False
    show ?thesis
    proof (cases "?h = []")
      case True
      then have "iters = [] \<or> concat iters = []" by (auto simp: concat_eq_Nil_conv)
      then have c: "length (concat iters) = 0" by auto
      moreover have "quorum_loop majority sel iters = Inl (NotEnoughNodes (length sel) majority)"
        using False True by (subst quorum_loop.simps) (simp add: Let_def)
      ultimately show ?thesis using False unfolding c by simp
    next
      case h: False
      have "quorum_loop majority sel iters = quorum_loop majority (sel @ ?h) ?t"
        using False h by (subst quorum_loop.simps) (auto simp: Let_def)
      then show ?thesis
        using 1 [OF False refl h] unfolding len m length_append mset_append union_assoc add.assoc
        by (simp only:)
    qed
  qed
qed

text \<open>What each level asks of the nodes beside the local one, which has the write already.\<close>

definition meets :: "addr \<Rightarrow> string \<Rightarrow> (string \<times> addr list) list \<Rightarrow> consistency \<Rightarrow> addr list \<Rightarrow> bool" where
  "meets local_node local_dc members c ns =
     (case c of
        CNone \<Rightarrow> ns = []
      | COne \<Rightarrow> 1 \<le> length ns
      | CTwo \<Rightarrow> 2 \<le> length ns
      | CThree \<Rightarrow> 3 \<le> length ns
      | CQuorum \<Rightarrow> length (concat (map snd members)) < 2 * (length ns + 1)
      | CLocalQuorum \<Rightarrow> (\<forall>dc \<in> set members. fst dc = local_dc \<longrightarrow>
          set ns \<subseteq> set (snd dc) \<and> length (snd dc) < 2 * (length ns + 1))
      | CAll \<Rightarrow> set ns = set (concat (map snd members)) - {local_node}
      | CEachQuorum \<Rightarrow> (\<forall>dc \<in> set members. snd dc \<noteq> [] \<longrightarrow>
          length (snd dc) < 2 * card (set (snd dc) \<inter> insert local_node (set ns))))"

text \<open>A reply: distinct remote members that meet the level, or too few nodes for it.\<close>

definition answer_ok :: "addr \<Rightarrow> string \<Rightarrow> (string \<times> addr list) list \<Rightarrow> consistency \<Rightarrow> consistency_error + addr list \<Rightarrow> bool" where
  "answer_ok local_node local_dc members c r =
     (case r of
        Inr ns \<Rightarrow> meets local_node local_dc members c ns \<and> distinct ns \<and> local_node \<notin> set ns \<and> set ns \<subseteq> set (concat (map snd members))
      | Inl e \<Rightarrow> \<exists>live required. live < required \<and> e = NotEnoughNodes live required)"

lemma distinct_subset_mset:
  assumes "mset xs \<subseteq># mset ys" "distinct ys"
  shows "distinct xs"
proof -
  obtain zs where "mset ys = mset xs + mset zs" using assms(1) by (metis ex_mset subset_mset.le_iff_add)
  then have "mset ys = mset (xs @ zs)" by simp
  then have "distinct (xs @ zs)" using assms(2) mset_eq_imp_distinct_iff by blast
  then show ?thesis by simp
qed

lemma distinct_concat_sub:
  assumes "\<And>x. mset (g x) \<subseteq># mset (f x)" "distinct (concat (map f xs))"
  shows "distinct (concat (map g xs))"
proof -
  have "mset (concat (map g xs)) \<subseteq># mset (concat (map f xs))"
    by (induction xs) (auto intro: subset_mset.add_mono assms(1))
  then show ?thesis using assms(2) by (rule distinct_subset_mset)
qed

lemma remote_nodes_sub: "mset (take m (remote_nodes l c)) \<subseteq># mset (cyc_nodes c)"
proof -
  have "mset (take m (remote_nodes l c)) \<subseteq># mset (remote_nodes l c)" by (metis append_take_drop_id mset_append mset_subset_eq_add_left)
  also have "\<dots> \<subseteq># mset (cyc_nodes c)" by (simp add: remote_nodes_def)
  finally show ?thesis .
qed

lemma remote_nodes_len:
  assumes "distinct (cyc_nodes c)"
  shows "length (remote_nodes l c) = (if l \<in> set (cyc_nodes c) then cycler_len c - 1 else cycler_len c)"
proof -
  have "filter (\<lambda>a. a \<noteq> l) (cyc_nodes c) = removeAll l (cyc_nodes c)"
    by (simp add: removeAll_filter_not_eq eq_commute)
  then have "remote_nodes l c = remove1 l (cyc_nodes c)"
    using assms by (simp add: remote_nodes_def distinct_remove1_removeAll)
  then show ?thesis by (simp add: length_remove1 cycler_len_def)
qed

lemma local_only_in_local_dc:
  assumes "dcs_wf dcs" "map_of dcs local_dc = Some lc" "l \<in> set (cyc_nodes lc)" "(name, c) \<in> set dcs" "name \<noteq> local_dc"
  shows "l \<notin> set (cyc_nodes c)"
proof -
  have m: "map_of dcs name = Some c" using assms(1,4) by (simp add: dcs_wf_def bt_wf_distinct)
  have "distinct (all_nodes (map (\<lambda>n. (n, the (map_of dcs n))) [local_dc, name]))"
    using assms m by (intro all_nodes_picked) (auto simp: dcs_wf_def)
  then show ?thesis using assms(2,3) m by (auto simp: all_nodes_def)
qed

lemma dcs_wf_dc: "dcs_wf dcs \<Longrightarrow> dc \<in> set dcs \<Longrightarrow> distinct (cyc_nodes (snd dc))"
  by (auto simp: dcs_wf_def all_nodes_def distinct_concat_iff)

lemma card_take_remote:
  assumes "distinct (cyc_nodes c)" "m \<le> length (remote_nodes l c)" "set (take m (remote_nodes l c)) \<subseteq> set ns"
  shows "m + (if l \<in> set (cyc_nodes c) then 1 else 0) \<le> card (set (cyc_nodes c) \<inter> insert l (set ns))"
proof -
  let ?t = "take m (remote_nodes l c)"
  have t: "distinct ?t" "set ?t \<subseteq> set (cyc_nodes c)" "l \<notin> set ?t"
    using assms(1) set_take_subset [of m "remote_nodes l c"] by (auto simp: remote_nodes_def)
  have "card (set ?t \<union> ({l} \<inter> set (cyc_nodes c))) = m + (if l \<in> set (cyc_nodes c) then 1 else 0)"
    using t assms(2) by (auto simp: distinct_card)
  moreover have "set ?t \<union> ({l} \<inter> set (cyc_nodes c)) \<subseteq> set (cyc_nodes c) \<inter> insert l (set ns)"
    using t(2) assms(3) by auto
  ultimately show ?thesis by (metis card_mono finite_Int finite_set)
qed

lemma each_quorum_meets:
  assumes wf: "dcs_wf dcs" and loc: "map_of dcs local_dc = Some lc" "l \<in> set (cyc_nodes lc)"
    and dc: "dc \<in> set dcs" "cyc_nodes (snd dc) \<noteq> []"
    and ns: "set (take (each_majority local_dc dc) (remote_nodes l (snd dc))) \<subseteq> set ns"
  shows "cycler_len (snd dc) < 2 * card (set (cyc_nodes (snd dc)) \<inter> (insert l (set ns)))"
proof -
  let ?c = "snd dc" and ?m = "each_majority local_dc dc"
  have d: "distinct (cyc_nodes ?c)" by (rule dcs_wf_dc [OF wf dc(1)])
  have len: "0 < cycler_len ?c" using dc(2) by (simp add: cycler_len_def)
  have rl: "length (remote_nodes l ?c) = (if l \<in> set (cyc_nodes ?c) then cycler_len ?c - 1 else cycler_len ?c)"
    by (rule remote_nodes_len [OF d])
  show ?thesis
  proof (cases "fst dc = local_dc")
    case True
    then have "?c = lc" using loc(1) wf dc(1) by (auto simp: dcs_wf_def dest!: bt_wf_distinct) (metis map_of_is_SomeI option.inject surjective_pairing)
    then have "?m = cycler_len ?c div 2" "l \<in> set (cyc_nodes ?c)" using True loc(2) by (auto simp: each_majority_def)
    moreover from this have "?m \<le> length (remote_nodes l ?c)" using rl len by simp
    ultimately show ?thesis using card_take_remote [OF d _ ns] by fastforce
  next
    case False
    then have no: "l \<notin> set (cyc_nodes ?c)" using local_only_in_local_dc [OF wf loc, of "fst dc" ?c] dc(1) by simp
    have "?m = cycler_len ?c div 2 + 1" using False by (simp add: each_majority_def)
    moreover from this have "?m \<le> length (remote_nodes l ?c)" using rl len no by simp
    ultimately show ?thesis using card_take_remote [OF d _ ns] by fastforce
  qed
qed

lemma dcs_wf_local: "dcs_wf dcs \<Longrightarrow> map_of dcs n = Some c \<Longrightarrow> (n, c') \<in> set dcs \<Longrightarrow> c' = c"
  by (auto simp: dcs_wf_def dest!: bt_wf_distinct)

lemma dc_view_simps:
  "dc_view dcs = map (\<lambda>dc. (fst dc, cyc_nodes (snd dc))) dcs"
  "concat (map snd (dc_view dcs)) = all_nodes dcs"
  by (simp_all add: dc_view_def all_nodes_def comp_def)

lemma local_quorum_sound:
  assumes wf: "dcs_wf dcs" and loc: "map_of dcs local_dc = Some lc" "local_node \<in> set (cyc_nodes lc)"
  shows "\<exists>r dcs'. select_nodes rnd local_node local_dc (length (all_nodes dcs)) dcs CLocalQuorum = Some (r, dcs') \<and>
    dc_view dcs' = dc_view dcs \<and> answer_ok local_node local_dc (dc_view dcs) CLocalQuorum r"
proof -
  have lcd: "distinct (cyc_nodes lc)" "set (cyc_nodes lc) \<subseteq> set (all_nodes dcs)"
    using dcs_wf_dc [OF wf] map_of_SomeD [OF loc(1)] by (force simp: all_nodes_def)+
  let ?ns = "take (cycler_len lc div 2) (remote_nodes local_node lc)"
  have sub: "mset ?ns \<subseteq># mset (cyc_nodes lc)" by (rule remote_nodes_sub)
  have "length ?ns = cycler_len lc div 2"
    using remote_nodes_len [OF lcd(1), of local_node] loc(2) by simp
  then have "meets local_node local_dc (dc_view dcs) CLocalQuorum ?ns"
    using dcs_wf_local [OF wf loc(1)] set_mset_mono [OF sub]
    by (auto simp: meets_def answer_ok_def dc_view_simps(2) dc_view_simps cycler_len_def)
  moreover have "distinct ?ns" "set ?ns \<subseteq> set (all_nodes dcs)"
    using distinct_subset_mset [OF sub lcd(1)] set_mset_mono [OF sub] lcd(2) by auto
  moreover have "local_node \<notin> set ?ns" using set_take_subset by (fastforce simp: remote_nodes_def)
  ultimately show ?thesis by (simp add: select_nodes_def answer_ok_def dc_view_simps(2) loc(1))
qed

lemma quorum_sound:
  assumes wf: "dcs_wf dcs"
  shows "\<exists>r dcs'. select_nodes rnd local_node local_dc (length (all_nodes dcs)) dcs CQuorum = Some (r, dcs') \<and>
    dc_view dcs' = dc_view dcs \<and> answer_ok local_node local_dc (dc_view dcs) CQuorum r"
proof -
  have dist: "distinct (all_nodes dcs)" using wf by (simp add: dcs_wf_def)
  let ?it = "map (\<lambda>dc. remote_nodes local_node (snd dc)) dcs"
  have sub: "mset (concat ?it) \<subseteq># mset (all_nodes dcs)"
    unfolding all_nodes_def by (induction dcs) (auto intro: subset_mset.add_mono simp: remote_nodes_def)
  have no: "local_node \<notin> set (concat ?it)" by (auto simp: remote_nodes_def)
  show ?thesis
  proof (cases "(length (all_nodes dcs)) div 2 \<le> length (concat ?it)")
    case True
    then obtain ns where ns: "quorum_loop ((length (all_nodes dcs)) div 2) [] ?it = Inr ns" "(length (all_nodes dcs)) div 2 \<le> length ns" "mset ns \<subseteq># mset (concat ?it)"
      using quorum_loop_spec [of "(length (all_nodes dcs)) div 2" "[]" ?it] by auto
    have "mset ns \<subseteq># mset (all_nodes dcs)" using ns(3) sub by (rule subset_mset.order_trans)
    then have "distinct ns" "set ns \<subseteq> set (all_nodes dcs)" using distinct_subset_mset [OF _ dist] set_mset_mono by fastforce+
    moreover have "local_node \<notin> set ns" using no set_mset_mono [OF ns(3)] by auto
    ultimately show ?thesis using ns by (simp add: select_nodes_def meets_def answer_ok_def dc_view_simps(2))
  next
    case False
    then show ?thesis using quorum_loop_spec [of "(length (all_nodes dcs)) div 2" "[]" ?it] by (simp add: select_nodes_def answer_ok_def)
  qed
qed

lemma each_quorum_sound:
  assumes wf: "dcs_wf dcs" and loc: "map_of dcs local_dc = Some lc" "local_node \<in> set (cyc_nodes lc)"
  shows "\<exists>r dcs'. select_nodes rnd local_node local_dc (length (all_nodes dcs)) dcs CEachQuorum = Some (r, dcs') \<and>
    dc_view dcs' = dc_view dcs \<and> answer_ok local_node local_dc (dc_view dcs) CEachQuorum r"
proof -
  have dist: "distinct (all_nodes dcs)" using wf by (simp add: dcs_wf_def)
  let ?f = "\<lambda>dc. take (each_majority local_dc dc) (remote_nodes local_node (snd dc))"
  let ?ns = "concat (map ?f dcs)"
  have in_remote: "\<exists>dc \<in> set dcs. a \<in> set (remote_nodes local_node (snd dc))" if "a \<in> set ?ns" for a
    using that by (auto dest: in_set_takeD)
  have "set ?ns \<subseteq> set (all_nodes dcs)"
  proof
    fix a assume "a \<in> set ?ns"
    from in_remote [OF this] show "a \<in> set (all_nodes dcs)" by (auto simp: remote_nodes_def all_nodes_def)
  qed
  moreover have "local_node \<notin> set ?ns"
  proof
    assume "local_node \<in> set ?ns"
    from in_remote [OF this] show False by (simp add: remote_nodes_def)
  qed
  moreover have "distinct ?ns"
    using distinct_concat_sub [where g = ?f and f = "\<lambda>dc. cyc_nodes (snd dc)" and xs = dcs] remote_nodes_sub dist
    by (simp add: all_nodes_def)
  moreover have "cycler_len (snd dc) < 2 * card (set (cyc_nodes (snd dc)) \<inter> insert local_node (set ?ns))"
    if "dc \<in> set dcs" "cyc_nodes (snd dc) \<noteq> []" for dc
    using each_quorum_meets [OF wf loc that, of ?ns] that(1) by auto
  ultimately show ?thesis 
    by (simp add: select_nodes_def meets_def answer_ok_def dc_view_simps(2) cycler_len_def del: set_concat)
      (simp add: dc_view_def del: set_concat)
qed

lemma select_nodes_sound:
  assumes wf: "dcs_wf dcs" and rnd: "rnd_ok rnd"
    and loc: "map_of dcs local_dc = Some lc" "local_node \<in> set (cyc_nodes lc)"
  shows "\<exists>r dcs'. select_nodes rnd local_node local_dc (length (all_nodes dcs)) dcs c = Some (r, dcs') \<and>
    dc_view dcs' = dc_view dcs \<and> answer_ok local_node local_dc (dc_view dcs) c r"
proof -
  let ?tot = "length (all_nodes dcs)"
  have lin: "(local_dc, lc) \<in> set dcs" by (rule map_of_SomeD [OF loc(1)])
  have lcl: "cycler_len lc \<le> ?tot"
    using split_list [OF lin] by (auto simp: all_nodes_def cycler_len_def)
  have t1: "1 \<le> ?tot" using lcl loc(2) by (cases "cyc_nodes lc") (auto simp: cycler_len_def)
  have n: "\<exists>r dcs'. select_n_nodes rnd local_node local_dc n ?tot dcs = Some (r, dcs') \<and> dc_view dcs' = dc_view dcs \<and>
    (case r of
       Inr ns \<Rightarrow> n \<le> length ns \<and> distinct ns \<and> local_node \<notin> set ns \<and> set ns \<subseteq> set (all_nodes dcs)
     | Inl e \<Rightarrow> \<exists>live < n. e = NotEnoughNodes live n)" if "1 \<le> n" for n
    using select_n_nodes_sound [OF wf rnd that t1 order_refl, of local_dc local_node] lcl loc(1) by simp
  have dist: "distinct (all_nodes dcs)" using wf by (simp add: dcs_wf_def)
  show ?thesis
  proof (cases c)
    case COne
    then show ?thesis using n [of 1] by (fastforce simp: select_nodes_def meets_def answer_ok_def dc_view_simps(2) split: sum.splits)
  next
    case CTwo
    then show ?thesis using n [of 2] by (fastforce simp: select_nodes_def meets_def answer_ok_def dc_view_simps(2) split: sum.splits)
  next
    case CThree
    then show ?thesis using n [of 3] by (fastforce simp: select_nodes_def meets_def answer_ok_def dc_view_simps(2) split: sum.splits)
  next
    case CNone
    then show ?thesis by (simp add: select_nodes_def meets_def answer_ok_def dc_view_simps(2))
  next
    case CAll
    then show ?thesis using dist by (auto simp: select_nodes_def meets_def answer_ok_def dc_view_simps(2) all_nodes_def)
  qed (simp_all add: quorum_sound [OF wf] local_quorum_sound [OF wf loc] each_quorum_sound [OF wf loc])
qed

section \<open>The answers of the actor\<close>

text \<open>A membership that lists the local node and every address once.\<close>

definition members_ok :: "addr \<Rightarrow> string \<Rightarrow> (string, addr list) btree_map \<Rightarrow> bool" where
  "members_ok local_node local_dc new \<longleftrightarrow> bt_wf new \<and> distinct (concat (map snd new)) \<and>
     (case map_of new local_dc of Some ns \<Rightarrow> local_node \<in> set ns | None \<Rightarrow> False)"

text \<open>
  Messages whose memberships are so and drop no data center. Nothing in the code keeps a data center from being
  dropped when its last node leaves; the selector then keeps its nodes (\<open>vanished_dc_still_selected\<close>).
\<close>

fun messages_ok :: "addr \<Rightarrow> string \<Rightarrow> (string, addr list) btree_map \<Rightarrow> (duration \<times> duration \<times> selector_op) list \<Rightarrow> bool" where
  "messages_ok local_node local_dc members [] = True"
| "messages_ok local_node local_dc members ((_, _, GetNodes c) # ms) = messages_ok local_node local_dc members ms"
| "messages_ok local_node local_dc members ((_, _, SetNodes new) # ms) =
     (members_ok local_node local_dc new \<and> fst ` set members \<subseteq> fst ` set new \<and> messages_ok local_node local_dc new ms)"

text \<open>The replies, each against the membership at its time.\<close>

fun replies_ok ::
  "addr \<Rightarrow> string \<Rightarrow> (string, addr list) btree_map \<Rightarrow> (duration \<times> duration \<times> selector_op) list \<Rightarrow> (consistency_error + addr list) list \<Rightarrow> bool" where
  "replies_ok local_node local_dc members [] rs = (rs = [])"
| "replies_ok local_node local_dc members ((_, _, GetNodes c) # ms) rs =
     (case rs of [] \<Rightarrow> False | r # rs \<Rightarrow> answer_ok local_node local_dc members c r \<and> replies_ok local_node local_dc members ms rs)"
| "replies_ok local_node local_dc members ((_, _, SetNodes new) # ms) rs = replies_ok local_node local_dc new ms rs"

text \<open>Data centers and total are those of the membership and what is cached answers for it.\<close>

definition selector_inv :: "addr \<Rightarrow> string \<Rightarrow> (string, addr list) btree_map \<Rightarrow> selector_state \<Rightarrow> bool" where
  "selector_inv local_node local_dc members st \<longleftrightarrow>
     dc_view (sel_dcs st) = members \<and> sel_total st = length (concat (map snd members)) \<and>
     (\<forall>c t ns. map_of (sel_cache st) c = Some (t, ns) \<longrightarrow> answer_ok local_node local_dc members c (Inr ns))"

lemma set_nodes_inv:
  assumes "members_ok local_node local_dc new" "fst ` set (sel_dcs st) \<subseteq> fst ` set new" "bt_wf (sel_dcs st)"
  shows "selector_inv local_node local_dc new (selector_set_nodes new st)"
proof -
  let ?new = "map (\<lambda>(n, ns). (n, cycler_from ns)) new"
  let ?dcs = "fold (\<lambda>(name, ns). bt_insert name (cycler_from ns)) new (sel_dcs st)"
  have fold: "?dcs = fold (\<lambda>(k, v). bt_insert k v) ?new (sel_dcs st)"
    by (simp add: fold_map case_prod_beta' comp_def)
  have new: "bt_wf new" "distinct (map fst ?new)" using assms(1) by (auto simp: members_ok_def bt_wf_distinct comp_def case_prod_beta')
  have wf: "bt_wf ?new" using new(1) by (simp add: bt_wf_def comp_def case_prod_beta')
  have sub: "dom (map_of (sel_dcs st)) \<subseteq> dom (map_of ?new)"
    using assms(2) by (simp add: dom_map_of_conv_image_fst image_image case_prod_beta')
  have "map_of ?dcs = map_of (sel_dcs st) ++ map_of (rev ?new)" unfolding fold by (rule bt.look_extend)
  also have "map_of (rev ?new) = map_of ?new" by (rule map_of_rev_keys [OF new(2)])
  also have "map_of (sel_dcs st) ++ map_of ?new = map_of ?new" by (rule map_add_covered [OF sub])
  finally have "?dcs = ?new" using wf bt.invar_extend [OF assms(3), of ?new] unfolding fold [symmetric] by (intro bt_wf_ext) auto
  then show ?thesis
    by (simp add: selector_inv_def selector_set_nodes_def dc_view_def comp_def case_prod_beta' cycler_from_def length_concat)
qed

lemma map_of_dc_view: "map_of (dc_view dcs) n = map_option cyc_nodes (map_of dcs n)"
  by (induction dcs) (auto simp: dc_view_def)

lemma get_nodes_inv:
  assumes inv: "selector_inv local_node local_dc members st" and rnd: "rnd_ok rnd" and ok: "members_ok local_node local_dc members"
  shows "\<exists>r st'. selector_get_nodes rnd local_node local_dc now done_at c st = Some (r, st') \<and>
    answer_ok local_node local_dc members c r \<and> selector_inv local_node local_dc members st'"
proof -
  obtain ns where mem: "bt_wf members" "distinct (concat (map snd members))" "map_of members local_dc = Some ns" "local_node \<in> set ns"
    using ok by (auto simp: members_ok_def split: option.splits)
  have v: "dc_view (sel_dcs st) = members" "sel_total st = length (all_nodes (sel_dcs st))"
    using inv by (auto simp: selector_inv_def dc_view_nodes)
  have wf: "dcs_wf (sel_dcs st)" using mem(1,2) v(1) dc_view_keys [of "sel_dcs st"] by (simp add: dcs_wf_def bt_wf_def dc_view_nodes)
  have "map_of members local_dc = map_option cyc_nodes (map_of (sel_dcs st) local_dc)"
    unfolding v(1) [symmetric] by (rule map_of_dc_view)
  then obtain lc where lc: "map_of (sel_dcs st) local_dc = Some lc" "cyc_nodes lc = ns"
    using mem(3) by (cases "map_of (sel_dcs st) local_dc") auto
  obtain r dcs' where r: "select_nodes rnd local_node local_dc (sel_total st) (sel_dcs st) c = Some (r, dcs')"
    "dc_view dcs' = members" "answer_ok local_node local_dc members c r"
    using select_nodes_sound [OF wf rnd lc(1), of local_node c] mem(4) lc(2) v by auto
  then show ?thesis
    using inv by (auto simp: selector_get_nodes_def selector_inv_def Let_def split: option.splits sum.splits)
qed

lemma run_selector_inv:
  assumes "rnd_ok rnd"
  shows "members_ok local_node local_dc members \<Longrightarrow> selector_inv local_node local_dc members st \<Longrightarrow>
    messages_ok local_node local_dc members ms \<Longrightarrow>
    \<exists>rs st'. run_selector rnd local_node local_dc ms st = Some (rs, st') \<and> replies_ok local_node local_dc members ms rs"
proof (induction local_node local_dc members ms arbitrary: st rule: messages_ok.induct)
  case (2 local_node local_dc members now done_at c ms)
  obtain r st1 where "selector_get_nodes rnd local_node local_dc now done_at c st = Some (r, st1)"
    "answer_ok local_node local_dc members c r" "selector_inv local_node local_dc members st1"
    using get_nodes_inv [OF "2.prems"(2) assms "2.prems"(1)] by blast
  then show ?case using "2.IH" [of st1] "2.prems"(1,3) by (auto simp: selector_step_def)
next
  case (3 local_node local_dc members now done_at new ms)
  have v: "dc_view (sel_dcs st) = members" using "3.prems"(2) by (simp add: selector_inv_def)
  have "bt_wf (sel_dcs st)" using "3.prems"(1) dc_view_keys [of "sel_dcs st"] by (simp add: members_ok_def bt_wf_def v)
  moreover have "fst ` set (sel_dcs st) \<subseteq> fst ` set new"
    using "3.prems"(3) dc_view_keys [of "sel_dcs st"] by (simp add: v flip: set_map)
  ultimately have "selector_inv local_node local_dc new (selector_set_nodes new st)"
    using "3.prems"(3) by (intro set_nodes_inv) auto
  then show ?case using "3.IH" [of "selector_set_nodes new st"] "3.prems"(3) by (auto simp: selector_step_def)
qed simp

text \<open>C16. From its start, the first message a membership, as long as no later membership drops a data center, each has the local
  node in its data center and names no node twice (\<open>messages_ok\<close>): whatever the node selector is asked, and
  whether it answers from its cache or not, it never panics and each reply names distinct members
  other than the local node that meet the consistency level, or says that there are too few nodes;
  after a change of membership every reply is for the new one. When a data center is dropped the selector
  still names its nodes (\<open>vanished_dc_still_selected\<close>).\<close>

theorem selector_answers_meet_level:
  assumes "messages_ok local_node local_dc [] ((now, done_at, SetNodes new) # ms)" "rnd_ok rnd"
  shows "\<exists>rs st'. run_selector rnd local_node local_dc ((now, done_at, SetNodes new) # ms) selector_init = Some (rs, st') \<and>
    replies_ok local_node local_dc new ms rs"
proof -
  have "selector_inv local_node local_dc new (selector_set_nodes new selector_init)"
    using assms(1) by (intro set_nodes_inv) (auto simp: selector_init_def)
  then show ?thesis
    using run_selector_inv [OF assms(2), of local_node local_dc new _ ms] assms(1) by (auto simp: selector_step_def)
qed

definition example_messages :: "(duration \<times> duration \<times> selector_op) list" where
  "example_messages =
     [(0, 0, SetNodes [(''east'', [''L'', ''a'', ''b'']), (''west'', [''x'', ''y''])]), (1, 2, GetNodes CQuorum), (3, 4, GetNodes CTwo),
      (5, 6, SetNodes [(''east'', [''L'', ''a'']), (''west'', [''x''])]), (7, 8, GetNodes CTwo)]"

lemma rnd_ok_take: "rnd_ok take"
  by (auto simp: rnd_ok_def dest: in_set_takeD)

theorem selector_answers_meet_level_witness:
  "messages_ok ''L'' ''east'' [] example_messages \<and> rnd_ok take \<and>
   (\<exists>rs st'. run_selector take ''L'' ''east'' example_messages selector_init = Some (rs, st') \<and>
      replies_ok ''L'' ''east'' [(''east'', [''L'', ''a'', ''b'']), (''west'', [''x'', ''y''])] (tl example_messages) rs)"
proof -
  have ok: "messages_ok ''L'' ''east'' [] example_messages"
    by (simp add: members_ok_def example_messages_def less_char_def)
  from selector_answers_meet_level [OF this [unfolded example_messages_def] rnd_ok_take] ok rnd_ok_take
  show ?thesis unfolding example_messages_def list.sel by blast
qed

text \<open>In a data center with two other replicas, a request for one replica and then for two: the
  second is refused, because the cycler comes back to the local node.\<close>

theorem two_refused_with_two_replicas:
  "map_option fst (run_selector rnd ''L'' ''dc''
     [(0, 0, SetNodes [(''dc'', [''L'', ''a'', ''b''])]), (0, 0, GetNodes COne), (0, 0, GetNodes CTwo)] selector_init) =
   Some [Inr [''a''], Inl (NotEnoughNodes 1 2)]"
  by (simp add: selector_step_def selector_set_nodes_def selector_init_def selector_get_nodes_def select_nodes_def select_n_nodes_def
      usize_sub_def cycler_from_def cycler_len_def pick_dc_def first_pick_def cycler_next_def Let_def numeral_2_eq_2)

text \<open>After a change of membership that drops a whole data center, its nodes are still selected.\<close>

theorem vanished_dc_still_selected:
  "map_option fst (run_selector rnd ''L'' ''a''
     [(0, 0, SetNodes [(''a'', [''L'']), (''b'', [''x''])]), (0, 0, SetNodes [(''a'', [''L''])]), (0, 0, GetNodes CAll)] selector_init) =
   Some [Inr [''x'']]"
  by (simp add: selector_step_def selector_set_nodes_def selector_init_def selector_get_nodes_def select_nodes_def cycler_from_def
      Let_def less_char_def)

end
