(* ===== verification/Membership.thy ===== *)
theory Membership
  imports TimestampText Selector
begin

text \<open>
  Cluster membership. \<^verbatim>\<open>datacake-node/src/node.rs\<close> turns what the gossip library \<open>chitchat\<close> reports into
  a map of members; \<^verbatim>\<open>datacake-node/src/lib.rs\<close> (\<open>watch_membership_changes\<close>) compares successive maps,
  gives the data centers to the node selector, drops the connections (\<^verbatim>\<open>rpc/network.rs\<close>) of nodes that
  went and publishes the difference. The node's services follow these differences: the distributor
  and the replication cycle keep a map of live members. What \<open>chitchat\<close> reports is an argument.
\<close>

record cluster_member =
  member_id :: u8
  public_addr :: addr
  data_center :: string

type_synonym node_membership = "(u8, cluster_member) btree_map"

definition member_new :: "u8 \<Rightarrow> addr \<Rightarrow> string \<Rightarrow> cluster_member" where
  "member_new nid pub dc = \<lparr>member_id = nid, public_addr = pub, data_center = dc\<rparr>"

record membership_change =
  joined :: "cluster_member list"
  left_members :: "cluster_member list"

definition DEFAULT_DATA_CENTER :: string where
  "DEFAULT_DATA_CENTER = ''datacake-dc-unknown''"

definition DATA_CENTER_KEY :: string where
  "DATA_CENTER_KEY = ''data_center''"

section \<open>Members from gossip\<close>

text \<open>A node as the gossip names it, and the key-value state gossiped for each node name.\<close>

record gossip_node =
  gossip_id :: string
  gossip_public_address :: addr

type_synonym gossip_state = "(string, (string, string) btree_map) btree_map"

text \<open>The two errors, each with the node name; the text of the parse error is left out.\<close>

datatype member_error = StateNotFound string | InvalidNodeId string

definition build_cluster_member :: "gossip_node \<Rightarrow> gossip_state \<Rightarrow> member_error + cluster_member" where
  "build_cluster_member nd states =
     (case map_of states (gossip_id nd) of
        None \<Rightarrow> Inl (StateNotFound (gossip_id nd))
      | Some node_state \<Rightarrow>
          let dc = (case map_of node_state DATA_CENTER_KEY of Some dc \<Rightarrow> dc | None \<Rightarrow> DEFAULT_DATA_CENTER)
          in case from_str_radix 10 (2 ^ 8 - 1) (gossip_id nd) of
               None \<Rightarrow> Inl (InvalidNodeId (gossip_id nd))
             | Some nid \<Rightarrow> Inr (member_new (of_nat nid) (gossip_public_address nd) dc))"

text \<open>One report: the live nodes that can be built, and the node itself.\<close>

definition members_of_gossip :: "cluster_member \<Rightarrow> gossip_node list \<Rightarrow> gossip_state \<Rightarrow> node_membership" where
  "members_of_gossip me nodes states =
     (let built = List.map_filter (\<lambda>nd. case build_cluster_member nd states of
            Inr m \<Rightarrow> Some (member_id m, m) | Inl e \<Rightarrow> None) nodes;
          members = fold (\<lambda>(k, v). bt_insert k v) built []
      in bt_insert (member_id me) me members)"

definition initial_members :: "cluster_member \<Rightarrow> node_membership" where
  "initial_members me = [(member_id me, me)]"

section \<open>Connections\<close>

text \<open>The connections of a node; opening one is the function \<open>connect_to\<close> of the RPC crate.\<close>

definition network_connect :: "(addr \<Rightarrow> 'c) \<Rightarrow> addr \<Rightarrow> (addr, 'c) hash_map \<Rightarrow> 'c \<times> (addr, 'c) hash_map" where
  "network_connect connect_to a clients = (let channel = connect_to a in (channel, hm_insert a channel clients))"

definition get_or_connect :: "(addr \<Rightarrow> 'c) \<Rightarrow> addr \<Rightarrow> (addr, 'c) hash_map \<Rightarrow> 'c \<times> (addr, 'c) hash_map" where
  "get_or_connect connect_to a clients =
     (case map_of clients a of Some channel \<Rightarrow> (channel, clients) | None \<Rightarrow> network_connect connect_to a clients)"

definition disconnect :: "addr \<Rightarrow> (addr, 'c) hash_map \<Rightarrow> (addr, 'c) hash_map" where
  "disconnect a clients = hm_remove a clients"

section \<open>Watching the membership\<close>

text \<open>
  A set of nodes and addresses, in the order of the node ids: the ids of a map are distinct, so the
  order of the addresses never decides.
\<close>

type_synonym network_set = "(u8 \<times> addr) list"

definition network_set_of :: "u8 \<Rightarrow> node_membership \<Rightarrow> network_set" where
  "network_set_of self_node_id members =
     map (\<lambda>e. (member_id (snd e), public_addr (snd e))) (filter (\<lambda>e. fst e \<noteq> self_node_id) members)"

definition set_difference :: "'a list \<Rightarrow> 'a list \<Rightarrow> 'a list" where
  "set_difference xs ys = filter (\<lambda>x. x \<notin> set ys) xs"

definition data_centers_of :: "node_membership \<Rightarrow> (string, addr list) btree_map" where
  "data_centers_of members =
     fold (\<lambda>e dcs. bt_insert (data_center (snd e))
       ((case map_of dcs (data_center (snd e)) of Some ns \<Rightarrow> ns | None \<Rightarrow> []) @ [public_addr (snd e)]) dcs) members []"

record 'c watch_state =
  last_network_set :: network_set
  net_clients :: "(addr, 'c) hash_map"
  watch_selector :: selector_state

definition watch_init :: "'c watch_state" where
  "watch_init = \<lparr>last_network_set = [], net_clients = [], watch_selector = selector_init\<rparr>"

definition watch_step :: "u8 \<Rightarrow> node_membership \<Rightarrow> 'c watch_state \<Rightarrow> membership_change \<times> 'c watch_state" where
  "watch_step self_node_id members st =
     (let new_network_set = network_set_of self_node_id members;
          gone = set_difference (last_network_set st) new_network_set;
          added = set_difference new_network_set (last_network_set st)
      in (\<lparr>joined = List.map_filter (\<lambda>(nid, a). map_of members nid) added,
           left_members = List.map_filter (\<lambda>(nid, a). map_of members nid) gone\<rparr>,
          \<lparr>last_network_set = new_network_set,
           net_clients = fold (\<lambda>(nid, a). disconnect a) gone (net_clients st),
           watch_selector = selector_set_nodes (data_centers_of members) (watch_selector st)\<rparr>))"

primrec watch_membership_changes :: "u8 \<Rightarrow> node_membership list \<Rightarrow> 'c watch_state \<Rightarrow> membership_change list \<times> 'c watch_state" where
  "watch_membership_changes self_node_id [] st = ([], st)"
| "watch_membership_changes self_node_id (m # ms) st =
     (let (c, st) = watch_step self_node_id m st; (cs, st) = watch_membership_changes self_node_id ms st in (c # cs, st))"

section \<open>Following the changes\<close>

text \<open>The map of live members both services keep.\<close>

definition apply_change :: "membership_change \<Rightarrow> (u8, addr) btree_map \<Rightarrow> (u8, addr) btree_map" where
  "apply_change changes live_members =
     fold (\<lambda>m. bt_insert (member_id m) (public_addr m)) (joined changes)
       (fold (\<lambda>m. bt_remove (member_id m)) (left_members changes) live_members)"

section \<open>What the services know of the membership\<close>

definition membership_wf :: "node_membership \<Rightarrow> bool" where
  "membership_wf m \<longleftrightarrow> bt_wf m \<and> (\<forall>e \<in> set m. member_id (snd e) = fst e)"

lemma set_bt_insert: "bt_wf m \<Longrightarrow> set (bt_insert k v m) = Set.insert (k, v) {e \<in> set m. fst e \<noteq> k}"
proof -
  assume wf: "bt_wf m"
  have "e \<in> set (bt_insert k v m) \<longleftrightarrow> e = (k, v) \<or> e \<in> set m \<and> fst e \<noteq> k" for e
    using bt_iter [OF bt_wf_insert [OF wf], of "fst e" "snd e"] bt_iter [OF wf, of "fst e" "snd e"]
    by (cases "fst e = k") (auto simp: prod_eq_iff)
  then show ?thesis by blast
qed

lemma membership_wf_insert: "membership_wf m \<Longrightarrow> membership_wf (bt_insert (member_id x) x m)"
  by (auto simp: membership_wf_def bt_wf_insert set_bt_insert)

lemma membership_wf_gossip: "membership_wf (members_of_gossip me nodes states)"
proof -
  define es where "es = List.map_filter (\<lambda>nd. case build_cluster_member nd states of Inr m \<Rightarrow> Some (member_id m, m) | Inl e \<Rightarrow> None) nodes"
  have "\<forall>e \<in> set es. fst e = member_id (snd e)" by (auto simp: es_def List.map_filter_def split: sum.splits)
  then have "membership_wf (fold (\<lambda>(k, v). bt_insert k v) es m)" if "membership_wf m" for m
    using that by (induction es arbitrary: m) (auto simp: membership_wf_insert)
  moreover have "membership_wf []" by (simp add: membership_wf_def)
  ultimately show ?thesis unfolding members_of_gossip_def Let_def es_def [symmetric] by (intro membership_wf_insert)
qed

lemma network_set_mem:
  assumes "membership_wf m"
  shows "(nid, a) \<in> set (network_set_of self m) \<longleftrightarrow> nid \<noteq> self \<and> (\<exists>x. map_of m nid = Some x \<and> public_addr x = a)"
proof -
  have "(k, v) \<in> set m \<longleftrightarrow> map_of m k = Some v" for k v using assms by (simp add: membership_wf_def bt_iter)
  moreover have "member_id v = k" if "(k, v) \<in> set m" for k v using assms that by (auto simp: membership_wf_def)
  ultimately show ?thesis by (auto simp: network_set_of_def image_iff) fastforce
qed

lemma network_set_distinct: "membership_wf m \<Longrightarrow> distinct (map fst (network_set_of self m))"
proof -
  assume wf: "membership_wf m"
  have "map fst (network_set_of self m) = map fst (filter (\<lambda>e. fst e \<noteq> self) m)"
    using wf by (auto simp: network_set_of_def membership_wf_def)
  then show ?thesis using wf by (simp add: membership_wf_def bt_wf_distinct distinct_map_filter)
qed

text \<open>The members published as joined are the added entries.\<close>

lemma joined_pairs:
  assumes wf: "membership_wf m" and sub: "set es \<subseteq> set (network_set_of self m)"
  shows "map (\<lambda>x. (member_id x, public_addr x)) (List.map_filter (\<lambda>(nid, a). map_of m nid) es) = es"
  using sub
proof (induction es)
  case (Cons e es)
  obtain nid a where e: "e = (nid, a)" by (cases e)
  then obtain x where x: "map_of m nid = Some x" "public_addr x = a" using Cons.prems network_set_mem [OF wf] by auto
  have "member_id x = nid" using map_of_SomeD [OF x(1)] wf by (auto simp: membership_wf_def)
  then show ?case using Cons x by (simp add: e List.map_filter_def)
qed (simp add: List.map_filter_def)

lemma map_of_removals: "map_of (fold (\<lambda>m. bt_remove (member_id m)) xs live) nid =
    (if nid \<in> member_id ` set xs then None else map_of live nid)"
  by (induction xs arbitrary: live) auto

lemma map_of_inserts: "distinct (map member_id xs) \<Longrightarrow>
    map_of (fold (\<lambda>m. bt_insert (member_id m) (public_addr m)) xs live) = map_of live ++ map_of (map (\<lambda>x. (member_id x, public_addr x)) xs)"
proof -
  assume d: "distinct (map member_id xs)"
  let ?es = "map (\<lambda>x. (member_id x, public_addr x)) xs"
  have "fold (\<lambda>m. bt_insert (member_id m) (public_addr m)) xs live = fold (\<lambda>(k, v). bt_insert k v) ?es live"
    by (simp add: fold_map comp_def)
  then have "map_of (fold (\<lambda>m. bt_insert (member_id m) (public_addr m)) xs live) = map_of live ++ map_of (rev ?es)"
    by (simp only: bt.look_extend)
  also have "map_of (rev ?es) = map_of ?es" using d by (intro map_of_rev_keys) (simp add: comp_def)
  finally show ?thesis .
qed

text \<open>The services' map holds what the watcher last saw.\<close>

definition tracked :: "u8 \<Rightarrow> 'c watch_state \<Rightarrow> (u8, addr) btree_map \<Rightarrow> bool" where
  "tracked self st live \<longleftrightarrow> self \<notin> fst ` set (last_network_set st) \<and> distinct (map fst (last_network_set st)) \<and> map_of (last_network_set st) \<subseteq>\<^sub>m map_of live"

text \<open>A member is published as left only when it is reported still, under another address.\<close>

lemma left_reported:
  assumes wf: "membership_wf m" and tr: "tracked self st live" and run: "watch_step self m st = (c, st')" and left: "nid \<in> member_id ` set (left_members c)"
  shows "\<exists>a a'. (nid, a) \<in> set (last_network_set st) \<and> (nid, a) \<notin> set (network_set_of self m) \<and> (nid, a') \<in> set (network_set_of self m)"
proof -
  have "left_members c = List.map_filter (\<lambda>(nid, a). map_of m nid) (set_difference (last_network_set st) (network_set_of self m))"
    using run by (auto simp: watch_step_def Let_def)
  with left obtain nid' a x where x: "(nid', a) \<in> set (last_network_set st)" "(nid', a) \<notin> set (network_set_of self m)" "map_of m nid' = Some x" "member_id x = nid"
    by (auto simp: set_difference_def List.map_filter_def)
  moreover have "nid' = nid" using map_of_SomeD [OF x(3)] x(4) wf by (auto simp: membership_wf_def)
  moreover have "nid' \<noteq> self" using x(1) tr by (force simp: tracked_def)
  ultimately show ?thesis using network_set_mem [OF wf] by blast
qed

lemma watch_step_live:
  assumes wf: "membership_wf m" and tr: "tracked self st live" and run: "watch_step self m st = (c, st')"
  shows "map_of (apply_change c live) = map_of live ++ map_of (network_set_of self m)" "tracked self st' (apply_change c live)"
proof -
  let ?new = "network_set_of self m" and ?old = "last_network_set st"
  have c: "joined c = List.map_filter (\<lambda>(nid, a). map_of m nid) (set_difference ?new ?old)"
    "last_network_set st' = ?new"
    using run by (auto simp: watch_step_def Let_def)
  have dn: "distinct (map fst ?new)" by (rule network_set_distinct [OF wf])
  have jp: "map (\<lambda>x. (member_id x, public_addr x)) (joined c) = set_difference ?new ?old"
    unfolding c(1) by (rule joined_pairs [OF wf]) (auto simp: set_difference_def)
  have "map member_id (joined c) = map fst (set_difference ?new ?old)" unfolding jp [symmetric] by simp
  then have dj: "distinct (map member_id (joined c))" using dn by (simp add: set_difference_def distinct_map_filter)
  have live': "map_of (apply_change c live) =
      map_of (fold (\<lambda>m. bt_remove (member_id m)) (left_members c) live) ++ map_of (set_difference ?new ?old)"
    unfolding apply_change_def map_of_inserts [OF dj] jp ..
  have diff: "map_of (set_difference ?new ?old) nid = (case map_of ?new nid of Some a \<Rightarrow> if (nid, a) \<in> set ?old then None else Some a | None \<Rightarrow> None)" for nid
    using map_of_filter_distinct [OF dn, of "\<lambda>x. x \<notin> set ?old" nid] by (auto simp: set_difference_def split: option.splits)
  show "map_of (apply_change c live) = map_of live ++ map_of ?new"
  proof
    fix nid
    show "map_of (apply_change c live) nid = (map_of live ++ map_of ?new) nid"
    proof (cases "map_of ?new nid")
      case None
      then have "nid \<notin> member_id ` set (left_members c)"
        using left_reported [OF wf tr run] by (force simp: map_of_eq_None_iff image_iff)
      then show ?thesis using None diff [of nid] by (simp add: live' map_add_def map_of_removals)
    next
      case (Some a)
      have l: "map_of live nid = Some a \<and> nid \<notin> member_id ` set (left_members c)" if old: "(nid, a) \<in> set ?old"
        using left_reported [OF wf tr run, of nid] old tr map_of_SomeD [OF Some] by (auto simp: tracked_def map_le_def dom_def dest: eq_key_imp_eq_value)
      then show ?thesis using Some diff [of nid] by (cases "(nid, a) \<in> set ?old") (simp_all add: live' map_add_def map_of_removals)
    qed
  qed
  then show "tracked self st' (apply_change c live)" using dn network_set_mem [OF wf] by (auto simp: tracked_def c(2))
qed

lemma watch_live:
  assumes "\<forall>m \<in> set ms. membership_wf m" "tracked self st live" "watch_membership_changes self ms st = (cs, st')"
  shows "map_of (fold apply_change cs live) = fold (\<lambda>m seen. seen ++ map_of (network_set_of self m)) ms (map_of live)"
  using assms
proof (induction ms arbitrary: st live cs)
  case (Cons m ms)
  obtain c st1 where s: "watch_step self m st = (c, st1)" by fastforce
  obtain cs1 where r: "watch_membership_changes self ms st1 = (cs1, st')" "cs = c # cs1"
    using Cons.prems(3) s by (auto simp: Let_def split: prod.splits)
  have m: "membership_wf m" using Cons.prems(1) by simp
  note w = watch_step_live [OF m Cons.prems(2) s]
  then show ?case using Cons.IH [OF _ w(2) r(1)] Cons.prems(1) r(2) by simp
qed simp

text \<open>The distributor and the replication cycle follow the published changes: after any reports of the
  membership they know exactly the nodes other than their own that were ever reported, each with the
  last address reported for it. A node that has left the cluster is never dropped.\<close>

lemma live_members_accumulate:
  assumes "\<forall>m \<in> set ms. membership_wf m" "watch_membership_changes self ms watch_init = (cs, st)"
  shows "map_of (fold apply_change cs []) = fold (\<lambda>m seen. seen ++ map_of (network_set_of self m)) ms Map.empty"
  using watch_live [OF assms(1) _ assms(2), of "[]"] by (simp add: tracked_def watch_init_def)

lemma live_members_accumulate_witness:
  "map_of (fold apply_change (fst (watch_membership_changes 1
     [[(1, member_new 1 ''a'' ''dc''), (2, member_new 2 ''b'' ''dc'')], [(1, member_new 1 ''a'' ''dc'')]] (watch_init :: unit watch_state))) []) 2 = Some ''b''"
proof -
  let ?ms = "[[(1, member_new 1 ''a'' ''dc''), (2, member_new 2 ''b'' ''dc'')], [(1, member_new 1 ''a'' ''dc'')]]"
  have "\<forall>m \<in> set ?ms. membership_wf m" by (simp add: membership_wf_def member_new_def)
  from fun_cong [OF live_members_accumulate [where 'a = unit and self = 1, OF this prod.collapse [symmetric]], of 2]
  show ?thesis by (rule trans) (simp add: network_set_of_def member_new_def)
qed

end
