(* ===== verification/Distributor.thy ===== *)
theory Distributor
  imports ServiceWrites Membership
begin

text \<open>
  The task distributor, \<^verbatim>\<open>datacake-eventual-consistency/src/replication/distributor.rs\<close>: once a second it
  drains the queue of its handle, groups the queued mutations by keyspace into one batch and sends
  the batch to every live member. The calls run concurrently; the order in which they reach the
  network and their replies reach the clock is the parameter \<open>sched\<close>, a rearrangement of the calls.
\<close>

section \<open>The queue\<close>

datatype mutation =
  MutPut string document | MutMultiPut string "document list"
| MutDel string document_metadata | MutMultiDel string "document_metadata list"

datatype distributor_op = MembershipChangeOp membership_change | MutationOp mutation

type_synonym put_payloads = "(string, document list) btree_map"
type_synonym del_payloads = "(string, document_metadata list) btree_map"

text \<open>\<open>entry(k).or_default().extend(xs)\<close>; a push extends by one.\<close>

definition entry_extend :: "'k::linorder \<Rightarrow> 'a list \<Rightarrow> ('k, 'a list) btree_map \<Rightarrow> ('k, 'a list) btree_map" where
  "entry_extend k xs m = bt_insert k ((case map_of m k of Some v \<Rightarrow> v | None \<Rightarrow> []) @ xs) m"

primrec register_mutation :: "mutation \<Rightarrow> put_payloads \<times> del_payloads \<Rightarrow> put_payloads \<times> del_payloads" where
  "register_mutation (MutPut ks d) p = (entry_extend ks [d] (fst p), snd p)"
| "register_mutation (MutMultiPut ks ds) p = (entry_extend ks ds (fst p), snd p)"
| "register_mutation (MutDel ks d) p = (fst p, entry_extend ks [d] (snd p))"
| "register_mutation (MutMultiDel ks ds) p = (fst p, entry_extend ks ds (snd p))"

primrec drain_queue ::
  "distributor_op list \<Rightarrow> (u8, addr) btree_map \<Rightarrow> put_payloads \<times> del_payloads \<Rightarrow> (u8, addr) btree_map \<times> put_payloads \<times> del_payloads" where
  "drain_queue [] live_members p = (live_members, p)"
| "drain_queue (op # ops) live_members p =
     (case op of
        MembershipChangeOp changes \<Rightarrow> drain_queue ops (apply_change changes live_members) p
      | MutationOp m \<Rightarrow> drain_queue ops live_members (register_mutation m p))"

section \<open>A tick\<close>

record task_service_context =
  local_node_id :: u8
  public_node_addr :: addr

definition make_batch :: "task_service_context \<Rightarrow> hlc_timestamp \<Rightarrow> put_payloads \<Rightarrow> del_payloads \<Rightarrow> batch_payload" where
  "make_batch ctx ts put_payloads del_payloads =
     \<lparr>bp_timestamp = ts,
      bp_modified = map (\<lambda>(ks, docs). \<lparr>mp_keyspace = ks,
        mp_ctx = Some \<lparr>cx_node_id = local_node_id ctx, cx_node_addr = public_node_addr ctx\<rparr>,
        mp_documents = docs, mp_timestamp = ts\<rparr>) put_payloads,
      bp_removed = map (\<lambda>(ks, docs). \<lparr>mr_keyspace = ks, mr_documents = docs, mr_timestamp = ts\<rparr>) del_payloads\<rparr>"

text \<open>The channel of every live member, and then a call through each; a failed call is only logged.\<close>

primrec open_channels ::
  "(addr \<Rightarrow> 'c) \<Rightarrow> (u8 \<times> addr) list \<Rightarrow> (addr, 'c) hash_map \<Rightarrow> 'c list \<times> (addr, 'c) hash_map" where
  "open_channels connect_to [] clients = ([], clients)"
| "open_channels connect_to (m # ms) clients =
     (let (ch, clients) = get_or_connect connect_to (snd m) clients;
          (chs, clients) = open_channels connect_to ms clients
      in (ch # chs, clients))"

primrec send_batch ::
  "('c \<Rightarrow> ('n, batch_payload, hlc_timestamp) rpc) \<Rightarrow> batch_payload \<Rightarrow> 'c list \<Rightarrow> node_clock \<Rightarrow> 'n \<Rightarrow> (node_clock \<times> 'n) exec" where
  "send_batch rpc batch [] clock net = Some (clock, net)"
| "send_batch rpc batch (ch # chs) clock net =
     do { (r, clock, net) \<leftarrow> apply_batch_call (rpc ch) batch clock net;
          send_batch rpc batch chs clock net }"

definition execute_batch ::
  "(addr \<Rightarrow> 'c) \<Rightarrow> ('c \<Rightarrow> ('n, batch_payload, hlc_timestamp) rpc) \<Rightarrow> ('c list \<Rightarrow> 'c list) \<Rightarrow> (u8, addr) btree_map \<Rightarrow> batch_payload
    \<Rightarrow> (addr, 'c) hash_map \<Rightarrow> node_clock \<Rightarrow> 'n \<Rightarrow> ((addr, 'c) hash_map \<times> node_clock \<times> 'n) exec" where
  "execute_batch connect_to rpc sched live_members batch clients clock net =
     do { let (channels, clients) = open_channels connect_to live_members clients;
          (clock, net) \<leftarrow> send_batch rpc batch (sched channels) clock net;
          Some (clients, clock, net) }"

text \<open>What the service keeps, with the connections and the clock it shares with the node.\<close>

record 'c distributor_state =
  dist_members :: "(u8, addr) btree_map"
  dist_clients :: "(addr, 'c) hash_map"
  dist_clock :: node_clock

definition distributor_tick ::
  "task_service_context \<Rightarrow> (addr \<Rightarrow> 'c) \<Rightarrow> ('c \<Rightarrow> ('n, batch_payload, hlc_timestamp) rpc) \<Rightarrow> ('c list \<Rightarrow> 'c list) \<Rightarrow> distributor_op list
    \<Rightarrow> 'c distributor_state \<Rightarrow> 'n \<Rightarrow> ('c distributor_state \<times> 'n) exec" where
  "distributor_tick ctx connect_to rpc sched ops st net =
     (let (live_members, put_payloads, del_payloads) = drain_queue ops (dist_members st) ([], []);
          st = st\<lparr>dist_members := live_members\<rparr>
      in if put_payloads = [] \<and> del_payloads = [] then Some (st, net)
         else do {
           (ts, clock) \<leftarrow> clock_get (dist_clock st);
           (clients, clock, net) \<leftarrow> execute_batch connect_to rpc sched live_members
             (make_batch ctx ts put_payloads del_payloads) (dist_clients st) clock net;
           Some (st\<lparr>dist_clients := clients, dist_clock := clock\<rparr>, net) })"

text \<open>The service: at each tick the state of the kill switch and the operations queued since the last.\<close>

primrec task_distributor_service ::
  "task_service_context \<Rightarrow> (addr \<Rightarrow> 'c) \<Rightarrow> ('c \<Rightarrow> ('n, batch_payload, hlc_timestamp) rpc) \<Rightarrow> ('c list \<Rightarrow> 'c list)
    \<Rightarrow> (bool \<times> distributor_op list) list \<Rightarrow> 'c distributor_state \<Rightarrow> 'n \<Rightarrow> ('c distributor_state \<times> 'n) exec" where
  "task_distributor_service ctx connect_to rpc sched [] st net = Some (st, net)"
| "task_distributor_service ctx connect_to rpc sched (ev # evs) st net =
     (if fst ev then Some (st, net)
      else do { (st, net) \<leftarrow> distributor_tick ctx connect_to rpc sched (snd ev) st net;
                task_distributor_service ctx connect_to rpc sched evs st net })"

section \<open>What a batch carries\<close>

primrec put_docs_of :: "string \<Rightarrow> mutation \<Rightarrow> document list" where
  "put_docs_of name (MutPut ks d) = (if ks = name then [d] else [])"
| "put_docs_of name (MutMultiPut ks ds) = (if ks = name then ds else [])"
| "put_docs_of name (MutDel ks d) = []"
| "put_docs_of name (MutMultiDel ks ds) = []"

primrec del_docs_of :: "string \<Rightarrow> mutation \<Rightarrow> document_metadata list" where
  "del_docs_of name (MutPut ks d) = []"
| "del_docs_of name (MutMultiPut ks ds) = []"
| "del_docs_of name (MutDel ks d) = (if ks = name then [d] else [])"
| "del_docs_of name (MutMultiDel ks ds) = (if ks = name then ds else [])"

definition queued :: "distributor_op list \<Rightarrow> mutation list" where
  "queued ops = List.map_filter (\<lambda>x. case x of MutationOp m \<Rightarrow> Some m | MembershipChangeOp c \<Rightarrow> None) ops"

definition changes_in :: "distributor_op list \<Rightarrow> membership_change list" where
  "changes_in ops = List.map_filter (\<lambda>x. case x of MutationOp m \<Rightarrow> None | MembershipChangeOp c \<Rightarrow> Some c) ops"

text \<open>What a map of payloads holds for a keyspace.\<close>

definition payload_at :: "('k, 'a list) btree_map \<Rightarrow> 'k \<Rightarrow> 'a list" where
  "payload_at m k = (case map_of m k of Some v \<Rightarrow> v | None \<Rightarrow> [])"

lemma payload_extend [simp]: "payload_at (entry_extend k xs m) n = (if n = k then payload_at m k @ xs else payload_at m n)"
  by (simp add: payload_at_def entry_extend_def)

lemma entry_extend_wf: "bt_wf m \<Longrightarrow> bt_wf (entry_extend k xs m)"
  by (simp add: entry_extend_def bt_wf_insert)

lemma register_mutation_spec:
  "payload_at (fst (register_mutation m p)) name = payload_at (fst p) name @ put_docs_of name m"
  "payload_at (snd (register_mutation m p)) name = payload_at (snd p) name @ del_docs_of name m"
  "bt_wf (fst p) \<Longrightarrow> bt_wf (fst (register_mutation m p))"
  "bt_wf (snd p) \<Longrightarrow> bt_wf (snd (register_mutation m p))"
  by (cases m; simp add: entry_extend_wf)+

lemma drain_queue_spec:
  assumes "drain_queue ops live p = (live', p')" "bt_wf (fst p)" "bt_wf (snd p)"
  shows "live' = fold apply_change (changes_in ops) live"
    "payload_at (fst p') name = payload_at (fst p) name @ concat (map (put_docs_of name) (queued ops))"
    "payload_at (snd p') name = payload_at (snd p) name @ concat (map (del_docs_of name) (queued ops))"
    "bt_wf (fst p')" "bt_wf (snd p')"
proof -
  have "live' = fold apply_change (changes_in ops) live \<and>
    payload_at (fst p') name = payload_at (fst p) name @ concat (map (put_docs_of name) (queued ops)) \<and>
    payload_at (snd p') name = payload_at (snd p) name @ concat (map (del_docs_of name) (queued ops)) \<and>
    bt_wf (fst p') \<and> bt_wf (snd p')"
    using assms
  proof (induction ops arbitrary: live p)
    case (Cons x ops)
    show ?case
    proof (cases x)
      case (MembershipChangeOp c)
      then show ?thesis using Cons.IH [of "apply_change c live" p] Cons.prems
        by (simp add: queued_def changes_in_def)
    next
      case (MutationOp m)
      then show ?thesis using Cons.IH [of live "register_mutation m p"] Cons.prems
        by (simp add: queued_def changes_in_def register_mutation_spec)
    qed
  qed (simp add: queued_def changes_in_def)
  then show "live' = fold apply_change (changes_in ops) live"
    "payload_at (fst p') name = payload_at (fst p) name @ concat (map (put_docs_of name) (queued ops))"
    "payload_at (snd p') name = payload_at (snd p) name @ concat (map (del_docs_of name) (queued ops))"
    "bt_wf (fst p')" "bt_wf (snd p')" by blast+
qed

lemma concat_payload:
  "distinct (map fst m) \<Longrightarrow> concat (map (\<lambda>e. if fst e = name then snd e else []) m) = payload_at m name"
proof (induction m)
  case (Cons e m)
  have "map_of m (fst e) = None" using Cons.prems by (simp add: map_of_eq_None_iff)
  then show ?case using Cons by (cases e) (auto simp: payload_at_def)
qed (simp add: payload_at_def)

lemma make_batch_docs:
  assumes "bt_wf puts" "bt_wf dels"
  shows "modified_docs (make_batch ctx ts puts dels) name = payload_at puts name"
    "removed_docs (make_batch ctx ts puts dels) name = payload_at dels name"
    "distinct (map mp_keyspace (bp_modified (make_batch ctx ts puts dels)))"
    "distinct (map mr_keyspace (bp_removed (make_batch ctx ts puts dels)))"
proof -
  have d: "distinct (map fst puts)" "distinct (map fst dels)" using assms by (simp_all add: bt_wf_distinct)
  show "modified_docs (make_batch ctx ts puts dels) name = payload_at puts name"
    using concat_payload [OF d(1), of name] by (simp add: modified_docs_def make_batch_def comp_def case_prod_beta cong: if_cong)
  show "removed_docs (make_batch ctx ts puts dels) name = payload_at dels name"
    using concat_payload [OF d(2), of name] by (simp add: removed_docs_def make_batch_def comp_def case_prod_beta cong: if_cong)
  show "distinct (map mp_keyspace (bp_modified (make_batch ctx ts puts dels)))"
    "distinct (map mr_keyspace (bp_removed (make_batch ctx ts puts dels)))"
    using d by (simp_all add: make_batch_def comp_def case_prod_beta)
qed

section \<open>Batches across the cluster\<close>

text \<open>
  The nodes of a cluster by address, and the connection to one: the handler of the batch runs at the
  node and its reply is readable.
\<close>

definition batch_rpc ::
  "('s, 'e) storage_ops \<Rightarrow> ('e bulk_mutation_error \<Rightarrow> string) \<Rightarrow> addr \<Rightarrow> (addr \<Rightarrow> 's keyspace_group, batch_payload, hlc_timestamp) rpc" where
  "batch_rpc ops te a b net =
     do { (r, g) \<leftarrow> on_batch_payload ops te (Some b) (net a); Some (map_sum id Some r, net(a := g)) }"

lemma clock_register_total: "clock_ok c \<Longrightarrow> \<exists>c'. clock_register ts c = Some c' \<and> clock_ok c'"
proof -
  assume ok: "clock_ok c"
  then have "\<exists>r c'. hlc_recv (wall c (reads c)) ts (hlc c) = Some (r, c')"
    using hlc_recv_no_panic unfolding clock_ok_def by blast
  then have "\<exists>c'. clock_register ts c = Some c'" by (auto simp: clock_register_def)
  then show ?thesis using clock_register_props(3) [OF ok] by blast
qed

lemma apply_batch_call_total:
  assumes "clock_ok clock" "on_batch_payload ops te (Some b) (net a) = Some (r, g)"
  shows "\<exists>r' clock'. apply_batch_call (batch_rpc ops te a) b clock net = Some (r', clock', net(a := g)) \<and> clock_ok clock'"
proof (cases r)
  case (Inr t)
  obtain c' where "clock_register t clock = Some c'" "clock_ok c'" using clock_register_total [OF assms(1)] by blast
  then show ?thesis using assms(2) Inr
    by (simp add: apply_batch_call_def batch_rpc_def finish_call_def to_owned_def and_then_def)
qed (use assms in \<open>simp add: apply_batch_call_def batch_rpc_def finish_call_def and_then_def\<close>)

lemma send_batch_spec:
  assumes "clock_ok clock" "distinct chs" "\<forall>a \<in> set chs. \<exists>r g. on_batch_payload ops te (Some b) (net a) = Some (r, g)"
  shows "\<exists>clock' net'. send_batch (batch_rpc ops te) b chs clock net = Some (clock', net') \<and>
    (\<forall>a \<in> set chs. \<exists>r. on_batch_payload ops te (Some b) (net a) = Some (r, net' a)) \<and> (\<forall>a. a \<notin> set chs \<longrightarrow> net' a = net a)"
  using assms
proof (induction chs arbitrary: clock net)
  case (Cons a chs)
  obtain r g where r: "on_batch_payload ops te (Some b) (net a) = Some (r, g)" using Cons.prems(3) by auto
  obtain r' clock1 where c1: "apply_batch_call (batch_rpc ops te a) b clock net = Some (r', clock1, net(a := g))" "clock_ok clock1"
    using apply_batch_call_total [where ops = ops and net = net, OF Cons.prems(1) r] by blast
  have ne: "a' \<noteq> a" if "a' \<in> set chs" for a' using Cons.prems(2) that by auto
  have pre: "distinct chs" "\<forall>x \<in> set chs. \<exists>r ga. on_batch_payload ops te (Some b) ((net(a := g)) x) = Some (r, ga)"
    using Cons.prems(2,3) ne by simp_all
  obtain clock' net' where c': "send_batch (batch_rpc ops te) b chs clock1 (net(a := g)) = Some (clock', net')"
    "\<forall>x \<in> set chs. \<exists>r. on_batch_payload ops te (Some b) ((net(a := g)) x) = Some (r, net' x)"
    "\<forall>x. x \<notin> set chs \<longrightarrow> net' x = (net(a := g)) x"
    using Cons.IH [OF c1(2) pre] by blast
  have "net' a = g" using c'(3) Cons.prems(2) by simp
  then show ?case using c1(1) c' r ne by (intro exI [of _ clock'] exI [of _ net']) simp
qed simp

lemma open_channels_spec:
  "\<forall>a c. map_of clients a = Some c \<longrightarrow> c = a \<Longrightarrow> fst (open_channels (\<lambda>a. a) ms clients) = map snd ms"
proof (induction ms arbitrary: clients)
  case (Cons m ms)
  have "fst (get_or_connect (\<lambda>a. a) (snd m) clients) = snd m"
    "\<forall>a c. map_of (snd (get_or_connect (\<lambda>a. a) (snd m) clients)) a = Some c \<longrightarrow> c = a"
    using Cons.prems by (auto simp: get_or_connect_def network_connect_def Let_def split: option.splits if_splits)
  then show ?case using Cons.IH by (simp add: case_prod_beta Let_def)
qed simp

lemma entry_extend_length: "length (entry_extend k xs m) \<le> Suc (length m)"
proof -
  have "length (bt_insert k v m) \<le> Suc (length m)" for v by (induction m) auto
  then show ?thesis by (simp add: entry_extend_def)
qed

lemma drain_queue_length:
  "drain_queue ops live p = (live', p') \<Longrightarrow>
    length (fst p') \<le> length (fst p) + length (queued ops) \<and> length (snd p') \<le> length (snd p) + length (queued ops)"
proof (induction ops arbitrary: live p)
  case (Cons x ops)
  show ?case
  proof (cases x)
    case (MembershipChangeOp c)
    then show ?thesis using Cons.IH [of "apply_change c live" p] Cons.prems by (simp add: queued_def)
  next
    case (MutationOp m)
    have "length (fst (register_mutation m p)) \<le> Suc (length (fst p)) \<and> length (snd (register_mutation m p)) \<le> Suc (length (snd p))"
      by (cases m) (simp_all add: entry_extend_length)
    then show ?thesis using Cons.IH [of live "register_mutation m p"] Cons.prems MutationOp
      by (simp add: queued_def)
  qed
qed (simp add: queued_def)

text \<open>The documents and the deletions queued for a keyspace.\<close>

definition queued_puts :: "distributor_op list \<Rightarrow> string \<Rightarrow> document list" where
  "queued_puts ops name = concat (map (put_docs_of name) (queued ops))"

definition queued_dels :: "distributor_op list \<Rightarrow> string \<Rightarrow> document_metadata list" where
  "queued_dels ops name = concat (map (del_docs_of name) (queued ops))"

text \<open>
  A member that can take them: in order, with room in its clock, and the mutations in order at its sets, without a deletion
  newer than a document of the same node. This is a condition of the results, which the distributor does not check.
\<close>

definition member_ready ::
  "('s \<Rightarrow> bool) \<Rightarrow> ('s \<Rightarrow> string \<Rightarrow> bool) \<Rightarrow> ('s \<Rightarrow> string \<Rightarrow> key \<rightharpoonup> stored) \<Rightarrow> distributor_op list \<Rightarrow> nat \<Rightarrow> 's keyspace_group \<Rightarrow> bool" where
  "member_ready invar known look ops m g \<longleftrightarrow> group_inv invar look g \<and> clock_fit m (w_clock (g_world g)) \<and>
     (\<forall>name. entries_ok CONSISTENCY_SOURCE_ID (dead_entries (queued_dels ops name)) (group_set g name) \<and>
        entries_ok CONSISTENCY_SOURCE_ID (live_entries (queued_puts ops name)) (group_set g name) \<and>
        (\<forall>d \<in> set (queued_dels ops name). \<forall>e \<in> set (queued_puts ops name).
           node (md_last_updated d) = node (last_updated e) \<longrightarrow> md_last_updated d \<le> last_updated e)) \<and>
     (\<forall>mu \<in> set (queued ops). \<forall>name. (\<exists>d. mu = MutDel name d) \<or> (\<exists>ds. mu = MutMultiDel name ds) \<longrightarrow> known (w_store (g_world g)) name)"

lemma drain_queue_dels:
  "drain_queue ops live p = (live', p') \<Longrightarrow> name \<in> fst ` set (snd p') \<Longrightarrow>
    name \<in> fst ` set (snd p) \<or> (\<exists>mu \<in> set (queued ops). (\<exists>d. mu = MutDel name d) \<or> (\<exists>ds. mu = MutMultiDel name ds))"
proof (induction ops arbitrary: live p)
  case (Cons x ops)
  show ?case
  proof (cases x)
    case (MembershipChangeOp c)
    then show ?thesis using Cons.IH [of "apply_change c live" p] Cons.prems by (simp add: queued_def)
  next
    case (MutationOp m)
    have "name \<in> fst ` set (snd (register_mutation m p)) \<Longrightarrow>
        name \<in> fst ` set (snd p) \<or> (\<exists>d. m = MutDel name d) \<or> (\<exists>ds. m = MutMultiDel name ds)"
      by (cases m) (auto simp: entry_extend_def set_fst_bt_insert)
    then show ?thesis using Cons.IH [of live "register_mutation m p"] Cons.prems MutationOp
      by (auto simp: queued_def)
  qed
qed simp

text \<open>Everything queued is written to a node: the deletions first and then the documents.\<close>

definition queue_written :: "distributor_op list \<Rightarrow> 's keyspace_group \<Rightarrow> 's keyspace_group \<Rightarrow> bool" where
  "queue_written qs g g' \<longleftrightarrow> (\<forall>name k. group_reg g' name k = overwrite (overwrite (group_reg g name k)
     (entry_at (dead_entries (queued_dels qs name)) k)) (entry_at (live_entries (queued_puts qs name)) k))"

text \<open>The batch a tick sends when its timestamp is \<open>ts\<close>.\<close>

definition tick_batch :: "task_service_context \<Rightarrow> hlc_timestamp \<Rightarrow> distributor_op list \<Rightarrow> 'c distributor_state \<Rightarrow> batch_payload" where
  "tick_batch ctx ts qs st = (case drain_queue qs (dist_members st) ([], []) of (live, puts, dels) \<Rightarrow> make_batch ctx ts puts dels)"

context storage
begin

lemma member_takes_batch:
  assumes rdy: "member_ready invar known look qs m g" and dr: "drain_queue qs live ([], []) = (live', puts, dels)"
    and ts: "unat (counter ts) \<le> m" and room: "m + 4 * length (queued qs) + 2 < 2 ^ 16"
  shows "\<exists>r g'. on_batch_payload ops te (Some (make_batch ctx ts puts dels)) g = Some (r, g') \<and> group_inv invar look g' \<and>
    (is_ok r \<longrightarrow> queue_written qs g g')"
proof -
  let ?b = "make_batch ctx ts puts dels"
  note sp = drain_queue_spec [OF dr, simplified] and le = drain_queue_length [OF dr, simplified]
  have docs: "modified_docs ?b name = queued_puts qs name" "removed_docs ?b name = queued_dels qs name"
    "distinct (map mp_keyspace (bp_modified ?b))" "distinct (map mr_keyspace (bp_removed ?b))" for name
    using make_batch_docs [OF sp(4,5)] sp(2,3) [of name] by (simp_all add: payload_at_def queued_puts_def queued_dels_def)
  have ok: "batch_ok ?b g" using rdy by (simp add: batch_ok_def docs member_ready_def)
  have "known (w_store (g_world g)) (mr_keyspace p)" if "p \<in> set (bp_removed ?b)" for p
  proof -
    have "mr_keyspace p \<in> fst ` set dels" using that by (auto simp: make_batch_def rev_image_eqI)
    then show ?thesis using drain_queue_dels [OF dr, of "mr_keyspace p"] rdy unfolding member_ready_def by auto
  qed
  moreover obtain c where c: "clock_register (bp_timestamp ?b) (w_clock (g_world g)) = Some c" "clock_fit (Suc m) c"
    using clock_fit_register [of m "w_clock (g_world g)" ts] rdy ts by (auto simp: member_ready_def make_batch_def)
  moreover have "clock_answers (2 * length (bp_removed ?b) + (2 * length (bp_modified ?b) + 1)) c"
    using le room by (intro clock_fit_answers [OF c(2)]) (simp add: make_batch_def)
  moreover have "group_inv invar look g" using rdy by (simp add: member_ready_def)
  ultimately show ?thesis using batch_spec [OF _ ok, of c te] by (simp add: docs queue_written_def)
qed

lemma batch_taken:
  assumes "\<exists>r g'. on_batch_payload ops te (Some b) g = Some (r, g') \<and> group_inv invar look g' \<and> (is_ok r \<longrightarrow> queue_written qs g g')"
    and "\<exists>r. on_batch_payload ops te (Some b) g = Some (r, g1)"
  shows "group_inv invar look g1 \<and> (queue_written qs g g1 \<or> (\<exists>e. on_batch_payload ops te (Some b) g = Some (Inl e, g1)))"
proof -
  obtain r where r: "on_batch_payload ops te (Some b) g = Some (r, g1)" using assms(2) by blast
  then have "group_inv invar look g1" "is_ok r \<longrightarrow> queue_written qs g g1" using assms(1) by auto
  then show ?thesis using r by (cases r) auto
qed

lemma tick_spec:
  assumes sched: "\<And>xs. mset (sched xs) = mset xs" and cl: "\<forall>a c. map_of (dist_clients st) a = Some c \<longrightarrow> c = a"
    and mem: "members = fold apply_change (changes_in qs) (dist_members st)" "distinct (map snd members)"
    and rdy: "\<forall>a \<in> set (map snd members). member_ready invar known look qs m (net a)"
    and clk: "clock_fit m0 (dist_clock st)" "Suc m0 \<le> m" and room: "m + 4 * length (queued qs) + 2 < 2 ^ 16"
  shows "\<exists>st' net'. distributor_tick ctx (\<lambda>a. a) (batch_rpc ops te) sched qs st net = Some (st', net') \<and> dist_members st' = members \<and>
    (\<forall>a. a \<notin> set (map snd members) \<longrightarrow> net' a = net a) \<and>
    (\<forall>a \<in> set (map snd members). group_inv invar look (net' a) \<and>
      (queue_written qs (net a) (net' a) \<or>
       (\<exists>ts c e. clock_get (dist_clock st) = Some (ts, c) \<and> on_batch_payload ops te (Some (tick_batch ctx ts qs st)) (net a) = Some (Inl e, net' a))))"
proof -
  obtain live puts dels where dr: "drain_queue qs (dist_members st) ([], []) = (live, puts, dels)"
    by (metis prod.collapse)
  note sp = drain_queue_spec [OF dr, simplified]
  have live: "live = members" using sp(1) mem(1) by simp
  show ?thesis
  proof (cases "puts = [] \<and> dels = []")
    case True
    then have "queued_puts qs name = [] \<and> queued_dels qs name = []" for name
      using sp(2,3) [of name] unfolding queued_puts_def queued_dels_def by (simp add: payload_at_def)
    then show ?thesis using dr live True rdy
      by (simp add: distributor_tick_def member_ready_def queue_written_def dead_entries_def live_entries_def)
  next
    case False
    obtain ts c where c: "clock_get (dist_clock st) = Some (ts, c)" "unat (counter ts) \<le> m" "clock_ok c"
      using clock_fit_get [OF clk(1)] clk(2) room by (auto simp: clock_fit_def)
    let ?b = "make_batch ctx ts puts dels"
    let ?chs = "sched (map snd members)"
    have ch: "set ?chs = set (map snd members)" "distinct ?chs"
      using mem(2) sched [of "map snd members"] mset_eq_setD mset_eq_imp_distinct_iff by blast+
    have take: "\<exists>r g'. on_batch_payload ops te (Some ?b) (net a) = Some (r, g') \<and> group_inv invar look g' \<and>
        (is_ok r \<longrightarrow> queue_written qs (net a) g')"
      if "a \<in> set (map snd members)" for a
      using member_takes_batch [OF _ dr c(2) room] rdy that by blast
    then have "\<forall>a \<in> set ?chs. \<exists>r g. on_batch_payload ops te (Some ?b) (net a) = Some (r, g)" using ch(1) by blast
    then obtain clock' net' where n: "send_batch (batch_rpc ops te) ?b ?chs c net = Some (clock', net')"
      "\<forall>a \<in> set ?chs. \<exists>r. on_batch_payload ops te (Some ?b) (net a) = Some (r, net' a)" "\<forall>a. a \<notin> set ?chs \<longrightarrow> net' a = net a"
      using send_batch_spec [OF c(3) ch(2)] by blast
    obtain chs clients' where oc: "open_channels (\<lambda>a. a) members (dist_clients st) = (chs, clients')" by (metis prod.collapse)
    then have "chs = map snd members" using open_channels_spec [OF cl, of members] by simp
    then have "distributor_tick ctx (\<lambda>a. a) (batch_rpc ops te) sched qs st net =
        Some (st\<lparr>dist_members := members, dist_clients := clients', dist_clock := clock'\<rparr>, net')"
      using dr live False c(1) n(1) oc by (auto simp: distributor_tick_def execute_batch_def)
    moreover have "group_inv invar look (net' a) \<and> (queue_written qs (net a) (net' a) \<or>
        (\<exists>ts c e. clock_get (dist_clock st) = Some (ts, c) \<and> on_batch_payload ops te (Some (tick_batch ctx ts qs st)) (net a) = Some (Inl e, net' a)))"
      if mem: "a \<in> set (map snd members)" for a
      using batch_taken [OF take [OF mem]] n(2) mem ch(1) c(1) dr by (auto simp: tick_batch_def)
    moreover have "dist_members (st\<lparr>dist_members := members, dist_clients := clients', dist_clock := clock'\<rparr>) = members" by simp
    moreover have "\<forall>a. a \<notin> set (map snd members) \<longrightarrow> net' a = net a" using n(3) ch(1) by simp
    ultimately show ?thesis by blast
  qed
qed

end

section \<open>The distributor in order\<close>

text \<open>C10. A tick of the distributor, to members that can take its batch: each member called is in order and has
  room in its clock, the queued mutations are in order at its sets and have no key twice in a keyspace, no queued deletion is newer than a queued
  document of the same node and keyspace, and the keyspaces of deletions are known to its store (\<open>member_ready\<close>). The code does not ensure
  this, and a batch outside of it may lose a document with a reply of success. Then the live members become what the queued membership changes make of
  them, and every live member either answers the batch of this tick with an
  error or has every queued mutation written to its registers, the deletions of a keyspace first,
  whatever the order in which the calls are made. All members stay in order and no other node is
  called.\<close>

theorem tick_reaches_members:
  assumes "storage ops invar known look" "\<And>xs. mset (sched xs) = mset xs"
    and "\<forall>a c. map_of (dist_clients st) a = Some c \<longrightarrow> c = a"
    and "members = fold apply_change (changes_in qs) (dist_members st)" "distinct (map snd members)"
    and "\<forall>a \<in> set (map snd members). member_ready invar known look qs m (net a)"
    and "clock_fit m0 (dist_clock st)" "Suc m0 \<le> m" "m + 4 * length (queued qs) + 2 < 2 ^ 16"
  shows "\<exists>st' net'. distributor_tick ctx (\<lambda>a. a) (batch_rpc ops te) sched qs st net = Some (st', net') \<and> dist_members st' = members \<and>
    (\<forall>a. a \<notin> set (map snd members) \<longrightarrow> net' a = net a) \<and>
    (\<forall>a \<in> set (map snd members). group_inv invar look (net' a) \<and>
      (queue_written qs (net a) (net' a) \<or>
       (\<exists>ts c e. clock_get (dist_clock st) = Some (ts, c) \<and> on_batch_payload ops te (Some (tick_batch ctx ts qs st)) (net a) = Some (Inl e, net' a))))"
  by (rule storage.tick_spec [OF assms])

definition example_queue :: "distributor_op list" where
  "example_queue = [MembershipChangeOp \<lparr>joined = [member_new 1 ''a'' ''dc''], left_members = []\<rparr>,
     MutationOp (MutDel ''ks'' (metadata_new 8 (HLCTimestamp 1))), MutationOp (MutPut ''ks'' (document_new 7 (HLCTimestamp 257) []))]"

definition example_distributor :: "addr distributor_state" where
  "example_distributor = \<lparr>dist_members = [], dist_clients = [], dist_clock = example_clock\<rparr>"

lemma example_queued:
  "queued_puts example_queue name = (if name = ''ks'' then [document_new 7 (HLCTimestamp 257) []] else [])"
  "queued_dels example_queue name = (if name = ''ks'' then [metadata_new 8 (HLCTimestamp 1)] else [])"
  "length (queued example_queue) = 2" "set (queued example_queue) = {MutDel ''ks'' (metadata_new 8 (HLCTimestamp 1)), MutPut ''ks'' (document_new 7 (HLCTimestamp 257) [])}"
  by (auto simp: queued_puts_def queued_dels_def queued_def example_queue_def)

lemma example_clock_fit: "clock_fit 0 example_clock"
  using example_clock_ok by (simp add: clock_fit_def example_clock_def counter_def zero_time)

lemma example_member_ready: "member_ready mem_inv mem_known mem_look example_queue 1 example_group"
proof -
  have le: "HLCTimestamp 1 \<le> HLCTimestamp 257" by (simp add: less_eq_hlc_timestamp_def word_le_nat_alt)
  have "clock_fit 1 (w_clock (g_world example_group))"
    using clock_fit_mono [OF example_clock_fit, of 1] by (simp add: example_group_def example_world_def)
  then show ?thesis
    using example_group_inv example_group_known in_order_default [OF sources(1)] example_group_set le
    by (simp add: member_ready_def example_queued metadata_new_def entries_ok_def live_entries_def dead_entries_def)
qed

theorem tick_reaches_members_witness:
  "\<exists>st' net'. distributor_tick \<lparr>local_node_id = 0, public_node_addr = ''b''\<rparr> (\<lambda>a. a) (batch_rpc mem_ops (\<lambda>e. [])) rev
      example_queue example_distributor (\<lambda>a. example_group) = Some (st', net') \<and> dist_members st' = [(1, ''a'')] \<and>
    group_inv mem_inv mem_look (net' ''a'')"
proof -
  have m: "fold apply_change (changes_in example_queue) (dist_members example_distributor) = [(1, ''a'')]"
    by (simp add: changes_in_def example_queue_def example_distributor_def apply_change_def member_new_def)
  have f: "clock_fit 0 (dist_clock example_distributor)" using example_clock_fit by (simp add: example_distributor_def)
  show ?thesis
    using tick_reaches_members [where sched = rev and qs = example_queue and st = example_distributor and m = 1 and net = "\<lambda>a. example_group"
        and members = "[(1, ''a'')]" and ctx = "\<lparr>local_node_id = 0, public_node_addr = ''b''\<rparr>" and te = "\<lambda>e. []", OF mem.storage_axioms _ _ m [symmetric] _ _ f] example_member_ready
    by (simp add: example_distributor_def example_queued) blast
qed

end
