(* ===== verification/Poller.thy ===== *)
theory Poller
  imports Distributor
begin

text \<open>
  The replication cycle, \<^verbatim>\<open>datacake-eventual-consistency/src/replication/poller.rs\<close>: a node polls the
  keyspace timestamps of each live member, fetches the set of every keyspace whose timestamp changed
  since it was last synchronised, computes the difference with its own set and fetches the documents
  it lacks. Connections are functions of a channel; the bytes of a set are read by the parameter
  \<open>deser\<close>. Tasks that run concurrently do so under a schedule, a parameter: how many chunks of
  documents are written before the removals, and when the supervisor polls the progress and what it
  finds. A task that is left to run ends before the next keyspace is synchronised.
\<close>

definition KEYSPACE_SYNC_TIMEOUT :: duration where
  "KEYSPACE_SYNC_TIMEOUT = from_secs 5"

definition MAX_NUMBER_OF_DOCS_PER_FETCH :: nat where
  "MAX_NUMBER_OF_DOCS_PER_FETCH = 50000"

section \<open>What was synchronised\<close>

type_synonym keyspace_tracker = "(u8, (string, hlc_timestamp) btree_map) btree_map"

definition tracker_entry :: "u8 \<Rightarrow> keyspace_tracker \<Rightarrow> (string, hlc_timestamp) btree_map" where
  "tracker_entry nid inner = (case map_of inner nid of Some ts \<Rightarrow> ts | None \<Rightarrow> [])"

definition remove_node :: "u8 \<Rightarrow> keyspace_tracker \<Rightarrow> keyspace_tracker" where
  "remove_node nid inner = bt_remove nid inner"

definition get_diff :: "u8 \<Rightarrow> (string, hlc_timestamp) btree_map \<Rightarrow> keyspace_tracker \<Rightarrow> string list \<times> keyspace_tracker" where
  "get_diff nid other inner =
     (let entry = tracker_entry nid inner in (timestamps_diff entry other, bt_insert nid entry inner))"

definition set_keyspace :: "u8 \<Rightarrow> string \<Rightarrow> hlc_timestamp \<Rightarrow> keyspace_tracker \<Rightarrow> keyspace_tracker" where
  "set_keyspace nid ks ts inner = bt_insert nid (bt_insert ks ts (tracker_entry nid inner)) inner"

section \<open>The difference of a keyspace\<close>

record keyspace_diff =
  kd_keyspace :: string
  kd_modified :: "document_metadata list"
  kd_removed :: "document_metadata list"
  kd_last_updated :: hlc_timestamp

record get_diff_error =
  ge_cause :: status
  ge_keyspace :: string
  ge_node_id :: u8
  ge_node_addr :: addr

record 'n replication_rpc =
  rr_poll :: "('n, hlc_timestamp, keyspace_info) rpc"
  rr_state :: "('n, get_state_msg, keyspace_orswot_set) rpc"
  rr_fetch :: "('n, fetch_docs_msg, fetched_docs) rpc"

text \<open>A client of the node's own clock.\<close>

definition via_clock ::
  "(node_clock \<Rightarrow> 'n \<Rightarrow> ('r \<times> node_clock \<times> 'n) exec) \<Rightarrow> 's keyspace_group \<Rightarrow> 'n \<Rightarrow> ('r \<times> 's keyspace_group \<times> 'n) exec" where
  "via_clock call g net =
     do { (r, c, net) \<leftarrow> call (w_clock (g_world g)) net; Some (r, g\<lparr>g_world := (g_world g)\<lparr>w_clock := c\<rparr>\<rparr>, net) }"

definition get_keyspace_diff ::
  "(u8 list \<Rightarrow> orswot_set option) \<Rightarrow> 'n replication_rpc \<Rightarrow> string \<Rightarrow> u8 \<Rightarrow> addr \<Rightarrow> 's keyspace_group \<Rightarrow> 'n
    \<Rightarrow> ((get_diff_error + keyspace_diff) \<times> 's keyspace_group \<times> 'n) exec" where
  "get_keyspace_diff deser client name nid a g net =
     do { (i, g) \<leftarrow> get_or_create_keyspace name g;
          (r, g, net) \<leftarrow> via_clock (client_get_state deser (rr_state client) name) g net;
          case r of
            Inl e \<Rightarrow> Some (Inl \<lparr>ge_cause = e, ge_keyspace = name, ge_node_id = nid, ge_node_addr = a\<rparr>, g, net)
          | Inr (updated, other) \<Rightarrow> do {
              ((modified, removed), g) \<leftarrow> send_to i (\<lambda>a w. Some (on_diff other a, a, w)) g;
              Some (Inr \<lparr>kd_keyspace = name, kd_modified = map (\<lambda>(k, ts). metadata_new k ts) modified,
                         kd_removed = map (\<lambda>(k, ts). metadata_new k ts) removed, kd_last_updated = updated\<rparr>, g, net) } }"

text \<open>The differences of all keyspaces that changed; one that cannot be had is only logged.\<close>

primrec keyspace_diffs ::
  "(u8 list \<Rightarrow> orswot_set option) \<Rightarrow> 'n replication_rpc \<Rightarrow> u8 \<Rightarrow> addr \<Rightarrow> string list \<Rightarrow> 's keyspace_group \<Rightarrow> 'n
    \<Rightarrow> (keyspace_diff list \<times> 's keyspace_group \<times> 'n) exec" where
  "keyspace_diffs deser client nid a [] g net = Some ([], g, net)"
| "keyspace_diffs deser client nid a (name # names) g net =
     do { (r, g, net) \<leftarrow> get_keyspace_diff deser client name nid a g net;
          (changes, g, net) \<leftarrow> keyspace_diffs deser client nid a names g net;
          Some (case r of Inl e \<Rightarrow> changes | Inr d \<Rightarrow> d # changes, g, net) }"

section \<open>The cycle's state\<close>

record sync_schedule =
  removals_after :: nat
  sync_start :: duration
  poll_time :: "nat \<Rightarrow> duration"
  poll_sees :: "nat \<Rightarrow> nat"

record ('s, 'e, 'c, 'n) cycle_env =
  env_ops :: "('s, 'e) storage_ops"
  env_deser :: "u8 list \<Rightarrow> orswot_set option"
  env_connect :: "addr \<Rightarrow> 'c"
  env_client :: "'c \<Rightarrow> 'n replication_rpc"
  env_schedule :: "u8 \<Rightarrow> string \<Rightarrow> sync_schedule"

record ('s, 'c, 'n) cycle_state =
  cy_group :: "'s keyspace_group"
  cy_clients :: "(addr, 'c) hash_map"
  cy_tracker :: keyspace_tracker
  cy_members :: "(u8, addr) btree_map"
  cy_net :: 'n

definition check_node_changes ::
  "('s, 'e, 'c, 'n) cycle_env \<Rightarrow> u8 \<Rightarrow> addr \<Rightarrow> ('s, 'c, 'n) cycle_state \<Rightarrow> ((status + keyspace_diff list) \<times> ('s, 'c, 'n) cycle_state) exec" where
  "check_node_changes env nid a st =
     do { let (channel, clients) = get_or_connect (env_connect env) a (cy_clients st);
          let client = env_client env channel;
          (r, g, net) \<leftarrow> via_clock (client_poll_keyspace (rr_poll client)) (cy_group st) (cy_net st);
          let st = st\<lparr>cy_clients := clients, cy_group := g, cy_net := net\<rparr>;
          case r of
            Inl e \<Rightarrow> Some (Inl e, st)
          | Inr stamps \<Rightarrow> do {
              let (diff, tracker) = get_diff nid stamps (cy_tracker st);
              (changes, g, net) \<leftarrow> keyspace_diffs (env_deser env) client nid a diff (cy_group st) (cy_net st);
              Some (Inr changes, st\<lparr>cy_tracker := tracker, cy_group := g, cy_net := net\<rparr>) } }"

section \<open>Synchronising a keyspace\<close>

datatype 'e sync_error = RpcFailed status | StoreFailed 'e | BulkFailed "'e bulk_mutation_error" | TimedOut

definition handle_removals ::
  "('s, 'e) storage_ops \<Rightarrow> nat \<Rightarrow> document_metadata list \<Rightarrow> 's keyspace_group \<Rightarrow> (('e sync_error + unit) \<times> 's keyspace_group) exec" where
  "handle_removals ops i removed g =
     (case removed of
        [] \<Rightarrow> Some (Inr (), g)
      | [d] \<Rightarrow> do { (r, g) \<leftarrow> send_to i (on_del ops \<lparr>del_source = READ_REPAIR_SOURCE_ID, del_doc = d\<rparr>) g;
                    Some (map_sum StoreFailed id r, g) }
      | _ \<Rightarrow> do { (r, g) \<leftarrow> send_to i (on_multi_del ops \<lparr>mdel_source = READ_REPAIR_SOURCE_ID, mdel_docs = removed\<rparr>) g;
                  Some (map_sum BulkFailed id r, g) })"

text \<open>\<open>slice::chunks\<close>.\<close>

function chunks :: "nat \<Rightarrow> 'a list \<Rightarrow> 'a list list" where
  "chunks n xs = (if xs = [] \<or> n = 0 then [] else take n xs # chunks n (drop n xs))"
  by auto

termination chunks
  by (relation "measure (\<lambda>(n, xs). length xs)") auto

declare chunks.simps [simp del]

definition handle_chunk ::
  "('s, 'e) storage_ops \<Rightarrow> 'n replication_rpc \<Rightarrow> nat \<Rightarrow> string \<Rightarrow> put_context \<Rightarrow> key list \<Rightarrow> 's keyspace_group \<Rightarrow> 'n
    \<Rightarrow> (('e sync_error + unit) \<times> 's keyspace_group \<times> 'n) exec" where
  "handle_chunk ops client i name ctx doc_ids g net =
     do { (r, g, net) \<leftarrow> via_clock (client_fetch_docs (rr_fetch client) name doc_ids) g net;
          case r of
            Inl e \<Rightarrow> Some (Inl (RpcFailed e), g, net)
          | Inr docs \<Rightarrow> do {
              (r, g) \<leftarrow> send_to i (on_multi_set ops \<lparr>mset_source = READ_REPAIR_SOURCE_ID, mset_docs = docs, mset_ctx = Some ctx\<rparr>) g;
              Some (map_sum BulkFailed id r, g, net) } }"

text \<open>The loop of \<open>handle_modified\<close>, which stops at the first error; it returns what its tracker shows then.\<close>

primrec handle_chunks ::
  "('s, 'e) storage_ops \<Rightarrow> 'n replication_rpc \<Rightarrow> nat \<Rightarrow> string \<Rightarrow> put_context \<Rightarrow> key list list \<Rightarrow> 's keyspace_group \<Rightarrow> 'n
    \<Rightarrow> (('e sync_error + unit) \<times> put_context \<times> 's keyspace_group \<times> 'n) exec" where
  "handle_chunks ops client i name ctx [] g net = Some (Inr (), ctx, g, net)"
| "handle_chunks ops client i name ctx (ids # idss) g net =
     do { (r, g, net) \<leftarrow> handle_chunk ops client i name ctx ids g net;
          case r of
            Inl e \<Rightarrow> Some (Inl e, ctx, g, net)
          | Inr u \<Rightarrow> handle_chunks ops client i name (ctx\<lparr>ctx_progress := register_progress (ctx_progress ctx)\<rparr>) idss g net }"

text \<open>
  The two tasks, the removals between two chunks; at the end what the tracker shows, which is done
  only if no chunk failed.
\<close>

definition sync_tasks ::
  "('s, 'e) storage_ops \<Rightarrow> 'n replication_rpc \<Rightarrow> nat \<Rightarrow> string \<Rightarrow> put_context \<Rightarrow> nat \<Rightarrow> document_metadata list \<Rightarrow> document_metadata list
    \<Rightarrow> 's keyspace_group \<Rightarrow> 'n \<Rightarrow> (('e sync_error + unit) \<times> progress_tracker \<times> 's keyspace_group \<times> 'n) exec" where
  "sync_tasks ops client i name ctx m removed modified g net =
     do { let doc_id_chunks = map (map md_id) (chunks MAX_NUMBER_OF_DOCS_PER_FETCH modified);
          (r, ctx, g, net) \<leftarrow> handle_chunks ops client i name ctx (take m doc_id_chunks) g net;
          (removal, g) \<leftarrow> handle_removals ops i removed g;
          (r, ctx, g, net) \<leftarrow> (case r of Inl e \<Rightarrow> Some (Inl e, ctx, g, net)
                                 | Inr u \<Rightarrow> handle_chunks ops client i name ctx (drop m doc_id_chunks) g net);
          Some (removal, if is_ok r then set_done (ctx_progress ctx) else ctx_progress ctx, g, net) }"

text \<open>The supervisor's loop: whether the task is found done before it is found stalled.\<close>

partial_function (option) sync_wait :: "(nat \<Rightarrow> duration \<times> progress_tracker) \<Rightarrow> nat \<Rightarrow> progress_watcher \<Rightarrow> bool option" where
  "sync_wait polls i watcher =
     (let (now, tracker) = polls i; (expired, watcher) = has_expired now tracker watcher
      in if expired then Some False
         else if tracker_done tracker then Some True
         else sync_wait polls (Suc i) watcher)"

text \<open>What a tracker shows over time, and what the supervisor sees of it under a schedule.\<close>

definition tracker_states :: "progress_tracker \<Rightarrow> progress_tracker list" where
  "tracker_states final =
     map (\<lambda>n. \<lparr>progress_counter = of_nat n, tracker_done = False\<rparr>) [0..<Suc (unat (progress_counter final))] @
     (if tracker_done final then [final] else [])"

definition sync_polls :: "sync_schedule \<Rightarrow> progress_tracker \<Rightarrow> nat \<Rightarrow> duration \<times> progress_tracker" where
  "sync_polls s final i =
     (poll_time s i, tracker_states final ! (min (poll_sees s i) (length (tracker_states final) - 1)))"

text \<open>
  The task of the modified documents and the removals run to their end under the schedule, without a write of the
  node in between, before the supervisor's polls are looked at; so a task found stalled has ended, too, when the next keyspace is synchronised. In the
  code it may go on beside it.
\<close>

definition begin_keyspace_sync ::
  "('s, 'e, 'c, 'n) cycle_env \<Rightarrow> u8 \<Rightarrow> addr \<Rightarrow> keyspace_diff \<Rightarrow> ('s, 'c, 'n) cycle_state
    \<Rightarrow> (('e sync_error + unit) \<times> ('s, 'c, 'n) cycle_state) exec" where
  "begin_keyspace_sync env nid a d st =
     do { let (channel, clients) = get_or_connect (env_connect env) a (cy_clients st);
          (i, g) \<leftarrow> get_or_create_keyspace (kd_keyspace d) (cy_group st);
          let ctx = \<lparr>ctx_progress = \<lparr>progress_counter = 0, tracker_done = False\<rparr>, remote_node_id = nid, remote_addr = a\<rparr>;
          let s = env_schedule env nid (kd_keyspace d);
          (removal, tracker, g, net) \<leftarrow> sync_tasks (env_ops env) (env_client env channel) i (kd_keyspace d) ctx
            (removals_after s) (kd_removed d) (kd_modified d) g (cy_net st);
          let st = st\<lparr>cy_clients := clients, cy_group := g, cy_net := net\<rparr>;
          completed \<leftarrow> sync_wait (sync_polls s tracker) 0 (watcher_new (sync_start s) KEYSPACE_SYNC_TIMEOUT);
          Some (case removal of Inl e \<Rightarrow> Inl e | Inr u \<Rightarrow> if completed then Inr () else Inl TimedOut, st) }"

section \<open>The cycle\<close>

primrec sync_changes ::
  "('s, 'e, 'c, 'n) cycle_env \<Rightarrow> u8 \<Rightarrow> addr \<Rightarrow> keyspace_diff list \<Rightarrow> ('s, 'c, 'n) cycle_state \<Rightarrow> ('s, 'c, 'n) cycle_state exec" where
  "sync_changes env nid a [] st = Some st"
| "sync_changes env nid a (d # ds) st =
     do { (r, st) \<leftarrow> begin_keyspace_sync env nid a d st;
          sync_changes env nid a ds (case r of Inl e \<Rightarrow> st
            | Inr u \<Rightarrow> st\<lparr>cy_tracker := set_keyspace nid (kd_keyspace d) (kd_last_updated d) (cy_tracker st)\<rparr>) }"

primrec repair_members ::
  "('s, 'e, 'c, 'n) cycle_env \<Rightarrow> (u8 \<times> addr) list \<Rightarrow> ('s, 'c, 'n) cycle_state \<Rightarrow> ('s, 'c, 'n) cycle_state exec" where
  "repair_members env [] st = Some st"
| "repair_members env (m # ms) st =
     do { (r, st) \<leftarrow> check_node_changes env (fst m) (snd m) st;
          st \<leftarrow> (case r of Inl e \<Rightarrow> Some st | Inr changes \<Rightarrow> sync_changes env (fst m) (snd m) changes st);
          repair_members env ms st }"

definition cycle_change :: "membership_change \<Rightarrow> ('s, 'c, 'n) cycle_state \<Rightarrow> ('s, 'c, 'n) cycle_state" where
  "cycle_change changes st =
     st\<lparr>cy_members := apply_change changes (cy_members st),
        cy_tracker := fold (\<lambda>m. remove_node (member_id m)) (left_members changes) (cy_tracker st)\<rparr>"

text \<open>At each tick the state of the kill switch and the membership changes since the last.\<close>

primrec replication_cycle ::
  "('s, 'e, 'c, 'n) cycle_env \<Rightarrow> (bool \<times> membership_change list) list \<Rightarrow> ('s, 'c, 'n) cycle_state \<Rightarrow> ('s, 'c, 'n) cycle_state exec" where
  "replication_cycle env [] st = Some st"
| "replication_cycle env (ev # evs) st =
     (if fst ev then Some st
      else do { let st = fold cycle_change (snd ev) st;
                st \<leftarrow> repair_members env (cy_members st) st;
                replication_cycle env evs st })"

section \<open>The supervisor\<close>

text \<open>Polls at times without bound end: the counter rises finitely often, and a counter that stands still expires.\<close>

lemma sync_wait_returns:
  assumes time: "\<And>t j. \<exists>i \<ge> j. t < fst (polls i)" and bnd: "\<And>i. unat (progress_counter (snd (polls i))) \<le> n"
  shows "\<exists>b. sync_wait polls j w = Some b"
proof (induction "n - unat (last_observed_counter w)" arbitrary: j w rule: less_induct)
  case less
  have progress: "\<exists>b. sync_wait polls k w = Some b"
    if c: "\<not> tracker_done (snd (polls k))" "last_observed_counter w < progress_counter (snd (polls k))" for k
  proof -
    let ?w = "w\<lparr>last_tick := fst (polls k), last_observed_counter := progress_counter (snd (polls k))\<rparr>"
    have "n - unat (last_observed_counter ?w) < n - unat (last_observed_counter w)"
      using c(2) bnd [of k] by (simp add: word_less_nat_alt)
    from less [OF this] show ?thesis
      using c by (subst sync_wait.simps) (simp add: has_expired_def case_prod_beta Let_def)
  qed
  obtain i where i: "j \<le> i" "last_tick w + watch_timeout w < fst (polls i)" using time by blast
  from i(1) show ?case
  proof (induction rule: inc_induct)
    case base
    have "\<exists>b. sync_wait polls i w = Some b" if "tracker_done (snd (polls i)) \<or> \<not> last_observed_counter w < progress_counter (snd (polls i))"
      using that i(2) by (subst sync_wait.simps) (auto simp: has_expired_def case_prod_beta Let_def)
    then show ?case using progress [of i] by blast
  next
    case (step k)
    have "\<exists>b. sync_wait polls k w = Some b" if "tracker_done (snd (polls k)) \<or> \<not> last_observed_counter w < progress_counter (snd (polls k))"
      using that step.IH by (subst sync_wait.simps) (auto simp: has_expired_def case_prod_beta Let_def)
    then show ?case using progress [of k] by blast
  qed
qed

lemma sync_wait_found:
  assumes "sync_wait polls j w = Some b"
  shows "\<not> b \<or> (\<exists>i \<ge> j. tracker_done (snd (polls i)))"
proof (rule sync_wait.raw_induct [where P = "\<lambda>polls j w b. \<not> b \<or> (\<exists>i \<ge> j. tracker_done (snd (polls i)))", OF _ assms])
  fix sync_wait :: "(nat \<Rightarrow> duration \<times> progress_tracker) \<Rightarrow> nat \<Rightarrow> progress_watcher \<Rightarrow> bool option" and polls j w b
  assume ih: "\<And>polls j w b. sync_wait polls j w = Some b \<Longrightarrow> \<not> b \<or> (\<exists>i \<ge> j. tracker_done (snd (polls i)))"
    and run: "(let (now, tracker) = polls j; (expired, watcher) = has_expired now tracker w
      in if expired then Some False else if tracker_done tracker then Some True else sync_wait polls (Suc j) watcher) = Some b"
  show "\<not> b \<or> (\<exists>i \<ge> j. tracker_done (snd (polls i)))"
  proof (cases "tracker_done (snd (polls j)) \<or> \<not> b")
    case False
    then have "sync_wait polls (Suc j) (snd (has_expired (fst (polls j)) (snd (polls j)) w)) = Some b"
      using run by (simp add: case_prod_beta Let_def split: if_splits)
    from ih [OF this] show ?thesis using Suc_leD by blast
  qed blast
qed

lemma tracker_states_done: "t \<in> set (tracker_states final) \<Longrightarrow> tracker_done t \<Longrightarrow> tracker_done final"
  by (auto simp: tracker_states_def split: if_splits)

lemma tracker_states_counter:
  assumes "t \<in> set (tracker_states final)"
  shows "unat (progress_counter t) \<le> unat (progress_counter final)"
proof -
  have le: "unat (of_nat n :: u64) \<le> n" for n by (simp add: unat_of_nat)
  have "t \<in> (\<lambda>n. \<lparr>progress_counter = of_nat n, tracker_done = False\<rparr>) ` set [0..<Suc (unat (progress_counter final))] \<or> t = final"
    using assms by (simp add: tracker_states_def del: upt_Suc split: if_splits) blast
  then show ?thesis
  proof (elim disjE imageE)
    fix n assume "t = \<lparr>progress_counter = of_nat n, tracker_done = False\<rparr>" "n \<in> set [0..<Suc (unat (progress_counter final))]"
    then show ?thesis using le [of n] by (simp add: less_Suc_eq_le del: upt_Suc)
  qed simp
qed

end
