(* ===== verification/Repair.thy ===== *)
theory Repair
  imports Poller
begin

text \<open>
  What the replication cycle does for a node: the set and the documents a remote node sends are its
  own, the messages of a synchronisation write exactly what the difference names, the supervisor's
  loop ends, and a keyspace that was synchronised without an error holds what the remote node had
  newer. The two nodes are the locale \<open>replica_pair\<close>: two stores that keep the contract of \<open>storage\<close>.
\<close>

section \<open>Reading a remote node\<close>

definition remote_client ::
  "('t, 'x) storage_ops \<Rightarrow> ('x \<Rightarrow> string) \<Rightarrow> (orswot_set \<Rightarrow> u8 list option) \<Rightarrow> 't keyspace_group replication_rpc" where
  "remote_client rops te ser =
     \<lparr>rr_poll = (\<lambda>q h. do { (r, h) \<leftarrow> on_poll_keyspace (Some q) h; Some (map_sum id Some r, h) }),
      rr_state = (\<lambda>q h. do { (r, h) \<leftarrow> on_get_state ser (Some q) h; Some (map_sum id Some r, h) }),
      rr_fetch = (\<lambda>q h. do { (r, h) \<leftarrow> on_fetch_docs rops te (Some q) h; Some (map_sum id Some r, h) })\<rparr>"

abbreviation group_clock :: "'s keyspace_group \<Rightarrow> node_clock" where
  "group_clock g \<equiv> w_clock (g_world g)"

abbreviation group_store :: "'s keyspace_group \<Rightarrow> 's" where
  "group_store g \<equiv> w_store (g_world g)"

lemma group_clock_upd [simp]:
  "group_set (g\<lparr>g_world := w\<rparr>) = group_set g"
  "group_inv invar look (g\<lparr>g_world := (g_world g)\<lparr>w_clock := c\<rparr>\<rparr>) \<longleftrightarrow> group_inv invar look g"
  by (auto simp: group_set_def fun_eq_iff group_inv_def group_wf_def actor_inv_def split: option.split)

lemma clock_used_fit:
  "clock_used w w' \<Longrightarrow> clock_fit m (w_clock w) \<Longrightarrow> m < 2 ^ 16 - 1 \<Longrightarrow> clock_fit (Suc m) (w_clock w')"
  using clock_fit_get [of m "w_clock w"] clock_fit_mono [of m "w_clock w" "Suc m"] by (auto simp: clock_used_def)

lemma create_fit:
  assumes inv: "group_inv invar look g" and clk: "clock_fit m (group_clock g)" "m < 2 ^ 16 - 1"
  shows "\<exists>i g'. get_or_create_keyspace name g = Some (i, g') \<and> group_inv invar look g' \<and>
    map_of (g_group g') name = Some i \<and> group_store g' = group_store g \<and> group_set g' = group_set g \<and> clock_fit (Suc m) (group_clock g')"
proof -
  have "clock_answers (Suc 0) (group_clock g)" using clock_fit_answers [OF clk(1), of "Suc 0"] clk(2) by (simp del: clock_answers.simps)
  then obtain i g' where g': "get_or_create_keyspace name g = Some (i, g')" "group_inv invar look g'"
    "map_of (g_group g') name = Some i" "group_store g' = group_store g" "group_set g' = group_set g"
    using create_keeps [OF inv] by blast
  have "clock_used (g_world g) (g_world g')"
    using g'(1) by (auto simp: clock_used_def get_or_create_keyspace_def add_state_def spawn_state_def split: option.splits bind_splits)
  then show ?thesis using g' clock_used_fit clk by blast
qed

lemma send_fit:
  assumes inv: "group_inv invar look g" and i: "map_of (g_group g) name = Some i"
    and h: "takes invar known look (g_actors g ! i) (g_world g) h Q" and clk: "clock_fit m (group_clock g)" "m < 2 ^ 16 - 1"
  shows "\<exists>r g' st. send_to i h g = Some (r, g') \<and> group_inv invar look g' \<and> map_of (g_group g') name = Some i \<and>
    (\<forall>ks. known (group_store g) ks \<longrightarrow> known (group_store g') ks) \<and>
    group_set g' = (group_set g)(name := st) \<and> Q r st \<and> clock_fit (Suc m) (group_clock g')"
proof -
  obtain r a' w' where r: "h (g_actors g ! i) (g_world g) = Some (r, a', w')" "actor_inv invar look a' w'"
    "others_kept known look (g_actors g ! i) (g_world g) a' w'" "clock_used (g_world g) w'" "Q r (ks_state a')"
    using h by (auto simp: takes_def)
  obtain g' where g': "send_to i h g = Some (r, g')" "group_inv invar look g'" "g_group g' = g_group g" "g_world g' = w'"
    "group_set g' = (group_set g)(name := ks_state a')"
    using send_to_group [where h = h, OF inv i r(1-3)] by blast
  then show ?thesis using r(3,5) i clock_used_fit [OF r(4) clk] by (auto simp: others_kept_def)
qed

lemma send_read:
  assumes "group_inv invar look g" "map_of (g_group g) name = Some i"
  shows "send_to i (\<lambda>a w. Some (f a, a, w)) g = Some (f (g_actors g ! i), g)" "ks_state (g_actors g ! i) = group_set g name"
  using assms by (auto simp: send_to_def rust_assert_def group_inv_def group_wf_def group_set_def)

lemma get_time_fit:
  assumes "clock_fit m (group_clock g)" "m < 2 ^ 16 - 1"
  shows "\<exists>t c. group_get_time g = Some (t, g\<lparr>g_world := (g_world g)\<lparr>w_clock := c\<rparr>\<rparr>) \<and> clock_fit (Suc m) c \<and> unat (counter t) \<le> Suc m"
  using clock_fit_get [OF assms] by (auto simp: group_get_time_def)

lemma register_fit:
  assumes "clock_fit m (group_clock g)" "unat (counter t) \<le> m"
  shows "\<exists>c. group_register_ts t g = Some (g\<lparr>g_world := (g_world g)\<lparr>w_clock := c\<rparr>\<rparr>) \<and> clock_fit (Suc m) c"
  using clock_fit_register [OF assms] by (auto simp: group_register_ts_def)

text \<open>The set a remote node sends is its own.\<close>

lemma get_state_reads:
  assumes inv: "group_inv invar look h" and clk: "clock_fit m (group_clock h)" "unat (counter t) \<le> m" "m + 3 < 2 ^ 16"
  shows "\<exists>r h'. on_get_state ser (Some \<lparr>gs_keyspace = name, gs_timestamp = t\<rparr>) h = Some (r, h') \<and> group_inv invar look h' \<and>
    group_store h' = group_store h \<and> group_set h' = group_set h \<and> clock_fit (Suc (Suc (Suc m))) (group_clock h') \<and>
    (case r of Inl e \<Rightarrow> ser (group_set h name) = None
      | Inr x \<Rightarrow> ser (group_set h name) = Some (ko_set x) \<and> unat (counter (ko_timestamp x)) \<le> Suc (Suc (Suc m)))"
proof -
  obtain c1 where c1: "group_register_ts t h = Some (h\<lparr>g_world := (g_world h)\<lparr>w_clock := c1\<rparr>\<rparr>)" "clock_fit (Suc m) c1"
    using register_fit [OF clk(1,2)] by blast
  let ?h1 = "h\<lparr>g_world := (g_world h)\<lparr>w_clock := c1\<rparr>\<rparr>"
  obtain i h2 where h2: "get_or_create_keyspace name ?h1 = Some (i, h2)" "group_inv invar look h2"
    "map_of (g_group h2) name = Some i" "group_store h2 = group_store h" "group_set h2 = group_set h" "clock_fit (Suc (Suc m)) (group_clock h2)"
    using create_fit [of invar look ?h1 "Suc m" name] inv c1(2) clk(3) by auto
  obtain t3 c3 where c3: "group_get_time h2 = Some (t3, h2\<lparr>g_world := (g_world h2)\<lparr>w_clock := c3\<rparr>\<rparr>)" "clock_fit (Suc (Suc (Suc m))) c3" "unat (counter t3) \<le> Suc (Suc (Suc m))"
    using get_time_fit [OF h2(6)] clk(3) by auto
  note rd = send_read [OF h2(2,3)]
  show ?thesis
  proof (cases "ser (group_set h name)")
    case None
    have "clock_fit (Suc (Suc (Suc m))) (group_clock h2)" using clock_fit_mono [OF h2(6)] by simp
    then show ?thesis using c1(1) h2 None rd(2)
      by (simp add: on_get_state_def to_owned_def rd(1) on_serialize_def)
  next
    case (Some b)
    then show ?thesis using c1(1) h2 c3 rd(2)
      by (simp add: on_get_state_def to_owned_def rd(1) on_serialize_def)
  qed
qed

context storage
begin

lemma read_docs_law:
  assumes iv: "invar s0"
  shows "\<exists>r s. read_docs ops name ids s0 = Some (r, s) \<and> invar s \<and> look s = look s0 \<and>
    (\<forall>ds. r = Inr ds \<longrightarrow> mset ds = mset (List.map_filter (\<lambda>k. stored_doc (look s0 name k)) ids))"
proof (cases "\<exists>k. ids = [k]")
  case True
  then obtain k where k: "ids = [k]" by blast
  obtain r s where r: "st_get ops name k s0 = Some (r, s)" "invar s" "look s = look s0"
    "\<forall>d. r = Inr d \<longrightarrow> d = stored_doc (look s0 name k)"
    using fetch [OF iv] by blast
  show ?thesis
  proof (cases r)
    case (Inl e)
    then show ?thesis using r k by (simp add: read_docs_def)
  next
    case (Inr d)
    then have "r = Inr (stored_doc (look s0 name k))" using r(4) by simp
    then show ?thesis using r(1-3) k by (cases "stored_doc (look s0 name k)") (simp_all add: read_docs_def List.map_filter_def)
  qed
next
  case False
  then have "read_docs ops name ids s0 = st_multi_get ops name ids s0" by (auto simp: read_docs_def split: list.splits)
  moreover obtain r s where "st_multi_get ops name ids s0 = Some (r, s)" "invar s" "look s = look s0"
    "\<forall>ds. r = Inr ds \<longrightarrow> mset ds = mset (List.map_filter (\<lambda>k. stored_doc (look s0 name k)) ids)"
    using fetch_many [OF iv, of name ids] by blast
  ultimately show ?thesis by (intro exI [of _ r] exI [of _ s]) simp
qed

text \<open>The documents a node sends are those it has.\<close>

lemma fetch_docs_reads:
  assumes inv: "group_inv invar look h" and clk: "clock_fit m (group_clock h)" "unat (counter t) \<le> m" "m + 2 < 2 ^ 16"
  shows "\<exists>r h'. on_fetch_docs ops te (Some \<lparr>fd_keyspace = name, fd_doc_ids = ids, fd_timestamp = t\<rparr>) h = Some (r, h') \<and> group_inv invar look h' \<and>
    look (group_store h') = look (group_store h) \<and> group_set h' = group_set h \<and> clock_fit (Suc (Suc m)) (group_clock h') \<and>
    (\<forall>x. r = Inr x \<longrightarrow> mset (fe_documents x) = mset (List.map_filter (\<lambda>k. stored_doc (look (group_store h) name k)) ids) \<and>
       unat (counter (fe_timestamp x)) \<le> Suc (Suc m))"
proof -
  obtain c1 where c1: "group_register_ts t h = Some (h\<lparr>g_world := (g_world h)\<lparr>w_clock := c1\<rparr>\<rparr>)" "clock_fit (Suc m) c1"
    using register_fit [OF clk(1,2)] by blast
  have "invar (group_store h)" using inv by (simp add: group_inv_def)
  from read_docs_law [OF this, of name ids] obtain r s where r: "read_docs ops name ids (group_store h) = Some (r, s)" "invar s" "look s = look (group_store h)"
      "\<forall>ds. r = Inr ds \<longrightarrow> mset ds = mset (List.map_filter (\<lambda>k. stored_doc (look (group_store h) name k)) ids)" by blast
  let ?h = "h\<lparr>g_world := (g_world h)\<lparr>w_clock := c1, w_store := s\<rparr>\<rparr>"
  have h: "group_inv invar look ?h" "group_set ?h = group_set h" "clock_fit (Suc m) (group_clock ?h)"
    using inv r(2,3) c1(2) by (auto simp: group_inv_def group_wf_def actor_inv_def group_set_def)
  obtain t3 c3 where c3: "group_get_time ?h = Some (t3, ?h\<lparr>g_world := (g_world ?h)\<lparr>w_clock := c3\<rparr>\<rparr>)" "clock_fit (Suc (Suc m)) c3" "unat (counter t3) \<le> Suc (Suc m)"
    using get_time_fit [OF h(3)] clk(3) by auto
  have fit: "clock_fit (Suc (Suc m)) c1" using clock_fit_mono [OF c1(2)] by simp
  have run: "on_fetch_docs ops te (Some \<lparr>fd_keyspace = name, fd_doc_ids = ids, fd_timestamp = t\<rparr>) h =
      (case r of Inl e \<Rightarrow> Some (Inl (internal (te e)), ?h)
        | Inr ds \<Rightarrow> Some (Inr \<lparr>fe_documents = ds, fe_timestamp = t3\<rparr>, ?h\<lparr>g_world := (g_world ?h)\<lparr>w_clock := c3\<rparr>\<rparr>))"
    using c1(1) r(1) c3(1) by (simp add: on_fetch_docs_def to_owned_def split: sum.split)
  show ?thesis
  proof (cases r)
    case (Inl e)
    then show ?thesis using run h r(3) fit by simp
  next
    case (Inr ds)
    have "group_inv invar look (?h\<lparr>g_world := (g_world ?h)\<lparr>w_clock := c3\<rparr>\<rparr>)" "group_set (?h\<lparr>g_world := (g_world ?h)\<lparr>w_clock := c3\<rparr>\<rparr>) = group_set h"
      using h(1,2) group_clock_upd(2) [where g = ?h and c = c3] by simp_all
    then show ?thesis using run Inr r(3,4) c3(2,3) by simp
  qed
qed

end

text \<open>A call of the client to a remote node whose state may change; both clocks keep room.\<close>

lemma get_state_call:
  assumes inv: "group_inv invar look h" and clk: "clock_fit m c" "clock_fit m (group_clock h)" "m + 5 < 2 ^ 16"
    and rt: "\<And>st b. ser st = Some b \<Longrightarrow> deser b = Some st"
  shows "\<exists>r c' h'. client_get_state deser (rr_state (remote_client rops te ser)) name c h = Some (r, c', h') \<and> group_inv invar look h' \<and>
    group_store h' = group_store h \<and> group_set h' = group_set h \<and> clock_fit (m + 5) c' \<and> clock_fit (m + 5) (group_clock h') \<and>
    (case r of Inl e \<Rightarrow> ser (group_set h name) = None | Inr x \<Rightarrow> snd x = group_set h name)"
proof -
  obtain t c1 where c1: "clock_get c = Some (t, c1)" "clock_fit (Suc m) c1" "unat (counter t) \<le> Suc m"
    using clock_fit_get [OF clk(1)] clk(3) by auto
  obtain r h' where h': "on_get_state ser (Some \<lparr>gs_keyspace = name, gs_timestamp = t\<rparr>) h = Some (r, h')" "group_inv invar look h'"
    "group_store h' = group_store h" "group_set h' = group_set h" "clock_fit (Suc (Suc (Suc (Suc m)))) (group_clock h')"
    "case r of Inl e \<Rightarrow> ser (group_set h name) = None
      | Inr x \<Rightarrow> ser (group_set h name) = Some (ko_set x) \<and> unat (counter (ko_timestamp x)) \<le> Suc (Suc (Suc (Suc m)))"
    using get_state_reads [OF inv, of "Suc m" t ser name] clock_fit_mono [OF clk(2), of "Suc m"] c1(3) clk(3) by auto
  have fit: "clock_fit (m + 5) (group_clock h')" "clock_fit (m + 5) c1" "clock_fit (Suc (Suc (Suc (Suc m)))) c1"
    using clock_fit_mono [OF h'(5)] clock_fit_mono [OF c1(2)] by simp_all
  show ?thesis
  proof (cases r)
    case (Inl e)
    then show ?thesis using c1(1) h' fit by (simp add: client_get_state_def remote_client_def and_then_def)
  next
    case (Inr x)
    then have x: "ser (group_set h name) = Some (ko_set x)" "unat (counter (ko_timestamp x)) \<le> Suc (Suc (Suc (Suc m)))" using h'(6) by simp_all
    obtain c2 where c2: "clock_register (ko_timestamp x) c1 = Some c2" "clock_fit (Suc (Suc (Suc (Suc (Suc m))))) c2"
      using clock_fit_register [OF fit(3) x(2)] by blast
    have "clock_fit (m + 5) c2" using clock_fit_mono [OF c2(2)] by simp
    then show ?thesis using c1(1) h' fit Inr rt [OF x(1)] c2(1)
      by (simp add: client_get_state_def remote_client_def and_then_def to_owned_def)
  qed
qed

context storage
begin

lemma fetch_docs_call:
  assumes inv: "group_inv invar look h" and clk: "clock_fit m c" "clock_fit m (group_clock h)" "m + 4 < 2 ^ 16"
  shows "\<exists>r c' h'. client_fetch_docs (rr_fetch (remote_client ops te ser)) name ids c h = Some (r, c', h') \<and> group_inv invar look h' \<and>
    look (group_store h') = look (group_store h) \<and> group_set h' = group_set h \<and> clock_fit (m + 4) c' \<and> clock_fit (m + 4) (group_clock h') \<and>
    (\<forall>ds. r = Inr ds \<longrightarrow> mset ds = mset (List.map_filter (\<lambda>k. stored_doc (look (group_store h) name k)) ids))"
proof -
  obtain t c1 where c1: "clock_get c = Some (t, c1)" "clock_fit (Suc m) c1" "unat (counter t) \<le> Suc m"
    using clock_fit_get [OF clk(1)] clk(3) by auto
  obtain r h' where h': "on_fetch_docs ops te (Some \<lparr>fd_keyspace = name, fd_doc_ids = ids, fd_timestamp = t\<rparr>) h = Some (r, h')" "group_inv invar look h'"
    "look (group_store h') = look (group_store h)" "group_set h' = group_set h" "clock_fit (Suc (Suc (Suc m))) (group_clock h')"
    "\<forall>x. r = Inr x \<longrightarrow> mset (fe_documents x) = mset (List.map_filter (\<lambda>k. stored_doc (look (group_store h) name k)) ids) \<and>
       unat (counter (fe_timestamp x)) \<le> Suc (Suc (Suc m))"
    using fetch_docs_reads [OF inv, of "Suc m" t te name ids] clock_fit_mono [OF clk(2), of "Suc m"] c1(3) clk(3) by auto
  have fit: "clock_fit (m + 4) (group_clock h')" "clock_fit (m + 4) c1" "clock_fit (Suc (Suc (Suc m))) c1"
    using clock_fit_mono [OF h'(5)] clock_fit_mono [OF c1(2)] by simp_all
  show ?thesis
  proof (cases r)
    case (Inl e)
    then show ?thesis using c1(1) h' fit by (simp add: client_fetch_docs_def remote_client_def)
  next
    case (Inr x)
    then obtain c2 where c2: "clock_register (fe_timestamp x) c1 = Some c2" "clock_fit (Suc (Suc (Suc (Suc m)))) c2"
      using clock_fit_register [OF fit(3)] h'(6) by blast
    have "clock_fit (m + 4) c2" using clock_fit_mono [OF c2(2)] by simp
    then show ?thesis using c1(1) h' fit Inr c2(1)
      by (simp add: client_fetch_docs_def remote_client_def)
  qed
qed

end

text \<open>The difference a node computes is that of its own set and the remote one.\<close>

lemma diff_of_remote:
  assumes inv: "group_inv invar look g" "group_inv rinvar rlook h"
    and clk: "clock_fit m (group_clock g)" "clock_fit m (group_clock h)" "m + 6 < 2 ^ 16"
    and rt: "\<And>st b. ser st = Some b \<Longrightarrow> deser b = Some st"
  shows "\<exists>r g' h'. get_keyspace_diff deser (remote_client rops te ser) name nid a g h = Some (r, g', h') \<and>
    group_inv invar look g' \<and> group_inv rinvar rlook h' \<and> group_store g' = group_store g \<and> group_store h' = group_store h \<and>
    group_set g' = group_set g \<and> group_set h' = group_set h \<and> clock_fit (m + 6) (group_clock g') \<and> clock_fit (m + 6) (group_clock h') \<and>
    (case r of Inl e \<Rightarrow> ser (group_set h name) = None
      | Inr d \<Rightarrow> kd_keyspace d = name \<and>
          kd_modified d = map (\<lambda>(k, t). metadata_new k t) (fst (orswot_diff (group_set g name) (group_set h name))) \<and>
          kd_removed d = map (\<lambda>(k, t). metadata_new k t) (snd (orswot_diff (group_set g name) (group_set h name))))"
proof -
  obtain i g1 where g1: "get_or_create_keyspace name g = Some (i, g1)" "group_inv invar look g1" "map_of (g_group g1) name = Some i"
    "group_store g1 = group_store g" "group_set g1 = group_set g" "clock_fit (Suc m) (group_clock g1)"
    using create_fit [OF inv(1) clk(1), of name] clk(3) by auto
  have "clock_fit (Suc m) (group_clock h)" using clock_fit_mono [OF clk(2)] by simp
  from get_state_call [where ser = ser and deser = deser and rops = rops and te = te and name = name, OF inv(2) g1(6) this _ rt] clk(3)
  obtain r c' h' where h': "client_get_state deser (rr_state (remote_client rops te ser)) name (group_clock g1) h = Some (r, c', h')" "group_inv rinvar rlook h'"
    "group_store h' = group_store h" "group_set h' = group_set h" "clock_fit (Suc m + 5) c'" "clock_fit (Suc m + 5) (group_clock h')"
    "case r of Inl e \<Rightarrow> ser (group_set h name) = None | Inr x \<Rightarrow> snd x = group_set h name" by auto
  have fit: "clock_fit (m + 6) c'" "clock_fit (m + 6) (group_clock h')"
    using clock_fit_mono [OF h'(5), of "m + 6"] clock_fit_mono [OF h'(6), of "m + 6"] by simp_all
  let ?g = "g1\<lparr>g_world := (g_world g1)\<lparr>w_clock := c'\<rparr>\<rparr>"
  have v: "via_clock (client_get_state deser (rr_state (remote_client rops te ser)) name) g1 h = Some (r, ?g, h')"
    using h'(1) by (simp add: via_clock_def)
  have inv': "group_inv invar look ?g" "map_of (g_group ?g) name = Some i" using g1(2,3) by simp_all
  note rd = send_read [OF inv', unfolded group_clock_upd g1(5)]
  show ?thesis
  proof (cases r)
    case (Inl e)
    then show ?thesis using g1 h' v fit by (simp add: get_keyspace_diff_def)
  next
    case (Inr x)
    then obtain u where "x = (u, group_set h name)" using h'(7) by (cases x) simp
    then show ?thesis using g1 h' v fit Inr rd(2)
      by (simp add: get_keyspace_diff_def rd(1) on_diff_def case_prod_beta)
  qed
qed

section \<open>Writing what a remote node has\<close>

lemma on_del_in_order:
  assumes "actor_wf a" "del_source msg < NUM_SOURCES" "on_del ops msg a w = Some (r, a', w')"
    and "in_order src t (ks_state a)"
    and "del_source msg = src \<longrightarrow> node (md_last_updated (del_doc msg)) = node t \<longrightarrow> md_last_updated (del_doc msg) \<le> t"
  shows "in_order src t (ks_state a')"
proof -
  let ?op = "DeleteOp (del_source msg) (md_id (del_doc msg)) (md_last_updated (del_doc msg))"
  have "ks_state a' = ks_state a \<or>
      (\<exists>b. delete_with_source (del_source msg) (md_id (del_doc msg)) (md_last_updated (del_doc msg)) (ks_state a) = Some (b, ks_state a'))"
    using assms(3) by (auto simp: on_del_def inc_change_timestamp_def Let_def split: if_splits bind_splits sum.splits) metis
  then have "ks_state a' = ks_state a \<or> apply_op ?op (ks_state a) = Some (ks_state a')" by auto
  then show ?thesis
    using in_order_kept [of NUM_SOURCES "ks_state a" ?op "ks_state a'" src t] assms by (auto simp: actor_wf_def)
qed

text \<open>The timestamps of entries, and what a message of the replication cycle does with its entries.\<close>

definition entry_stamps :: "(key \<times> lww_register) list \<Rightarrow> hlc_timestamp list" where
  "entry_stamps es = List.map_filter (\<lambda>e. reg_ts (snd e)) es"

lemma entry_stamps_simps [simp]:
  "entry_stamps [] = []" "entry_stamps (es @ fs) = entry_stamps es @ entry_stamps fs"
  "entry_stamps (live_entries ds) = map last_updated ds" "entry_stamps (dead_entries ms) = map md_last_updated ms"
  by (simp_all add: entry_stamps_def List.map_filter_def live_entries_def dead_entries_def comp_def)

definition repairs :: "(key \<times> lww_register) list \<Rightarrow> orswot_set \<Rightarrow> 'a + 'b \<Rightarrow> orswot_set \<Rightarrow> bool" where
  "repairs es st r st' \<longleftrightarrow> keeps_order READ_REPAIR_SOURCE_ID (entry_stamps es) st st' \<and>
     (is_ok r \<longrightarrow> writes es (\<lambda>k. True) st st')"

lemma keeps_order_trans: "keeps_order src ts a b \<Longrightarrow> keeps_order src us b c \<Longrightarrow> keeps_order src (ts @ us) a c"
  by (simp add: keeps_order_def)

lemma keeps_order_refl: "keeps_order src ts a a"
  by (simp add: keeps_order_def)

lemma keeps_order_more: "keeps_order src ts a b \<Longrightarrow> set ts \<subseteq> set us \<Longrightarrow> keeps_order src us a b"
  by (auto simp: keeps_order_def)

lemma writes_Nil: "writes [] P st st" by (simp add: writes_def)

lemma writes_all: "writes es (\<lambda>k. True) a b \<longleftrightarrow> (\<forall>k. reg_of b k = overwrite (reg_of a k) (entry_at es k))"
proof -
  have "(case map_of es k of Some e \<Rightarrow> if True then overwrite r e else r | None \<Rightarrow> r) = overwrite r (entry_at es k)" for r k
    by (simp add: entry_at_def split: option.split)
  then show ?thesis by (simp only: writes_def)
qed

lemma writes_append:
  assumes "writes es (\<lambda>k. True) a b" "writes fs (\<lambda>k. True) b c" "fst ` set es \<inter> fst ` set fs = {}"
  shows "writes (es @ fs) (\<lambda>k. True) a c"
proof -
  have "entry_at fs k = Absent \<and> entry_at (es @ fs) k = entry_at es k \<or> entry_at es k = Absent \<and> entry_at (es @ fs) k = entry_at fs k" for k
  proof -
    have "map_of fs k = None \<or> map_of es k = None" using assms(3) unfolding map_of_eq_None_iff by blast
    then show ?thesis by (auto simp: entry_at_def map_add_def split: option.splits)
  qed
  then show ?thesis using assms(1,2) by (auto simp: writes_all) (metis overwrite.simps(1))
qed

lemma writes_cong: "map_of es = map_of fs \<Longrightarrow> writes es P a b = writes fs P a b"
  by (simp add: writes_def)

lemma repairs_append:
  assumes "repairs es a (Inr u) b" "repairs fs b r c" "fst ` set es \<inter> fst ` set fs = {}"
  shows "repairs (es @ fs) a r c"
  using assms writes_append keeps_order_trans by (auto simp: repairs_def)

lemma repairs_fail: "repairs es a (Inl e) b \<Longrightarrow> repairs (es @ fs) a (Inl e') b"
  using keeps_order_more [of READ_REPAIR_SOURCE_ID "entry_stamps es" a b "entry_stamps (es @ fs)"] by (auto simp: repairs_def)

lemma repairs_result: "repairs es a r b \<Longrightarrow> is_ok r' = is_ok r \<Longrightarrow> repairs es a r' b"
  by (simp add: repairs_def)

lemma entries_ok_stamps:
  "entries_ok src es st \<longleftrightarrow> distinct (map fst es) \<and> (\<forall>t \<in> set (entry_stamps es). in_order src t st)"
proof -
  have "set (entry_stamps es) = {t. \<exists>e \<in> set es. reg_ts (snd e) = Some t}"
    by (force simp: entry_stamps_def List.map_filter_def)
  then show ?thesis by (auto simp: entries_ok_def list_all_iff split: option.splits)
qed

lemma entries_ok_append:
  "entries_ok src (es @ fs) st \<longleftrightarrow> entries_ok src es st \<and> entries_ok src fs st \<and> fst ` set es \<inter> fst ` set fs = {}"
  by (auto simp: entries_ok_def)

text \<open>No entry is older than one of its node that comes before it.\<close>

definition stamps_before :: "(key \<times> lww_register) list \<Rightarrow> (key \<times> lww_register) list \<Rightarrow> bool" where
  "stamps_before es fs \<longleftrightarrow> (\<forall>u \<in> set (entry_stamps es). \<forall>t \<in> set (entry_stamps fs). node u = node t \<longrightarrow> u \<le> t)"

lemma entries_ok_later:
  assumes "repairs es st r st'" "entries_ok READ_REPAIR_SOURCE_ID fs st" "stamps_before es fs"
  shows "entries_ok READ_REPAIR_SOURCE_ID fs st'"
  using assms by (auto simp: entries_ok_stamps repairs_def keeps_order_def stamps_before_def)

context storage
begin

lemma on_del_repairs:
  assumes inv: "actor_inv invar look a w" and kn: "known (w_store w) (ks_name a)"
    and ord: "in_order READ_REPAIR_SOURCE_ID (md_last_updated d) (ks_state a)" and clk: "clock_answers 1 (w_clock w)"
  shows "takes invar known look a w (on_del ops \<lparr>del_source = READ_REPAIR_SOURCE_ID, del_doc = d\<rparr>) (\<lambda>r. repairs (dead_entries [d]) (ks_state a) r)"
proof -
  let ?msg = "\<lparr>del_source = READ_REPAIR_SOURCE_ID, del_doc = d\<rparr>"
  obtain r a' w' where r: "on_del ops ?msg a w = Some (r, a', w')" "actor_inv invar look a' w'" "others_kept known look a w a' w'"
    "clock_used w w'" "writes (dead_entries [d]) (\<lambda>k. is_ok r) (ks_state a) (ks_state a')"
    using on_del_takes [OF inv, of ?msg] kn ord clk sources unfolding takes_def by auto
  have "actor_wf a" using inv by (simp add: actor_inv_def)
  then have "keeps_order READ_REPAIR_SOURCE_ID [md_last_updated d] (ks_state a) (ks_state a')"
    using on_del_in_order [OF _ _ r(1)] sources by (auto simp: keeps_order_def)
  then show ?thesis using r unfolding takes_def repairs_def by (cases "is_ok r") auto
qed

lemma on_multi_del_repairs:
  assumes inv: "actor_inv invar look a w" and kn: "known (w_store w) (ks_name a)"
    and ok: "entries_ok READ_REPAIR_SOURCE_ID (dead_entries ds) (ks_state a)" and clk: "clock_answers 1 (w_clock w)"
  shows "takes invar known look a w (on_multi_del ops \<lparr>mdel_source = READ_REPAIR_SOURCE_ID, mdel_docs = ds\<rparr>) (\<lambda>r. repairs (dead_entries ds) (ks_state a) r)"
proof -
  have "repairs (dead_entries ds) (ks_state a) r st"
    if "writes (dead_entries ds) (applied r) (ks_state a) st \<and> keeps_order READ_REPAIR_SOURCE_ID (map md_last_updated ds) (ks_state a) st" for r :: "'e bulk_result" and st
    using that by (cases r) (auto simp: repairs_def applied_ok)
  then show ?thesis
    using on_multi_del_takes [OF inv, of "\<lparr>mdel_source = READ_REPAIR_SOURCE_ID, mdel_docs = ds\<rparr>"] kn ok clk sources
    by (auto elim!: takes_mono)
qed

lemma on_multi_set_repairs:
  assumes inv: "actor_inv invar look a w"
    and ok: "entries_ok READ_REPAIR_SOURCE_ID (live_entries ds) (ks_state a)" and clk: "clock_answers 1 (w_clock w)"
  shows "takes invar known look a w (on_multi_set ops \<lparr>mset_source = READ_REPAIR_SOURCE_ID, mset_docs = ds, mset_ctx = ctx\<rparr>) (\<lambda>r. repairs (live_entries ds) (ks_state a) r)"
proof -
  have "repairs (live_entries ds) (ks_state a) r st"
    if "writes (live_entries ds) (applied r) (ks_state a) st \<and> keeps_order READ_REPAIR_SOURCE_ID (map last_updated ds) (ks_state a) st" for r :: "'e bulk_result" and st
    using that by (cases r) (auto simp: repairs_def applied_ok)
  then show ?thesis
    using on_multi_set_takes [OF inv, of "\<lparr>mset_source = READ_REPAIR_SOURCE_ID, mset_docs = ds, mset_ctx = ctx\<rparr>"] ok clk sources
    by (auto elim!: takes_mono)
qed

text \<open>The removal task.\<close>

lemma removals_repair:
  assumes inv: "group_inv invar look g" and i: "map_of (g_group g) name = Some i"
    and clk: "clock_fit m (group_clock g)" "m + 1 < 2 ^ 16" and kn: "ds \<noteq> [] \<Longrightarrow> known (group_store g) name"
    and ok: "entries_ok READ_REPAIR_SOURCE_ID (dead_entries ds) (group_set g name)"
  shows "\<exists>r g' st. handle_removals ops i ds g = Some (r, g') \<and> group_inv invar look g' \<and> map_of (g_group g') name = Some i \<and>
    group_set g' = (group_set g)(name := st) \<and> repairs (dead_entries ds) (group_set g name) r st \<and> clock_fit (Suc m) (group_clock g')"
proof -
  have a: "actor_inv invar look (g_actors g ! i) (g_world g)" "ks_name (g_actors g ! i) = name" "ks_state (g_actors g ! i) = group_set g name"
    using inv i send_read(2) [OF inv i] by (auto simp: group_inv_def group_wf_def)
  have ca: "clock_answers 1 (group_clock g)" using clock_fit_answers [OF clk(1), of 1] clk(2) by (simp del: clock_answers.simps)
  have m: "m < 2 ^ 16 - 1" using clk(2) by simp
  consider "ds = []" | d where "ds = [d]" | "\<nexists>d. ds = [d]" "ds \<noteq> []" by blast
  then show ?thesis
  proof cases
    case 1
    have "repairs [] (group_set g name) (Inr () :: 'e sync_error + unit) (group_set g name)"
      by (simp add: repairs_def keeps_order_refl writes_Nil)
    then show ?thesis
      using 1 inv i clock_fit_mono [OF clk(1), of "Suc m"]
      by (intro exI [of _ "Inr ()"] exI [of _ g] exI [of _ "group_set g name"]) (simp add: handle_removals_def dead_entries_def)
  next
    case (2 d)
    have "takes invar known look (g_actors g ! i) (g_world g) (on_del ops \<lparr>del_source = READ_REPAIR_SOURCE_ID, del_doc = d\<rparr>)
        (\<lambda>r. repairs (dead_entries [d]) (group_set g name) r)"
      using on_del_repairs [OF a(1), of d] kn ok ca 2 a(2,3) by simp
    from send_fit [OF inv i this clk(1) m] obtain r g' st where
      "send_to i (on_del ops \<lparr>del_source = READ_REPAIR_SOURCE_ID, del_doc = d\<rparr>) g = Some (r, g')" "group_inv invar look g'"
      "map_of (g_group g') name = Some i" "group_set g' = (group_set g)(name := st)"
      "repairs (dead_entries [d]) (group_set g name) r st" "clock_fit (Suc m) (group_clock g')" by blast
    then show ?thesis using 2
      by (intro exI [of _ "map_sum StoreFailed id r"] exI [of _ g'] exI [of _ st]) (cases r; simp add: handle_removals_def repairs_def)
  next
    case 3
    have "takes invar known look (g_actors g ! i) (g_world g) (on_multi_del ops \<lparr>mdel_source = READ_REPAIR_SOURCE_ID, mdel_docs = ds\<rparr>)
        (\<lambda>r. repairs (dead_entries ds) (group_set g name) r)"
      using on_multi_del_repairs [OF a(1), of ds] kn ok ca 3 a(2,3) by simp
    from send_fit [OF inv i this clk(1) m] obtain r g' st where
      "send_to i (on_multi_del ops \<lparr>mdel_source = READ_REPAIR_SOURCE_ID, mdel_docs = ds\<rparr>) g = Some (r, g')" "group_inv invar look g'"
      "map_of (g_group g') name = Some i" "group_set g' = (group_set g)(name := st)"
      "repairs (dead_entries ds) (group_set g name) r st" "clock_fit (Suc m) (group_clock g')" by blast
    moreover have "handle_removals ops i ds g = do { (r, g) \<leftarrow> send_to i (on_multi_del ops \<lparr>mdel_source = READ_REPAIR_SOURCE_ID, mdel_docs = ds\<rparr>) g;
                  Some (map_sum BulkFailed id r, g) }"
      using 3 by (auto simp: handle_removals_def split: list.splits)
    ultimately show ?thesis
      by (intro exI [of _ "map_sum BulkFailed id r"] exI [of _ g'] exI [of _ st]) (cases r; simp add: repairs_def)
  qed
qed

end

section \<open>A pair of nodes\<close>

definition meta_live :: "document_metadata list \<Rightarrow> (key \<times> lww_register) list" where
  "meta_live ms = map (\<lambda>m. (md_id m, Live (md_last_updated m))) ms"

lemma entry_stamps_meta [simp]: "entry_stamps (meta_live ms) = map md_last_updated ms"
  by (simp add: entry_stamps_def meta_live_def List.map_filter_def comp_def)

text \<open>The documents of these ids and timestamps are stored, each under its id.\<close>

definition offers :: "(key \<rightharpoonup> stored) \<Rightarrow> document_metadata list \<Rightarrow> bool" where
  "offers l ms \<longleftrightarrow> (\<forall>m \<in> set ms. \<exists>d. l (md_id m) = Some (Doc d) \<and> doc_id d = md_id m \<and> last_updated d = md_last_updated m)"

lemma concat_chunks: "0 < n \<Longrightarrow> concat (chunks n xs) = xs"
  by (induction n xs rule: chunks.induct) (subst chunks.simps, auto)

text \<open>The messages of a synchronisation as the schedule orders them, each with its entries.\<close>

definition sync_entries :: "nat \<Rightarrow> document_metadata list \<Rightarrow> document_metadata list \<Rightarrow> (key \<times> lww_register) list list" where
  "sync_entries m removed modified =
     (let css = map meta_live (chunks MAX_NUMBER_OF_DOCS_PER_FETCH modified)
      in take m css @ [dead_entries removed] @ drop m css)"

lemma map_filter_all: "\<forall>x \<in> set xs. f x \<noteq> None \<Longrightarrow> List.map_filter f xs = map (\<lambda>x. the (f x)) xs"
  by (induction xs) auto

lemma offered_docs:
  assumes "offers l ms" "distinct (map md_id ms)" "mset ds = mset (List.map_filter (\<lambda>k. stored_doc (l k)) (map md_id ms))"
  shows "map_of (live_entries ds) = map_of (meta_live ms)" "distinct (map doc_id ds)" "set (map last_updated ds) = set (entry_stamps (meta_live ms))"
proof -
  define D where "D = map (\<lambda>m. the (stored_doc (l (md_id m)))) ms"
  have D: "doc_id (the (stored_doc (l (md_id m)))) = md_id m \<and> last_updated (the (stored_doc (l (md_id m)))) = md_last_updated m \<and>
      stored_doc (l (md_id m)) \<noteq> None" if "m \<in> set ms" for m
    using assms(1) that by (force simp: offers_def)
  then have "List.map_filter (\<lambda>k. stored_doc (l k)) (map md_id ms) = D"
    by (subst map_filter_all) (auto simp: D_def)
  then have ms: "mset ds = mset D" using assms(3) by simp
  have "live_entries D = meta_live ms" using D by (simp add: live_entries_def meta_live_def D_def)
  moreover have "mset (live_entries ds) = mset (live_entries D)" using ms by (simp add: live_entries_def)
  ultimately have le: "mset (live_entries ds) = mset (meta_live ms)" by simp
  have keys: "map fst (meta_live ms) = map md_id ms" "map fst (live_entries ds) = map doc_id ds"
    by (simp_all add: meta_live_def live_entries_def)
  have "mset (map doc_id ds) = mset (map md_id ms)" unfolding keys [symmetric] mset_map le ..
  then show dist: "distinct (map doc_id ds)" using assms(2) mset_eq_imp_distinct_iff by blast
  show "map_of (live_entries ds) = map_of (meta_live ms)"
    using le dist assms(2) keys by (metis map_of_inject_set mset_eq_setD)
  have "set (entry_stamps (live_entries ds)) = set (entry_stamps (meta_live ms))"
    using mset_eq_setD [OF le] by (simp add: entry_stamps_def List.map_filter_def)
  then show "set (map last_updated ds) = set (entry_stamps (meta_live ms))" by simp
qed

locale replica_pair = storage ops invar known look + remote: storage rops rinvar rknown rlook
  for ops :: "('s, 'e) storage_ops" and invar known look
  and rops :: "('t, 'x) storage_ops" and rinvar rknown rlook
begin

lemma chunk_repairs:
  assumes inv: "group_inv invar look g" "group_inv rinvar rlook h" and i: "map_of (g_group g) name = Some i"
    and clk: "clock_fit m (group_clock g)" "clock_fit m (group_clock h)" "m + 5 < 2 ^ 16"
    and off: "offers (rlook (group_store h) name) ms" and ok: "entries_ok READ_REPAIR_SOURCE_ID (meta_live ms) (group_set g name)"
  shows "\<exists>r g' h' st. handle_chunk ops (remote_client rops te ser) i name ctx (map md_id ms) g h = Some (r, g', h') \<and>
    group_inv invar look g' \<and> group_inv rinvar rlook h' \<and> map_of (g_group g') name = Some i \<and>
    (\<forall>ks. known (group_store g) ks \<longrightarrow> known (group_store g') ks) \<and>
    rlook (group_store h') = rlook (group_store h) \<and> group_set h' = group_set h \<and>
    group_set g' = (group_set g)(name := st) \<and> repairs (meta_live ms) (group_set g name) r st \<and>
    clock_fit (m + 5) (group_clock g') \<and> clock_fit (m + 5) (group_clock h')"
proof -
  have "m + 4 < 2 ^ 16" using clk(3) by simp
  from remote.fetch_docs_call [OF inv(2) clk(1,2) this, of te ser name "map md_id ms"]
  obtain r c h' where h': "client_fetch_docs (rr_fetch (remote_client rops te ser)) name (map md_id ms) (group_clock g) h = Some (r, c, h')"
    "group_inv rinvar rlook h'" "rlook (group_store h') = rlook (group_store h)" "group_set h' = group_set h"
    "clock_fit (m + 4) c" "clock_fit (m + 4) (group_clock h')"
    "\<forall>ds. r = Inr ds \<longrightarrow> mset ds = mset (List.map_filter (\<lambda>k. stored_doc (rlook (group_store h) name k)) (map md_id ms))" by blast
  have fit: "clock_fit (m + 5) c" "clock_fit (m + 5) (group_clock h')"
    using clock_fit_mono [OF h'(5), of "m + 5"] clock_fit_mono [OF h'(6), of "m + 5"] by simp_all
  let ?g = "g\<lparr>g_world := (g_world g)\<lparr>w_clock := c\<rparr>\<rparr>"
  have g: "group_inv invar look ?g" "map_of (g_group ?g) name = Some i" "clock_fit (m + 4) (group_clock ?g)" using inv(1) i h'(5) by simp_all
  have v: "via_clock (client_fetch_docs (rr_fetch (remote_client rops te ser)) name (map md_id ms)) g h = Some (r, ?g, h')"
    using h'(1) by (simp add: via_clock_def)
  show ?thesis
  proof (cases r)
    case (Inl e)
    have "repairs (meta_live ms) (group_set g name) (Inl (RpcFailed e) :: 'e sync_error + unit) (group_set g name)"
      by (simp add: repairs_def keeps_order_refl)
    then show ?thesis using inv h' fit i v Inl
      by (intro exI [of _ "Inl (RpcFailed e)"] exI [of _ ?g] exI [of _ h'] exI [of _ "group_set g name"]) (simp add: handle_chunk_def)
  next
    case (Inr ds)
    have "distinct (map md_id ms)" using ok by (simp add: entries_ok_def meta_live_def comp_def)
    note ds = offered_docs [OF off this h'(7) [rule_format, OF Inr]]
    have ok': "entries_ok READ_REPAIR_SOURCE_ID (live_entries ds) (group_set g name)"
      using ok ds(2) unfolding entries_ok_docs entries_ok_stamps [of _ "meta_live ms"] ds(3) [symmetric] by simp
    have a: "actor_inv invar look (g_actors ?g ! i) (g_world ?g)" using g(1,2) by (simp add: group_inv_def)
    have st: "ks_state (g_actors ?g ! i) = group_set g name" using send_read(2) [OF g(1,2)] by simp
    have "clock_answers 1 (group_clock ?g)" using clock_fit_answers [OF g(3), of 1] clk(3) by (simp del: clock_answers.simps)
    from on_multi_set_repairs [OF a _ this] ok' st
    have tk: "takes invar known look (g_actors ?g ! i) (g_world ?g) (on_multi_set ops \<lparr>mset_source = READ_REPAIR_SOURCE_ID, mset_docs = ds, mset_ctx = Some ctx\<rparr>)
        (\<lambda>r. repairs (live_entries ds) (group_set g name) r)" by simp
    have m4: "m + 4 < 2 ^ 16 - 1" using clk(3) by simp
    from send_fit [OF g(1,2) tk g(3) m4] obtain r' g' st where g':
      "send_to i (on_multi_set ops \<lparr>mset_source = READ_REPAIR_SOURCE_ID, mset_docs = ds, mset_ctx = Some ctx\<rparr>) ?g = Some (r', g')" "group_inv invar look g'"
      "map_of (g_group g') name = Some i" "\<forall>ks. known (group_store ?g) ks \<longrightarrow> known (group_store g') ks"
      "group_set g' = (group_set g)(name := st)" "repairs (live_entries ds) (group_set g name) r' st" "clock_fit (Suc (m + 4)) (group_clock g')" by auto
    have "clock_fit (m + 5) (group_clock g')" using clock_fit_mono [OF g'(7)] by simp
    moreover have "repairs (meta_live ms) (group_set g name) (map_sum BulkFailed id r') st"
      using g'(6) keeps_order_more [of READ_REPAIR_SOURCE_ID "map last_updated ds" "group_set g name" st "entry_stamps (meta_live ms)"] ds(3)
      unfolding repairs_def writes_cong [OF ds(1)] by (cases r') simp_all
    ultimately show ?thesis using g' h' fit v Inr
      by (intro exI [of _ "map_sum BulkFailed id r'"] exI [of _ g'] exI [of _ h'] exI [of _ st]) (simp add: handle_chunk_def)
  qed
qed


text \<open>
  Chunks one after the other: no entry of a chunk is older than one of its node in a chunk before.
\<close>

lemma chunks_repair:
  assumes "group_inv invar look g" "group_inv rinvar rlook h" "map_of (g_group g) name = Some i"
    and "clock_fit m (group_clock g)" "clock_fit m (group_clock h)" "m + 5 * length mss < 2 ^ 16"
    and "offers (rlook (group_store h) name) (concat mss)" "entries_ok READ_REPAIR_SOURCE_ID (meta_live (concat mss)) (group_set g name)"
    and "sorted_wrt stamps_before (map meta_live mss)"
  shows "\<exists>r ctx' g' h' st. handle_chunks ops (remote_client rops te ser) i name ctx (map (map md_id) mss) g h = Some (r, ctx', g', h') \<and>
    group_inv invar look g' \<and> group_inv rinvar rlook h' \<and> map_of (g_group g') name = Some i \<and>
    (\<forall>ks. known (group_store g) ks \<longrightarrow> known (group_store g') ks) \<and>
    rlook (group_store h') = rlook (group_store h) \<and> group_set h' = group_set h \<and>
    group_set g' = (group_set g)(name := st) \<and> repairs (meta_live (concat mss)) (group_set g name) r st \<and>
    clock_fit (m + 5 * length mss) (group_clock g') \<and> clock_fit (m + 5 * length mss) (group_clock h') \<and>
    tracker_done (ctx_progress ctx') = tracker_done (ctx_progress ctx)"
  using assms
proof (induction mss arbitrary: g h m ctx)
  case Nil
  then show ?case by (auto simp: meta_live_def repairs_def keeps_order_refl writes_Nil intro!: exI [of _ "group_set g name"])
next
  case (Cons ms mss)
  have split: "meta_live (concat (ms # mss)) = meta_live ms @ meta_live (concat mss)" by (simp add: meta_live_def)
  have ok: "entries_ok READ_REPAIR_SOURCE_ID (meta_live ms) (group_set g name)" "entries_ok READ_REPAIR_SOURCE_ID (meta_live (concat mss)) (group_set g name)"
    "fst ` set (meta_live ms) \<inter> fst ` set (meta_live (concat mss)) = {}"
    using Cons.prems(8) unfolding split entries_ok_append by simp_all
  have off: "offers (rlook (group_store h) name) ms" "offers (rlook (group_store h) name) (concat mss)"
    using Cons.prems(7) by (auto simp: offers_def)
  have "m + 5 < 2 ^ 16" using Cons.prems(6) by simp
  from chunk_repairs [OF Cons.prems(1-5) this off(1) ok(1), of te ser ctx] obtain r g1 h1 st where
    g1: "handle_chunk ops (remote_client rops te ser) i name ctx (map md_id ms) g h = Some (r, g1, h1)" "group_inv invar look g1" "group_inv rinvar rlook h1"
      "map_of (g_group g1) name = Some i" "\<forall>ks. known (group_store g) ks \<longrightarrow> known (group_store g1) ks"
      "rlook (group_store h1) = rlook (group_store h)" "group_set h1 = group_set h" "group_set g1 = (group_set g)(name := st)"
      "repairs (meta_live ms) (group_set g name) r st" "clock_fit (m + 5) (group_clock g1)" "clock_fit (m + 5) (group_clock h1)" by blast
  show ?case
  proof (cases r)
    case (Inl e)
    have "clock_fit (m + 5 * length (ms # mss)) (group_clock g1)" "clock_fit (m + 5 * length (ms # mss)) (group_clock h1)"
      using clock_fit_mono [OF g1(10)] clock_fit_mono [OF g1(11)] by simp_all
    moreover have "repairs (meta_live (concat (ms # mss))) (group_set g name) (Inl e :: 'e sync_error + unit) st"
      using g1(9) unfolding split Inl by (rule repairs_fail)
    ultimately show ?thesis using g1 Inl
      by (intro exI [of _ "Inl e"] exI [of _ ctx] exI [of _ g1] exI [of _ h1] exI [of _ st]) simp
  next
    case (Inr u)
    have sb: "stamps_before (meta_live ms) (meta_live (concat mss))"
      using Cons.prems(9) by (auto simp: stamps_before_def)
    have ok1: "entries_ok READ_REPAIR_SOURCE_ID (meta_live (concat mss)) (group_set g1 name)"
      using entries_ok_later [OF g1(9) ok(2) sb] g1(8) by simp
    have pre: "m + 5 + 5 * length mss < 2 ^ 16" "offers (rlook (group_store h1) name) (concat mss)" "sorted_wrt stamps_before (map meta_live mss)"
      using Cons.prems(6,9) off(2) g1(6) by simp_all
    let ?ctx = "ctx\<lparr>ctx_progress := register_progress (ctx_progress ctx)\<rparr>"
    from Cons.IH [OF g1(2,3,4,10,11) pre(1,2) ok1 pre(3), of ?ctx] obtain r' ctx' g' h' st' where
      g': "handle_chunks ops (remote_client rops te ser) i name ?ctx (map (map md_id) mss) g1 h1 = Some (r', ctx', g', h')"
        "group_inv invar look g'" "group_inv rinvar rlook h'" "map_of (g_group g') name = Some i"
        "\<forall>ks. known (group_store g1) ks \<longrightarrow> known (group_store g') ks" "rlook (group_store h') = rlook (group_store h1)" "group_set h' = group_set h1"
        "group_set g' = (group_set g1)(name := st')" "repairs (meta_live (concat mss)) (group_set g1 name) r' st'"
        "clock_fit (m + 5 + 5 * length mss) (group_clock g')" "clock_fit (m + 5 + 5 * length mss) (group_clock h')"
        "tracker_done (ctx_progress ctx') = tracker_done (ctx_progress ?ctx)" by blast
    have "repairs (meta_live ms) (group_set g name) (Inr u :: 'e sync_error + unit) (group_set g1 name)" using g1(8,9) Inr by simp
    from repairs_append [OF this g'(9) ok(3)] have "repairs (meta_live (concat (ms # mss))) (group_set g name) r' st'" unfolding split .
    moreover have "clock_fit (m + 5 * length (ms # mss)) (group_clock g')" "clock_fit (m + 5 * length (ms # mss)) (group_clock h')"
      using clock_fit_mono [OF g'(10)] clock_fit_mono [OF g'(11)] by simp_all
    moreover have "handle_chunks ops (remote_client rops te ser) i name ctx (map (map md_id) (ms # mss)) g h = Some (r', ctx', g', h')"
      using g1(1) g'(1) Inr by simp
    ultimately show ?thesis using g' g1
      by (intro exI [of _ r'] exI [of _ ctx'] exI [of _ g'] exI [of _ h'] exI [of _ st']) (simp add: register_progress_def)
  qed
qed


text \<open>The entries of a synchronisation before and after the removals.\<close>

lemma sync_split:
  fixes modified removed :: "document_metadata list" and l :: nat
  defines "css \<equiv> chunks MAX_NUMBER_OF_DOCS_PER_FETCH modified"
  defines "E1 \<equiv> meta_live (concat (take l css))" and "E2 \<equiv> meta_live (concat (drop l css))" and "D \<equiv> dead_entries removed"
  assumes ok: "entries_ok READ_REPAIR_SOURCE_ID (meta_live modified @ D) S" and off: "offers lk modified"
    and ord: "sorted_wrt stamps_before (sync_entries l removed modified)"
  shows "meta_live modified = E1 @ E2"
    "entries_ok READ_REPAIR_SOURCE_ID E1 S" "entries_ok READ_REPAIR_SOURCE_ID E2 S" "entries_ok READ_REPAIR_SOURCE_ID D S"
    "fst ` set E1 \<inter> fst ` set E2 = {}" "fst ` set E1 \<inter> fst ` set D = {}" "fst ` set E2 \<inter> fst ` set D = {}"
    "offers lk (concat (take l css))" "offers lk (concat (drop l css))"
    "sorted_wrt stamps_before (map meta_live (take l css))" "sorted_wrt stamps_before (map meta_live (drop l css))"
    "stamps_before E1 D" "stamps_before D E2" "stamps_before E1 E2"
proof -
  have cc: "modified = concat (take l css) @ concat (drop l css)"
    by (simp add: css_def concat_chunks MAX_NUMBER_OF_DOCS_PER_FETCH_def flip: concat_append)
  show md: "meta_live modified = E1 @ E2" by (subst cc) (simp add: meta_live_def E1_def E2_def)
  show "entries_ok READ_REPAIR_SOURCE_ID E1 S" "entries_ok READ_REPAIR_SOURCE_ID E2 S" "entries_ok READ_REPAIR_SOURCE_ID D S"
    "fst ` set E1 \<inter> fst ` set E2 = {}" "fst ` set E1 \<inter> fst ` set D = {}" "fst ` set E2 \<inter> fst ` set D = {}"
    using ok unfolding md entries_ok_append by auto
  show "offers lk (concat (take l css))" "offers lk (concat (drop l css))"
    using off unfolding offers_def by (subst (asm) cc, simp)+
  show "sorted_wrt stamps_before (map meta_live (take l css))" "sorted_wrt stamps_before (map meta_live (drop l css))"
    "stamps_before E1 D" "stamps_before D E2" "stamps_before E1 E2"
    using ord unfolding sync_entries_def css_def [symmetric] D_def [symmetric] E1_def E2_def
    by (auto simp: sorted_wrt_append take_map drop_map Let_def stamps_before_def)
qed

lemma writes_around:
  assumes w: "writes A (\<lambda>k. True) s s1" "writes D (\<lambda>k. True) s1 s2" "writes B (\<lambda>k. True) s2 s3"
    and dis: "fst ` set A \<inter> fst ` set B = {}" "fst ` set A \<inter> fst ` set D = {}" "fst ` set B \<inter> fst ` set D = {}"
  shows "writes ((A @ B) @ D) (\<lambda>k. True) s s3"
proof -
  have "map_of ((A @ B) @ D) = map_of ((A @ D) @ B)"
    using dis(3) by (simp add: map_add_comm dom_map_of_conv_image_fst Int_commute flip: map_add_assoc)
  moreover have "fst ` set (A @ D) \<inter> fst ` set B = {}" using dis unfolding set_append image_Un by blast
  then have "writes ((A @ D) @ B) (\<lambda>k. True) s s3" using writes_append [OF writes_append [OF w(1,2) dis(2)] w(3)] by simp
  ultimately show ?thesis using writes_cong by blast
qed

text \<open>The chunks before the removals, and the removals.\<close>

lemma first_tasks:
  fixes mss :: "document_metadata list list" and removed :: "document_metadata list" and m :: nat
  defines "E \<equiv> meta_live (concat mss)" and "D \<equiv> dead_entries removed" and "m' \<equiv> m + 5 * length mss + 1"
  assumes inv: "group_inv invar look g" "group_inv rinvar rlook h" and i: "map_of (g_group g) name = Some i"
    and clk: "clock_fit m (group_clock g)" "clock_fit m (group_clock h)" "m' < 2 ^ 16"
    and off: "offers (rlook (group_store h) name) (concat mss)" and kn: "removed \<noteq> [] \<longrightarrow> known (group_store g) name"
    and ok: "entries_ok READ_REPAIR_SOURCE_ID E (group_set g name)" "entries_ok READ_REPAIR_SOURCE_ID D (group_set g name)"
    and ord: "sorted_wrt stamps_before (map meta_live mss)" "stamps_before E D"
  shows "\<exists>r ctx1 g1 h1 rm g2 st1 st2. handle_chunks ops (remote_client rops te ser) i name ctx (map (map md_id) mss) g h = Some (r, ctx1, g1, h1) \<and>
    handle_removals ops i removed g1 = Some (rm, g2) \<and> group_inv invar look g2 \<and> group_inv rinvar rlook h1 \<and> map_of (g_group g2) name = Some i \<and>
    rlook (group_store h1) = rlook (group_store h) \<and> group_set h1 = group_set h \<and> group_set g2 = (group_set g)(name := st2) \<and>
    repairs E (group_set g name) r st1 \<and> repairs D st1 rm st2 \<and> clock_fit m' (group_clock g2) \<and> clock_fit m' (group_clock h1) \<and>
    tracker_done (ctx_progress ctx1) = tracker_done (ctx_progress ctx)"
proof -
  have r1: "m + 5 * length mss < 2 ^ 16" and r2: "m + 5 * length mss + 1 < 2 ^ 16" using clk(3) by (simp_all add: m'_def)
  from chunks_repair [OF inv i clk(1,2) r1 off ok(1) [unfolded E_def] ord(1), of te ser ctx] obtain r ctx1 g1 h1 st1 where
    g1: "handle_chunks ops (remote_client rops te ser) i name ctx (map (map md_id) mss) g h = Some (r, ctx1, g1, h1)"
      "group_inv invar look g1" "group_inv rinvar rlook h1" "map_of (g_group g1) name = Some i"
      "\<forall>ks. known (group_store g) ks \<longrightarrow> known (group_store g1) ks" "rlook (group_store h1) = rlook (group_store h)" "group_set h1 = group_set h"
      "group_set g1 = (group_set g)(name := st1)" "repairs E (group_set g name) r st1"
      "clock_fit (m + 5 * length mss) (group_clock g1)" "clock_fit (m + 5 * length mss) (group_clock h1)"
      "tracker_done (ctx_progress ctx1) = tracker_done (ctx_progress ctx)"
    unfolding E_def by blast
  have s1: "group_set g1 name = st1" using g1(8) by simp
  have okD: "entries_ok READ_REPAIR_SOURCE_ID D (group_set g1 name)" unfolding s1 by (rule entries_ok_later [OF g1(9) ok(2) ord(2)])
  have kn1: "removed \<noteq> [] \<Longrightarrow> known (group_store g1) name" using kn g1(5) by blast
  from removals_repair [OF g1(2,4,10) r2 kn1 okD [unfolded D_def]] obtain rm g2 st2 where
    g2: "handle_removals ops i removed g1 = Some (rm, g2)" "group_inv invar look g2" "map_of (g_group g2) name = Some i"
      "group_set g2 = (group_set g1)(name := st2)" "repairs D st1 rm st2" "clock_fit (Suc (m + 5 * length mss)) (group_clock g2)"
    unfolding D_def [symmetric] s1 by blast
  have "clock_fit m' (group_clock g2)" "clock_fit m' (group_clock h1)"
    by (rule clock_fit_mono [OF g2(6)] clock_fit_mono [OF g1(11)], simp add: m'_def)+
  moreover have "group_set g2 = (group_set g)(name := st2)" using g2(4) g1(8) by simp
  ultimately show ?thesis using g1(1,3,6,7,9,12) g2(1-3,5) by blast
qed

text \<open>The chunks after the removals, whose entries are in order for the set before the tasks.\<close>

lemma later_tasks:
  fixes mss :: "document_metadata list list" and m :: nat
  defines "E \<equiv> meta_live (concat mss)" and "m' \<equiv> m + 5 * length mss"
  assumes inv: "group_inv invar look g" "group_inv rinvar rlook h" "map_of (g_group g) name = Some i"
    and clk: "clock_fit m (group_clock g)" "clock_fit m (group_clock h)" "m' < 2 ^ 16"
    and off: "offers (rlook (group_store h) name) (concat mss)" and ok: "entries_ok READ_REPAIR_SOURCE_ID E S"
    and before: "keeps_order READ_REPAIR_SOURCE_ID (entry_stamps A) S (group_set g name)" "stamps_before A E"
    and ord: "sorted_wrt stamps_before (map meta_live mss)"
  shows "\<exists>r ctx' g' h' st. handle_chunks ops (remote_client rops te ser) i name ctx (map (map md_id) mss) g h = Some (r, ctx', g', h') \<and>
    group_inv invar look g' \<and> group_inv rinvar rlook h' \<and> group_set h' = group_set h \<and> group_set g' = (group_set g)(name := st) \<and>
    (is_ok r \<longrightarrow> writes E (\<lambda>k. True) (group_set g name) st) \<and> clock_fit m' (group_clock g') \<and> clock_fit m' (group_clock h') \<and>
    tracker_done (ctx_progress ctx') = tracker_done (ctx_progress ctx)"
proof -
  have "repairs A S (Inl () :: unit + unit) (group_set g name)" using before(1) by (simp add: repairs_def)
  then have "entries_ok READ_REPAIR_SOURCE_ID E (group_set g name)" by (rule entries_ok_later [OF _ ok before(2)])
  from chunks_repair [OF inv clk(1,2) clk(3) [unfolded m'_def] off this [unfolded E_def] ord, of te ser ctx]
  obtain r ctx' g' h' st where "handle_chunks ops (remote_client rops te ser) i name ctx (map (map md_id) mss) g h = Some (r, ctx', g', h')"
    "group_inv invar look g'" "group_inv rinvar rlook h'" "group_set h' = group_set h" "group_set g' = (group_set g)(name := st)"
    "repairs E (group_set g name) r st" "clock_fit m' (group_clock g')" "clock_fit m' (group_clock h')"
    "tracker_done (ctx_progress ctx') = tracker_done (ctx_progress ctx)"
    unfolding E_def m'_def by (elim exE conjE)
  then show ?thesis by (intro exI conjI) (assumption | simp add: repairs_def)+
qed

lemma tasks_repair:
  assumes inv: "group_inv invar look g" "group_inv rinvar rlook h" and i: "map_of (g_group g) name = Some i"
    and clk: "clock_fit m (group_clock g)" "clock_fit m (group_clock h)" "m + 5 * length (chunks MAX_NUMBER_OF_DOCS_PER_FETCH modified) + 1 < 2 ^ 16"
    and off: "offers (rlook (group_store h) name) modified" and kn: "removed \<noteq> [] \<Longrightarrow> known (group_store g) name"
    and ok: "entries_ok READ_REPAIR_SOURCE_ID (meta_live modified @ dead_entries removed) (group_set g name)"
    and ord: "sorted_wrt stamps_before (sync_entries l removed modified)" and ctx: "\<not> tracker_done (ctx_progress ctx)"
  shows "\<exists>rm tr g' h' st. sync_tasks ops (remote_client rops te ser) i name ctx l removed modified g h = Some (rm, tr, g', h') \<and>
    group_inv invar look g' \<and> group_inv rinvar rlook h' \<and> group_set h' = group_set h \<and> group_set g' = (group_set g)(name := st) \<and>
    clock_fit (m + 5 * length (chunks MAX_NUMBER_OF_DOCS_PER_FETCH modified) + 1) (group_clock g') \<and>
    clock_fit (m + 5 * length (chunks MAX_NUMBER_OF_DOCS_PER_FETCH modified) + 1) (group_clock h') \<and>
    (is_ok rm \<longrightarrow> tracker_done tr \<longrightarrow> writes (meta_live modified @ dead_entries removed) (\<lambda>k. True) (group_set g name) st)"
proof -
  define css where "css = chunks MAX_NUMBER_OF_DOCS_PER_FETCH modified"
  define E where "E = (\<lambda>mss. meta_live (concat mss))"
  define D where "D = dead_entries removed"
  note split = sync_split [where l = l and S = "group_set g name" and lk = "rlook (group_store h) name", OF ok off ord, folded css_def]
  have len: "length css = length (take l css) + length (drop l css)" by simp
  have md: "meta_live modified = E (take l css) @ E (drop l css)" using split(1) by (simp add: E_def)
  have E: "meta_live (concat mss) = E mss" for mss by (simp add: E_def)
  note ok' = split(2-4) [unfolded E, folded D_def] and dis = split(5-7) [unfolded E, folded D_def]
    and off' = split(8,9) and srt = split(10,11) and sb = split(12-14) [unfolded E, folded D_def]
  have r1: "m + 5 * length (take l css) + 1 < 2 ^ 16" using clk(3) len unfolding css_def [symmetric] by linarith
  have kn': "removed \<noteq> [] \<longrightarrow> known (group_store g) name" using kn by blast
  from first_tasks [OF inv i clk(1,2) r1 off'(1) kn' ok'(1,3) [unfolded E_def D_def] srt(1) sb(1) [unfolded E_def D_def], of te ser ctx]
  obtain r ctx1 g1 h1 rm g2 st1 st2 where
    g1: "handle_chunks ops (remote_client rops te ser) i name ctx (map (map md_id) (take l css)) g h = Some (r, ctx1, g1, h1)"
    and g2: "handle_removals ops i removed g1 = Some (rm, g2)" "group_inv invar look g2" "group_inv rinvar rlook h1" "map_of (g_group g2) name = Some i"
      "rlook (group_store h1) = rlook (group_store h)" "group_set h1 = group_set h" "group_set g2 = (group_set g)(name := st2)"
      "repairs (E (take l css)) (group_set g name) r st1" "repairs D st1 rm st2"
    and fit: "clock_fit (m + 5 * length (take l css) + 1) (group_clock g2)" "clock_fit (m + 5 * length (take l css) + 1) (group_clock h1)"
    and tr: "tracker_done (ctx_progress ctx1) = tracker_done (ctx_progress ctx)"
    unfolding E_def D_def by (elim exE conjE)
  have s2: "group_set g2 name = st2" using g2(7) by simp
  show ?thesis
  proof (cases r)
    case (Inl e)
    have "sync_tasks ops (remote_client rops te ser) i name ctx l removed modified g h = Some (rm, ctx_progress ctx1, g2, h1)"
      using g1 g2(1) Inl by (simp add: sync_tasks_def css_def take_map drop_map)
    moreover have "\<not> tracker_done (ctx_progress ctx1)" using tr ctx by simp
    moreover have "clock_fit (m + 5 * length css + 1) (group_clock g2)" "clock_fit (m + 5 * length css + 1) (group_clock h1)"
      by (rule clock_fit_mono [OF fit(1)] clock_fit_mono [OF fit(2)], simp)+
    ultimately show ?thesis using g2(2,3,6,7) unfolding css_def by blast
  next
    case (Inr u)
    have sb2: "stamps_before (E (take l css) @ D) (E (drop l css))" using sb by (auto simp: stamps_before_def)
    have ko: "keeps_order READ_REPAIR_SOURCE_ID (entry_stamps (E (take l css) @ D)) (group_set g name) (group_set g2 name)"
      using g2(8,9) keeps_order_trans unfolding repairs_def entry_stamps_simps s2 by blast
    have r3: "m + 5 * length (take l css) + 1 + 5 * length (drop l css) < 2 ^ 16"
      using clk(3) len unfolding css_def [symmetric] by linarith
    from later_tasks [OF g2(2-4) fit r3 _ ok'(2) [unfolded E_def] ko [unfolded E_def] sb2 [unfolded E_def] srt(2), of te ser ctx1] off'(2) g2(5)
    obtain r' ctx2 g' h' st' where
      g': "handle_chunks ops (remote_client rops te ser) i name ctx1 (map (map md_id) (drop l css)) g2 h1 = Some (r', ctx2, g', h')"
        "group_inv invar look g'" "group_inv rinvar rlook h'" "group_set h' = group_set h1" "group_set g' = (group_set g2)(name := st')"
        "is_ok r' \<longrightarrow> writes (E (drop l css)) (\<lambda>k. True) (group_set g2 name) st'" "tracker_done (ctx_progress ctx2) = tracker_done (ctx_progress ctx1)"
        "clock_fit (m + 5 * length (take l css) + 1 + 5 * length (drop l css)) (group_clock g')"
        "clock_fit (m + 5 * length (take l css) + 1 + 5 * length (drop l css)) (group_clock h')"
      unfolding E_def by auto
    have fit': "clock_fit (m + 5 * length css + 1) (group_clock g')" "clock_fit (m + 5 * length css + 1) (group_clock h')"
      by (rule clock_fit_mono [OF g'(8)] clock_fit_mono [OF g'(9)], simp)+
    let ?tr = "if is_ok r' then set_done (ctx_progress ctx2) else ctx_progress ctx2"
    have run: "sync_tasks ops (remote_client rops te ser) i name ctx l removed modified g h = Some (rm, ?tr, g', h')"
      using g1 g2(1) g'(1) Inr by (simp add: sync_tasks_def css_def take_map drop_map)
    have "writes (meta_live modified @ D) (\<lambda>k. True) (group_set g name) st'" if fin: "is_ok rm" "tracker_done ?tr"
      unfolding md by (rule writes_around [OF _ _ _ dis]) (use g2(8,9) g'(6,7) Inr fin s2 tr ctx in \<open>auto simp: repairs_def split: if_splits\<close>)
    then show ?thesis using run g' g2(6,7) fit' unfolding D_def css_def
      by (intro exI [of _ rm] exI [of _ ?tr] exI [of _ g'] exI [of _ h'] exI [of _ st']) simp
  qed
qed

end

definition lacking :: "orswot_set \<Rightarrow> orswot_set \<Rightarrow> document_metadata list \<times> document_metadata list" where
  "lacking st other = map_prod (map (\<lambda>(k, t). metadata_new k t)) (map (\<lambda>(k, t). metadata_new k t)) (orswot_diff st other)"

text \<open>What a key should hold after a node took from another what it lacks.\<close>

definition repaired_reg :: "orswot_set \<Rightarrow> orswot_set \<Rightarrow> key \<Rightarrow> lww_register" where
  "repaired_reg st other k = (case reg_ts (reg_of other k) of
     Some t \<Rightarrow> if wanted st (k, t) then reg_of other k else reg_of st k | None \<Rightarrow> reg_of st k)"

lemma group_agrees:
  assumes "group_inv invar look g"
  shows "map_option stored_meta (look (group_store g) name k) = reg_meta (group_reg g name k)" "orswot_wf NUM_SOURCES (group_set g name)"
  using assms orswot_wf_default reg_of_default
  by (cases "map_of (g_group g) name"; auto simp: group_inv_def group_reg_def group_set_def actor_inv_def actor_wf_def agrees_def group_wf_def)+

lemma lacking_entries:
  assumes wf: "orswot_wf n other"
  shows "(k, e) \<in> set (meta_live (fst (lacking st other)) @ dead_entries (snd (lacking st other))) \<longleftrightarrow>
      reg_of other k = e \<and> (\<exists>t. reg_ts e = Some t \<and> wanted st (k, t))"
    "distinct (map fst (meta_live (fst (lacking st other)) @ dead_entries (snd (lacking st other))))"
proof -
  have e: "meta_live (fst (lacking st other)) = map (\<lambda>(k, t). (k, Live t)) (fst (orswot_diff st other))"
    "dead_entries (snd (lacking st other)) = map (\<lambda>(k, t). (k, Dead t)) (snd (orswot_diff st other))"
    by (simp_all add: meta_live_def dead_entries_def lacking_def metadata_new_def case_prod_beta)
  show m: "(k, e) \<in> set (meta_live (fst (lacking st other)) @ dead_entries (snd (lacking st other))) \<longleftrightarrow>
      reg_of other k = e \<and> (\<exists>t. reg_ts e = Some t \<and> wanted st (k, t))" for k e
  proof -
    have "(k, e) \<in> set (map (\<lambda>(k, t). (k, Live t)) xs) \<longleftrightarrow> (\<exists>t. e = Live t \<and> (k, t) \<in> set xs)"
      "(k, e) \<in> set (map (\<lambda>(k, t). (k, Dead t)) xs) \<longleftrightarrow> (\<exists>t. e = Dead t \<and> (k, t) \<in> set xs)" for xs by force+
    then show ?thesis unfolding e set_append Un_iff using orswot_diff_mem [OF wf, of k _ st] by (cases e) auto
  qed
  have "bt_wf (entries other)" "hm_wf (dead other)" using wf by (auto simp: orswot_wf_def)
  then have "distinct (map fst (fst (orswot_diff st other)))" "distinct (map fst (snd (orswot_diff st other)))"
    by (simp_all add: orswot_diff_eq distinct_map_filter bt_wf_distinct hm_wf_def)
  moreover have "k \<notin> fst ` set (snd (orswot_diff st other))" if "k \<in> fst ` set (fst (orswot_diff st other))" for k
    using that orswot_diff_mem [OF wf, of k _ st] by fastforce
  ultimately show "distinct (map fst (meta_live (fst (lacking st other)) @ dead_entries (snd (lacking st other))))"
    unfolding e by (auto simp: comp_def case_prod_beta)
qed

lemma lacking_repaired:
  assumes wf: "orswot_wf n other" and w: "writes (meta_live (fst (lacking st other)) @ dead_entries (snd (lacking st other))) (\<lambda>k. True) st st'"
  shows "reg_of st' k = repaired_reg st other k"
proof -
  define es where "es = meta_live (fst (lacking st other)) @ dead_entries (snd (lacking st other))"
  note mem = lacking_entries(1) [OF wf, of k _ st, folded es_def] and dist = lacking_entries(2) [OF wf, of st, folded es_def]
  have r: "reg_of st' k = overwrite (reg_of st k) (entry_at es k)" using w by (simp add: writes_all es_def)
  show ?thesis
  proof (cases "map_of es k")
    case None
    then have "(k, reg_of other k) \<notin> set es" by (force simp: map_of_eq_None_iff)
    then show ?thesis using mem [of "reg_of other k"] r None by (auto simp: repaired_reg_def entry_at_def split: option.splits)
  next
    case (Some e)
    then have "(k, e) \<in> set es" by (rule map_of_SomeD)
    then obtain t where t: "reg_of other k = e" "reg_ts e = Some t" "wanted st (k, t)" using mem by blast
    moreover have "overwrite (reg_of st k) e = e"
      using t(2) wanted_less_dead [OF t(3)] by (cases e) auto
    ultimately show ?thesis using r Some by (simp add: repaired_reg_def entry_at_def)
  qed
qed

lemma lacking_offered:
  assumes "group_inv invar look h" "\<And>k d. look (group_store h) name k = Some (Doc d) \<Longrightarrow> doc_id d = k"
  shows "offers (look (group_store h) name) (fst (lacking st (group_set h name)))"
  unfolding offers_def
proof
  fix m assume "m \<in> set (fst (lacking st (group_set h name)))"
  then have "(md_id m, Live (md_last_updated m)) \<in> set (meta_live (fst (lacking st (group_set h name))) @ dead_entries (snd (lacking st (group_set h name))))"
    by (auto simp: meta_live_def)
  then have "group_reg h name (md_id m) = Live (md_last_updated m)"
    using lacking_entries(1) [OF group_agrees(2) [OF assms(1)]] unfolding group_reg_def by blast
  then have "map_option stored_meta (look (group_store h) name (md_id m)) = Some (md_last_updated m, False)"
    using group_agrees(1) [OF assms(1), of name "md_id m"] by simp
  then obtain x where x: "look (group_store h) name (md_id m) = Some x" "stored_meta x = (md_last_updated m, False)" by auto
  then obtain d where "look (group_store h) name (md_id m) = Some (Doc d)" "last_updated d = md_last_updated m" by (cases x) auto
  then show "\<exists>d. look (group_store h) name (md_id m) = Some (Doc d) \<and> doc_id d = md_id m \<and> last_updated d = md_last_updated m"
    using assms(2) by blast
qed

lemma sync_wait_polls:
  assumes "\<And>t j. \<exists>i \<ge> j. t < poll_time s i"
  shows "\<exists>b. sync_wait (sync_polls s final) j w = Some b \<and> (b \<longrightarrow> tracker_done final)"
proof -
  have len: "0 < length (tracker_states final)" by (simp add: tracker_states_def)
  then have mem: "snd (sync_polls s final i) \<in> set (tracker_states final)" for i
    by (simp add: sync_polls_def nth_mem min.strict_coboundedI2)
  have "\<exists>i \<ge> j. t < fst (sync_polls s final i)" for t j using assms by (simp add: sync_polls_def)
  then obtain b where b: "sync_wait (sync_polls s final) j w = Some b"
    using sync_wait_returns [of "sync_polls s final" "unat (progress_counter final)"] tracker_states_counter [OF mem] by blast
  then show ?thesis using sync_wait_found [OF b] tracker_states_done [OF mem] by blast
qed

context replica_pair
begin

lemma keyspace_repaired:
  assumes inv: "group_inv invar look (cy_group st)" "group_inv rinvar rlook (cy_net st)"
    and env: "env_ops env = ops" "\<And>ch. env_client env ch = remote_client rops te ser"
    and time: "\<And>t j. \<exists>i \<ge> j. t < poll_time (env_schedule env nid name) i"
    and clk: "clock_fit m (group_clock (cy_group st))" "clock_fit m (group_clock (cy_net st))"
      "m + 5 * length (chunks MAX_NUMBER_OF_DOCS_PER_FETCH modified) + 2 < 2 ^ 16"
    and keyed: "\<And>k d. rlook (group_store (cy_net st)) name k = Some (Doc d) \<Longrightarrow> doc_id d = k"
    and d: "lacking (group_set (cy_group st) name) (group_set (cy_net st) name) = (modified, removed)"
      "kd_keyspace d = name" "kd_modified d = modified" "kd_removed d = removed"
    and kn: "removed \<noteq> [] \<Longrightarrow> known (group_store (cy_group st)) name"
    and ord: "\<And>t. t \<in> md_last_updated ` set (modified @ removed) \<Longrightarrow> in_order READ_REPAIR_SOURCE_ID t (group_set (cy_group st) name)"
      "sorted_wrt stamps_before (sync_entries (removals_after (env_schedule env nid name)) removed modified)"
  shows "\<exists>r st'. begin_keyspace_sync env nid a d st = Some (r, st') \<and>
    group_inv invar look (cy_group st') \<and> group_inv rinvar rlook (cy_net st') \<and> group_set (cy_net st') = group_set (cy_net st) \<and>
    (\<forall>ks. ks \<noteq> name \<longrightarrow> group_set (cy_group st') ks = group_set (cy_group st) ks) \<and>
    clock_fit (m + 5 * length (chunks MAX_NUMBER_OF_DOCS_PER_FETCH modified) + 2) (group_clock (cy_group st')) \<and>
    clock_fit (m + 5 * length (chunks MAX_NUMBER_OF_DOCS_PER_FETCH modified) + 2) (group_clock (cy_net st')) \<and>
    (is_ok r \<longrightarrow> (\<forall>k. group_reg (cy_group st') name k = repaired_reg (group_set (cy_group st) name) (group_set (cy_net st) name) k))"
proof -
  let ?g = "cy_group st" and ?h = "cy_net st" and ?s = "env_schedule env nid name"
  let ?ctx = "\<lparr>ctx_progress = \<lparr>progress_counter = 0, tracker_done = False\<rparr>, remote_node_id = nid, remote_addr = a\<rparr>"
  obtain i g1 where g1: "get_or_create_keyspace name ?g = Some (i, g1)" "group_inv invar look g1" "map_of (g_group g1) name = Some i"
    "group_store g1 = group_store ?g" "group_set g1 = group_set ?g" "clock_fit (Suc m) (group_clock g1)"
    using create_fit [OF inv(1) clk(1), of name] clk(3) by auto
  have wf: "orswot_wf NUM_SOURCES (group_set ?h name)" using group_agrees(2) [OF inv(2)] .
  have ok: "entries_ok READ_REPAIR_SOURCE_ID (meta_live modified @ dead_entries removed) (group_set g1 name)"
    using lacking_entries(2) [OF wf, of "group_set ?g name"] ord(1) unfolding d(1) entries_ok_stamps g1(5) by auto
  have off: "offers (rlook (group_store ?h) name) modified"
    using lacking_offered [where st = "group_set ?g name" and name = name, OF inv(2) keyed] by (simp add: d(1))
  have fit: "clock_fit (Suc m) (group_clock ?h)" "Suc m + 5 * length (chunks MAX_NUMBER_OF_DOCS_PER_FETCH modified) + 1 < 2 ^ 16"
    using clock_fit_mono [OF clk(2)] clk(3) by simp_all
  have kn1: "removed \<noteq> [] \<Longrightarrow> known (group_store g1) name" using kn g1(4) by simp
  have ctx: "\<not> tracker_done (ctx_progress ?ctx)" by simp
  from tasks_repair [OF g1(2) inv(2) g1(3,6) fit off kn1 ok ord(2) ctx, of te ser] obtain rm tr g' h' st' where
    g': "sync_tasks ops (remote_client rops te ser) i name ?ctx (removals_after ?s) removed modified g1 ?h = Some (rm, tr, g', h')"
      "group_inv invar look g'" "group_inv rinvar rlook h'" "group_set h' = group_set ?h" "group_set g' = (group_set g1)(name := st')"
      "is_ok rm \<longrightarrow> tracker_done tr \<longrightarrow> writes (meta_live modified @ dead_entries removed) (\<lambda>k. True) (group_set g1 name) st'"
      "clock_fit (Suc m + 5 * length (chunks MAX_NUMBER_OF_DOCS_PER_FETCH modified) + 1) (group_clock g')"
      "clock_fit (Suc m + 5 * length (chunks MAX_NUMBER_OF_DOCS_PER_FETCH modified) + 1) (group_clock h')" by blast
  obtain b where b: "sync_wait (sync_polls ?s tr) 0 (watcher_new (sync_start ?s) KEYSPACE_SYNC_TIMEOUT) = Some b" "b \<longrightarrow> tracker_done tr"
    using sync_wait_polls [OF time] by blast
  obtain ch cl where cc: "get_or_connect (env_connect env) a (cy_clients st) = (ch, cl)" by (metis prod.collapse)
  let ?r = "case rm of Inl e \<Rightarrow> Inl e | Inr u \<Rightarrow> if b then Inr () else Inl TimedOut"
  have run: "begin_keyspace_sync env nid a d st = Some (?r, st\<lparr>cy_clients := cl, cy_group := g', cy_net := h'\<rparr>)"
    using g1(1) g'(1) b(1) cc by (simp add: begin_keyspace_sync_def d(2-4) env)
  have "group_reg g' name k = repaired_reg (group_set ?g name) (group_set ?h name) k" if okr: "is_ok ?r" for k
  proof -
    have "is_ok rm" "tracker_done tr" using okr b(2) by (auto split: sum.splits if_splits)
    then have "writes (meta_live modified @ dead_entries removed) (\<lambda>k. True) (group_set ?g name) st'" using g'(6) g1(5) by simp
    from lacking_repaired [OF wf, of "group_set ?g name" st' k] this show ?thesis by (simp add: d(1) group_reg_def g'(5))
  qed
  then show ?thesis using run g'(2-5,7,8) g1(5) by (intro exI [of _ ?r] exI) auto
qed

lemma polled_keyspace_repaired:
  assumes inv: "group_inv invar look (cy_group st)" "group_inv rinvar rlook (cy_net st)"
    and env: "env_ops env = ops" "\<And>ch. env_client env ch = remote_client rops te ser"
    and rt: "\<And>s b. ser s = Some b \<Longrightarrow> env_deser env b = Some s"
    and time: "\<And>t j. \<exists>i \<ge> j. t < poll_time (env_schedule env nid name) i"
    and d: "lacking (group_set (cy_group st) name) (group_set (cy_net st) name) = (modified, removed)"
    and clk: "clock_fit m (group_clock (cy_group st))" "clock_fit m (group_clock (cy_net st))"
      "m + 5 * length (chunks MAX_NUMBER_OF_DOCS_PER_FETCH modified) + 8 < 2 ^ 16"
    and keyed: "\<And>k d. rlook (group_store (cy_net st)) name k = Some (Doc d) \<Longrightarrow> doc_id d = k"
    and kn: "removed \<noteq> [] \<Longrightarrow> known (group_store (cy_group st)) name"
    and ord: "\<And>t. t \<in> md_last_updated ` set (modified @ removed) \<Longrightarrow> in_order READ_REPAIR_SOURCE_ID t (group_set (cy_group st) name)"
      "sorted_wrt stamps_before (sync_entries (removals_after (env_schedule env nid name)) removed modified)"
  shows "\<exists>q g h. get_keyspace_diff (env_deser env) (env_client env ch) name nid a (cy_group st) (cy_net st) = Some (q, g, h) \<and>
    (ser (group_set (cy_net st) name) \<noteq> None \<longrightarrow> is_ok q) \<and>
    (\<forall>d. q = Inr d \<longrightarrow> (\<exists>r st'. begin_keyspace_sync env nid a d (st\<lparr>cy_group := g, cy_net := h\<rparr>) = Some (r, st') \<and>
      group_inv invar look (cy_group st') \<and> group_inv rinvar rlook (cy_net st') \<and> group_set (cy_net st') = group_set (cy_net st) \<and>
      (\<forall>ks. ks \<noteq> name \<longrightarrow> group_set (cy_group st') ks = group_set (cy_group st) ks) \<and>
      clock_fit (m + 5 * length (chunks MAX_NUMBER_OF_DOCS_PER_FETCH modified) + 8) (group_clock (cy_group st')) \<and>
      clock_fit (m + 5 * length (chunks MAX_NUMBER_OF_DOCS_PER_FETCH modified) + 8) (group_clock (cy_net st')) \<and>
      (is_ok r \<longrightarrow> (\<forall>k. group_reg (cy_group st') name k = repaired_reg (group_set (cy_group st) name) (group_set (cy_net st) name) k))))"
proof -
  have "m + 6 < 2 ^ 16" using clk(3) by simp
  from diff_of_remote [where ser = ser and deser = "env_deser env" and rops = rops and te = te and name = name and nid = nid and a = a,
      OF inv clk(1,2) this rt]
  obtain q g h where q: "get_keyspace_diff (env_deser env) (remote_client rops te ser) name nid a (cy_group st) (cy_net st) = Some (q, g, h)"
    "group_inv invar look g" "group_inv rinvar rlook h" "group_store g = group_store (cy_group st)" "group_store h = group_store (cy_net st)"
    "group_set g = group_set (cy_group st)" "group_set h = group_set (cy_net st)" "clock_fit (m + 6) (group_clock g)" "clock_fit (m + 6) (group_clock h)"
    "case q of Inl e \<Rightarrow> ser (group_set (cy_net st) name) = None
      | Inr d \<Rightarrow> kd_keyspace d = name \<and>
          kd_modified d = map (\<lambda>(k, t). metadata_new k t) (fst (orswot_diff (group_set (cy_group st) name) (group_set (cy_net st) name))) \<and>
          kd_removed d = map (\<lambda>(k, t). metadata_new k t) (snd (orswot_diff (group_set (cy_group st) name) (group_set (cy_net st) name)))"
    by blast
  let ?st = "st\<lparr>cy_group := g, cy_net := h\<rparr>"
  have "\<exists>r st'. begin_keyspace_sync env nid a dd ?st = Some (r, st') \<and>
      group_inv invar look (cy_group st') \<and> group_inv rinvar rlook (cy_net st') \<and> group_set (cy_net st') = group_set (cy_net st) \<and>
      (\<forall>ks. ks \<noteq> name \<longrightarrow> group_set (cy_group st') ks = group_set (cy_group st) ks) \<and>
      clock_fit (m + 5 * length (chunks MAX_NUMBER_OF_DOCS_PER_FETCH modified) + 8) (group_clock (cy_group st')) \<and>
      clock_fit (m + 5 * length (chunks MAX_NUMBER_OF_DOCS_PER_FETCH modified) + 8) (group_clock (cy_net st')) \<and>
      (is_ok r \<longrightarrow> (\<forall>k. group_reg (cy_group st') name k = repaired_reg (group_set (cy_group st) name) (group_set (cy_net st) name) k))"
    if dd: "q = Inr dd" for dd
  proof -
    have "kd_keyspace dd = name" "kd_modified dd = modified" "kd_removed dd = removed"
      using q(10) d dd by (simp_all add: lacking_def map_prod_def case_prod_beta)
    moreover have "m + 6 + 5 * length (chunks MAX_NUMBER_OF_DOCS_PER_FETCH modified) + 2 < 2 ^ 16" using clk(3) by simp
    ultimately show ?thesis
      using keyspace_repaired [where st = ?st and env = env and te = te and ser = ser and nid = nid and name = name and m = "m + 6"
          and modified = modified and removed = removed and d = dd and a = a]
        env time keyed d kn ord q(2-9) by (simp add: add.commute add.left_commute)
  qed
  moreover have "is_ok q" if "ser (group_set (cy_net st) name) \<noteq> None" using that q(10) by (cases q) auto
  ultimately show ?thesis using q(1) env(2) by auto
qed

end

interpretation mem_pair: replica_pair mem_ops mem_inv mem_known mem_look mem_ops mem_inv mem_known mem_look
  by unfold_locales

section \<open>The replication cycle in order\<close>

text \<open>C19. The loop that supervises a synchronisation ends, whatever the schedule, as long as the times of
  its polls have no bound: the progress counter rises finitely often, and a counter that stands still
  expires. It reports success only if the task is done.\<close>

theorem sync_loop_ends:
  assumes "\<And>t j. \<exists>i \<ge> j. t < poll_time s i"
  shows "\<exists>b. sync_wait (sync_polls s final) j w = Some b \<and> (b \<longrightarrow> tracker_done final)"
  by (rule sync_wait_polls [OF assms])

definition example_schedule :: sync_schedule where
  "example_schedule = \<lparr>removals_after = 0, sync_start = 0, poll_time = (\<lambda>i. i), poll_sees = (\<lambda>i. i)\<rparr>"

lemma example_times: "\<exists>i \<ge> j. t < poll_time example_schedule i"
  unfolding example_schedule_def by (intro exI [of _ "Suc (t + j)"]) simp

theorem sync_loop_ends_witness:
  "\<exists>b. sync_wait (sync_polls example_schedule \<lparr>progress_counter = 3, tracker_done = False\<rparr>) 0 (watcher_new 0 KEYSPACE_SYNC_TIMEOUT) = Some b \<and> \<not> b"
  using sync_loop_ends [of example_schedule "\<lparr>progress_counter = 3, tracker_done = False\<rparr>"] example_times by fastforce

text \<open>C7. Read repair, in order. A node polls a keyspace of a remote node and synchronises it. The conditions: both nodes
  are in order, their clocks have room, a sent set reads back as it was, the store knows the keyspace of removals,
  what the node lacks is in order at its set, and no message of the synchronisation, neither the removals nor a
  chunk of documents, is older than one of its node before. The last two the code does not ensure, and without them a document may be
  stored and refused by the set. Under these conditions neither step panics
  and both nodes stay in order; a synchronisation without an error leaves every register of the
  keyspace with what the remote node had, where that is news, and with its own otherwise; no other
  keyspace and no register of the remote node changes. The counters of both clocks rise by at most 8 and 5 for each chunk.\<close>

theorem repair_converges:
  assumes "storage ops invar known look" "storage rops rinvar rknown rlook"
    and "group_inv invar look (cy_group st)" "group_inv rinvar rlook (cy_net st)"
    and "env_ops env = ops" "\<And>ch. env_client env ch = remote_client rops te ser"
    and "\<And>s b. ser s = Some b \<Longrightarrow> env_deser env b = Some s"
    and "\<And>t j. \<exists>i \<ge> j. t < poll_time (env_schedule env nid name) i"
    and "lacking (group_set (cy_group st) name) (group_set (cy_net st) name) = (modified, removed)"
    and "clock_fit m (group_clock (cy_group st))" "clock_fit m (group_clock (cy_net st))"
    and "m + 5 * length (chunks MAX_NUMBER_OF_DOCS_PER_FETCH modified) + 8 < 2 ^ 16"
    and "\<And>k d. rlook (group_store (cy_net st)) name k = Some (Doc d) \<Longrightarrow> doc_id d = k"
    and "removed \<noteq> [] \<Longrightarrow> known (group_store (cy_group st)) name"
    and "\<And>t. t \<in> md_last_updated ` set (modified @ removed) \<Longrightarrow> in_order READ_REPAIR_SOURCE_ID t (group_set (cy_group st) name)"
    and "sorted_wrt stamps_before (sync_entries (removals_after (env_schedule env nid name)) removed modified)"
  shows "\<exists>q g h. get_keyspace_diff (env_deser env) (env_client env ch) name nid a (cy_group st) (cy_net st) = Some (q, g, h) \<and>
    (ser (group_set (cy_net st) name) \<noteq> None \<longrightarrow> is_ok q) \<and>
    (\<forall>d. q = Inr d \<longrightarrow> (\<exists>r st'. begin_keyspace_sync env nid a d (st\<lparr>cy_group := g, cy_net := h\<rparr>) = Some (r, st') \<and>
      group_inv invar look (cy_group st') \<and> group_inv rinvar rlook (cy_net st') \<and> group_set (cy_net st') = group_set (cy_net st) \<and>
      (\<forall>ks. ks \<noteq> name \<longrightarrow> group_set (cy_group st') ks = group_set (cy_group st) ks) \<and>
      clock_fit (m + 5 * length (chunks MAX_NUMBER_OF_DOCS_PER_FETCH modified) + 8) (group_clock (cy_group st')) \<and>
      clock_fit (m + 5 * length (chunks MAX_NUMBER_OF_DOCS_PER_FETCH modified) + 8) (group_clock (cy_net st')) \<and>
      (is_ok r \<longrightarrow> (\<forall>k. group_reg (cy_group st') name k = repaired_reg (group_set (cy_group st) name) (group_set (cy_net st) name) k))))"
  by (rule replica_pair.polled_keyspace_repaired [OF replica_pair.intro [OF assms(1,2)] assms(3-)])

definition example_peer_set :: orswot_set where
  "example_peer_set = \<lparr>entries = [(8, HLCTimestamp 257)], dead = [], versions = default_versions NUM_SOURCES\<rparr>"

definition example_peer :: "mem_store keyspace_group" where
  "example_peer = \<lparr>g_world = \<lparr>w_store = example_store8, w_clock = example_clock\<lparr>hlc := HLCTimestamp 2\<rparr>\<rparr>,
     g_actors = [spawn_keyspace ''ks'' example_peer_set (HLCTimestamp 2)], g_group = [(''ks'', 0)], keyspace_timestamps = [(''ks'', 0)]\<rparr>"

definition example_ser :: "orswot_set \<Rightarrow> u8 list option" where
  "example_ser s = (if s = example_peer_set then Some [] else None)"

definition example_env :: "(mem_store, mem_store_error, addr, mem_store keyspace_group) cycle_env" where
  "example_env = \<lparr>env_ops = mem_ops, env_deser = (\<lambda>b. Some example_peer_set), env_connect = (\<lambda>a. a),
     env_client = (\<lambda>ch. remote_client mem_ops (\<lambda>e. []) example_ser), env_schedule = (\<lambda>nid name. example_schedule)\<rparr>"

definition example_cycle :: "(mem_store, addr, mem_store keyspace_group) cycle_state" where
  "example_cycle = \<lparr>cy_group = example_group, cy_clients = [], cy_tracker = [], cy_members = [(2, ''a'')], cy_net = example_peer\<rparr>"

lemma example_peer_inv: "group_inv mem_inv mem_look example_peer"
proof -
  have "orswot_wf NUM_SOURCES example_peer_set"
    using orswot_wf_default [of NUM_SOURCES] by (auto simp: orswot_wf_def example_peer_set_def default_set_def)
  moreover have "agrees (mem_look example_store8) (spawn_keyspace ''ks'' example_peer_set (HLCTimestamp 2))"
    by (auto simp: agrees_def spawn_keyspace_def example_store8_inv(2) example_doc8_def reg_of_def example_peer_set_def)
  ultimately show ?thesis
    by (auto simp: group_inv_def group_wf_def example_peer_def example_store8_inv actor_inv_def actor_wf_def spawn_keyspace_def split: if_splits)
qed

lemma example_wanted: "wanted (default_set NUM_SOURCES) (8, HLCTimestamp 257)"
  using example_will_apply [of 8 "HLCTimestamp 257"]
  by (simp add: wanted_def will_apply_def example_actor_def spawn_keyspace_def reg_of_default split: if_splits)

lemma example_lacking: "lacking (group_set example_group ''ks'') (group_set example_peer ''ks'') = ([metadata_new 8 (HLCTimestamp 257)], [])"
  using example_wanted
  by (simp add: lacking_def orswot_diff_eq example_group_set) (simp add: group_set_def example_peer_def spawn_keyspace_def example_peer_set_def)

theorem repair_converges_witness:
  "\<exists>q g h. get_keyspace_diff (env_deser example_env) (env_client example_env ''a'') ''ks'' 2 ''a'' example_group example_peer = Some (q, g, h) \<and> is_ok q \<and>
    (\<forall>d. q = Inr d \<longrightarrow> (\<exists>r st'. begin_keyspace_sync example_env 2 ''a'' d (example_cycle\<lparr>cy_group := g, cy_net := h\<rparr>) = Some (r, st') \<and>
      (is_ok r \<longrightarrow> group_reg (cy_group st') ''ks'' 8 = Live (HLCTimestamp 257))))"
proof -
  let ?s = "group_set example_peer ''ks''"
  have s: "?s = example_peer_set" by (simp add: group_set_def example_peer_def spawn_keyspace_def)
  have fit: "clock_fit 0 (group_clock example_group)" "clock_fit 0 (group_clock example_peer)"
    using example_clock_fit by (simp_all add: example_group_def example_world_def example_peer_def clock_fit_def clock_ok_def example_clock_def counter_def zero_time two_time)
  have ch: "length (chunks MAX_NUMBER_OF_DOCS_PER_FETCH [metadata_new 8 (HLCTimestamp 257)]) = 1"
    by (simp add: chunks.simps MAX_NUMBER_OF_DOCS_PER_FETCH_def)
  have keyed: "doc_id d = k" if "mem_look example_store8 ''ks'' k = Some (Doc d)" for k d
    using that by (auto simp: example_store8_inv(2) example_doc8_def split: if_splits)
  have eq: "cy_group example_cycle = example_group" "cy_net example_cycle = example_peer" "group_store example_peer = example_store8"
    "env_schedule example_env 2 ''ks'' = example_schedule" "env_deser example_env b = Some example_peer_set"
    "env_client example_env chan = remote_client mem_ops (\<lambda>e. []) example_ser" "env_ops example_env = mem_ops" for b chan
    by (simp_all add: example_cycle_def example_env_def example_peer_def)
  have srt: "sorted_wrt stamps_before (sync_entries (removals_after example_schedule) [] [metadata_new 8 (HLCTimestamp 257)])"
    by (simp add: sync_entries_def stamps_before_def example_schedule_def chunks.simps MAX_NUMBER_OF_DOCS_PER_FETCH_def dead_entries_def)
  have reg: "repaired_reg (group_set example_group ''ks'') ?s 8 = Live (HLCTimestamp 257)"
    using example_wanted by (simp add: repaired_reg_def s example_group_set) (simp add: reg_of_def example_peer_set_def)
  have "\<exists>q g h. get_keyspace_diff (env_deser example_env) (env_client example_env ''a'') ''ks'' 2 ''a'' (cy_group example_cycle) (cy_net example_cycle) = Some (q, g, h) \<and>
    (example_ser (group_set (cy_net example_cycle) ''ks'') \<noteq> None \<longrightarrow> is_ok q) \<and>
    (\<forall>d. q = Inr d \<longrightarrow> (\<exists>r st'. begin_keyspace_sync example_env 2 ''a'' d (example_cycle\<lparr>cy_group := g, cy_net := h\<rparr>) = Some (r, st') \<and>
      group_inv mem_inv mem_look (cy_group st') \<and> group_inv mem_inv mem_look (cy_net st') \<and> group_set (cy_net st') = group_set (cy_net example_cycle) \<and>
      (\<forall>ks. ks \<noteq> ''ks'' \<longrightarrow> group_set (cy_group st') ks = group_set (cy_group example_cycle) ks) \<and>
      clock_fit (0 + 5 * length (chunks MAX_NUMBER_OF_DOCS_PER_FETCH [metadata_new 8 (HLCTimestamp 257)]) + 8) (group_clock (cy_group st')) \<and>
      clock_fit (0 + 5 * length (chunks MAX_NUMBER_OF_DOCS_PER_FETCH [metadata_new 8 (HLCTimestamp 257)]) + 8) (group_clock (cy_net st')) \<and>
      (is_ok r \<longrightarrow> (\<forall>k. group_reg (cy_group st') ''ks'' k = repaired_reg (group_set (cy_group example_cycle) ''ks'') (group_set (cy_net example_cycle) ''ks'') k))))"
  proof (rule repair_converges [where ser = example_ser and modified = "[metadata_new 8 (HLCTimestamp 257)]" and removed = "[]" and m = 0,
        OF mem.storage_axioms mem.storage_axioms])
    show "in_order READ_REPAIR_SOURCE_ID t (group_set (cy_group example_cycle) ''ks'')" for t
      by (simp add: eq example_group_set in_order_default sources)
  qed (use example_group_inv example_peer_inv fit ch keyed srt example_lacking example_times in \<open>simp_all add: eq example_ser_def split: if_splits\<close>)
  then show ?thesis using reg by (auto simp: eq s example_ser_def) 
qed

end
