(* ===== verification/Store.thy ===== *)
theory Store
  imports Repair
begin

text \<open>
  The handle applications use, \<^verbatim>\<open>datacake-eventual-consistency/src/lib.rs\<close>: a write selects the replicas its
  consistency level asks for, writes to the local keyspace, queues the mutation for the distributor
  and waits for every selected replica. The calls to the replicas run concurrently; the order in
  which they reach the network and their replies the clock is the parameter \<open>se_sched\<close>.
\<close>

definition TIMEOUT :: duration where
  "TIMEOUT = from_secs 2"

datatype 'e store_error =
  ChitChatError string | UnknownError string | StorageError 'e | BulkStorageError "'e bulk_mutation_error"
| ConsistencyError consistency_error | TransportError addr string | RpcError addr status

record 'n consistency_rpc =
  cr_put :: "('n, put_payload, hlc_timestamp) rpc"
  cr_multi_put :: "('n, multi_put_payload, hlc_timestamp) rpc"
  cr_del :: "('n, remove_payload, hlc_timestamp) rpc"
  cr_multi_del :: "('n, multi_remove_payload, hlc_timestamp) rpc"

text \<open>What a handle is made of: the node it belongs to, its store and the world around it.\<close>

record ('s, 'e, 'c, 'n) store_env =
  se_ops :: "('s, 'e) storage_ops"
  se_me :: cluster_member
  se_choice :: choice
  se_now :: duration
  se_done :: duration
  se_connect :: "addr \<Rightarrow> 'c"
  se_client :: "'c \<Rightarrow> 'n consistency_rpc"
  se_sched :: "addr list \<Rightarrow> addr list"

record ('s, 'c, 'n) store_state =
  ss_group :: "'s keyspace_group"
  ss_selector :: selector_state
  ss_queue :: "distributor_op list"
  ss_clients :: "(addr, 'c) hash_map"
  ss_net :: 'n

text \<open>The store of a node starts from what its storage holds.\<close>

definition store_create ::
  "('s, 'e) storage_ops \<Rightarrow> 's world \<Rightarrow> selector_state \<Rightarrow> (addr, 'c) hash_map \<Rightarrow> 'n \<Rightarrow> ('e store_error + ('s, 'c, 'n) store_state) exec" where
  "store_create ops w selector clients net =
     do { (r, g) \<leftarrow> load_states_from_storage ops (group_new w);
          Some (case r of
              Inl e \<Rightarrow> Inl (StorageError e)
            | Inr u \<Rightarrow> Inr \<lparr>ss_group = g, ss_selector = selector, ss_queue = [], ss_clients = clients, ss_net = net\<rparr>) }"

section \<open>Reads\<close>

definition with_store :: "('s, 'r) action \<Rightarrow> ('s, 'c, 'n) store_state \<Rightarrow> ('r \<times> ('s, 'c, 'n) store_state) exec" where
  "with_store act st =
     do { (r, s) \<leftarrow> act (group_store (ss_group st));
          Some (r, st\<lparr>ss_group := (ss_group st)\<lparr>g_world := (g_world (ss_group st))\<lparr>w_store := s\<rparr>\<rparr>\<rparr>) }"

definition handle_get_keyspace_list :: "('s, 'e, 'c, 'n) store_env \<Rightarrow> ('s, 'c, 'n) store_state \<Rightarrow> (('e + string list) \<times> ('s, 'c, 'n) store_state) exec" where
  "handle_get_keyspace_list env = with_store (st_get_keyspace_list (se_ops env))"

definition handle_iter_metadata ::
  "('s, 'e, 'c, 'n) store_env \<Rightarrow> string \<Rightarrow> ('s, 'c, 'n) store_state \<Rightarrow> (('e + (key \<times> hlc_timestamp \<times> bool) list) \<times> ('s, 'c, 'n) store_state) exec" where
  "handle_iter_metadata env name = with_store (st_iter_metadata (se_ops env) name)"

definition handle_get :: "('s, 'e, 'c, 'n) store_env \<Rightarrow> string \<Rightarrow> key \<Rightarrow> ('s, 'c, 'n) store_state \<Rightarrow> (('e + document option) \<times> ('s, 'c, 'n) store_state) exec" where
  "handle_get env name k = with_store (st_get (se_ops env) name k)"

definition handle_get_many :: "('s, 'e, 'c, 'n) store_env \<Rightarrow> string \<Rightarrow> key list \<Rightarrow> ('s, 'c, 'n) store_state \<Rightarrow> (('e + document list) \<times> ('s, 'c, 'n) store_state) exec" where
  "handle_get_many env name ks = with_store (st_multi_get (se_ops env) name ks)"

section \<open>Waiting for the replicas\<close>

text \<open>The number of requests that succeed; an error is only logged.\<close>

primrec count_acks ::
  "(addr \<Rightarrow> 'st \<Rightarrow> (('e store_error + unit) \<times> 'st) exec) \<Rightarrow> addr list \<Rightarrow> 'st \<Rightarrow> (nat \<times> 'st) exec" where
  "count_acks factory [] st = Some (0, st)"
| "count_acks factory (a # as) st =
     do { (r, st) \<leftarrow> factory a st;
          (n, st) \<leftarrow> count_acks factory as st;
          Some (if is_ok r then Suc n else n, st) }"

text \<open>
  The code polls the requests to all nodes concurrently and counts them as they complete. Here each request is one
  step, its call and its reply together, and the steps come in any order: \<open>sched\<close> rearranges the nodes.
\<close>

definition handle_consistency_distribution ::
  "(addr list \<Rightarrow> addr list) \<Rightarrow> addr list \<Rightarrow> (addr \<Rightarrow> 'st \<Rightarrow> (('e store_error + unit) \<times> 'st) exec) \<Rightarrow> 'st \<Rightarrow> (('e store_error + unit) \<times> 'st) exec" where
  "handle_consistency_distribution sched nodes factory st =
     do { (num_success, st) \<leftarrow> count_acks factory (sched nodes) st;
          Some (if num_success \<noteq> length nodes
                then Inl (ConsistencyError (ConsistencyFailure num_success (length nodes) TIMEOUT))
                else Inr (), st) }"

text \<open>One request: the channel of the node and a call through it.\<close>

definition request_to ::
  "('s, 'e, 'c, 'n) store_env \<Rightarrow> ('n consistency_rpc \<Rightarrow> node_clock \<Rightarrow> 'n \<Rightarrow> ((status + unit) \<times> node_clock \<times> 'n) exec) \<Rightarrow> addr
    \<Rightarrow> ('s, 'c, 'n) store_state \<Rightarrow> (('e store_error + unit) \<times> ('s, 'c, 'n) store_state) exec" where
  "request_to env call a st =
     do { let (channel, clients) = get_or_connect (se_connect env) a (ss_clients st);
          (r, g, net) \<leftarrow> via_clock (call (se_client env channel)) (ss_group st) (ss_net st);
          Some (map_sum (RpcError a) id r, st\<lparr>ss_clients := clients, ss_group := g, ss_net := net\<rparr>) }"

section \<open>Writes\<close>

definition handle_select ::
  "('s, 'e, 'c, 'n) store_env \<Rightarrow> consistency \<Rightarrow> ('s, 'c, 'n) store_state \<Rightarrow> (('e store_error + addr list) \<times> ('s, 'c, 'n) store_state) exec" where
  "handle_select env c st =
     do { (r, sel) \<leftarrow> selector_get_nodes (se_choice env) (public_addr (se_me env)) (data_center (se_me env)) (se_now env) (se_done env) c (ss_selector st);
          Some (map_sum ConsistencyError id r, st\<lparr>ss_selector := sel\<rparr>) }"

text \<open>
  What the four writes share once the replicas are selected: the message to the local keyspace, the
  mutation for the distributor and the calls, each a function of the timestamp of the write.
\<close>

definition store_write ::
  "('s, 'e, 'c, 'n) store_env \<Rightarrow> string \<Rightarrow> consistency
    \<Rightarrow> (hlc_timestamp \<Rightarrow> keyspace_actor \<Rightarrow> 's world \<Rightarrow> (('x + unit) \<times> keyspace_actor \<times> 's world) exec) \<Rightarrow> ('x \<Rightarrow> 'e store_error)
    \<Rightarrow> (hlc_timestamp \<Rightarrow> mutation)
    \<Rightarrow> (hlc_timestamp \<Rightarrow> 'n consistency_rpc \<Rightarrow> node_clock \<Rightarrow> 'n \<Rightarrow> ((status + unit) \<times> node_clock \<times> 'n) exec)
    \<Rightarrow> ('s, 'c, 'n) store_state \<Rightarrow> (('e store_error + unit) \<times> ('s, 'c, 'n) store_state) exec" where
  "store_write env name c msg err mutation call st =
     do { (r, st) \<leftarrow> handle_select env c st;
          case r of Inl e \<Rightarrow> Some (Inl e, st) | Inr nodes \<Rightarrow>
          do { (ts, g) \<leftarrow> group_get_time (ss_group st);
               (i, g) \<leftarrow> get_or_create_keyspace name g;
               (r, g) \<leftarrow> send_to i (msg ts) g;
               let st = st\<lparr>ss_group := g\<rparr>;
               case r of Inl e \<Rightarrow> Some (Inl (err e), st) | Inr u \<Rightarrow>
                 handle_consistency_distribution (se_sched env) nodes (request_to env (call ts))
                   (st\<lparr>ss_queue := ss_queue st @ [MutationOp (mutation ts)]\<rparr>) } }"

definition handle_put ::
  "('s, 'e, 'c, 'n) store_env \<Rightarrow> string \<Rightarrow> key \<Rightarrow> u8 list \<Rightarrow> consistency \<Rightarrow> ('s, 'c, 'n) store_state \<Rightarrow> (('e store_error + unit) \<times> ('s, 'c, 'n) store_state) exec" where
  "handle_put env name k bytes c =
     store_write env name c
       (\<lambda>ts. on_set (se_ops env) \<lparr>set_source = CONSISTENCY_SOURCE_ID, set_doc = document_new k ts bytes, set_ctx = None\<rparr>) StorageError
       (\<lambda>ts. MutPut name (document_new k ts bytes))
       (\<lambda>ts client. client_put (cr_put client) name (document_new k ts bytes) (member_id (se_me env)) (public_addr (se_me env)))"

definition handle_put_many ::
  "('s, 'e, 'c, 'n) store_env \<Rightarrow> string \<Rightarrow> (key \<times> u8 list) list \<Rightarrow> consistency \<Rightarrow> ('s, 'c, 'n) store_state
    \<Rightarrow> (('e store_error + unit) \<times> ('s, 'c, 'n) store_state) exec" where
  "handle_put_many env name documents c =
     store_write env name c
       (\<lambda>ts. on_multi_set (se_ops env) \<lparr>mset_source = CONSISTENCY_SOURCE_ID,
          mset_docs = map (\<lambda>(k, bytes). document_new k ts bytes) documents, mset_ctx = None\<rparr>) BulkStorageError
       (\<lambda>ts. MutMultiPut name (map (\<lambda>(k, bytes). document_new k ts bytes) documents))
       (\<lambda>ts client. client_multi_put (cr_multi_put client) name (map (\<lambda>(k, bytes). document_new k ts bytes) documents)
          (member_id (se_me env)) (public_addr (se_me env)))"

definition handle_del ::
  "('s, 'e, 'c, 'n) store_env \<Rightarrow> string \<Rightarrow> key \<Rightarrow> consistency \<Rightarrow> ('s, 'c, 'n) store_state \<Rightarrow> (('e store_error + unit) \<times> ('s, 'c, 'n) store_state) exec" where
  "handle_del env name k c =
     store_write env name c
       (\<lambda>ts. on_del (se_ops env) \<lparr>del_source = CONSISTENCY_SOURCE_ID, del_doc = metadata_new k ts\<rparr>) StorageError
       (\<lambda>ts. MutDel name (metadata_new k ts))
       (\<lambda>ts client. client_del (cr_del client) name k ts)"

definition handle_del_many ::
  "('s, 'e, 'c, 'n) store_env \<Rightarrow> string \<Rightarrow> key list \<Rightarrow> consistency \<Rightarrow> ('s, 'c, 'n) store_state \<Rightarrow> (('e store_error + unit) \<times> ('s, 'c, 'n) store_state) exec" where
  "handle_del_many env name ks c =
     store_write env name c
       (\<lambda>ts. on_multi_del (se_ops env) \<lparr>mdel_source = CONSISTENCY_SOURCE_ID, mdel_docs = map (\<lambda>k. metadata_new k ts) ks\<rparr>) BulkStorageError
       (\<lambda>ts. MutMultiDel name (map (\<lambda>k. metadata_new k ts) ks))
       (\<lambda>ts client. client_multi_del (cr_multi_del client) name (map (\<lambda>k. metadata_new k ts) ks))"

text \<open>A handle with a preset keyspace passes it on.\<close>

record ('s, 'e, 'c, 'n) keyspace_handle =
  kh_inner :: "('s, 'e, 'c, 'n) store_env"
  kh_keyspace :: string

definition with_keyspace :: "('s, 'e, 'c, 'n) store_env \<Rightarrow> string \<Rightarrow> ('s, 'e, 'c, 'n) keyspace_handle" where
  "with_keyspace env name = \<lparr>kh_inner = env, kh_keyspace = name\<rparr>"

definition kh_get where "kh_get h k = handle_get (kh_inner h) (kh_keyspace h) k"
definition kh_get_many where "kh_get_many h ks = handle_get_many (kh_inner h) (kh_keyspace h) ks"
definition kh_put where "kh_put h k bytes c = handle_put (kh_inner h) (kh_keyspace h) k bytes c"
definition kh_put_many where "kh_put_many h documents c = handle_put_many (kh_inner h) (kh_keyspace h) documents c"
definition kh_del where "kh_del h k c = handle_del (kh_inner h) (kh_keyspace h) k c"
definition kh_del_many where "kh_del_many h ks c = handle_del_many (kh_inner h) (kh_keyspace h) ks c"

text \<open>Every membership change goes to both services.\<close>

primrec forward_changes :: "membership_change list \<Rightarrow> distributor_op list \<times> membership_change list \<Rightarrow> distributor_op list \<times> membership_change list" where
  "forward_changes [] q = q"
| "forward_changes (c # cs) q = forward_changes cs (fst q @ [MembershipChangeOp c], snd q @ [c])"

end
