(* ===== verification/StoreWrites.thy ===== *)
theory StoreWrites
  imports Store
begin

text \<open>
  The writes of the handle against a network of replicas: every write answers, and a success means that
  the local node and every replica of an answer that meets the consistency level have the write.
\<close>

section \<open>The four writes\<close>

datatype store_op = PutOp key "u8 list" | PutManyOp "(key \<times> u8 list) list" | DelOp key | DelManyOp "key list"

primrec run_store_op ::
  "('s, 'e, 'c, 'n) store_env \<Rightarrow> string \<Rightarrow> store_op \<Rightarrow> consistency \<Rightarrow> ('s, 'c, 'n) store_state \<Rightarrow> (('e store_error + unit) \<times> ('s, 'c, 'n) store_state) exec" where
  "run_store_op env name (PutOp k bytes) c = handle_put env name k bytes c"
| "run_store_op env name (PutManyOp documents) c = handle_put_many env name documents c"
| "run_store_op env name (DelOp k) c = handle_del env name k c"
| "run_store_op env name (DelManyOp ks) c = handle_del_many env name ks c"

text \<open>What a write of a timestamp writes, queues and asks of a replica.\<close>

primrec op_entries :: "store_op \<Rightarrow> hlc_timestamp \<Rightarrow> (key \<times> lww_register) list" where
  "op_entries (PutOp k bytes) ts = live_entries [document_new k ts bytes]"
| "op_entries (PutManyOp documents) ts = live_entries (map (\<lambda>(k, bytes). document_new k ts bytes) documents)"
| "op_entries (DelOp k) ts = dead_entries [metadata_new k ts]"
| "op_entries (DelManyOp ks) ts = dead_entries (map (\<lambda>k. metadata_new k ts) ks)"

primrec op_keys :: "store_op \<Rightarrow> key list" where
  "op_keys (PutOp k bytes) = [k]" | "op_keys (PutManyOp documents) = map fst documents"
| "op_keys (DelOp k) = [k]" | "op_keys (DelManyOp ks) = ks"

primrec op_removes :: "store_op \<Rightarrow> bool" where
  "op_removes (PutOp k bytes) = False" | "op_removes (PutManyOp documents) = False"
| "op_removes (DelOp k) = True" | "op_removes (DelManyOp ks) = True"

primrec op_mutation :: "string \<Rightarrow> store_op \<Rightarrow> hlc_timestamp \<Rightarrow> mutation" where
  "op_mutation name (PutOp k bytes) ts = MutPut name (document_new k ts bytes)"
| "op_mutation name (PutManyOp documents) ts = MutMultiPut name (map (\<lambda>(k, bytes). document_new k ts bytes) documents)"
| "op_mutation name (DelOp k) ts = MutDel name (metadata_new k ts)"
| "op_mutation name (DelManyOp ks) ts = MutMultiDel name (map (\<lambda>k. metadata_new k ts) ks)"

primrec op_request :: "cluster_member \<Rightarrow> string \<Rightarrow> store_op \<Rightarrow> hlc_timestamp \<Rightarrow> hlc_timestamp \<Rightarrow> consistency_request" where
  "op_request me name (PutOp k bytes) ts now = PutReq \<lparr>pp_keyspace = name, pp_ctx = Some \<lparr>cx_node_id = member_id me, cx_node_addr = public_addr me\<rparr>,
     pp_document = document_new k ts bytes, pp_timestamp = now\<rparr>"
| "op_request me name (PutManyOp documents) ts now = MultiPutReq \<lparr>mp_keyspace = name, mp_ctx = Some \<lparr>cx_node_id = member_id me, cx_node_addr = public_addr me\<rparr>,
     mp_documents = map (\<lambda>(k, bytes). document_new k ts bytes) documents, mp_timestamp = now\<rparr>"
| "op_request me name (DelOp k) ts now = RemoveReq \<lparr>rp_keyspace = name, rp_document = metadata_new k ts, rp_timestamp = now\<rparr>"
| "op_request me name (DelManyOp ks) ts now = MultiRemoveReq \<lparr>mr_keyspace = name, mr_documents = map (\<lambda>k. metadata_new k ts) ks, mr_timestamp = now\<rparr>"

lemma op_request_fields [simp]:
  "req_keyspace (op_request me name x ts now) = name" "req_timestamp (op_request me name x ts now) = now"
  "req_entries (op_request me name x ts now) = op_entries x ts" "is_removal (op_request me name x ts now) = op_removes x"
  by (cases x; simp)+

lemma entries_ok_op:
  "distinct (op_keys x) \<Longrightarrow> in_order src ts st \<Longrightarrow> entries_ok src (op_entries x ts) st"
  by (cases x) (auto simp: comp_def case_prod_beta metadata_new_def)

section \<open>Replicas\<close>

definition cluster_calls ::
  "('s, 'e) storage_ops \<Rightarrow> ('e \<Rightarrow> string) \<Rightarrow> ('e bulk_mutation_error \<Rightarrow> string) \<Rightarrow> addr \<Rightarrow> (addr \<Rightarrow> 's keyspace_group) consistency_rpc" where
  "cluster_calls ops te bte a =
     (let at = (\<lambda>h net. do { (r, g) \<leftarrow> h (net a); Some (map_sum id Some r, net(a := g)) })
      in \<lparr>cr_put = (\<lambda>q. at (on_put_payload ops te (Some q))), cr_multi_put = (\<lambda>q. at (on_multi_put_payload ops bte (Some q))),
          cr_del = (\<lambda>q. at (on_remove_payload ops te (Some q))), cr_multi_del = (\<lambda>q. at (on_multi_remove_payload ops bte (Some q)))\<rparr>)"

text \<open>The call all four clients make.\<close>

definition request_call ::
  "('s, 'e) storage_ops \<Rightarrow> ('e \<Rightarrow> string) \<Rightarrow> ('e bulk_mutation_error \<Rightarrow> string) \<Rightarrow> (hlc_timestamp \<Rightarrow> consistency_request) \<Rightarrow> addr
    \<Rightarrow> node_clock \<Rightarrow> (addr \<Rightarrow> 's keyspace_group) \<Rightarrow> ((status + unit) \<times> node_clock \<times> (addr \<Rightarrow> 's keyspace_group)) exec" where
  "request_call ops te bte req a clock net =
     do { (ts, clock) \<leftarrow> clock_get clock;
          (r, g) \<leftarrow> on_request ops te bte (req ts) (net a);
          finish_call (map_sum id Some r) clock (net(a := g)) }"

lemma client_calls:
  "client_put (cr_put (cluster_calls ops te bte a)) name (document_new k ts bytes) (member_id me) (public_addr me) =
     request_call ops te bte (op_request me name (PutOp k bytes) ts) a"
  "client_multi_put (cr_multi_put (cluster_calls ops te bte a)) name (map (\<lambda>(k, bytes). document_new k ts bytes) documents) (member_id me) (public_addr me) =
     request_call ops te bte (op_request me name (PutManyOp documents) ts) a"
  "client_del (cr_del (cluster_calls ops te bte a)) name k ts = request_call ops te bte (op_request me name (DelOp k) ts) a"
  "client_multi_del (cr_multi_del (cluster_calls ops te bte a)) name (map (\<lambda>k. metadata_new k ts) ks) =
     request_call ops te bte (op_request me name (DelManyOp ks) ts) a"
  by (auto simp: fun_eq_iff client_put_def client_multi_put_def client_del_def client_multi_del_def cluster_calls_def request_call_def
      intro!: Option.bind_cong split: prod.splits)

text \<open>The timestamp of a reply.\<close>

lemma handle_write_reply:
  assumes run: "handle_write te ts name h g = Some (Inr t, g')" and clk: "clock_fit m (group_clock g)" "unat (counter ts) \<le> m" "m + 4 < 2 ^ 16"
    and h: "\<And>a w r a' w'. h a w = Some (r, a', w') \<Longrightarrow> clock_used w w'"
  shows "unat (counter t) \<le> m + 4"
proof -
  obtain g1 i g2 r g3 where g1: "group_register_ts ts g = Some g1" and g2: "get_or_create_keyspace name g1 = Some (i, g2)"
    and g3: "send_to i h g2 = Some (r, g3)" and t: "group_get_time g3 = Some (t, g')"
    using run by (auto simp: handle_write_def try_send_def split: bind_splits sum.splits)
  have f1: "clock_fit (Suc m) (group_clock g1)" using register_fit [OF clk(1,2)] g1 by auto
  have "clock_used (g_world g1) (g_world g2)"
    using g2 by (auto simp: clock_used_def get_or_create_keyspace_def add_state_def spawn_state_def split: option.splits bind_splits)
  then have f2: "clock_fit (Suc (Suc m)) (group_clock g2)" using clock_used_fit [OF _ f1] clk(3) by auto
  have "clock_used (g_world g2) (g_world g3)" using g3 h by (auto simp: send_to_def split: bind_splits)
  then have f3: "clock_fit (Suc (Suc (Suc m))) (group_clock g3)" using clock_used_fit [OF _ f2] clk(3) by auto
  show ?thesis using get_time_fit [OF f3] clk(3) t by auto
qed

lemma request_reply:
  assumes "on_request ops te bte q g = Some (Inr t, g')" "clock_fit m (group_clock g)" "unat (counter (req_timestamp q)) \<le> m" "m + 4 < 2 ^ 16"
  shows "unat (counter t) \<le> m + 4"
  using assms(1)
proof (cases q)
  case (PutReq p)
  show ?thesis
    by (rule handle_write_reply [where h = "on_set ops \<lparr>set_source = CONSISTENCY_SOURCE_ID, set_doc = pp_document p,
        set_ctx = projr (get_put_ctx (pp_ctx p))\<rparr>" and te = te and name = "pp_keyspace p" and ts = "pp_timestamp p", OF _ assms(2) _ assms(4)])
      (use assms(1,3) handlers_clock in \<open>auto simp: PutReq on_put_payload_def to_owned_def get_put_ctx_def\<close>)
next
  case (MultiPutReq p)
  show ?thesis
    by (rule handle_write_reply [where h = "on_multi_set ops \<lparr>mset_source = CONSISTENCY_SOURCE_ID, mset_docs = mp_documents p,
        mset_ctx = projr (get_put_ctx (mp_ctx p))\<rparr>" and te = bte and name = "mp_keyspace p" and ts = "mp_timestamp p", OF _ assms(2) _ assms(4)])
      (use assms(1,3) handlers_clock in \<open>auto simp: MultiPutReq on_multi_put_payload_def to_owned_def get_put_ctx_def\<close>)
next
  case (RemoveReq p)
  show ?thesis
    by (rule handle_write_reply [where h = "on_del ops \<lparr>del_source = CONSISTENCY_SOURCE_ID, del_doc = rp_document p\<rparr>"
        and te = te and name = "rp_keyspace p" and ts = "rp_timestamp p", OF _ assms(2) _ assms(4)])
      (use assms(1,3) handlers_clock in \<open>auto simp: RemoveReq on_remove_payload_def to_owned_def\<close>)
next
  case (MultiRemoveReq p)
  show ?thesis
    by (rule handle_write_reply [where h = "on_multi_del ops \<lparr>mdel_source = CONSISTENCY_SOURCE_ID, mdel_docs = mr_documents p\<rparr>"
        and te = bte and name = "mr_keyspace p" and ts = "mr_timestamp p", OF _ assms(2) _ assms(4)])
      (use assms(1,3) handlers_clock in \<open>auto simp: MultiRemoveReq on_multi_remove_payload_def to_owned_def\<close>)
qed

text \<open>A replica that can take a write.\<close>

definition replica_ready ::
  "('s \<Rightarrow> bool) \<Rightarrow> ('s \<Rightarrow> string \<Rightarrow> bool) \<Rightarrow> ('s \<Rightarrow> string \<Rightarrow> key \<rightharpoonup> stored) \<Rightarrow> string \<Rightarrow> store_op \<Rightarrow> hlc_timestamp \<Rightarrow> nat \<Rightarrow> 's keyspace_group \<Rightarrow> bool" where
  "replica_ready invar known look name x ts m g \<longleftrightarrow> group_inv invar look g \<and> clock_fit m (group_clock g) \<and>
     in_order CONSISTENCY_SOURCE_ID ts (group_set g name) \<and> (op_removes x \<longrightarrow> known (group_store g) name)"

lemma replica_ready_mono: "replica_ready invar known look name x ts m g \<Longrightarrow> m \<le> m' \<Longrightarrow> replica_ready invar known look name x ts m' g"
  using clock_fit_mono by (auto simp: replica_ready_def)

text \<open>A node that has the write.\<close>

definition has_write :: "string \<Rightarrow> (key \<times> lww_register) list \<Rightarrow> 's keyspace_group \<Rightarrow> 's keyspace_group \<Rightarrow> bool" where
  "has_write name es g g' \<longleftrightarrow> (\<forall>ks. ks \<noteq> name \<longrightarrow> group_set g' ks = group_set g ks) \<and>
     (\<forall>k. group_reg g' name k = overwrite (group_reg g name k) (entry_at es k))"

lemma effect_written: "effect_of es (group_set g name) r st \<Longrightarrow> group_set g' = (group_set g)(name := st) \<Longrightarrow> is_ok r \<Longrightarrow> has_write name es g g'"
  by (auto simp: effect_of_def has_write_def group_reg_def writes_all)

text \<open>
  A write that was performed: with a new timestamp on the local node, in the distributor's queue, and
  on every replica of an answer that meets the level if the result is a success; otherwise the result
  tells how many replicas acknowledged.
\<close>

definition performed ::
  "('s \<Rightarrow> bool) \<Rightarrow> ('s \<Rightarrow> string \<Rightarrow> key \<rightharpoonup> stored) \<Rightarrow> addr \<Rightarrow> string \<Rightarrow> (string, addr list) btree_map \<Rightarrow> consistency \<Rightarrow> string \<Rightarrow> store_op
    \<Rightarrow> ('s, 'c, addr \<Rightarrow> 's keyspace_group) store_state \<Rightarrow> 'e store_error + unit \<Rightarrow> ('s, 'c, addr \<Rightarrow> 's keyspace_group) store_state \<Rightarrow> bool" where
  "performed invar look L D members c name x st r st' \<longleftrightarrow>
     (\<exists>ts nodes. hlc (group_clock (ss_group st)) < ts \<and> answer_ok L D members c (Inr nodes) \<and>
        group_inv invar look (ss_group st') \<and> has_write name (op_entries x ts) (ss_group st) (ss_group st') \<and>
        ss_queue st' = ss_queue st @ [MutationOp (op_mutation name x ts)] \<and>
        (\<forall>a. a \<notin> set nodes \<longrightarrow> ss_net st' a = ss_net st a) \<and> (\<forall>a \<in> set nodes. group_inv invar look (ss_net st' a)) \<and>
        (r = Inr () \<and> (\<forall>a \<in> set nodes. has_write name (op_entries x ts) (ss_net st a) (ss_net st' a)) \<or>
         (\<exists>n < length nodes. r = Inl (ConsistencyError (ConsistencyFailure n (length nodes) TIMEOUT)))))"

context storage
begin

lemma request_call_spec:
  assumes rdy: "replica_ready invar known look name x ts m (net a)" and dist: "distinct (op_keys x)"
    and clk: "clock_fit m clock" "m + 6 < 2 ^ 16"
  shows "\<exists>r clock' g. request_call ops te bte (op_request me name x ts) a clock net = Some (r, clock', net(a := g)) \<and>
    clock_fit (m + 6) clock' \<and> group_inv invar look g \<and> (is_ok r \<longrightarrow> has_write name (op_entries x ts) (net a) g)"
proof -
  obtain t c1 where c1: "clock_get clock = Some (t, c1)" "clock_fit (Suc m) c1" "unat (counter t) \<le> Suc m"
    using clock_fit_get [OF clk(1)] clk(2) by auto
  let ?q = "op_request me name x ts t"
  have fit: "clock_fit (Suc m) (group_clock (net a))" using rdy clock_fit_mono by (auto simp: replica_ready_def)
  obtain c where c: "clock_register t (group_clock (net a)) = Some c" "clock_fit (Suc (Suc m)) c"
    using clock_fit_register [OF fit c1(3)] by blast
  have "clock_answers 3 c" using clock_fit_answers [OF c(2), of 3] clk(2) by (simp del: clock_answers.simps)
  then obtain r g st where g: "on_request ops te bte ?q (net a) = Some (r, g)" "group_inv invar look g"
    "group_set g = (group_set (net a))(name := st)" "effect_of (op_entries x ts) (group_set (net a) name) r st"
    using request_spec [of "net a" ?q c te bte] rdy c(1) entries_ok_op [OF dist] by (auto simp: replica_ready_def)
  show ?thesis
  proof (cases r)
    case (Inl e)
    then show ?thesis using c1(1) g clock_fit_mono [OF c1(2), of "m + 6"]
      by (intro exI [of _ "Inl e"] exI [of _ c1] exI [of _ g]) (simp add: request_call_def finish_call_def and_then_def)
  next
    case (Inr t')
    have "unat (counter t') \<le> Suc m + 4"
      using request_reply [OF _ fit, of ops te bte ?q t' g] g(1) Inr c1(3) clk(2) by simp
    moreover have "clock_fit (Suc m + 4) c1" using clock_fit_mono [OF c1(2)] by simp
    ultimately obtain c2 where c2: "clock_register t' c1 = Some c2" "clock_fit (Suc (Suc m + 4)) c2"
      using clock_fit_register by blast
    have "clock_fit (m + 6) c2" using clock_fit_mono [OF c2(2)] by simp
    then show ?thesis using c1(1) c2(1) g Inr effect_written [OF g(4,3)]
      by (intro exI [of _ "Inr ()"] exI [of _ c2] exI [of _ g]) (simp add: request_call_def finish_call_def and_then_def to_owned_def)
  qed
qed


text \<open>The requests of a write, one after the other.\<close>

lemma request_to_spec:
  assumes env: "se_connect env = (\<lambda>a. a)" "se_client env = cluster_calls ops te bte"
    and call: "\<And>a. call (cluster_calls ops te bte a) = request_call ops te bte (op_request me name x ts) a"
    and cl: "\<forall>a c. map_of (ss_clients st) a = Some c \<longrightarrow> c = a"
    and rdy: "replica_ready invar known look name x ts m (ss_net st a)" and dist: "distinct (op_keys x)"
    and clk: "clock_fit m (group_clock (ss_group st))" "m + 6 < 2 ^ 16"
  shows "\<exists>r c cl' g. request_to env call a st = Some (r, st\<lparr>ss_clients := cl',
      ss_group := (ss_group st)\<lparr>g_world := (g_world (ss_group st))\<lparr>w_clock := c\<rparr>\<rparr>, ss_net := (ss_net st)(a := g)\<rparr>) \<and>
    (\<forall>a c. map_of cl' a = Some c \<longrightarrow> c = a) \<and> clock_fit (m + 6) c \<and> group_inv invar look g \<and>
    (is_ok r \<longrightarrow> has_write name (op_entries x ts) (ss_net st a) g)"
proof -
  obtain ch cl' where ch: "get_or_connect (\<lambda>a. a) a (ss_clients st) = (ch, cl')" by (metis prod.collapse)
  then have cl': "ch = a" "\<forall>a c. map_of cl' a = Some c \<longrightarrow> c = a"
    using cl by (auto simp: get_or_connect_def network_connect_def Let_def split: option.splits if_splits)
  obtain r c g where "request_call ops te bte (op_request me name x ts) a (group_clock (ss_group st)) (ss_net st) = Some (r, c, (ss_net st)(a := g))"
    "clock_fit (m + 6) c" "group_inv invar look g" "is_ok r \<longrightarrow> has_write name (op_entries x ts) (ss_net st a) g"
    using request_call_spec [where net = "ss_net st" and a = a and te = te and bte = bte and me = me, OF rdy dist clk] by blast
  then show ?thesis using ch cl' call
    by (intro exI [of _ "map_sum (RpcError a) id r"] exI [of _ c] exI [of _ cl'] exI [of _ g])
      (cases r; simp add: request_to_def env via_clock_def)
qed

lemma count_acks_spec:
  assumes env: "se_connect env = (\<lambda>a. a)" "se_client env = cluster_calls ops te bte"
    and call: "\<And>a. call (cluster_calls ops te bte a) = request_call ops te bte (op_request me name x ts) a" and keys: "distinct (op_keys x)"
    and "\<forall>a c. map_of (ss_clients st) a = Some c \<longrightarrow> c = a" "distinct as"
    and "\<forall>a \<in> set as. replica_ready invar known look name x ts m (ss_net st a)"
    and "clock_fit m (group_clock (ss_group st))" "m + 6 * length as < 2 ^ 16"
  shows "\<exists>n st'. count_acks (request_to env call) as st = Some (n, st') \<and> n \<le> length as \<and> ss_queue st' = ss_queue st \<and> ss_selector st' = ss_selector st \<and>
    (\<exists>c. ss_group st' = (ss_group st)\<lparr>g_world := (g_world (ss_group st))\<lparr>w_clock := c\<rparr>\<rparr>) \<and>
    (\<forall>a. a \<notin> set as \<longrightarrow> ss_net st' a = ss_net st a) \<and> (\<forall>a \<in> set as. group_inv invar look (ss_net st' a)) \<and>
    (n = length as \<longrightarrow> (\<forall>a \<in> set as. has_write name (op_entries x ts) (ss_net st a) (ss_net st' a)))"
  using assms(5-)
proof (induction as arbitrary: st m)
  case Nil
  then show ?case by (auto intro!: exI [of _ "group_clock (ss_group st)"])
next
  case (Cons a as)
  have "m + 6 < 2 ^ 16" using Cons.prems(5) by simp
  from request_to_spec [OF env call Cons.prems(1) _ keys Cons.prems(4) this, of a] Cons.prems(3) obtain r c cl' g where
    r: "request_to env call a st = Some (r, st\<lparr>ss_clients := cl',
      ss_group := (ss_group st)\<lparr>g_world := (g_world (ss_group st))\<lparr>w_clock := c\<rparr>\<rparr>, ss_net := (ss_net st)(a := g)\<rparr>)"
    "\<forall>a c. map_of cl' a = Some c \<longrightarrow> c = a" "clock_fit (m + 6) c" "group_inv invar look g"
    "is_ok r \<longrightarrow> has_write name (op_entries x ts) (ss_net st a) g"
    by auto
  let ?st = "st\<lparr>ss_clients := cl', ss_group := (ss_group st)\<lparr>g_world := (g_world (ss_group st))\<lparr>w_clock := c\<rparr>\<rparr>, ss_net := (ss_net st)(a := g)\<rparr>"
  have a: "a \<notin> set as" "distinct as" using Cons.prems(2) by simp_all
  have pre: "\<forall>b \<in> set as. replica_ready invar known look name x ts (m + 6) (ss_net ?st b)"
    using Cons.prems(3) a(1) replica_ready_mono by fastforce
  have pre2: "\<forall>a c. map_of (ss_clients ?st) a = Some c \<longrightarrow> c = a" "clock_fit (m + 6) (group_clock (ss_group ?st))" "m + 6 + 6 * length as < 2 ^ 16"
    using r(2,3) Cons.prems(5) by simp_all
  obtain n st' where st': "count_acks (request_to env call) as ?st = Some (n, st')" "n \<le> length as" "ss_queue st' = ss_queue st" "ss_selector st' = ss_selector st"
    "\<exists>c. ss_group st' = (ss_group ?st)\<lparr>g_world := (g_world (ss_group ?st))\<lparr>w_clock := c\<rparr>\<rparr>"
    "\<forall>b. b \<notin> set as \<longrightarrow> ss_net st' b = ss_net ?st b" "\<forall>b \<in> set as. group_inv invar look (ss_net st' b)"
    "n = length as \<longrightarrow> (\<forall>b \<in> set as. has_write name (op_entries x ts) (ss_net ?st b) (ss_net st' b))"
    using Cons.IH [OF pre2(1) a(2) pre pre2(2,3)] by auto
  have net: "ss_net st' a = g" "\<And>b. b \<in> set as \<Longrightarrow> ss_net ?st b = ss_net st b" using st'(6) a(1) by auto
  have "(if is_ok r then Suc n else n) = length (a # as) \<longleftrightarrow> is_ok r \<and> n = length as" using st'(2) by auto
  then show ?case using r(1,4,5) st' net
    by (intro exI [of _ "if is_ok r then Suc n else n"] exI [of _ st']) auto
qed


text \<open>The part of a write at the local node.\<close>

lemma local_write:
  fixes msg :: "hlc_timestamp \<Rightarrow> keyspace_actor \<Rightarrow> 's world \<Rightarrow> (('x + unit) \<times> keyspace_actor \<times> 's world) exec"
  assumes rdy: "replica_ready invar known look name x ts m g" and clk: "clock_fit (Suc m) c" "Suc (Suc m) < 2 ^ 16 - 1" and keys: "distinct (op_keys x)"
    and msg: "\<And>ts a w. actor_inv invar look a w \<Longrightarrow> ks_name a = name \<Longrightarrow> entries_ok CONSISTENCY_SOURCE_ID (op_entries x ts) (ks_state a) \<Longrightarrow>
      (op_removes x \<longrightarrow> known (w_store w) name) \<Longrightarrow> clock_answers 1 (w_clock w) \<Longrightarrow> takes invar known look a w (msg ts) (effect_of (op_entries x ts) (ks_state a))"
  shows "\<exists>i g2 q g3. get_or_create_keyspace name (g\<lparr>g_world := (g_world g)\<lparr>w_clock := c\<rparr>\<rparr>) = Some (i, g2) \<and> send_to i (msg ts) g2 = Some (q, g3) \<and>
    group_inv invar look g3 \<and> clock_fit (Suc (Suc (Suc m))) (group_clock g3) \<and> (is_ok q \<longrightarrow> has_write name (op_entries x ts) g g3)"
proof -
  let ?g1 = "g\<lparr>g_world := (g_world g)\<lparr>w_clock := c\<rparr>\<rparr>"
  have inv1: "group_inv invar look ?g1" "clock_fit (Suc m) (group_clock ?g1)" "Suc m < 2 ^ 16 - 1"
    using rdy clk by (simp_all add: replica_ready_def)
  obtain i g2 where g2: "get_or_create_keyspace name ?g1 = Some (i, g2)" "group_inv invar look g2" "map_of (g_group g2) name = Some i"
    "group_store g2 = group_store g" "group_set g2 = group_set g" "clock_fit (Suc (Suc m)) (group_clock g2)"
    using create_fit [OF inv1, of name] by auto
  have a: "actor_inv invar look (g_actors g2 ! i) (g_world g2)" "ks_name (g_actors g2 ! i) = name" "ks_state (g_actors g2 ! i) = group_set g name"
    using g2(2,3) send_read(2) [OF g2(2,3)] g2(5) by (auto simp: group_inv_def group_wf_def)
  have "clock_answers 1 (group_clock g2)" using clock_fit_answers [OF g2(6), of 1] clk(2) by (simp del: clock_answers.simps)
  then have "takes invar known look (g_actors g2 ! i) (g_world g2) (msg ts) (effect_of (op_entries x ts) (group_set g2 name))"
    using msg [OF a(1,2), of ts] entries_ok_op [OF keys] rdy g2(4,5) a(3) by (simp add: replica_ready_def)
  from send_fit [OF g2(2,3) this g2(6) clk(2)] obtain q g3 s3 where
    g3: "send_to i (msg ts) g2 = Some (q, g3)" "group_inv invar look g3" "group_set g3 = (group_set g2)(name := s3)"
      "effect_of (op_entries x ts) (group_set g2 name) q s3" "clock_fit (Suc (Suc (Suc m))) (group_clock g3)" by blast
  have "is_ok q \<longrightarrow> has_write name (op_entries x ts) g g3"
    using effect_written [OF g3(4,3)] g2(5) by (simp add: has_write_def group_reg_def)
  then show ?thesis using g2(1) g3(1,2,5) by blast
qed

text \<open>The write is sent to all selected nodes; when as many acknowledge it, all of them have it.\<close>

lemma distribution_spec:
  assumes env: "se_connect env = (\<lambda>a. a)" "se_client env = cluster_calls ops te bte" "\<And>xs. mset (se_sched env xs) = mset xs"
    and call: "\<And>a. call (cluster_calls ops te bte a) = request_call ops te bte (op_request (se_me env) name x ts) a"
    and keys: "distinct (op_keys x)" and cl: "\<forall>a c. map_of (ss_clients st) a = Some c \<longrightarrow> c = a" and nodes: "distinct nodes"
    and rdy: "\<forall>a \<in> set nodes. replica_ready invar known look name x ts m (ss_net st a)"
    and clk: "clock_fit m (group_clock (ss_group st))" "m + 6 * length nodes < 2 ^ 16"
  shows "\<exists>n st' c. handle_consistency_distribution (se_sched env) nodes (request_to env call) st =
      Some (if n \<noteq> length nodes then Inl (ConsistencyError (ConsistencyFailure n (length nodes) TIMEOUT)) else Inr (), st') \<and> n \<le> length nodes \<and>
    ss_queue st' = ss_queue st \<and> ss_group st' = (ss_group st)\<lparr>g_world := (g_world (ss_group st))\<lparr>w_clock := c\<rparr>\<rparr> \<and>
    (\<forall>a. a \<notin> set nodes \<longrightarrow> ss_net st' a = ss_net st a) \<and> (\<forall>a \<in> set nodes. group_inv invar look (ss_net st' a)) \<and>
    (n = length nodes \<longrightarrow> (\<forall>a \<in> set nodes. has_write name (op_entries x ts) (ss_net st a) (ss_net st' a)))"
proof -
  have sch: "set (se_sched env nodes) = set nodes" "distinct (se_sched env nodes)" "length (se_sched env nodes) = length nodes"
    using env(3) [of nodes] nodes mset_eq_setD mset_eq_imp_distinct_iff mset_eq_length by blast+
  have "m + 6 * length (se_sched env nodes) < 2 ^ 16" using clk(2) sch(3) by simp
  from count_acks_spec [where call = call and st = st, OF env(1,2) call keys cl sch(2) rdy [folded sch(1)] clk(1) this]
  obtain n st' c where "count_acks (request_to env call) (se_sched env nodes) st = Some (n, st')" "n \<le> length nodes"
    "ss_queue st' = ss_queue st" "ss_group st' = (ss_group st)\<lparr>g_world := (g_world (ss_group st))\<lparr>w_clock := c\<rparr>\<rparr>"
    "\<forall>a. a \<notin> set nodes \<longrightarrow> ss_net st' a = ss_net st a" "\<forall>a \<in> set nodes. group_inv invar look (ss_net st' a)"
    "n = length nodes \<longrightarrow> (\<forall>a \<in> set nodes. has_write name (op_entries x ts) (ss_net st a) (ss_net st' a))"
    unfolding sch(1,3) by auto
  then show ?thesis by (intro exI [of _ n] exI [of _ st'] exI [of _ c]) (simp add: handle_consistency_distribution_def)
qed

text \<open>The part of a write after the local node has it: \<open>st3\<close> is the state in which the replicas are called.\<close>

lemma distribution_performs:
  fixes nodes :: "addr list"
  assumes env: "se_connect env = (\<lambda>a. a)" "se_client env = cluster_calls ops te bte" "\<And>xs. mset (se_sched env xs) = mset xs"
    and call: "\<And>a. call (cluster_calls ops te bte a) = request_call ops te bte (op_request (se_me env) name x ts) a"
    and keys: "distinct (op_keys x)" and cl: "\<forall>a c. map_of (ss_clients st3) a = Some c \<longrightarrow> c = a"
    and nodes: "answer_ok L D members c (Inr nodes)" and room: "m + 6 * length (concat (map snd members)) < 2 ^ 16"
    and rdy: "\<forall>a \<in> set (concat (map snd members)). replica_ready invar known look name x ts m (ss_net st3 a)" and fit: "clock_fit m (group_clock (ss_group st3))"
    and loc: "hlc (group_clock (ss_group st)) < ts" "has_write name (op_entries x ts) (ss_group st) (ss_group st3)" "group_inv invar look (ss_group st3)"
    and st3: "ss_net st3 = ss_net st" "ss_queue st3 = ss_queue st @ [MutationOp (op_mutation name x ts)]"
  shows "\<exists>r st'. handle_consistency_distribution (se_sched env) nodes (request_to env call) st3 = Some (r, st') \<and> performed invar look L D members c name x st r st'"
proof -
  have n: "distinct nodes" "set nodes \<subseteq> set (concat (map snd members))" using nodes by (simp_all add: answer_ok_def)
  have "length nodes \<le> length (concat (map snd members))"
    using n by (metis card_length card_mono distinct_card finite_set order_trans)
  then have b: "m + 6 * length nodes < 2 ^ 16" using room by simp
  have rr: "\<forall>a \<in> set nodes. replica_ready invar known look name x ts m (ss_net st3 a)" using rdy n(2) by blast
  from distribution_spec [where call = call and st = st3, OF env call keys cl n(1) rr fit b]
  obtain k st' c' where st': "handle_consistency_distribution (se_sched env) nodes (request_to env call) st3 =
      Some (if k \<noteq> length nodes then Inl (ConsistencyError (ConsistencyFailure k (length nodes) TIMEOUT)) else Inr (), st')" "k \<le> length nodes"
    "ss_queue st' = ss_queue st3" "ss_group st' = (ss_group st3)\<lparr>g_world := (g_world (ss_group st3))\<lparr>w_clock := c'\<rparr>\<rparr>"
    "\<forall>a. a \<notin> set nodes \<longrightarrow> ss_net st' a = ss_net st3 a" "\<forall>a \<in> set nodes. group_inv invar look (ss_net st' a)"
    "k = length nodes \<longrightarrow> (\<forall>a \<in> set nodes. has_write name (op_entries x ts) (ss_net st3 a) (ss_net st' a))"
    by (elim exE conjE)
  have "group_inv invar look (ss_group st')" "has_write name (op_entries x ts) (ss_group st) (ss_group st')"
    using st'(4) loc by (auto simp: has_write_def group_reg_def)
  then have "performed invar look L D members c name x st
      (if k \<noteq> length nodes then Inl (ConsistencyError (ConsistencyFailure k (length nodes) TIMEOUT)) else Inr ()) st'"
    unfolding performed_def using loc(1) nodes st'(2,3,5-7) st3 by (intro exI [of _ ts] exI [of _ nodes]) auto
  with st'(1) show ?thesis by blast
qed

lemma store_write_spec:
  fixes msg :: "hlc_timestamp \<Rightarrow> keyspace_actor \<Rightarrow> 's world \<Rightarrow> (('x + unit) \<times> keyspace_actor \<times> 's world) exec"
  assumes env: "se_connect env = (\<lambda>a. a)" "se_client env = cluster_calls ops te bte" "\<And>xs. mset (se_sched env xs) = mset xs" "rnd_ok (se_choice env)"
    and me: "public_addr (se_me env) = L" "data_center (se_me env) = D"
    and sel: "members_ok L D members" "selector_inv L D members (ss_selector st)"
    and msg: "\<And>ts a w. actor_inv invar look a w \<Longrightarrow> ks_name a = name \<Longrightarrow> entries_ok CONSISTENCY_SOURCE_ID (op_entries x ts) (ks_state a) \<Longrightarrow>
      (op_removes x \<longrightarrow> known (w_store w) name) \<Longrightarrow> clock_answers 1 (w_clock w) \<Longrightarrow> takes invar known look a w (msg ts) (effect_of (op_entries x ts) (ks_state a))"
    and err: "\<And>e. (\<exists>e'. err e = StorageError e') \<or> (\<exists>e'. err e = BulkStorageError e')"
    and call: "\<And>ts a. call ts (cluster_calls ops te bte a) = request_call ops te bte (op_request (se_me env) name x ts) a"
    and keys: "distinct (op_keys x)" and cl: "\<forall>a c. map_of (ss_clients st) a = Some c \<longrightarrow> c = a"
    and clk: "m + 3 + 6 * length (concat (map snd members)) < 2 ^ 16"
    and fresh: "\<And>ts. hlc (group_clock (ss_group st)) < ts \<Longrightarrow> node ts = node (hlc (group_clock (ss_group st))) \<Longrightarrow>
      replica_ready invar known look name x ts m (ss_group st) \<and> (\<forall>a \<in> set (concat (map snd members)). replica_ready invar known look name x ts m (ss_net st a))"
    and fit: "clock_fit m (group_clock (ss_group st))"
  shows "\<exists>r st'. store_write env name c msg err (op_mutation name x) call st = Some (r, st') \<and>
    ((\<exists>e. r = Inl (ConsistencyError e) \<and> answer_ok L D members c (Inl e) \<and> ss_group st' = ss_group st \<and> ss_net st' = ss_net st \<and> ss_queue st' = ss_queue st) \<or>
     ((\<exists>e. r = Inl (StorageError e)) \<or> (\<exists>e. r = Inl (BulkStorageError e))) \<and> group_inv invar look (ss_group st') \<and> ss_net st' = ss_net st \<and> ss_queue st' = ss_queue st \<or>
     performed invar look L D members c name x st r st')"
proof -
  let ?g = "ss_group st"
  obtain r sl where r: "selector_get_nodes (se_choice env) L D (se_now env) (se_done env) c (ss_selector st) = Some (r, sl)" "answer_ok L D members c r"
    using get_nodes_inv [OF sel(2) env(4) sel(1)] by blast
  let ?st = "st\<lparr>ss_selector := sl\<rparr>"
  have hs: "handle_select env c st = Some (map_sum ConsistencyError id r, ?st)" using r(1) me by (simp add: handle_select_def)
  show ?thesis
  proof (cases r)
    case (Inl e)
    then show ?thesis using hs r(2)
      by (intro exI [of _ "Inl (ConsistencyError e)"] exI [of _ ?st]) (simp add: store_write_def)
  next
    case (Inr nodes)
    have m16: "m < 2 ^ 16 - 1" "Suc m < 2 ^ 16 - 1" "Suc (Suc m) < 2 ^ 16 - 1" using clk by simp_all
    obtain ts c1 where c1: "clock_get (group_clock ?g) = Some (ts, c1)" "clock_fit (Suc m) c1" "node ts = node (hlc (group_clock ?g))"
      using clock_fit_get [OF fit m16(1)] by blast
    have lt: "hlc (group_clock ?g) < ts" using clock_get_props(1) [OF _ c1(1)] fit by (simp add: clock_fit_def)
    note rdy = fresh [OF lt c1(3)]
    have loc0: "replica_ready invar known look name x ts m ?g" using rdy by blast
    obtain i g2 q g3 where g2: "get_or_create_keyspace name (?g\<lparr>g_world := (g_world ?g)\<lparr>w_clock := c1\<rparr>\<rparr>) = Some (i, g2)"
      and g3: "send_to i (msg ts) g2 = Some (q, g3)" "group_inv invar look g3" "clock_fit (Suc (Suc (Suc m))) (group_clock g3)"
        "is_ok q \<longrightarrow> has_write name (op_entries x ts) ?g g3"
      using local_write [OF loc0 c1(2) m16(3) keys msg] by blast
    have run: "store_write env name c msg err (op_mutation name x) call st =
        (case q of Inl e \<Rightarrow> Some (Inl (err e), ?st\<lparr>ss_group := g3\<rparr>) | Inr u \<Rightarrow>
          handle_consistency_distribution (se_sched env) nodes (request_to env (call ts))
            (?st\<lparr>ss_group := g3, ss_queue := ss_queue st @ [MutationOp (op_mutation name x ts)]\<rparr>))"
      using hs Inr c1(1) g2 g3(1) by (simp add: store_write_def group_get_time_def split: sum.split)
    show ?thesis
    proof (cases q)
      case (Inl e)
      then show ?thesis using run g3(2) err [of e]
        by (intro exI [of _ "Inl (err e)"] exI [of _ "?st\<lparr>ss_group := g3\<rparr>"]) auto
    next
      case (Inr u)
      let ?st3 = "?st\<lparr>ss_group := g3, ss_queue := ss_queue st @ [MutationOp (op_mutation name x ts)]\<rparr>"
      have rr: "\<forall>a \<in> set (concat (map snd members)). replica_ready invar known look name x ts (Suc (Suc (Suc m))) (ss_net ?st3 a)"
        using conjunct2 [OF rdy] by (auto intro: replica_ready_mono [where m = m])
      have "\<exists>r st'. handle_consistency_distribution (se_sched env) nodes (request_to env (call ts)) ?st3 = Some (r, st') \<and> performed invar look L D members c name x st r st'"
        by (rule distribution_performs [where m = "Suc (Suc (Suc m))", OF env(1-3) call keys _ _ _ rr])
          (use cl r(2) \<open>r = Inr nodes\<close> clk lt g3 Inr in simp_all)
      then show ?thesis using run Inr by auto
    qed
  qed
qed


text \<open>The message of each write does what its entries say.\<close>

lemma op_takes:
  assumes "actor_inv invar look a w" "entries_ok CONSISTENCY_SOURCE_ID (op_entries x ts) (ks_state a)"
    "op_removes x \<longrightarrow> known (w_store w) (ks_name a)" "clock_answers 1 (w_clock w)"
  shows "x = PutOp k bytes \<Longrightarrow> takes invar known look a w (on_set ops \<lparr>set_source = CONSISTENCY_SOURCE_ID, set_doc = document_new k ts bytes, set_ctx = None\<rparr>)
      (effect_of (op_entries x ts) (ks_state a))"
    and "x = PutManyOp documents \<Longrightarrow> takes invar known look a w (on_multi_set ops \<lparr>mset_source = CONSISTENCY_SOURCE_ID,
      mset_docs = map (\<lambda>(k, bytes). document_new k ts bytes) documents, mset_ctx = None\<rparr>) (effect_of (op_entries x ts) (ks_state a))"
    and "x = DelOp k \<Longrightarrow> takes invar known look a w (on_del ops \<lparr>del_source = CONSISTENCY_SOURCE_ID, del_doc = metadata_new k ts\<rparr>)
      (effect_of (op_entries x ts) (ks_state a))"
    and "x = DelManyOp ks \<Longrightarrow> takes invar known look a w (on_multi_del ops \<lparr>mdel_source = CONSISTENCY_SOURCE_ID, mdel_docs = map (\<lambda>k. metadata_new k ts) ks\<rparr>)
      (effect_of (op_entries x ts) (ks_state a))"
  subgoal by (rule takes_mono [OF on_set_takes]) (use assms sources in \<open>auto intro: effect_of_single\<close>)
  subgoal by (rule takes_mono [OF on_multi_set_takes]) (use assms sources in \<open>auto intro: effect_of_bulk\<close>)
  subgoal by (rule takes_mono [OF on_del_takes]) (use assms sources in \<open>auto intro: effect_of_single\<close>)
  subgoal by (rule takes_mono [OF on_multi_del_takes]) (use assms sources in \<open>auto intro: effect_of_bulk\<close>)
  done

lemma store_op_spec:
  assumes env: "se_ops env = ops" "se_connect env = (\<lambda>a. a)" "se_client env = cluster_calls ops te bte" "\<And>xs. mset (se_sched env xs) = mset xs" "rnd_ok (se_choice env)"
    and me: "public_addr (se_me env) = L" "data_center (se_me env) = D"
    and sel: "members_ok L D members" "selector_inv L D members (ss_selector st)"
    and keys: "distinct (op_keys x)" and cl: "\<forall>a c. map_of (ss_clients st) a = Some c \<longrightarrow> c = a"
    and clk: "m + 3 + 6 * length (concat (map snd members)) < 2 ^ 16"
    and fresh: "\<And>ts. hlc (group_clock (ss_group st)) < ts \<Longrightarrow> node ts = node (hlc (group_clock (ss_group st))) \<Longrightarrow>
      replica_ready invar known look name x ts m (ss_group st) \<and> (\<forall>a \<in> set (concat (map snd members)). replica_ready invar known look name x ts m (ss_net st a))"
    and fit: "clock_fit m (group_clock (ss_group st))"
  shows "\<exists>r st'. run_store_op env name x c st = Some (r, st') \<and>
    ((\<exists>e. r = Inl (ConsistencyError e) \<and> answer_ok L D members c (Inl e) \<and> ss_group st' = ss_group st \<and> ss_net st' = ss_net st \<and> ss_queue st' = ss_queue st) \<or>
     ((\<exists>e. r = Inl (StorageError e)) \<or> (\<exists>e. r = Inl (BulkStorageError e))) \<and> group_inv invar look (ss_group st') \<and> ss_net st' = ss_net st \<and> ss_queue st' = ss_queue st \<or>
     performed invar look L D members c name x st r st')"
proof (cases x)
  case (PutOp k bytes)
  show ?thesis
    unfolding PutOp run_store_op.simps handle_put_def op_mutation.simps(1) [symmetric] env(1)
    by (rule store_write_spec [where x = "PutOp k bytes", OF env(2-5) me sel _ _ _ keys [unfolded PutOp] cl clk fresh [unfolded PutOp] fit])
      (simp_all add: env op_takes(1) client_calls(1) del: clock_answers.simps op_entries.simps op_removes.simps)
next
  case (PutManyOp documents)
  show ?thesis
    unfolding PutManyOp run_store_op.simps handle_put_many_def op_mutation.simps(2) [symmetric] env(1)
    by (rule store_write_spec [where x = "PutManyOp documents", OF env(2-5) me sel _ _ _ keys [unfolded PutManyOp] cl clk fresh [unfolded PutManyOp] fit])
      (simp_all add: env op_takes(2) client_calls(2) del: clock_answers.simps op_entries.simps op_removes.simps)
next
  case (DelOp k)
  show ?thesis
    unfolding DelOp run_store_op.simps handle_del_def op_mutation.simps(3) [symmetric] env(1)
    by (rule store_write_spec [where x = "DelOp k", OF env(2-5) me sel _ _ _ keys [unfolded DelOp] cl clk fresh [unfolded DelOp] fit])
      (simp_all add: env op_takes(3) client_calls(3) del: clock_answers.simps op_entries.simps op_removes.simps)
next
  case (DelManyOp ks)
  show ?thesis
    unfolding DelManyOp run_store_op.simps handle_del_many_def op_mutation.simps(4) [symmetric] env(1)
    by (rule store_write_spec [where x = "DelManyOp ks", OF env(2-5) me sel _ _ _ keys [unfolded DelManyOp] cl clk fresh [unfolded DelManyOp] fit])
      (simp_all add: env op_takes(4) client_calls(4) del: clock_answers.simps op_entries.simps op_removes.simps)
qed

end
section \<open>Writes and consistency levels\<close>


definition example_store_env :: "(mem_store, mem_store_error, addr, addr \<Rightarrow> mem_store keyspace_group) store_env" where
  "example_store_env = \<lparr>se_ops = mem_ops, se_me = member_new 1 ''L'' ''dc'', se_choice = take, se_now = 0, se_done = 0, se_connect = (\<lambda>a. a),
     se_client = cluster_calls mem_ops (\<lambda>e. []) (\<lambda>e. []), se_sched = rev\<rparr>"

definition example_store_state :: "(mem_store, addr, addr \<Rightarrow> mem_store keyspace_group) store_state" where
  "example_store_state = \<lparr>ss_group = example_group, ss_selector = selector_set_nodes [(''dc'', [''L'', ''a''])] selector_init, ss_queue = [],
     ss_clients = [], ss_net = (\<lambda>a. example_group)\<rparr>"


end
