(* ===== verification/Rpc.thy ===== *)
theory Rpc
  imports Services Selector
begin

text \<open>
  The RPC framework, \<^verbatim>\<open>datacake-rpc/src\<close>: buffers with their checksum (\<^verbatim>\<open>rkyv_tooling/\<close>), bodies
  (\<^verbatim>\<open>body.rs\<close>, \<^verbatim>\<open>utils.rs\<close>), requests (\<^verbatim>\<open>request.rs\<close>), the registry of handlers (\<^verbatim>\<open>handler.rs\<close>), the
  shared state of the server (\<^verbatim>\<open>server.rs\<close>), the handling of a request (\<^verbatim>\<open>net/server.rs\<close>) and the
  client (\<^verbatim>\<open>client.rs\<close>, \<^verbatim>\<open>net/client.rs\<close>).

  Parameters: the checksum \<open>crc\<close> of \<open>crc32fast\<close>; a \<open>codec\<close> per message type, what \<open>rkyv\<close> writes for a
  value and reads from bytes; the hash of the standard library, whose algorithm is not specified; the
  parser of URIs; and the HTTP connection, with and without a time limit. Handlers act on a state
  \<open>'w\<close> of the node.
\<close>

section \<open>Buffers\<close>

type_synonym u32 = "32 word"

definition to_le_bytes :: "u32 \<Rightarrow> u8 list" where
  "to_le_bytes w = map (\<lambda>i. ucast (drop_bit (8 * i) w)) [0, 1, 2, 3]"

fun from_le_bytes :: "u8 list \<Rightarrow> u32" where
  "from_le_bytes [] = 0"
| "from_le_bytes (b # bs) = ucast b OR push_bit 8 (from_le_bytes bs)"

record 'm codec =
  cd_ser :: "'m \<Rightarrow> string + u8 list"
  cd_read :: "u8 list \<Rightarrow> 'm option"

datatype invalid_view = InvalidView

definition to_view_bytes :: "(u8 list \<Rightarrow> u32) \<Rightarrow> 'm codec \<Rightarrow> 'm \<Rightarrow> string + u8 list" where
  "to_view_bytes crc cd val = and_then (cd_ser cd val) (\<lambda>buffer. Inr (buffer @ to_le_bytes (crc buffer)))"

definition view_using :: "(u8 list \<Rightarrow> u32) \<Rightarrow> 'm codec \<Rightarrow> u8 list \<Rightarrow> invalid_view + 'm view" where
  "view_using crc cd data =
     (if length data < 4 then Inl InvalidView
      else let end = length data;
               expected_checksum = from_le_bytes (drop (end - 4) data);
               data_bytes = take (end - 4) data;
               actual_checksum = crc data_bytes
           in if expected_checksum \<noteq> actual_checksum then Inl InvalidView
              else Inr (cd_read cd data_bytes))"

section \<open>Bodies\<close>

record hyper_error =
  he_display :: string
  he_message :: string

text \<open>A body arrives in chunks, one of which may be an error.\<close>

type_synonym body = "(hyper_error + u8 list) list"

primrec collect_chunks :: "u8 list \<Rightarrow> body \<Rightarrow> hyper_error + u8 list" where
  "collect_chunks vec [] = Inr vec"
| "collect_chunks vec (buf # bs) = and_then buf (\<lambda>b. collect_chunks (vec @ b) bs)"

fun to_aligned :: "body \<Rightarrow> hyper_error + u8 list" where
  "to_aligned [] = Inr []"
| "to_aligned (buf # bs) =
     and_then buf (\<lambda>fst_buf.
       (case bs of
          [] \<Rightarrow> Inr fst_buf
        | buf # bs \<Rightarrow> and_then buf (\<lambda>snd_buf. collect_chunks (fst_buf @ snd_buf) bs)))"

definition body_from :: "u8 list \<Rightarrow> body" where
  "body_from v = [Inr v]"

definition try_as_body :: "(u8 list \<Rightarrow> u32) \<Rightarrow> 'm codec \<Rightarrow> 'm \<Rightarrow> status + body" where
  "try_as_body crc cd msg = map_sum internal body_from (to_view_bytes crc cd msg)"

definition from_body :: "(u8 list \<Rightarrow> u32) \<Rightarrow> 'm codec \<Rightarrow> body \<Rightarrow> status + 'm view" where
  "from_body crc cd body =
     and_then (map_sum (\<lambda>e. internal (he_display e)) id (to_aligned body))
       (\<lambda>bytes. map_sum (\<lambda>e. invalid) id (view_using crc cd bytes))"

section \<open>Requests\<close>

type_synonym headers = "(string, string) hash_map"

definition sanitise :: "string \<Rightarrow> string" where
  "sanitise = map (\<lambda>c. if c \<in> set ''<>'' then CHR ''-'' else c)"

definition to_uri_path :: "string \<Rightarrow> string \<Rightarrow> string" where
  "to_uri_path service path = ''/'' @ sanitise service @ ''/'' @ sanitise path"

record message_metadata =
  mm_service_name :: string
  mm_path :: string

record 'm request =
  rq_remote_addr :: addr
  rq_headers :: headers
  rq_view :: "'m view"

definition request_new :: "addr \<Rightarrow> headers \<Rightarrow> 'm view \<Rightarrow> 'm request" where
  "request_new a hs v = \<lparr>rq_remote_addr = a, rq_headers = hs, rq_view = v\<rparr>"

definition into_parts :: "'m request \<Rightarrow> headers \<times> 'm view" where
  "into_parts r = (rq_headers r, rq_view r)"

section \<open>Handlers\<close>

type_synonym 'w opaque_handler = "addr \<Rightarrow> headers \<Rightarrow> body \<Rightarrow> 'w \<Rightarrow> ((status + body) \<times> 'w) exec"

text \<open>\<open>PhantomHandler::try_handle\<close>.\<close>

definition phantom_handler ::
  "(u8 list \<Rightarrow> u32) \<Rightarrow> 'q codec \<Rightarrow> 'r codec \<Rightarrow> ('q request \<Rightarrow> 'w \<Rightarrow> ((status + 'r) \<times> 'w) exec) \<Rightarrow> 'w opaque_handler" where
  "phantom_handler crc cq cr on_message a hs body w =
     (case from_body crc cq body of
        Inl e \<Rightarrow> Some (Inl e, w)
      | Inr v \<Rightarrow> do { (r, w) \<leftarrow> on_message (request_new a hs v) w;
                     Some (and_then r (try_as_body crc cr), w) })"

text \<open>A service: its name and the handlers \<open>register_handlers\<close> adds, each with the path of its message.\<close>

record 'w rpc_service =
  sv_name :: string
  sv_handlers :: "(string \<times> 'w opaque_handler) list"

type_synonym handler_key = u64
type_synonym 'w handler_map = "(handler_key, 'w opaque_handler) btree_map"

definition add_handler :: "(string \<Rightarrow> u64) \<Rightarrow> string \<Rightarrow> string \<Rightarrow> 'w opaque_handler \<Rightarrow> 'w handler_map \<Rightarrow> 'w handler_map" where
  "add_handler hash service path h handlers = bt_insert (hash (to_uri_path service path)) h handlers"

definition register_handlers :: "(string \<Rightarrow> u64) \<Rightarrow> 'w rpc_service \<Rightarrow> 'w handler_map \<Rightarrow> 'w handler_map" where
  "register_handlers hash svc = fold (\<lambda>(path, h). add_handler hash (sv_name svc) path h) (sv_handlers svc)"

section \<open>The state of the server\<close>

record 'w server_state =
  srv_services :: "(string, (handler_key, unit) btree_map) btree_map"
  srv_handlers :: "'w handler_map"

definition server_default :: "'w server_state" where
  "server_default = \<lparr>srv_services = [], srv_handlers = []\<rparr>"

definition note_key :: "string \<Rightarrow> handler_key \<Rightarrow> (string, (handler_key, unit) btree_map) btree_map \<Rightarrow> (string, (handler_key, unit) btree_map) btree_map" where
  "note_key service_name key services =
     bt_insert service_name (bt_insert key () (case map_of services service_name of None \<Rightarrow> [] | Some keys \<Rightarrow> keys)) services"

definition add_handlers :: "string \<Rightarrow> 'w handler_map \<Rightarrow> 'w server_state \<Rightarrow> 'w server_state" where
  "add_handlers service_name handlers st =
     st\<lparr>srv_services := fold (note_key service_name) (map fst handlers) (srv_services st),
        srv_handlers := fold (\<lambda>(k, h). bt_insert k h) handlers (srv_handlers st)\<rparr>"

definition remove_handlers :: "string \<Rightarrow> 'w server_state \<Rightarrow> 'w server_state" where
  "remove_handlers service st =
     (case map_of (srv_services st) service of
        None \<Rightarrow> st
      | Some uris \<Rightarrow> st\<lparr>srv_services := bt_remove service (srv_services st),
          srv_handlers := filter (\<lambda>(key, h). map_of uris key \<noteq> None) (srv_handlers st)\<rparr>)"

definition get_handler :: "(string \<Rightarrow> u64) \<Rightarrow> string \<Rightarrow> 'w server_state \<Rightarrow> 'w opaque_handler option" where
  "get_handler hash uri st = map_of (srv_handlers st) (hash uri)"

definition add_service :: "(string \<Rightarrow> u64) \<Rightarrow> 'w rpc_service \<Rightarrow> 'w server_state \<Rightarrow> 'w server_state" where
  "add_service hash svc st = add_handlers (sv_name svc) (register_handlers hash svc []) st"

definition remove_service :: "string \<Rightarrow> 'w server_state \<Rightarrow> 'w server_state" where
  "remove_service service_name st = remove_handlers service_name st"

section \<open>Handling a request\<close>

record http_request =
  hr_path :: string
  hr_headers :: headers
  hr_body :: body

record http_response =
  hs_status :: nat
  hs_body :: body

definition HTTP_OK :: nat where "HTTP_OK = 200"
definition HTTP_BAD_REQUEST :: nat where "HTTP_BAD_REQUEST = 400"

definition try_handle_request ::
  "(string \<Rightarrow> u64) \<Rightarrow> http_request \<Rightarrow> 'w server_state \<Rightarrow> addr \<Rightarrow> 'w \<Rightarrow> ((status + body) \<times> 'w) exec" where
  "try_handle_request hash req state a w =
     (let uri = hr_path req
      in case ok_or (unavailable (''Unknown service '' @ uri)) (get_handler hash uri state) of
           Inl e \<Rightarrow> Some (Inl e, w)
         | Inr handler \<Rightarrow> handler a (hr_headers req) (hr_body req) w)"

definition create_bad_request :: "(u8 list \<Rightarrow> u32) \<Rightarrow> status codec \<Rightarrow> status \<Rightarrow> http_response" where
  "create_bad_request crc cs st =
     (let buffer = (case to_view_bytes crc cs st of Inl e \<Rightarrow> [] | Inr b \<Rightarrow> b)
      in \<lparr>hs_status = HTTP_BAD_REQUEST, hs_body = body_from buffer\<rparr>)"

definition respond :: "(u8 list \<Rightarrow> u32) \<Rightarrow> status codec \<Rightarrow> status + body \<Rightarrow> http_response" where
  "respond crc cs reply =
     (case reply of
        Inr body \<Rightarrow> \<lparr>hs_status = HTTP_OK, hs_body = body\<rparr>
      | Inl st \<Rightarrow> create_bad_request crc cs st)"

text \<open>\<open>handle_connection\<close> passes the response on: the error it handles does not occur.\<close>

definition handle_message ::
  "(u8 list \<Rightarrow> u32) \<Rightarrow> status codec \<Rightarrow> (string \<Rightarrow> u64) \<Rightarrow> http_request \<Rightarrow> 'w server_state \<Rightarrow> addr \<Rightarrow> 'w \<Rightarrow> (http_response \<times> 'w) exec" where
  "handle_message crc cs hash req state a w =
     do { (reply, w) \<leftarrow> try_handle_request hash req state a w;
          Some (respond crc cs reply, w) }"

section \<open>The client\<close>

text \<open>A connection: a request, alone and under a time limit (\<open>None\<close> when it runs out), on the state \<open>'n\<close> of the network.\<close>

record 'n channel =
  ch_remote_addr :: addr
  ch_request :: "http_request \<Rightarrow> 'n \<Rightarrow> ((string + http_response) \<times> 'n) exec"
  ch_timed :: "duration \<Rightarrow> http_request \<Rightarrow> 'n \<Rightarrow> ((string + http_response) option \<times> 'n) exec"

record 'n rpc_client =
  rc_channel :: "'n channel"
  rc_timeout :: "duration option"

definition rpc_client_new :: "'n channel \<Rightarrow> 'n rpc_client" where
  "rpc_client_new ch = \<lparr>rc_channel = ch, rc_timeout = None\<rparr>"

definition set_timeout :: "duration \<Rightarrow> 'n rpc_client \<Rightarrow> 'n rpc_client" where
  "set_timeout d cl = cl\<lparr>rc_timeout := Some d\<rparr>"

definition new_client :: "'n rpc_client \<Rightarrow> 'n rpc_client" where
  "new_client cl = \<lparr>rc_channel = rc_channel cl, rc_timeout = None\<rparr>"

record 'n rpc_ctx =
  cx_client :: "'n rpc_client"
  cx_headers :: headers

definition create_rpc_context :: "'n rpc_client \<Rightarrow> 'n rpc_ctx" where
  "create_rpc_context cl = \<lparr>cx_client = cl, cx_headers = []\<rparr>"

definition set_header :: "string \<Rightarrow> string \<Rightarrow> 'n rpc_ctx \<Rightarrow> 'n rpc_ctx" where
  "set_header k v ctx = ctx\<lparr>cx_headers := hm_insert k v (cx_headers ctx)\<rparr>"

definition set_headers :: "(string \<times> string) list \<Rightarrow> 'n rpc_ctx \<Rightarrow> 'n rpc_ctx" where
  "set_headers kvs ctx = fold (\<lambda>(k, v) ctx. ctx\<lparr>cx_headers := hm_insert k v (cx_headers ctx)\<rparr>) kvs ctx"

text \<open>The request of \<open>Channel::send_parts\<close>; a URI that does not parse panics.\<close>

definition send_parts :: "(string \<Rightarrow> string option) \<Rightarrow> addr \<Rightarrow> message_metadata \<Rightarrow> headers \<Rightarrow> body \<Rightarrow> http_request exec" where
  "send_parts uri_path a md hs body =
     do { path \<leftarrow> uri_path (''http://'' @ a @ to_uri_path (mm_service_name md) (mm_path md));
          Some \<lparr>hr_path = path, hr_headers = hs, hr_body = body\<rparr> }"

text \<open>What a response that is not OK says.\<close>

definition error_of :: "(u8 list \<Rightarrow> u32) \<Rightarrow> status codec \<Rightarrow> body \<Rightarrow> status" where
  "error_of crc cs body =
     (case to_aligned body of
        Inl e \<Rightarrow> internal (he_message e)
      | Inr buffer \<Rightarrow> (case view_using crc cs buffer of
            Inl e \<Rightarrow> invalid
          | Inr v \<Rightarrow> (case v of None \<Rightarrow> invalid | Some st \<Rightarrow> st)))"

definition read_response :: "(u8 list \<Rightarrow> u32) \<Rightarrow> status codec \<Rightarrow> 'r codec \<Rightarrow> http_response \<Rightarrow> status + 'r view" where
  "read_response crc cs cr response =
     (if hs_status response = HTTP_OK then from_body crc cr (hs_body response)
      else Inl (error_of crc cs (hs_body response)))"

definition send_inner ::
  "(u8 list \<Rightarrow> u32) \<Rightarrow> status codec \<Rightarrow> (string \<Rightarrow> string option) \<Rightarrow> 'r codec \<Rightarrow> body \<Rightarrow> message_metadata \<Rightarrow> 'n rpc_ctx \<Rightarrow> 'n
    \<Rightarrow> ((status + 'r view) \<times> 'n) exec" where
  "send_inner crc cs uri_path cr body md ctx n =
     do { let ch = rc_channel (cx_client ctx);
          req \<leftarrow> send_parts uri_path (ch_remote_addr ch) md (cx_headers ctx) body;
          (r, n) \<leftarrow> (case rc_timeout (cx_client ctx) of
              Some d \<Rightarrow> do { (r, n) \<leftarrow> ch_timed ch d req n;
                            Some (and_then (ok_or timeout r) (map_sum connection id), n) }
            | None \<Rightarrow> do { (r, n) \<leftarrow> ch_request ch req n; Some (map_sum connection id r, n) });
          Some (and_then r (read_response crc cs cr), n) }"

definition rpc_send ::
  "(u8 list \<Rightarrow> u32) \<Rightarrow> status codec \<Rightarrow> (string \<Rightarrow> string option) \<Rightarrow> 'q codec \<Rightarrow> 'r codec \<Rightarrow> message_metadata \<Rightarrow> 'q \<Rightarrow> 'n rpc_ctx \<Rightarrow> 'n
    \<Rightarrow> ((status + 'r view) \<times> 'n) exec" where
  "rpc_send crc cs uri_path cq cr md msg ctx n =
     (case try_as_body crc cq msg of
        Inl e \<Rightarrow> Some (Inl e, n)
      | Inr body \<Rightarrow> send_inner crc cs uri_path cr body md ctx n)"

text \<open>\<open>RpcClient::send\<close> and \<open>RpcClient::send_owned\<close>, which differ in who owns the message.\<close>

definition client_send where
  "client_send crc cs uri_path cq cr md msg cl = rpc_send crc cs uri_path cq cr md msg (create_rpc_context cl)"

section \<open>Buffers and bodies\<close>

lemma to_le_bytes_length [simp]: "length (to_le_bytes w) = 4"
  by (simp add: to_le_bytes_def)

lemma from_le_bytes_slice: "from_le_bytes (map (\<lambda>i. ucast (drop_bit (8 * i) w)) [k..<n]) = take_bit (8 * (n - k)) (drop_bit (8 * k) w)" if "n \<le> 4"
proof (induction "n - k" arbitrary: k)
  case (Suc m)
  then have k: "k < n" "[k..<n] = k # [Suc k..<n]" "m = n - Suc k" by (auto simp: upt_conv_Cons)
  have "(ucast (ucast (drop_bit (8 * k) w) :: u8) :: u32) OR push_bit 8 (take_bit (8 * (n - Suc k)) (drop_bit (8 * Suc k) w)) =
      take_bit (8 * (n - k)) (drop_bit (8 * k) w)"
    using k(1) that by (intro bit_word_eqI) (auto simp: bit_simps)
  then show ?case using Suc(1) [OF k(3)] k(2) by simp
qed simp

lemma le_bytes_roundtrip [simp]: "from_le_bytes (to_le_bytes w) = w"
proof -
  have "to_le_bytes w = map (\<lambda>i. ucast (drop_bit (8 * i) w)) [0..<4]" by (simp add: to_le_bytes_def upt_rec)
  then show ?thesis using from_le_bytes_slice [of 4 w 0] by (simp add: take_bit_word_eq_self)
qed

text \<open>A view of what was written is the value; every other checksum is refused.\<close>

lemma view_of_bytes:
  assumes "to_view_bytes crc cd m = Inr b" "\<And>b. cd_ser cd m = Inr b \<Longrightarrow> cd_read cd b = Some m"
  shows "view_using crc cd b = Inr (Some m)"
proof -
  obtain c where c: "cd_ser cd m = Inr c" "b = c @ to_le_bytes (crc c)"
    using assms(1) by (cases "cd_ser cd m") (auto simp: to_view_bytes_def)
  then show ?thesis using assms(2) by (simp add: view_using_def)
qed

lemma view_using_checksum: "view_using crc cd (d @ to_le_bytes c) = (if c = crc d then Inr (cd_read cd d) else Inl InvalidView)"
  by (simp add: view_using_def)

lemma collect_chunks_ok: "collect_chunks vec (map Inr bss) = Inr (vec @ concat bss)"
  by (induction bss arbitrary: vec) auto

lemma collect_chunks_error: "collect_chunks vec (map Inr bss @ Inl e # bs) = Inl e"
  by (induction bss arbitrary: vec) auto

lemma to_aligned_collect: "to_aligned bs = collect_chunks [] bs"
  by (cases bs rule: to_aligned.cases) (auto simp: and_then_def split: list.split sum.split)

lemma to_aligned_ok [simp]: "to_aligned (map Inr bss) = Inr (concat bss)"
  by (simp add: to_aligned_collect collect_chunks_ok)

lemma to_aligned_body_from [simp]: "to_aligned (body_from v) = Inr v"
  by (simp add: body_from_def)

text \<open>A body that arrives whole is the message that was sent.\<close>

lemma from_body_of:
  assumes "try_as_body crc cd m = Inr b" "to_aligned b' = to_aligned b" "\<And>b. cd_ser cd m = Inr b \<Longrightarrow> cd_read cd b = Some m"
  shows "from_body crc cd b' = Inr (Some m)"
proof -
  obtain v where v: "to_view_bytes crc cd m = Inr v" "b = body_from v"
    using assms(1) by (cases "to_view_bytes crc cd m") (auto simp: try_as_body_def)
  show ?thesis using view_of_bytes [OF v(1) assms(3)] v(2) assms(2) by (simp add: from_body_def)
qed

lemma error_of_bad_request:
  assumes "cd_ser cs st = Inr b" "cd_read cs b = Some st" "to_aligned body = to_aligned (hs_body (create_bad_request crc cs st))"
  shows "error_of crc cs body = st"
  using assms by (simp add: error_of_def create_bad_request_def Let_def to_view_bytes_def view_using_checksum)

section \<open>Services\<close>

definition svc_keys :: "(string \<Rightarrow> u64) \<Rightarrow> 'w rpc_service \<Rightarrow> handler_key list" where
  "svc_keys hash svc = map (\<lambda>(p, h). hash (to_uri_path (sv_name svc) p)) (sv_handlers svc)"

lemma registered:
  "map_of (register_handlers hash svc []) = map_of (rev (map (\<lambda>(p, h). (hash (to_uri_path (sv_name svc) p), h)) (sv_handlers svc)))"
  "bt_wf (register_handlers hash svc [])"
proof -
  have "register_handlers hash svc [] = fold (\<lambda>(k, h). bt_insert k h) (map (\<lambda>(p, h). (hash (to_uri_path (sv_name svc) p), h)) (sv_handlers svc)) []"
    unfolding register_handlers_def add_handler_def fold_map by (intro fold_cong) auto
  then show "map_of (register_handlers hash svc []) = map_of (rev (map (\<lambda>(p, h). (hash (to_uri_path (sv_name svc) p), h)) (sv_handlers svc)))"
    "bt_wf (register_handlers hash svc [])"
    by (simp_all add: bt.look_extend bt.invar_extend)
qed

lemma registered_dom: "dom (map_of (register_handlers hash svc [])) = set (svc_keys hash svc)"
  by (auto simp: registered(1) dom_map_of_conv_image_fst svc_keys_def case_prod_beta image_image)

lemma registered_look:
  assumes "(p, h) \<in> set (sv_handlers svc)" "distinct (svc_keys hash svc)"
  shows "map_of (register_handlers hash svc []) (hash (to_uri_path (sv_name svc) p)) = Some h"
  unfolding registered(1) using assms
  by (intro map_of_is_SomeI) (auto simp: svc_keys_def comp_def case_prod_beta' rev_map [symmetric] image_iff intro!: bexI [of _ "(p, h)"])

text \<open>What adding a service changes.\<close>

lemma add_service_handlers:
  "map_of (srv_handlers (add_service hash svc st)) = map_of (srv_handlers st) ++ map_of (register_handlers hash svc [])"
  using map_of_rev_keys [OF bt_wf_distinct [OF registered(2) [of hash svc]]]
  by (simp add: add_service_def add_handlers_def bt.look_extend)

definition keys_in :: "string \<Rightarrow> (string, (handler_key, unit) btree_map) btree_map \<Rightarrow> handler_key set" where
  "keys_in name services = (case map_of services name of None \<Rightarrow> {} | Some ks \<Rightarrow> dom (map_of ks))"

abbreviation keys_of :: "string \<Rightarrow> 'w server_state \<Rightarrow> handler_key set" where
  "keys_of name st \<equiv> keys_in name (srv_services st)"

lemma note_keys:
  "keys_in name (fold (note_key svcname) ks services) = keys_in name services \<union> (if name = svcname then set ks else {})"
proof (induction ks arbitrary: services)
  case (Cons k ks)
  have "keys_in name (note_key svcname k services) = keys_in name services \<union> (if name = svcname then {k} else {})"
    by (auto simp: keys_in_def note_key_def split: option.splits)
  then show ?case using Cons by auto
qed simp

lemma add_service_keys:
  "keys_of name (add_service hash svc st) = keys_of name st \<union> (if name = sv_name svc then set (svc_keys hash svc) else {})"
  using registered_dom [of hash svc] by (simp add: add_service_def add_handlers_def note_keys dom_map_of_conv_image_fst)

lemma services_added:
  "keys_of name (fold (add_service hash) svcs st) = keys_of name st \<union> (\<Union>s \<in> {s \<in> set svcs. sv_name s = name}. set (svc_keys hash s))"
  "dom (map_of (srv_handlers (fold (add_service hash) svcs st))) = dom (map_of (srv_handlers st)) \<union> (\<Union>s \<in> set svcs. set (svc_keys hash s))"
  by (induction svcs arbitrary: st) (auto simp: add_service_keys add_service_handlers registered_dom)

lemma services_serve:
  assumes "s \<in> set svcs" "(p, h) \<in> set (sv_handlers s)" "distinct (concat (map (svc_keys hash) svcs))"
  shows "get_handler hash (to_uri_path (sv_name s) p) (fold (add_service hash) svcs st) = Some h"
  using assms
proof (induction svcs arbitrary: st)
  case (Cons t svcs)
  let ?k = "hash (to_uri_path (sv_name s) p)"
  have k: "?k \<in> set (svc_keys hash s)" using Cons.prems(2) by (force simp: svc_keys_def)
  show ?case
  proof (cases "s \<in> set svcs")
    case False
    then have st: "t = s" "?k \<notin> (\<Union>u \<in> set svcs. set (svc_keys hash u))" "distinct (svc_keys hash s)" using Cons.prems k by auto
    have keep: "get_handler hash uri (fold (add_service hash) us u) = get_handler hash uri u" if "hash uri \<notin> (\<Union>v \<in> set us. set (svc_keys hash v))" for uri us u
      using that by (induction us arbitrary: u) (auto simp: get_handler_def add_service_handlers registered_dom [symmetric] map_add_def domIff split: option.splits)
    show ?thesis using keep [OF st(2)] registered_look [OF Cons.prems(2) st(3)] st(1)
      by (simp add: get_handler_def add_service_handlers)
  qed (use Cons in auto)
qed simp

lemma services_disjoint:
  "distinct (concat (map f svcs)) \<Longrightarrow> s \<in> set svcs \<Longrightarrow> t \<in> set svcs \<Longrightarrow> t \<noteq> s \<Longrightarrow> set (f s) \<inter> set (f t) = {}"
  by (induction svcs) auto

lemma remove_service_look:
  "keys_of name st \<noteq> {} \<Longrightarrow> get_handler hash uri (remove_service name st) = (if hash uri \<in> keys_of name st then get_handler hash uri st else None)"
proof -
  assume "keys_of name st \<noteq> {}"
  then obtain ks where ks: "map_of (srv_services st) name = Some ks" "keys_of name st = dom (map_of ks)"
    by (auto simp: keys_in_def split: option.splits)
  have "map_of (filter (\<lambda>(k, h). P k) m) k = (if P k then map_of m k else None)" for P k and m :: "'a handler_map"
    by (induction m) auto
  from this [of "\<lambda>k. map_of ks k \<noteq> None"] show ?thesis
    using ks by (auto simp: get_handler_def remove_service_def remove_handlers_def)
qed

text \<open>C40. \<open>remove_service\<close> keeps what it is to remove and removes the rest: after the services of a list were
  added to a server, removing one that has handlers leaves each of its own messages served as before
  and every other service without handlers (where no two services share a hash).\<close>

theorem remove_service_removes_others:
  assumes "st = fold (add_service hash) svcs server_default" "distinct (map sv_name svcs)" "distinct (concat (map (svc_keys hash) svcs))"
    and "s \<in> set svcs" "(p, h) \<in> set (sv_handlers s)" "t \<in> set svcs" "t \<noteq> s" "(q, h') \<in> set (sv_handlers t)"
  shows "get_handler hash (to_uri_path (sv_name s) p) (remove_service (sv_name s) st) = Some h \<and>
    get_handler hash (to_uri_path (sv_name t) q) st = Some h' \<and>
    get_handler hash (to_uri_path (sv_name t) q) (remove_service (sv_name s) st) = None"
proof -
  have same: "{u \<in> set svcs. sv_name u = sv_name s} = {s}" using assms(2,4) by (auto simp: distinct_map inj_on_def)
  have ks: "keys_of (sv_name s) st = set (svc_keys hash s)"
    using services_added(1) [of "sv_name s" hash svcs server_default] by (simp add: assms(1) same keys_in_def server_default_def)
  have p: "hash (to_uri_path (sv_name s) p) \<in> set (svc_keys hash s)" and q: "hash (to_uri_path (sv_name t) q) \<in> set (svc_keys hash t)"
    using assms(5,8) by (force simp: svc_keys_def)+
  have "set (svc_keys hash s) \<inter> set (svc_keys hash t) = {}" using services_disjoint [OF assms(3,4,6)] assms(7) by simp
  then have nq: "hash (to_uri_path (sv_name t) q) \<notin> set (svc_keys hash s)" using q by blast
  have "keys_of (sv_name s) st \<noteq> {}" using ks p by auto
  from remove_service_look [OF this] show ?thesis
    using ks p nq services_serve [OF assms(4,5,3)] services_serve [OF assms(6,8,3)] assms(1) by auto
qed

definition example_hash :: "string \<Rightarrow> u64" where
  "example_hash uri = of_nat (length uri)"

definition example_service :: "string \<Rightarrow> string \<Rightarrow> unit rpc_service" where
  "example_service name path = \<lparr>sv_name = name, sv_handlers = [(path, \<lambda>a hs body w. Some (Inr body, w))]\<rparr>"

theorem remove_service_removes_others_witness:
  "let st = fold (add_service example_hash) [example_service ''a'' ''p'', example_service ''b'' ''qq''] server_default
   in get_handler example_hash ''/a/p'' (remove_service ''a'' st) = Some (\<lambda>a hs body w. Some (Inr body, w)) \<and>
      get_handler example_hash ''/b/qq'' st = Some (\<lambda>a hs body w. Some (Inr body, w)) \<and>
      get_handler example_hash ''/b/qq'' (remove_service ''a'' st) = None"
  using remove_service_removes_others [where hash = example_hash and svcs = "[example_service ''a'' ''p'', example_service ''b'' ''qq'']"
      and s = "example_service ''a'' ''p''" and t = "example_service ''b'' ''qq''", OF refl]
  by (simp add: example_service_def svc_keys_def example_hash_def to_uri_path_def sanitise_def)

section \<open>A call\<close>

text \<open>
  A connection that delivers: what arrives at either end is what was sent, in chunks of any size. The
  server with the state \<open>st\<close> sees the caller as \<open>me\<close>; its node has the state \<open>at n\<close> in the network \<open>n\<close>,
  and \<open>upd w n\<close> is the network after the node went to \<open>w\<close>.
\<close>

definition delivers ::
  "(u8 list \<Rightarrow> u32) \<Rightarrow> status codec \<Rightarrow> (string \<Rightarrow> u64) \<Rightarrow> 'w server_state \<Rightarrow> addr \<Rightarrow> (body \<Rightarrow> body) \<Rightarrow> ('n \<Rightarrow> 'w) \<Rightarrow> ('w \<Rightarrow> 'n \<Rightarrow> 'n)
    \<Rightarrow> 'n channel \<Rightarrow> bool" where
  "delivers crc cs hash st me carry at upd ch \<longleftrightarrow> (\<forall>b. to_aligned (carry b) = to_aligned b) \<and>
     (\<forall>req n. ch_request ch req n =
        do { (resp, w) \<leftarrow> handle_message crc cs hash (req\<lparr>hr_body := carry (hr_body req)\<rparr>) st me (at n);
             Some (Inr (hs_body_update carry resp), upd w n) })"

definition reads_back :: "'m codec \<Rightarrow> bool" where
  "reads_back cd \<longleftrightarrow> (\<forall>m b. cd_ser cd m = Inr b \<longrightarrow> cd_read cd b = Some m)"

lemma try_as_body_cases:
  "try_as_body crc cd m = (case cd_ser cd m of Inl e \<Rightarrow> Inl (internal e) | Inr b \<Rightarrow> Inr (body_from (b @ to_le_bytes (crc b))))"
  by (auto simp: try_as_body_def to_view_bytes_def split: sum.split)

lemma reply_received:
  assumes "reads_back cr" "reads_back cs" "\<And>s. \<exists>b. cd_ser cs s = Inr b" "\<And>b. to_aligned (carry b) = to_aligned b"
  shows "read_response crc cs cr (hs_body_update carry (respond crc cs (and_then r (try_as_body crc cr)))) =
    and_then r (\<lambda>x. case cd_ser cr x of Inl e \<Rightarrow> Inl (internal e) | Inr b \<Rightarrow> Inr (Some x))"
proof -
  have err: "error_of crc cs (carry (hs_body (create_bad_request crc cs s))) = s" for s
    using assms(2-4) error_of_bad_request by (metis reads_back_def)
  have bad: "hs_status (create_bad_request crc cs s) \<noteq> HTTP_OK" for s
    by (simp add: create_bad_request_def Let_def HTTP_OK_def HTTP_BAD_REQUEST_def)
  have good: "from_body crc cr (carry b) = Inr (Some x)" if "try_as_body crc cr x = Inr b" for x b
    using that assms(1,4) from_body_of by (metis reads_back_def)
  show ?thesis
  proof (cases r)
    case (Inr x)
    then show ?thesis using good [of x] err bad by (cases "cd_ser cr x") (simp_all add: respond_def read_response_def try_as_body_cases)
  qed (simp add: err bad respond_def read_response_def)
qed

text \<open>A call is the handler: a message sent over a connection that delivers, to a server with which a
  service was registered that handles it, gives the reply or the status of the handler for that
  message, and leaves the node in the state the handler leaves it in; the handler is called once, with
  the message, the headers of the call and the address of the caller. A message or a reply that does
  not serialise is an internal error, and in the first case nothing is sent.\<close>

lemma call_handled:
  assumes "st = fold (add_service hash) svcs server_default" "distinct (concat (map (svc_keys hash) svcs))"
    and "svc \<in> set svcs" "(mm_path md, phantom_handler crc cq cr on_message) \<in> set (sv_handlers svc)" "mm_service_name md = sv_name svc"
    and "reads_back cq" "reads_back cr" "reads_back cs" "\<And>s. \<exists>b. cd_ser cs s = Inr b"
    and "delivers crc cs hash st me carry at upd (rc_channel (cx_client ctx))" "rc_timeout (cx_client ctx) = None"
    and "uri_path (''http://'' @ ch_remote_addr (rc_channel (cx_client ctx)) @ to_uri_path (mm_service_name md) (mm_path md)) =
      Some (to_uri_path (mm_service_name md) (mm_path md))"
  shows "rpc_send crc cs uri_path cq cr md msg ctx n =
    (case cd_ser cq msg of
       Inl e \<Rightarrow> Some (Inl (internal e), n)
     | Inr b \<Rightarrow> do { (r, w) \<leftarrow> on_message (request_new me (cx_headers ctx) (Some msg)) (at n);
                    Some (and_then r (\<lambda>x. case cd_ser cr x of Inl e \<Rightarrow> Inl (internal e) | Inr b \<Rightarrow> Inr (Some x)), upd w n) })"
proof (cases "cd_ser cq msg")
  case (Inl e)
  then show ?thesis by (simp add: rpc_send_def try_as_body_cases)
next
  case (Inr b)
  let ?path = "to_uri_path (mm_service_name md) (mm_path md)"
  let ?body = "body_from (b @ to_le_bytes (crc b))"
  have body: "try_as_body crc cq msg = Inr ?body" by (simp add: try_as_body_cases Inr)
  have carry: "to_aligned (carry x) = to_aligned x" for x using assms(10) by (simp add: delivers_def)
  have found: "get_handler hash ?path st = Some (phantom_handler crc cq cr on_message)"
    using services_serve [OF assms(3,4,2)] assms(1,5) by simp
  have view: "from_body crc cq (carry ?body) = Inr (Some msg)"
    using from_body_of [OF body carry] assms(6) by (simp add: reads_back_def)
  have req: "ch_request (rc_channel (cx_client ctx)) \<lparr>hr_path = ?path, hr_headers = cx_headers ctx, hr_body = ?body\<rparr> n =
      do { (r, w) \<leftarrow> on_message (request_new me (cx_headers ctx) (Some msg)) (at n);
           Some (Inr (hs_body_update carry (respond crc cs (and_then r (try_as_body crc cr)))), upd w n) }"
    using assms(10) by (simp add: delivers_def handle_message_def try_handle_request_def found phantom_handler_def view Let_def case_prod_beta' bind_assoc)
  have parts: "send_parts uri_path (ch_remote_addr (rc_channel (cx_client ctx))) md hs x = Some \<lparr>hr_path = ?path, hr_headers = hs, hr_body = x\<rparr>" for hs x
    unfolding send_parts_def assms(12) by simp
  show ?thesis
    using reply_received [OF assms(7-9) carry, of crc]
    by (simp add: rpc_send_def body send_inner_def parts assms(11) req Inr Let_def case_prod_beta' bind_assoc)
qed

end
