(* ===== verification/Wire.thy ===== *)
theory Wire
  imports StoreWrites Rpc "HOL-Library.Countable"
begin

text \<open>
  The services of the store on the RPC framework: what \<^verbatim>\<open>rpc/services/consistency_impl.rs\<close> and
  \<^verbatim>\<open>rpc/services/replication_impl.rs\<close> register and the calls their clients make over a channel. They are
  the calls the other theories take for granted: the handler of the replica, on its state, with the
  message. The names of Rust's types, which are the names of services and paths, are parameters.
\<close>

record type_names =
  tn_consistency :: string
  tn_put :: string
  tn_multi_put :: string
  tn_remove :: string
  tn_multi_remove :: string
  tn_batch :: string
  tn_replication :: string
  tn_poll_keyspace :: string
  tn_get_state :: string
  tn_fetch_docs :: string

record codecs =
  co_status :: "status codec"
  co_timestamp :: "hlc_timestamp codec"
  co_put :: "put_payload codec"
  co_multi_put :: "multi_put_payload codec"
  co_remove :: "remove_payload codec"
  co_multi_remove :: "multi_remove_payload codec"
  co_batch :: "batch_payload codec"
  co_poll :: "hlc_timestamp codec"
  co_info :: "keyspace_info codec"
  co_get_state :: "get_state_msg codec"
  co_set :: "keyspace_orswot_set codec"
  co_fetch :: "fetch_docs_msg codec"
  co_docs :: "fetched_docs codec"

section \<open>The services\<close>

text \<open>A handler of the store takes the view of the request.\<close>

abbreviation store_handler ::
  "(u8 list \<Rightarrow> u32) \<Rightarrow> 'q codec \<Rightarrow> 'r codec \<Rightarrow> ('q view \<Rightarrow> ('s, 'r) handler) \<Rightarrow> 's keyspace_group opaque_handler" where
  "store_handler crc cq cr h \<equiv> phantom_handler crc cq cr (\<lambda>r. h (rq_view r))"

definition consistency_service ::
  "(u8 list \<Rightarrow> u32) \<Rightarrow> type_names \<Rightarrow> codecs \<Rightarrow> ('s, 'e) storage_ops \<Rightarrow> ('e \<Rightarrow> string) \<Rightarrow> ('e bulk_mutation_error \<Rightarrow> string)
    \<Rightarrow> 's keyspace_group rpc_service" where
  "consistency_service crc tn co ops te bte = \<lparr>sv_name = tn_consistency tn, sv_handlers =
     [(tn_put tn, store_handler crc (co_put co) (co_timestamp co) (on_put_payload ops te)),
      (tn_multi_put tn, store_handler crc (co_multi_put co) (co_timestamp co) (on_multi_put_payload ops bte)),
      (tn_remove tn, store_handler crc (co_remove co) (co_timestamp co) (on_remove_payload ops te)),
      (tn_multi_remove tn, store_handler crc (co_multi_remove co) (co_timestamp co) (on_multi_remove_payload ops bte)),
      (tn_batch tn, store_handler crc (co_batch co) (co_timestamp co) (on_batch_payload ops bte))]\<rparr>"

definition replication_service ::
  "(u8 list \<Rightarrow> u32) \<Rightarrow> type_names \<Rightarrow> codecs \<Rightarrow> ('s, 'e) storage_ops \<Rightarrow> ('e \<Rightarrow> string) \<Rightarrow> (orswot_set \<Rightarrow> u8 list option)
    \<Rightarrow> 's keyspace_group rpc_service" where
  "replication_service crc tn co ops te ser = \<lparr>sv_name = tn_replication tn, sv_handlers =
     [(tn_poll_keyspace tn, store_handler crc (co_poll co) (co_info co) on_poll_keyspace),
      (tn_get_state tn, store_handler crc (co_get_state co) (co_set co) (on_get_state ser)),
      (tn_fetch_docs tn, store_handler crc (co_fetch co) (co_docs co) (on_fetch_docs ops te))]\<rparr>"

text \<open>The server of a node once its store is created, after the services it had before.\<close>

definition store_server ::
  "(u8 list \<Rightarrow> u32) \<Rightarrow> (string \<Rightarrow> u64) \<Rightarrow> type_names \<Rightarrow> codecs \<Rightarrow> ('s, 'e) storage_ops \<Rightarrow> ('e \<Rightarrow> string) \<Rightarrow> ('e bulk_mutation_error \<Rightarrow> string)
    \<Rightarrow> (orswot_set \<Rightarrow> u8 list option) \<Rightarrow> 's keyspace_group rpc_service list \<Rightarrow> 's keyspace_group server_state" where
  "store_server crc hash tn co ops te bte ser others =
     fold (add_service hash) (others @ [consistency_service crc tn co ops te bte, replication_service crc tn co ops te ser]) server_default"

section \<open>The clients\<close>

definition wire_call ::
  "(u8 list \<Rightarrow> u32) \<Rightarrow> codecs \<Rightarrow> (string \<Rightarrow> string option) \<Rightarrow> string \<Rightarrow> string \<Rightarrow> 'q codec \<Rightarrow> 'r codec \<Rightarrow> 'n channel \<Rightarrow> ('n, 'q, 'r) rpc" where
  "wire_call crc co uri_path service path cq cr ch msg =
     client_send crc (co_status co) uri_path cq cr \<lparr>mm_service_name = service, mm_path = path\<rparr> msg (rpc_client_new ch)"

definition wire_consistency :: "(u8 list \<Rightarrow> u32) \<Rightarrow> type_names \<Rightarrow> codecs \<Rightarrow> (string \<Rightarrow> string option) \<Rightarrow> 'n channel \<Rightarrow> 'n consistency_rpc" where
  "wire_consistency crc tn co uri_path ch =
     \<lparr>cr_put = wire_call crc co uri_path (tn_consistency tn) (tn_put tn) (co_put co) (co_timestamp co) ch,
          cr_multi_put = wire_call crc co uri_path (tn_consistency tn) (tn_multi_put tn) (co_multi_put co) (co_timestamp co) ch,
          cr_del = wire_call crc co uri_path (tn_consistency tn) (tn_remove tn) (co_remove co) (co_timestamp co) ch,
          cr_multi_del = wire_call crc co uri_path (tn_consistency tn) (tn_multi_remove tn) (co_multi_remove co) (co_timestamp co) ch\<rparr>"

definition wire_batch :: "(u8 list \<Rightarrow> u32) \<Rightarrow> type_names \<Rightarrow> codecs \<Rightarrow> (string \<Rightarrow> string option) \<Rightarrow> 'n channel \<Rightarrow> ('n, batch_payload, hlc_timestamp) rpc" where
  "wire_batch crc tn co uri_path ch = wire_call crc co uri_path (tn_consistency tn) (tn_batch tn) (co_batch co) (co_timestamp co) ch"

definition wire_replication :: "(u8 list \<Rightarrow> u32) \<Rightarrow> type_names \<Rightarrow> codecs \<Rightarrow> (string \<Rightarrow> string option) \<Rightarrow> 'n channel \<Rightarrow> 'n replication_rpc" where
  "wire_replication crc tn co uri_path ch =
     \<lparr>rr_poll = wire_call crc co uri_path (tn_replication tn) (tn_poll_keyspace tn) (co_poll co) (co_info co) ch,
      rr_state = wire_call crc co uri_path (tn_replication tn) (tn_get_state tn) (co_get_state co) (co_set co) ch,
      rr_fetch = wire_call crc co uri_path (tn_replication tn) (tn_fetch_docs tn) (co_fetch co) (co_docs co) ch\<rparr>"

section \<open>Calls over the wire\<close>

definition faithful :: "'m codec \<Rightarrow> bool" where
  "faithful cd \<longleftrightarrow> (\<forall>m. \<exists>b. cd_ser cd m = Inr b \<and> cd_read cd b = Some m)"

definition all_faithful :: "codecs \<Rightarrow> bool" where
  "all_faithful co \<longleftrightarrow> faithful (co_status co) \<and> faithful (co_timestamp co) \<and> faithful (co_put co) \<and> faithful (co_multi_put co) \<and>
     faithful (co_remove co) \<and> faithful (co_multi_remove co) \<and> faithful (co_batch co) \<and> faithful (co_poll co) \<and> faithful (co_info co) \<and>
     faithful (co_get_state co) \<and> faithful (co_set co) \<and> faithful (co_fetch co) \<and> faithful (co_docs co)"

lemma faithful_reads: "faithful cd \<Longrightarrow> reads_back cd" "faithful cd \<Longrightarrow> \<exists>b. cd_ser cd m = Inr b"
  unfolding faithful_def reads_back_def by (metis sum.inject(2))+

definition uris :: "type_names \<Rightarrow> string list" where
  "uris tn = map (to_uri_path (tn_consistency tn)) [tn_put tn, tn_multi_put tn, tn_remove tn, tn_multi_remove tn, tn_batch tn] @
     map (to_uri_path (tn_replication tn)) [tn_poll_keyspace tn, tn_get_state tn, tn_fetch_docs tn]"

text \<open>What the calls rely on: the types are hashed apart, their paths survive the URI, the codecs are faithful and the connection delivers.\<close>

definition wire_ok where
  "wire_ok crc hash uri_path tn co others me carry at upd ch st \<longleftrightarrow> distinct (concat (map (svc_keys hash) others) @ map hash (uris tn)) \<and>
     (\<forall>p \<in> set (uris tn). uri_path (''http://'' @ ch_remote_addr ch @ p) = Some p) \<and> all_faithful co \<and>
     delivers crc (co_status co) hash st me carry at upd ch"

lemma call_over_wire:
  assumes ok: "wire_ok crc hash uri_path tn co others me carry at upd ch (store_server crc hash tn co ops te bte ser others)"
    and svc: "svc \<in> {consistency_service crc tn co ops te bte, replication_service crc tn co ops te ser}"
    and h: "(path, store_handler crc cq cr h) \<in> set (sv_handlers svc)" and cd: "faithful cq" "faithful cr"
  shows "wire_call crc co uri_path (sv_name svc) path cq cr ch msg n = do { (r, w) \<leftarrow> h (Some msg) (at n); Some (map_sum id Some r, upd w n) }"
proof -
  have d: "distinct (concat (map (svc_keys hash) (others @ [consistency_service crc tn co ops te bte, replication_service crc tn co ops te ser])))"
    using ok by (simp add: wire_ok_def uris_def svc_keys_def consistency_service_def replication_service_def)
  have cs: "faithful (co_status co)" "delivers crc (co_status co) hash (store_server crc hash tn co ops te bte ser others) me carry at upd ch"
    using ok by (simp_all add: wire_ok_def all_faithful_def)
  have "to_uri_path (sv_name svc) path \<in> set (uris tn)"
    using svc h by (auto simp: uris_def consistency_service_def replication_service_def)
  then have u: "uri_path (''http://'' @ ch_remote_addr ch @ to_uri_path (sv_name svc) path) = Some (to_uri_path (sv_name svc) path)"
    using ok unfolding wire_ok_def by blast
  obtain b where b: "cd_ser cq msg = Inr b" using faithful_reads(2) [OF cd(1)] by blast
  have r: "(case cd_ser cr x of Inl e \<Rightarrow> Inl (internal e) | Inr b \<Rightarrow> Inr (Some x)) = Inr (Some x)" for x
    using faithful_reads(2) [OF cd(2), of x] by auto
  have "wire_call crc co uri_path (sv_name svc) path cq cr ch msg n =
    (case cd_ser cq msg of
       Inl e \<Rightarrow> Some (Inl (internal e), n)
     | Inr b \<Rightarrow> do { (r, w) \<leftarrow> h (rq_view (request_new me (cx_headers (create_rpc_context (rpc_client_new ch))) (Some msg))) (at n);
                    Some (and_then r (\<lambda>x. case cd_ser cr x of Inl e \<Rightarrow> Inl (internal e) | Inr b \<Rightarrow> Inr (Some x)), upd w n) })"
    unfolding wire_call_def client_send_def
    by (rule call_handled [OF refl d, where svc = svc and me = me and carry = carry])
      (use svc h cd cs u faithful_reads in \<open>auto simp: create_rpc_context_def rpc_client_new_def store_server_def\<close>)
  then show ?thesis
    by (simp add: b r request_new_def case_prod_beta' and_then_def) (auto intro!: Option.bind_cong split: sum.split)
qed

lemma consistency_over_wire:
  assumes "wire_ok crc hash uri_path tn co others me carry (\<lambda>net. net a) (\<lambda>w net. net(a := w)) ch (store_server crc hash tn co ops te bte ser others)"
  shows "wire_consistency crc tn co uri_path ch = cluster_calls ops te bte a" "wire_batch crc tn co uri_path ch = batch_rpc ops bte a"
proof -
  note call = call_over_wire [OF assms, of "consistency_service crc tn co ops te bte", unfolded consistency_service_def rpc_service.simps, simplified]
  have co: "all_faithful co" using assms by (simp add: wire_ok_def)
  show "wire_consistency crc tn co uri_path ch = cluster_calls ops te bte a" "wire_batch crc tn co uri_path ch = batch_rpc ops bte a"
    using co by (simp_all add: wire_consistency_def cluster_calls_def wire_batch_def batch_rpc_def fun_eq_iff call all_faithful_def)
qed

lemma replication_over_wire:
  assumes "wire_ok crc hash uri_path tn co others me carry (\<lambda>w. w) (\<lambda>w n. w) ch (store_server crc hash tn co ops te bte ser others)"
  shows "wire_replication crc tn co uri_path ch = remote_client ops te ser"
proof -
  note call = call_over_wire [OF assms, of "replication_service crc tn co ops te ser", unfolded replication_service_def rpc_service.simps, simplified]
  have "all_faithful co" using assms by (simp add: wire_ok_def)
  then show ?thesis by (simp add: wire_replication_def remote_client_def fun_eq_iff call all_faithful_def)
qed

section \<open>An instance\<close>

text \<open>A codec from an injection into a countable type: a value is as many bytes as its number.\<close>

definition counting_codec :: "('m \<Rightarrow> 'c::countable) \<Rightarrow> 'm codec" where
  "counting_codec f = \<lparr>cd_ser = (\<lambda>m. Inr (replicate (to_nat (f m)) 0)), cd_read = (\<lambda>b. Some (inv f (from_nat (length b))))\<rparr>"

lemma counting_faithful: "inj f \<Longrightarrow> faithful (counting_codec f)"
  by (simp add: faithful_def counting_codec_def)

primrec stamp_number :: "hlc_timestamp \<Rightarrow> u64" where
  "stamp_number (HLCTimestamp w) = w"

primrec code_number :: "error_code \<Rightarrow> nat" where
  "code_number ServiceUnavailable = 0" | "code_number InternalError = 1" | "code_number InvalidPayload = 2" | "code_number ConnectionError = 3" | "code_number Timeout = 4"

definition metadata_parts where "metadata_parts (d :: document_metadata) = (md_id d, stamp_number (md_last_updated d))"
definition document_parts where "document_parts (d :: document) = (metadata_parts (metadata d), doc_data d)"
definition context_parts where "context_parts (c :: rpc_context) = (cx_node_id c, cx_node_addr c)"
definition put_parts where "put_parts (p :: put_payload) = (pp_keyspace p, map_option context_parts (pp_ctx p), document_parts (pp_document p), stamp_number (pp_timestamp p))"
definition multi_put_parts where
  "multi_put_parts (p :: multi_put_payload) = (mp_keyspace p, map_option context_parts (mp_ctx p), map document_parts (mp_documents p), stamp_number (mp_timestamp p))"
definition remove_parts where "remove_parts (p :: remove_payload) = (rp_keyspace p, metadata_parts (rp_document p), stamp_number (rp_timestamp p))"
definition multi_remove_parts where "multi_remove_parts (p :: multi_remove_payload) = (mr_keyspace p, map metadata_parts (mr_documents p), stamp_number (mr_timestamp p))"
definition batch_parts where "batch_parts (b :: batch_payload) = (stamp_number (bp_timestamp b), map multi_put_parts (bp_modified b), map multi_remove_parts (bp_removed b))"
definition info_parts where "info_parts (i :: keyspace_info) = (stamp_number (info_timestamp i), map (map_prod id stamp_number) (info_keyspace_timestamps i))"
definition get_state_parts where "get_state_parts (m :: get_state_msg) = (gs_keyspace m, stamp_number (gs_timestamp m))"
definition set_parts where "set_parts (m :: keyspace_orswot_set) = (stamp_number (ko_timestamp m), stamp_number (ko_last_updated m), ko_set m)"
definition fetch_parts where "fetch_parts (m :: fetch_docs_msg) = (fd_keyspace m, fd_doc_ids m, stamp_number (fd_timestamp m))"
definition docs_parts where "docs_parts (m :: fetched_docs) = (map document_parts (fe_documents m), stamp_number (fe_timestamp m))"
definition status_parts where "status_parts (st :: status) = (code_number (status_code st), status_message st)"

lemmas parts_defs = metadata_parts_def document_parts_def context_parts_def put_parts_def multi_put_parts_def remove_parts_def multi_remove_parts_def
  batch_parts_def info_parts_def get_state_parts_def set_parts_def fetch_parts_def docs_parts_def status_parts_def

lemma inj_numbers: "inj stamp_number" "inj code_number"
proof -
  show "inj stamp_number" by (rule injI) (metis hlc_timestamp.exhaust stamp_number.simps)
  have "code_number c = code_number d \<longleftrightarrow> c = d" for c d by (cases c; cases d) simp_all
  then show "inj code_number" by (simp add: inj_def)
qed

lemma inj_map_prod_id: "inj f \<Longrightarrow> inj (map (map_prod id f))"
  by (intro inj_mapI prod.inj_map) simp_all

lemma inj_parts:
  "inj metadata_parts" "inj document_parts" "inj context_parts" "inj put_parts" "inj multi_put_parts" "inj remove_parts" "inj multi_remove_parts"
  "inj batch_parts" "inj info_parts" "inj get_state_parts" "inj set_parts" "inj fetch_parts" "inj docs_parts" "inj status_parts"
proof -
  note inject = inj_eq [OF inj_numbers(1)] inj_eq [OF inj_numbers(2)]
  show md: "inj metadata_parts" by (intro injI document_metadata.equality) (simp_all add: parts_defs inject)
  show doc: "inj document_parts" by (intro injI document.equality) (simp_all add: document_parts_def inj_eq [OF md])
  show ctx: "inj context_parts" by (intro injI rpc_context.equality) (simp_all add: parts_defs)
  note inject = inject inj_eq [OF md] inj_eq [OF doc] inj_eq [OF option.inj_map [OF ctx]] inj_eq [OF inj_mapI [OF doc]] inj_eq [OF inj_mapI [OF md]]
  show "inj put_parts" by (intro injI put_payload.equality) (simp_all add: put_parts_def inject)
  show mp: "inj multi_put_parts" by (intro injI multi_put_payload.equality) (simp_all add: multi_put_parts_def inject)
  show "inj remove_parts" by (intro injI remove_payload.equality) (simp_all add: remove_parts_def inject)
  show mr: "inj multi_remove_parts" by (intro injI multi_remove_payload.equality) (simp_all add: multi_remove_parts_def inject)
  show "inj batch_parts" by (intro injI batch_payload.equality) (simp_all add: batch_parts_def inject inj_eq [OF inj_mapI [OF mp]] inj_eq [OF inj_mapI [OF mr]])
  show "inj info_parts" by (intro injI keyspace_info.equality) (simp_all add: info_parts_def inject inj_eq [OF inj_map_prod_id [OF inj_numbers(1)]])
  show "inj get_state_parts" by (intro injI get_state_msg.equality) (simp_all add: get_state_parts_def inject)
  show "inj set_parts" by (intro injI keyspace_orswot_set.equality) (simp_all add: set_parts_def inject)
  show "inj fetch_parts" by (intro injI fetch_docs_msg.equality) (simp_all add: fetch_parts_def inject)
  show "inj docs_parts" by (intro injI fetched_docs.equality) (simp_all add: docs_parts_def inject)
  show "inj status_parts" by (intro injI status.equality) (simp_all add: status_parts_def inject)
qed

definition example_codecs :: codecs where
  "example_codecs = \<lparr>co_status = counting_codec status_parts, co_timestamp = counting_codec stamp_number, co_put = counting_codec put_parts,
     co_multi_put = counting_codec multi_put_parts, co_remove = counting_codec remove_parts, co_multi_remove = counting_codec multi_remove_parts,
     co_batch = counting_codec batch_parts, co_poll = counting_codec stamp_number, co_info = counting_codec info_parts,
     co_get_state = counting_codec get_state_parts, co_set = counting_codec set_parts, co_fetch = counting_codec fetch_parts, co_docs = counting_codec docs_parts\<rparr>"

lemma example_codecs_faithful: "all_faithful example_codecs"
  by (simp add: all_faithful_def example_codecs_def counting_faithful inj_parts inj_numbers)

definition example_names :: type_names where
  "example_names = \<lparr>tn_consistency = ''C'', tn_put = ''p'', tn_multi_put = ''mp'', tn_remove = ''rem'', tn_multi_remove = ''mrem'', tn_batch = ''batch'',
     tn_replication = ''Repl'', tn_poll_keyspace = ''poll'', tn_get_state = ''state'', tn_fetch_docs = ''fetchd''\<rparr>"

text \<open>The path after the host, and a connection that hands every request to the server of its node.\<close>

definition example_uri_path :: "string \<Rightarrow> string option" where
  "example_uri_path uri = Some (dropWhile (\<lambda>c. c \<noteq> CHR ''/'') (drop 7 uri))"

definition example_server :: "mem_store keyspace_group server_state" where
  "example_server = store_server (\<lambda>b. 0) example_hash example_names example_codecs mem_ops (\<lambda>e. []) (\<lambda>e. []) (\<lambda>s. None) []"

definition direct_channel :: "addr \<Rightarrow> ('n \<Rightarrow> mem_store keyspace_group) \<Rightarrow> (mem_store keyspace_group \<Rightarrow> 'n \<Rightarrow> 'n) \<Rightarrow> 'n channel" where
  "direct_channel a at upd = \<lparr>ch_remote_addr = a,
     ch_request = (\<lambda>req n. do { (resp, w) \<leftarrow> handle_message (\<lambda>b. 0) (co_status example_codecs) example_hash req example_server ''me'' (at n); Some (Inr resp, upd w n) }),
     ch_timed = (\<lambda>d req n. Some (None, n))\<rparr>"

lemma example_wire_ok:
  "wire_ok (\<lambda>b. 0) example_hash example_uri_path example_names example_codecs [] ''me'' (\<lambda>b. b) at upd (direct_channel ''a'' at upd) example_server"
proof -
  have same: "hs_body_update (\<lambda>b. b) resp = resp" for resp :: http_response by (cases resp) simp
  have "delivers (\<lambda>b. 0) (co_status example_codecs) example_hash example_server ''me'' (\<lambda>b. b) at upd (direct_channel ''a'' at upd)"
    by (simp add: delivers_def direct_channel_def case_prod_beta' same)
  moreover have "distinct (map example_hash (uris example_names))"
    by (simp add: uris_def example_names_def example_hash_def to_uri_path_def sanitise_def)
  moreover have "\<forall>p \<in> set (uris example_names). example_uri_path (''http://'' @ ''a'' @ p) = Some p"
    by (simp add: uris_def example_names_def example_uri_path_def to_uri_path_def)
  ultimately show ?thesis
    using example_codecs_faithful by (simp add: wire_ok_def direct_channel_def)
qed

end
