(* ===== verification/Gossip.thy ===== *)
theory Gossip
  imports Membership Services
begin

text \<open>
  Gossip over the node's RPC connections: the service that receives the messages of \<open>chitchat\<close>,
  \<^verbatim>\<open>datacake-node/src/rpc/services/chitchat_impl.rs\<close>, and the transport that sends them,
  \<^verbatim>\<open>rpc/chitchat_transport.rs\<close>. What \<open>chitchat\<close> writes for a message and reads from bytes are parameters.
\<close>

record chitchat_rpc_message =
  cm_data :: "u8 list"
  cm_source :: addr
  cm_timestamp :: hlc_timestamp

text \<open>The part of a node the service shares with the transport: the clock and the bounded queue of received messages.\<close>

record 'm gossip_inbox =
  gn_clock :: node_clock
  gn_messages :: "(addr \<times> 'm) list"

definition QUEUE_SIZE :: nat where
  "QUEUE_SIZE = 1000"

text \<open>A full queue drops the message; the reply is the same.\<close>

definition on_chitchat_message ::
  "(u8 list \<Rightarrow> string + 'm) \<Rightarrow> chitchat_rpc_message view \<Rightarrow> 'm gossip_inbox \<Rightarrow> ((status + hlc_timestamp) \<times> 'm gossip_inbox) exec" where
  "on_chitchat_message deser request nd =
     (case to_owned request of
        Inl e \<Rightarrow> Some (Inl e, nd)
      | Inr msg \<Rightarrow>
          do { c \<leftarrow> clock_register (cm_timestamp msg) (gn_clock nd);
               let nd = nd\<lparr>gn_clock := c\<rparr>;
               case deser (cm_data msg) of
                 Inl e \<Rightarrow> Some (Inl (internal e), nd)
               | Inr m \<Rightarrow>
                   do { let nd = (if length (gn_messages nd) < QUEUE_SIZE then nd\<lparr>gn_messages := gn_messages nd @ [(cm_source msg, m)]\<rparr> else nd);
                        (ts, c) \<leftarrow> clock_get (gn_clock nd);
                        Some (Inr ts, nd\<lparr>gn_clock := c\<rparr>) } })"

record 'c grpc_connection =
  gc_clock :: node_clock
  gc_self_addr :: addr
  gc_network :: "(addr, 'c) hash_map"

definition transport_open :: "addr \<Rightarrow> node_clock \<Rightarrow> (addr, 'c) hash_map \<Rightarrow> addr \<Rightarrow> string + 'c grpc_connection" where
  "transport_open rpc_listen_addr clock network listen_addr =
     (if listen_addr \<noteq> rpc_listen_addr
      then Inl (''Listen addr does not match RPC server address. '' @ listen_addr @ '' != '' @ rpc_listen_addr)
      else Inr \<lparr>gc_clock = clock, gc_self_addr = rpc_listen_addr, gc_network = network\<rparr>)"

definition gossip_send ::
  "('m \<Rightarrow> u8 list) \<Rightarrow> (addr \<Rightarrow> 'c) \<Rightarrow> ('c \<Rightarrow> ('n, chitchat_rpc_message, hlc_timestamp) rpc) \<Rightarrow> addr \<Rightarrow> 'm \<Rightarrow> 'c grpc_connection \<Rightarrow> 'n
    \<Rightarrow> ((status + unit) \<times> 'c grpc_connection \<times> 'n) exec" where
  "gossip_send ser connect client to msg conn n =
     do { let (channel, network) = get_or_connect connect to (gc_network conn);
          (ts, c) \<leftarrow> clock_get (gc_clock conn);
          (r, n) \<leftarrow> client channel \<lparr>cm_data = ser msg, cm_source = gc_self_addr conn, cm_timestamp = ts\<rparr> n;
          Some (map_sum id (\<lambda>v. ()) r, conn\<lparr>gc_clock := c, gc_network := network\<rparr>, n) }"

text \<open>\<open>None\<close> when there is nothing to receive yet.\<close>

definition gossip_recv :: "'m gossip_inbox \<Rightarrow> ((addr \<times> 'm) \<times> 'm gossip_inbox) option" where
  "gossip_recv nd = (case gn_messages nd of [] \<Rightarrow> None | m # ms \<Rightarrow> Some (m, nd\<lparr>gn_messages := ms\<rparr>))"

section \<open>Delivery\<close>

text \<open>A message sent to a node with room in its queue and its clock arrives there, once and last, with the address of the sender.\<close>

lemma gossip_delivered:
  assumes "\<And>a c. map_of (gc_network conn) a = Some c \<Longrightarrow> c = a" "deser (ser msg) = Inr msg"
    and "clock_fit m (gc_clock conn)" "clock_fit m (gn_clock (net a))" "m + 3 < 2 ^ 16" "length (gn_messages (net a)) < QUEUE_SIZE"
  shows "\<exists>conn' c. gossip_send ser (\<lambda>a. a) (\<lambda>a q net. do { (r, nd) \<leftarrow> on_chitchat_message deser (Some q) (net a); Some (map_sum id Some r, net(a := nd)) })
      a msg conn net = Some (Inr (), conn', net(a := (net a)\<lparr>gn_messages := gn_messages (net a) @ [(gc_self_addr conn, msg)], gn_clock := c\<rparr>))"
proof -
  obtain ts c1 where c1: "clock_get (gc_clock conn) = Some (ts, c1)" "unat (counter ts) \<le> Suc m"
    using clock_fit_get [OF assms(3)] assms(5) by auto
  have "clock_fit (Suc m) (gn_clock (net a))" using clock_fit_mono [OF assms(4)] by simp
  then obtain c2 where c2: "clock_register ts (gn_clock (net a)) = Some c2" "clock_fit (Suc (Suc m)) c2"
    using clock_fit_register [OF _ c1(2)] by blast
  obtain t c3 where c3: "clock_get c2 = Some (t, c3)" using clock_fit_get [OF c2(2)] assms(5) by auto
  obtain network where nw: "get_or_connect (\<lambda>a. a) a (gc_network conn) = (a, network)"
    using assms(1) [of a] that by (cases "map_of (gc_network conn) a") (auto simp: get_or_connect_def network_connect_def Let_def split: if_splits)
  show ?thesis
    by (intro exI [of _ "conn\<lparr>gc_clock := c1, gc_network := network\<rparr>"] exI [of _ c3])
      (simp add: gossip_send_def nw c1(1) on_chitchat_message_def to_owned_def c2(1) c3 assms(2,6) Let_def)
qed

lemma gossip_in_order: "gossip_recv nd = Some (x, nd') \<Longrightarrow> gn_messages nd = x # gn_messages nd'"
  by (auto simp: gossip_recv_def split: list.splits)

end
