(* ===== verification/Node.thy ===== *)
theory Node
  imports Gossip Rpc
begin

text \<open>
  Building a node, \<^verbatim>\<open>datacake-node/src/lib.rs\<close> and \<^verbatim>\<open>node.rs\<close>: the builder, connecting to the cluster, the task that
  turns the reports of \<open>chitchat\<close> into memberships, and the handle of a node. Listening on an address
  and the library \<open>chitchat\<close> are parameters: \<open>listen\<close> and \<open>spawn\<close>, which starts the gossip for a configuration and
  the key-value pairs the node announces.
\<close>

section \<open>Statistics and errors\<close>

record cluster_statistics =
  num_live_members :: u64
  num_dead_members :: u64
  num_data_centers :: u64

definition statistics_default :: cluster_statistics where
  "statistics_default = \<lparr>num_live_members = 0, num_dead_members = 0, num_data_centers = 0\<rparr>"

datatype ('io, 'rpc, 'ext) node_error =
  ChitChatError string | IoError 'io | RpcError 'rpc | ConsistencyLevelError consistency_error | ExtensionError 'ext

section \<open>Joining the gossip\<close>

definition GOSSIP_INTERVAL :: duration where
  "GOSSIP_INTERVAL = from_secs 1"

definition chitchat_id :: "cluster_member \<Rightarrow> string" where
  "chitchat_id m = show_radix 10 (unat (member_id m))"

definition gossip_node_of :: "cluster_member \<Rightarrow> gossip_node" where
  "gossip_node_of m = \<lparr>gossip_id = chitchat_id m, gossip_public_address = public_addr m\<rparr>"

text \<open>The configuration of \<open>chitchat\<close>; \<open>'f\<close> is that of its failure detector, and there is no predicate for readiness.\<close>

record 'f chitchat_config =
  cc_node_id :: gossip_node
  cc_cluster_id :: string
  cc_gossip_interval :: duration
  cc_listen_addr :: addr
  cc_seed_nodes :: "string list"
  cc_failure_detector_config :: 'f

text \<open>The members are those last published.\<close>

record 'h chitchat_node =
  cn_me :: cluster_member
  cn_chitchat_handle :: 'h
  cn_members :: node_membership
  cn_stop :: bool

definition announced :: "cluster_member \<Rightarrow> (string \<times> string) list" where
  "announced me = [(DATA_CENTER_KEY, data_center me)]"

definition chitchat_connect ::
  "('f chitchat_config \<Rightarrow> (string \<times> string) list \<Rightarrow> 't \<Rightarrow> string + 'h) \<Rightarrow> cluster_member \<Rightarrow> addr \<Rightarrow> string \<Rightarrow> string list \<Rightarrow> 'f \<Rightarrow> 't
    \<Rightarrow> cluster_statistics \<Rightarrow> (('io, 'rpc, 'ext) node_error + 'h chitchat_node) \<times> cluster_statistics" where
  "chitchat_connect spawn me listen_addr cluster_id seed_nodes fd transport statistics =
     (let statistics = statistics\<lparr>num_live_members := 1, num_data_centers := 1\<rparr>;
          cfg = \<lparr>cc_node_id = gossip_node_of me, cc_cluster_id = cluster_id, cc_gossip_interval = GOSSIP_INTERVAL,
                 cc_listen_addr = listen_addr, cc_seed_nodes = seed_nodes, cc_failure_detector_config = fd\<rparr>
      in (map_sum ChitChatError (\<lambda>handle. \<lparr>cn_me = me, cn_chitchat_handle = handle, cn_members = initial_members me, cn_stop = False\<rparr>)
            (spawn cfg (announced me) transport), statistics))"

text \<open>
  The task that publishes the members. A report is the nodes that are ready, the number of dead ones
  and a snapshot of the gossiped state; with it comes whether the task stops: the stop flag is set
  or nobody listens.
\<close>

record gossip_report =
  rep_ready :: "gossip_node list"
  rep_dead :: nat
  rep_snapshot :: gossip_state

primrec publish_members ::
  "cluster_member \<Rightarrow> (bool \<times> gossip_report) list \<Rightarrow> cluster_statistics \<Rightarrow> node_membership list \<times> cluster_statistics" where
  "publish_members me [] statistics = ([], statistics)"
| "publish_members me (r # rs) statistics =
     (let members = members_of_gossip me (rep_ready (snd r)) (rep_snapshot (snd r));
          statistics = statistics\<lparr>num_dead_members := of_nat (rep_dead (snd r)), num_live_members := of_nat (length members)\<rparr>
      in if fst r then ([], statistics)
         else (let (ms, statistics) = publish_members me rs statistics in (members # ms, statistics)))"

definition count_data_centers :: "node_membership \<Rightarrow> cluster_statistics \<Rightarrow> cluster_statistics" where
  "count_data_centers members statistics = statistics\<lparr>num_data_centers := of_nat (length (data_centers_of members))\<rparr>"

text \<open>An error of the gossip's own shutdown is only logged.\<close>

definition chitchat_shutdown :: "('h \<Rightarrow> string + unit) \<Rightarrow> 'h chitchat_node \<Rightarrow> 'h chitchat_node" where
  "chitchat_shutdown stop_gossip nd = nd\<lparr>cn_stop := True\<rparr>"

text \<open>
  What a stream of memberships shows over time, and when it ends, if it does; the wait is over at the
  first membership of the predicate or at the end of the stream.
\<close>

definition wait_for_members :: "(node_membership \<Rightarrow> bool) \<Rightarrow> duration \<Rightarrow> (duration \<times> node_membership) list \<Rightarrow> duration option \<Rightarrow> bool" where
  "wait_for_members predicate timeout_after seen ended =
     (case dropWhile (\<lambda>(t, members). \<not> predicate members) seen of
        (t, members) # later \<Rightarrow> t \<le> timeout_after
      | [] \<Rightarrow> (case ended of Some t \<Rightarrow> t \<le> timeout_after | None \<Rightarrow> False))"

section \<open>The builder\<close>

record connection_config =
  cfg_listen_addr :: addr
  cfg_public_addr :: addr
  cfg_seed_nodes :: "string list"

definition connection_config_new :: "addr \<Rightarrow> addr \<Rightarrow> string list \<Rightarrow> connection_config" where
  "connection_config_new listen_addr pub seeds = \<lparr>cfg_listen_addr = listen_addr, cfg_public_addr = pub, cfg_seed_nodes = seeds\<rparr>"

definition DEFAULT_CLUSTER_ID :: string where
  "DEFAULT_CLUSTER_ID = ''datacake-cluster-unknown''"

datatype dc_aware_selector = DCAwareSelector

record 's node_builder =
  nb_node_id :: u8
  nb_connection_cfg :: connection_config
  nb_cluster_id :: string
  nb_data_center :: string
  nb_node_selector :: 's

definition builder_new :: "u8 \<Rightarrow> connection_config \<Rightarrow> dc_aware_selector node_builder" where
  "builder_new nid cfg = \<lparr>nb_node_id = nid, nb_connection_cfg = cfg, nb_cluster_id = DEFAULT_CLUSTER_ID,
     nb_data_center = DEFAULT_DATA_CENTER, nb_node_selector = DCAwareSelector\<rparr>"

definition with_node_selector :: "'t \<Rightarrow> 's node_builder \<Rightarrow> 't node_builder" where
  "with_node_selector selector b = \<lparr>nb_node_id = nb_node_id b, nb_connection_cfg = nb_connection_cfg b, nb_cluster_id = nb_cluster_id b,
     nb_data_center = nb_data_center b, nb_node_selector = selector\<rparr>"

definition with_cluster_id :: "string \<Rightarrow> 's node_builder \<Rightarrow> 's node_builder" where
  "with_cluster_id cluster_id b = b\<lparr>nb_cluster_id := cluster_id\<rparr>"

definition with_data_center :: "string \<Rightarrow> 's node_builder \<Rightarrow> 's node_builder" where
  "with_data_center dc b = b\<lparr>nb_data_center := dc\<rparr>"

section \<open>Connecting\<close>

text \<open>The service that receives gossip; it works on the part of the node's state that \<open>inbox\<close> and \<open>set_inbox\<close> give.\<close>

definition chitchat_service ::
  "(u8 list \<Rightarrow> u32) \<Rightarrow> string \<Rightarrow> string \<Rightarrow> chitchat_rpc_message codec \<Rightarrow> hlc_timestamp codec \<Rightarrow> (u8 list \<Rightarrow> string + 'm)
    \<Rightarrow> ('w \<Rightarrow> 'm gossip_inbox) \<Rightarrow> ('m gossip_inbox \<Rightarrow> 'w \<Rightarrow> 'w) \<Rightarrow> 'w rpc_service" where
  "chitchat_service crc name path cq cr deser inbox set_inbox =
     \<lparr>sv_name = name, sv_handlers = [(path, phantom_handler crc cq cr (\<lambda>rq w.
        do { (r, nd) \<leftarrow> on_chitchat_message deser (rq_view rq) (inbox w); Some (r, set_inbox nd w) }))]\<rparr>"

text \<open>The transport, which the gossip opens on the address it listens on; its clock and its network are those of the node.\<close>

record chitchat_transport =
  ct_rpc_listen_addr :: addr

record cluster_info =
  ci_listen_addr :: addr
  ci_public_addr :: addr
  ci_seed_nodes :: "string list"
  ci_data_center :: string

definition connect_node ::
  "(string \<Rightarrow> u64) \<Rightarrow> 'w rpc_service \<Rightarrow> ('f chitchat_config \<Rightarrow> (string \<times> string) list \<Rightarrow> chitchat_transport \<Rightarrow> string + 'h) \<Rightarrow> 'f
    \<Rightarrow> u8 \<Rightarrow> string \<Rightarrow> cluster_info \<Rightarrow> 'w server_state \<Rightarrow> cluster_statistics
    \<Rightarrow> (('io, 'rpc, 'ext) node_error + 'h chitchat_node \<times> chitchat_transport) \<times> 'w server_state \<times> cluster_statistics" where
  "connect_node hash service spawn fd nid cluster_id info server statistics =
     (let server = add_service hash service server;
          transport = \<lparr>ct_rpc_listen_addr = ci_listen_addr info\<rparr>;
          me = member_new nid (ci_public_addr info) (ci_data_center info);
          (nd, statistics) = chitchat_connect spawn me (ci_listen_addr info) cluster_id (ci_seed_nodes info) fd transport statistics
      in (map_sum id (\<lambda>nd. (nd, transport)) nd, server, statistics))"

record ('h, 'w, 'c) datacake_node =
  dn_node :: "'h chitchat_node"
  dn_rpc_server :: "'w server_state"
  dn_clock :: node_clock
  dn_network :: "(addr, 'c) hash_map"
  dn_selector :: selector_state
  dn_statistics :: cluster_statistics
  dn_membership_changes :: membership_change
  dn_transport :: chitchat_transport

definition membership_change_default :: membership_change where
  "membership_change_default = \<lparr>joined = [], left_members = []\<rparr>"

text \<open>\<open>wall\<close> is what the system clock shows to the clock of the node, from its start on.\<close>

definition node_clock_new :: "(nat \<Rightarrow> duration) \<Rightarrow> u8 \<Rightarrow> node_clock exec" where
  "node_clock_new w nid = do { (h, ts) \<leftarrow> clock_new (w 0) nid; Some \<lparr>wall = w, reads = 1, hlc = ts\<rparr> }"

definition builder_connect ::
  "(string \<Rightarrow> u64) \<Rightarrow> 'w rpc_service \<Rightarrow> (addr \<Rightarrow> 'io + unit) \<Rightarrow> ('f chitchat_config \<Rightarrow> (string \<times> string) list \<Rightarrow> chitchat_transport \<Rightarrow> string + 'h) \<Rightarrow> 'f
    \<Rightarrow> (nat \<Rightarrow> duration) \<Rightarrow> 's node_builder \<Rightarrow> (('io, 'rpc, 'ext) node_error + ('h, 'w, 'c) datacake_node) exec" where
  "builder_connect hash service listen spawn fd w b =
     do { clock \<leftarrow> node_clock_new w (nb_node_id b);
          let statistics = statistics_default;
          let network = [];
          case listen (cfg_listen_addr (nb_connection_cfg b)) of
            Inl e \<Rightarrow> Some (Inl (IoError e))
          | Inr u \<Rightarrow>
              let selector = selector_init;
                  info = \<lparr>ci_listen_addr = cfg_listen_addr (nb_connection_cfg b), ci_public_addr = cfg_public_addr (nb_connection_cfg b),
                          ci_seed_nodes = cfg_seed_nodes (nb_connection_cfg b), ci_data_center = nb_data_center b\<rparr>;
                  (r, server, statistics) = connect_node hash service spawn fd (nb_node_id b) (nb_cluster_id b) info server_default statistics
              in Some (map_sum id (\<lambda>(nd, transport). \<lparr>dn_node = nd, dn_rpc_server = server, dn_clock = clock, dn_network = network,
                   dn_selector = selector, dn_statistics = statistics, dn_membership_changes = membership_change_default, dn_transport = transport\<rparr>) r) }"

section \<open>The node\<close>

definition node_shutdown :: "('h \<Rightarrow> string + unit) \<Rightarrow> ('h, 'w, 'c) datacake_node \<Rightarrow> ('h, 'w, 'c) datacake_node" where
  "node_shutdown stop_gossip nd = nd\<lparr>dn_node := chitchat_shutdown stop_gossip (dn_node nd)\<rparr>"

definition add_rpc_service :: "(string \<Rightarrow> u64) \<Rightarrow> 'w rpc_service \<Rightarrow> ('h, 'w, 'c) datacake_node \<Rightarrow> ('h, 'w, 'c) datacake_node" where
  "add_rpc_service hash service nd = nd\<lparr>dn_rpc_server := add_service hash service (dn_rpc_server nd)\<rparr>"

definition node_me :: "('h, 'w, 'c) datacake_node \<Rightarrow> cluster_member" where
  "node_me nd = cn_me (dn_node nd)"

definition node_select_nodes ::
  "choice \<Rightarrow> duration \<Rightarrow> duration \<Rightarrow> consistency \<Rightarrow> ('h, 'w, 'c) datacake_node \<Rightarrow> ((consistency_error + addr list) \<times> ('h, 'w, 'c) datacake_node) exec" where
  "node_select_nodes rnd now done_at c nd =
     do { (r, selector) \<leftarrow> selector_get_nodes rnd (public_addr (node_me nd)) (data_center (node_me nd)) now done_at c (dn_selector nd);
          Some (r, nd\<lparr>dn_selector := selector\<rparr>) }"

definition wait_for_nodes :: "u8 list \<Rightarrow> duration \<Rightarrow> (duration \<times> node_membership) list \<Rightarrow> duration option \<Rightarrow> bool" where
  "wait_for_nodes node_ids timeout_after seen ended =
     wait_for_members (\<lambda>members. \<forall>nid \<in> set node_ids. map_of members nid \<noteq> None) timeout_after seen ended"

text \<open>The task that watches the memberships gives each to the selector and publishes the change.\<close>

definition node_watches :: "node_membership \<Rightarrow> 'c watch_state \<Rightarrow> ('h, 'w, 'c) datacake_node \<Rightarrow> 'c watch_state \<times> ('h, 'w, 'c) datacake_node" where
  "node_watches members ws nd =
     (let (change, ws) = watch_step (member_id (node_me nd)) members (ws\<lparr>net_clients := dn_network nd, watch_selector := dn_selector nd\<rparr>)
      in (ws, nd\<lparr>dn_selector := watch_selector ws, dn_network := net_clients ws,
                 dn_statistics := count_data_centers members (dn_statistics nd), dn_membership_changes := change\<rparr>))"

section \<open>What a node announces\<close>

lemma id_reads_back: "from_str_radix 10 (2 ^ 8 - 1) (chitchat_id m) = Some (unat (member_id m))"
proof -
  have "unat (member_id m) \<le> 2 ^ 8 - 1" using unsigned_less [of "member_id m", where 'a = nat] by simp
  from from_str_radix_shown(1) [of 10 "unat (member_id m)" "2 ^ 8 - 1" 0, OF _ _ this] show ?thesis
    by (simp add: chitchat_id_def pad_zero_def)
qed

lemma announced_builds:
  assumes "map_of states (chitchat_id m) = Some kvs" "map_of kvs DATA_CENTER_KEY = map_of (announced m) DATA_CENTER_KEY"
  shows "build_cluster_member (gossip_node_of m) states = Inr m"
  using assms id_reads_back [of m] by (simp add: build_cluster_member_def gossip_node_of_def announced_def member_new_def)

lemma built_members:
  assumes ann: "\<forall>m \<in> set ns. \<exists>kvs. map_of states (chitchat_id m) = Some kvs \<and> map_of kvs DATA_CENTER_KEY = map_of (announced m) DATA_CENTER_KEY"
    and dist: "distinct (map member_id ns)" and me: "me \<in> set ns"
  shows "map_of (members_of_gossip me (map gossip_node_of ns) states) = map_of (map (\<lambda>m. (member_id m, m)) ns)"
proof -
  have "build_cluster_member (gossip_node_of m) states = Inr m" if "m \<in> set ns" for m using ann that announced_builds by blast
  then have "List.map_filter (\<lambda>nd. case build_cluster_member nd states of Inr m \<Rightarrow> Some (member_id m, m) | Inl e \<Rightarrow> None) (map gossip_node_of ns) =
      map (\<lambda>m. (member_id m, m)) ns"
    by (induction ns) (simp_all add: List.map_filter_def)
  moreover have "map_of (rev (map (\<lambda>m. (member_id m, m)) ns)) = map_of (map (\<lambda>m. (member_id m, m)) ns)"
    using dist by (intro map_of_rev_keys) (simp add: comp_def)
  moreover have "map_of (map (\<lambda>m. (member_id m, m)) ns) (member_id me) = Some me" using dist me by (intro map_of_is_SomeI) (auto simp: comp_def)
  ultimately show ?thesis by (simp add: members_of_gossip_def bt.look_extend fun_upd_idem)
qed

lemma connected:
  assumes "builder_connect hash service listen spawn fd w b = Some (Inr nd)"
  shows "node_me nd = member_new (nb_node_id b) (cfg_public_addr (nb_connection_cfg b)) (nb_data_center b)"
    "cn_members (dn_node nd) = initial_members (node_me nd)" "dn_rpc_server nd = add_service hash service server_default"
    "\<exists>ts. hlc_now (w 0) 0 (nb_node_id b) = Some ts \<and> hlc (dn_clock nd) = ts"
proof -
  obtain ts u where r: "hlc_now (w 0) 0 (nb_node_id b) = Some ts" "listen (cfg_listen_addr (nb_connection_cfg b)) = Inr u"
    using assms by (cases "listen (cfg_listen_addr (nb_connection_cfg b))") (auto simp: builder_connect_def node_clock_new_def clock_new_def bind_eq_Some_conv)
  let ?me = "member_new (nb_node_id b) (cfg_public_addr (nb_connection_cfg b)) (nb_data_center b)"
  obtain h where "nd = \<lparr>dn_node = \<lparr>cn_me = ?me, cn_chitchat_handle = h, cn_members = initial_members ?me, cn_stop = False\<rparr>,
      dn_rpc_server = add_service hash service server_default, dn_clock = \<lparr>wall = w, reads = 1, hlc = ts\<rparr>, dn_network = [], dn_selector = selector_init,
      dn_statistics = statistics_default\<lparr>num_live_members := 1, num_data_centers := 1\<rparr>, dn_membership_changes = membership_change_default,
      dn_transport = \<lparr>ct_rpc_listen_addr = cfg_listen_addr (nb_connection_cfg b)\<rparr>\<rparr>"
    using assms r by (auto simp: builder_connect_def node_clock_new_def clock_new_def connect_node_def chitchat_connect_def Let_def map_sum_def split: sum.splits)
  then show "node_me nd = ?me" "cn_members (dn_node nd) = initial_members (node_me nd)" "dn_rpc_server nd = add_service hash service server_default"
    "\<exists>ts. hlc_now (w 0) 0 (nb_node_id b) = Some ts \<and> hlc (dn_clock nd) = ts"
    using r(1) by (simp_all add: node_me_def)
qed

text \<open>Waiting: success says that the nodes were members in time, or that the stream had ended.\<close>

lemma wait_for_members_found:
  assumes "wait_for_members predicate timeout_after seen ended"
  shows "(\<exists>t members. (t, members) \<in> set seen \<and> t \<le> timeout_after \<and> predicate members) \<or> (\<exists>t. ended = Some t \<and> t \<le> timeout_after)"
proof (cases "dropWhile (\<lambda>(t, members). \<not> predicate members) seen")
  case Nil
  then show ?thesis using assms unfolding wait_for_members_def Nil by (auto split: option.splits)
next
  case (Cons x later)
  then have "x \<in> set seen" using set_dropWhileD [of x] by (metis list.set_intros(1))
  moreover have "predicate (snd x)" using Cons by (auto simp: dropWhile_eq_Cons_conv)
  moreover have "fst x \<le> timeout_after" using assms unfolding wait_for_members_def Cons by (cases x) simp
  ultimately have "(fst x, snd x) \<in> set seen \<and> fst x \<le> timeout_after \<and> predicate (snd x)" by simp
  then show ?thesis by blast
qed

section \<open>Properties\<close>

text \<open>C21. Nodes built with distinct ids, each announced in the gossip with the id, the public address and the data center it was
  given, know each other: when the gossip reports them ready, every one of them publishes the same
  membership, which has for the id of each builder the public address and the data center of that
  builder and nothing else, in order, and counts as many live members.\<close>

theorem built_nodes_known:
  fixes bs :: "'b node_builder list"
  assumes built: "list_all2 (\<lambda>b nd. \<exists>w. builder_connect hash service listen spawn fd w b = Some (Inr nd)) bs nds"
    and ids: "distinct (map nb_node_id bs)"
    and ann: "\<forall>nd \<in> set nds. \<exists>kvs. map_of states (chitchat_id (node_me nd)) = Some kvs \<and> map_of kvs DATA_CENTER_KEY = map_of (announced (node_me nd)) DATA_CENTER_KEY"
    and nd: "nd \<in> set nds"
  shows "\<exists>members s'. publish_members (node_me nd) [(False, \<lparr>rep_ready = map (\<lambda>nd. gossip_node_of (node_me nd)) nds, rep_dead = d, rep_snapshot = states\<rparr>)] s = ([members], s') \<and>
    map_of members = map_of (map (\<lambda>b. (nb_node_id b, member_new (nb_node_id b) (cfg_public_addr (nb_connection_cfg b)) (nb_data_center b))) bs) \<and>
    membership_wf members \<and> num_live_members s' = of_nat (length bs)"
proof -
  define built where "built = (\<lambda>b :: 'b node_builder. member_new (nb_node_id b) (cfg_public_addr (nb_connection_cfg b)) (nb_data_center b))"
  define members where "members = members_of_gossip (node_me nd) (map gossip_node_of (map node_me nds)) states"
  have me: "map node_me nds = map built bs"
    using built by (induction rule: list_all2_induct) (auto simp: built_def dest: connected(1))
  then have ids': "map member_id (map node_me nds) = map nb_node_id bs" by (simp add: built_def member_new_def)
  have "map_of members = map_of (map (\<lambda>m. (member_id m, m)) (map node_me nds))"
    unfolding members_def by (rule built_members) (use ann ids ids' nd in auto)
  then have m: "map_of members = map_of (map (\<lambda>b. (nb_node_id b, built b)) bs)"
    unfolding me by (simp add: comp_def built_def member_new_def)
  have wf: "membership_wf members" unfolding members_def by (rule membership_wf_gossip)
  have "length members = card (dom (map_of members))"
    using bt_wf_distinct [of members] wf by (metis dom_map_of_conv_image_fst distinct_card length_map list.set_map membership_wf_def)
  also have "\<dots> = length bs" unfolding m using ids by (simp add: dom_map_of_conv_image_fst image_image card_image distinct_map distinct_card)
  finally have "num_live_members (s\<lparr>num_dead_members := of_nat d, num_live_members := of_nat (length members)\<rparr>) = of_nat (length bs)" by simp
  then show ?thesis using m wf by (auto simp: built_def members_def comp_def Let_def)
qed

text \<open>Two nodes, one of them with a data center of its own.\<close>

definition example_builders :: "dc_aware_selector node_builder list" where
  "example_builders = [builder_new 1 (connection_config_new ''l'' ''a'' []), with_data_center ''dc'' (builder_new 12 (connection_config_new ''l'' ''b'' [''a'']))]"

definition example_connect :: "dc_aware_selector node_builder \<Rightarrow> ((unit, unit, unit) node_error + (unit, unit, unit) datacake_node) exec" where
  "example_connect = builder_connect (\<lambda>s. 0) \<lparr>sv_name = ''chitchat'', sv_handlers = []\<rparr> (\<lambda>a. Inr ()) (\<lambda>cfg kvs transport. Inr ()) () (\<lambda>i. example_wall)"

lemma example_connects: "\<exists>nd. example_connect b = Some (Inr nd)"
proof -
  have "hlc_now example_wall 0 (nb_node_id b) = Some (HLCTimestamp (pack (from_secs 10) 0 (nb_node_id b)))"
    using trunc_example by (simp add: hlc_now_def example_wall_def get_datacake_timestamp_valid [OF wall_example] example_new)
  then show ?thesis by (simp add: example_connect_def builder_connect_def node_clock_new_def clock_new_def connect_node_def chitchat_connect_def Let_def)
qed

theorem built_nodes_known_witness:
  "\<exists>nd1 nd2 members s. example_connect (example_builders ! 0) = Some (Inr nd1) \<and> example_connect (example_builders ! 1) = Some (Inr nd2) \<and>
    publish_members (node_me nd1) [(False, \<lparr>rep_ready = [gossip_node_of (node_me nd1), gossip_node_of (node_me nd2)], rep_dead = 0,
      rep_snapshot = [(''1'', [(DATA_CENTER_KEY, DEFAULT_DATA_CENTER)]), (''12'', [(DATA_CENTER_KEY, ''dc'')])]\<rparr>)] statistics_default = ([members], s) \<and>
    map_of members 12 = Some (member_new 12 ''b'' ''dc'') \<and> num_live_members s = 2"
proof -
  obtain nd1 nd2 where c: "example_connect (example_builders ! 0) = Some (Inr nd1)" "example_connect (example_builders ! 1) = Some (Inr nd2)"
    using example_connects by meson
  let ?states = "[(''1'', [(DATA_CENTER_KEY, DEFAULT_DATA_CENTER)]), (''12'', [(DATA_CENTER_KEY, ''dc'')])]"
  have me: "node_me nd1 = member_new 1 ''a'' DEFAULT_DATA_CENTER" "node_me nd2 = member_new 12 ''b'' ''dc''"
    using connected(1) [OF c(1) [unfolded example_connect_def]] connected(1) [OF c(2) [unfolded example_connect_def]]
    by (simp_all add: example_builders_def builder_new_def with_data_center_def connection_config_new_def)
  have id: "chitchat_id (node_me nd1) = ''1''" "chitchat_id (node_me nd2) = ''12''"
    by (simp_all add: me chitchat_id_def member_new_def show_radix.simps digit_char_def char_of_def bit_iff_odd)
  have built: "list_all2 (\<lambda>b nd. \<exists>w. builder_connect (\<lambda>s. 0) \<lparr>sv_name = ''chitchat'', sv_handlers = []\<rparr> (\<lambda>a. Inr ()) (\<lambda>cfg kvs transport. Inr ()) () w b =
      Some (Inr nd :: (unit, unit, unit) node_error + (unit, unit, unit) datacake_node)) example_builders [nd1, nd2]"
    using c unfolding example_connect_def example_builders_def by auto
  have ids: "distinct (map nb_node_id example_builders)" by (simp add: example_builders_def builder_new_def with_data_center_def)
  have ann: "\<forall>nd \<in> set [nd1, nd2]. \<exists>kvs. map_of ?states (chitchat_id (node_me nd)) = Some kvs \<and> map_of kvs DATA_CENTER_KEY = map_of (announced (node_me nd)) DATA_CENTER_KEY"
    using id me by (simp add: announced_def member_new_def)
  have "nd1 \<in> set [nd1, nd2]" by simp
  from built_nodes_known [OF built ids ann this, of 0 statistics_default] obtain members s where
    m: "publish_members (node_me nd1) [(False, \<lparr>rep_ready = map (\<lambda>nd. gossip_node_of (node_me nd)) [nd1, nd2], rep_dead = 0, rep_snapshot = ?states\<rparr>)] statistics_default = ([members], s)"
      "map_of members = map_of (map (\<lambda>b. (nb_node_id b, member_new (nb_node_id b) (cfg_public_addr (nb_connection_cfg b)) (nb_data_center b))) example_builders)"
      "num_live_members s = of_nat (length example_builders)" by (elim exE conjE)
  have "map_of members 12 = Some (member_new 12 ''b'' ''dc'')" "num_live_members s = 2"
    unfolding m(2,3) by (simp_all add: example_builders_def builder_new_def with_data_center_def connection_config_new_def)
  then show ?thesis using c m(1) by (intro exI [of _ nd1] exI [of _ nd2] exI [of _ members] exI [of _ s]) simp
qed

end
