(* ===== verification/Cluster.thy ===== *)
theory Cluster
  imports StoreWrites
begin

text \<open>
  A cluster whose nodes act in any order: writes through the handle of a node, ticks of a
  distributor, read repairs, purges and restarts, each one step that changes the nodes it reaches.
  A step is taken when its operations are in order at the sets they reach and the clocks they use have
  room. Every state such steps reach keeps each node's set in agreement with its store.
\<close>

type_synonym 's cluster = "addr \<Rightarrow> 's keyspace_group"

section \<open>When a step is taken\<close>

text \<open>
  The guards of the steps belong to the model, not to the code, which takes a step whenever it is due. They
  name the steps the results are about: the operations of a step are in order at the sets they reach
  (for a repair, at the source of read repairs, the removals and the chunks sorted by timestamp for each node; for a batch, no deletion newer than a document
  of its node), keys are distinct, keyspaces of removals are known and clocks have room. Without them \<open>on_set\<close>
  stores what the set refuses (\<^verbatim>\<open>keyspace/actor.rs\<close>, line 65), a batch loses a document older than a deletion of its node (\<^verbatim>\<open>consistency_impl.rs\<close>, line 200), and
  a repair writes removals and chunks of documents under one source in an order of its own (\<^verbatim>\<open>replication/poller.rs\<close>, lines 414 and 460).
\<close>

definition takes_write :: "('s \<Rightarrow> string \<Rightarrow> bool) \<Rightarrow> string \<Rightarrow> store_op \<Rightarrow> hlc_timestamp \<Rightarrow> nat \<Rightarrow> 's keyspace_group \<Rightarrow> bool" where
  "takes_write known name x ts m g \<longleftrightarrow> clock_fit m (group_clock g) \<and> in_order CONSISTENCY_SOURCE_ID ts (group_set g name) \<and>
     (op_removes x \<longrightarrow> known (group_store g) name)"

definition write_enabled ::
  "('s, 'e) storage_ops \<Rightarrow> ('s \<Rightarrow> string \<Rightarrow> bool) \<Rightarrow> ('e \<Rightarrow> string) \<Rightarrow> ('e bulk_mutation_error \<Rightarrow> string) \<Rightarrow> ('s, 'e, addr, 's cluster) store_env
    \<Rightarrow> string \<Rightarrow> store_op \<Rightarrow> ('s, addr, 's cluster) store_state \<Rightarrow> bool" where
  "write_enabled ops known te bte env name x st \<longleftrightarrow> se_ops env = ops \<and> se_connect env = (\<lambda>a. a) \<and> se_client env = cluster_calls ops te bte \<and>
     (\<forall>xs. mset (se_sched env xs) = mset xs) \<and> rnd_ok (se_choice env) \<and> distinct (op_keys x) \<and>
     (\<forall>a c. map_of (ss_clients st) a = Some c \<longrightarrow> c = a) \<and>
     (\<exists>members m. members_ok (public_addr (se_me env)) (data_center (se_me env)) members \<and>
        selector_inv (public_addr (se_me env)) (data_center (se_me env)) members (ss_selector st) \<and>
        m + 3 + 6 * length (concat (map snd members)) < 2 ^ 16 \<and> clock_fit m (group_clock (ss_group st)) \<and>
        (\<forall>ts. hlc (group_clock (ss_group st)) < ts \<and> node ts = node (hlc (group_clock (ss_group st))) \<longrightarrow>
           (\<forall>g \<in> insert (ss_group st) (ss_net st ` set (concat (map snd members))). takes_write known name x ts m g)))"

definition takes_queue :: "('s \<Rightarrow> string \<Rightarrow> bool) \<Rightarrow> distributor_op list \<Rightarrow> nat \<Rightarrow> 's keyspace_group \<Rightarrow> bool" where
  "takes_queue known qs m g \<longleftrightarrow> clock_fit m (group_clock g) \<and>
     (\<forall>name. entries_ok CONSISTENCY_SOURCE_ID (dead_entries (queued_dels qs name)) (group_set g name) \<and>
        entries_ok CONSISTENCY_SOURCE_ID (live_entries (queued_puts qs name)) (group_set g name) \<and>
        (\<forall>d \<in> set (queued_dels qs name). \<forall>e \<in> set (queued_puts qs name).
           node (md_last_updated d) = node (last_updated e) \<longrightarrow> md_last_updated d \<le> last_updated e)) \<and>
     (\<forall>mu \<in> set (queued qs). \<forall>name. (\<exists>d. mu = MutDel name d) \<or> (\<exists>ds. mu = MutMultiDel name ds) \<longrightarrow> known (group_store g) name)"

definition tick_enabled :: "('s \<Rightarrow> string \<Rightarrow> bool) \<Rightarrow> (addr list \<Rightarrow> addr list) \<Rightarrow> distributor_op list \<Rightarrow> addr distributor_state \<Rightarrow> 's cluster \<Rightarrow> bool" where
  "tick_enabled known sched qs st net \<longleftrightarrow> (\<forall>xs. mset (sched xs) = mset xs) \<and> (\<forall>a c. map_of (dist_clients st) a = Some c \<longrightarrow> c = a) \<and>
     (let members = fold apply_change (changes_in qs) (dist_members st)
      in distinct (map snd members) \<and>
         (\<exists>m. clock_fit m (dist_clock st) \<and> Suc m + 4 * length (queued qs) + 2 < 2 ^ 16 \<and>
            (\<forall>a \<in> set (map snd members). takes_queue known qs (Suc m) (net a))))"

definition repair_enabled ::
  "('s, 'e) storage_ops \<Rightarrow> ('s \<Rightarrow> string \<Rightarrow> bool) \<Rightarrow> ('s \<Rightarrow> string \<Rightarrow> key \<rightharpoonup> stored) \<Rightarrow> ('e \<Rightarrow> string) \<Rightarrow> (orswot_set \<Rightarrow> u8 list option)
    \<Rightarrow> ('s, 'e, addr, 's keyspace_group) cycle_env \<Rightarrow> u8 \<Rightarrow> string \<Rightarrow> ('s, addr, 's keyspace_group) cycle_state \<Rightarrow> bool" where
  "repair_enabled ops known look te ser env nid name st \<longleftrightarrow> env_ops env = ops \<and> (\<forall>ch. env_client env ch = remote_client ops te ser) \<and>
     (\<forall>s b. ser s = Some b \<longrightarrow> env_deser env b = Some s) \<and> (\<forall>t j. \<exists>i \<ge> j. t < poll_time (env_schedule env nid name) i) \<and>
     (\<forall>k d. look (group_store (cy_net st)) name k = Some (Doc d) \<longrightarrow> doc_id d = k) \<and>
     (let (modified, removed) = lacking (group_set (cy_group st) name) (group_set (cy_net st) name)
      in (\<exists>m. clock_fit m (group_clock (cy_group st)) \<and> clock_fit m (group_clock (cy_net st)) \<and>
            m + 5 * length (chunks MAX_NUMBER_OF_DOCS_PER_FETCH modified) + 8 < 2 ^ 16) \<and>
         (removed \<noteq> [] \<longrightarrow> known (group_store (cy_group st)) name) \<and>
         (\<forall>t \<in> md_last_updated ` set (modified @ removed). in_order READ_REPAIR_SOURCE_ID t (group_set (cy_group st) name)) \<and>
         sorted_wrt stamps_before (sync_entries (removals_after (env_schedule env nid name)) removed modified))"

section \<open>The steps\<close>

inductive cluster_step ::
  "('s, 'e) storage_ops \<Rightarrow> ('s \<Rightarrow> string \<Rightarrow> bool) \<Rightarrow> ('s \<Rightarrow> string \<Rightarrow> key \<rightharpoonup> stored) \<Rightarrow> ('e \<Rightarrow> string) \<Rightarrow> ('e bulk_mutation_error \<Rightarrow> string)
    \<Rightarrow> (orswot_set \<Rightarrow> u8 list option) \<Rightarrow> 's cluster \<Rightarrow> 's cluster \<Rightarrow> bool"
  for ops known look te bte ser
where
  Write: "write_enabled ops known te bte env name x st \<Longrightarrow> public_addr (se_me env) = a \<Longrightarrow> ss_group st = net a \<Longrightarrow> ss_net st = net \<Longrightarrow>
    run_store_op env name x c st = Some (r, st') \<Longrightarrow> cluster_step ops known look te bte ser net ((ss_net st')(a := ss_group st'))"
| Tick: "tick_enabled known sched qs st net \<Longrightarrow> distributor_tick ctx (\<lambda>a. a) (batch_rpc ops bte) sched qs st net = Some (st', net') \<Longrightarrow>
    cluster_step ops known look te bte ser net net'"
| Repair: "repair_enabled ops known look te ser env nid name st \<Longrightarrow> a \<noteq> b \<Longrightarrow> cy_group st = net a \<Longrightarrow> cy_net st = net b \<Longrightarrow>
    get_keyspace_diff (env_deser env) (env_client env ch) name nid b (net a) (net b) = Some (Inr d, g, h) \<Longrightarrow>
    begin_keyspace_sync env nid b d (st\<lparr>cy_group := g, cy_net := h\<rparr>) = Some (r, st') \<Longrightarrow>
    cluster_step ops known look te bte ser net (net(a := cy_group st', b := cy_net st'))"
| Purge: "purge_round ops (net a) = Some g \<Longrightarrow> cluster_step ops known look te bte ser net (net(a := g))"
| Restart: "w_store w = group_store (net a) \<Longrightarrow> (\<And>kss s. st_get_keyspace_list ops (w_store w) = Some (Inr kss, s) \<Longrightarrow> clock_answers (card (set kss)) (w_clock w)) \<Longrightarrow>
    load_states_from_storage ops (group_new w) = Some (Inr u, g) \<Longrightarrow> cluster_step ops known look te bte ser net (net(a := g))"

inductive_cases cluster_stepE: "cluster_step ops known look te bte ser net net'"

abbreviation cluster_steps where
  "cluster_steps ops known look te bte ser \<equiv> (cluster_step ops known look te bte ser)\<^sup>*\<^sup>*"

section \<open>Every step keeps the nodes in order\<close>

context storage
begin

lemma takes_write_ready: "group_inv invar look g \<Longrightarrow> takes_write known name x ts m g \<Longrightarrow> replica_ready invar known look name x ts m g"
  by (simp add: takes_write_def replica_ready_def)

lemma takes_queue_ready: "group_inv invar look g \<Longrightarrow> takes_queue known qs m g \<Longrightarrow> member_ready invar known look qs m g"
  by (simp add: takes_queue_def member_ready_def)

lemma write_keeps:
  assumes inv: "\<forall>a. group_inv invar look (net a)" and en: "write_enabled ops known te bte env name x st"
    and st: "public_addr (se_me env) = a" "ss_group st = net a" "ss_net st = net" and run: "run_store_op env name x c st = Some (r, st')"
  shows "group_inv invar look (((ss_net st')(a := ss_group st')) b)"
proof -
  obtain members m where mem: "members_ok a (data_center (se_me env)) members" "selector_inv a (data_center (se_me env)) members (ss_selector st)"
    "m + 3 + 6 * length (concat (map snd members)) < 2 ^ 16" "clock_fit m (group_clock (ss_group st))"
    and rdy: "\<forall>ts. hlc (group_clock (ss_group st)) < ts \<and> node ts = node (hlc (group_clock (ss_group st))) \<longrightarrow>
      (\<forall>g \<in> insert (ss_group st) (ss_net st ` set (concat (map snd members))). takes_write known name x ts m g)"
    using en st(1) unfolding write_enabled_def by blast
  have env: "se_ops env = ops" "se_connect env = (\<lambda>a. a)" "se_client env = cluster_calls ops te bte" "\<And>xs. mset (se_sched env xs) = mset xs"
    "rnd_ok (se_choice env)" "distinct (op_keys x)" "\<forall>a c. map_of (ss_clients st) a = Some c \<longrightarrow> c = a"
    using en unfolding write_enabled_def by blast+
  have ready: "replica_ready invar known look name x ts m (ss_group st) \<and>
      (\<forall>a \<in> set (concat (map snd members)). replica_ready invar known look name x ts m (ss_net st a))"
    if "hlc (group_clock (ss_group st)) < ts" "node ts = node (hlc (group_clock (ss_group st)))" for ts
    using rdy that takes_write_ready inv st(2,3) by auto
  from store_op_spec [OF env(1-5) st(1) refl mem(1,2) env(6,7) mem(3) ready mem(4), of c] run inv st(2,3)
  show ?thesis unfolding performed_def by auto
qed

lemma tick_keeps:
  assumes inv: "\<forall>a. group_inv invar look (net a)" and en: "tick_enabled known sched qs st net"
    and run: "distributor_tick ctx (\<lambda>a. a) (batch_rpc ops te) sched qs st net = Some (st', net')"
  shows "group_inv invar look (net' b)"
proof -
  let ?members = "fold apply_change (changes_in qs) (dist_members st)"
  obtain m where m: "\<And>xs. mset (sched xs) = mset xs" "\<forall>a c. map_of (dist_clients st) a = Some c \<longrightarrow> c = a" "distinct (map snd ?members)"
    "clock_fit m (dist_clock st)" "Suc m + 4 * length (queued qs) + 2 < 2 ^ 16" "\<forall>a \<in> set (map snd ?members). takes_queue known qs (Suc m) (net a)"
    using en unfolding tick_enabled_def Let_def by blast
  have "\<forall>a \<in> set (map snd ?members). member_ready invar known look qs (Suc m) (net a)" using m(6) inv takes_queue_ready by blast
  from tick_spec [OF m(1,2) refl m(3) this m(4) order_refl m(5), of ctx te] run inv show ?thesis
    by (cases "b \<in> set (map snd ?members)") auto
qed

lemma repair_spec:
  assumes inv: "group_inv invar look (cy_group st)" "group_inv invar look (cy_net st)" and en: "repair_enabled ops known look te ser env nid name st"
    and run: "get_keyspace_diff (env_deser env) (env_client env ch) name nid b (cy_group st) (cy_net st) = Some (Inr d, g, h)"
      "begin_keyspace_sync env nid b d (st\<lparr>cy_group := g, cy_net := h\<rparr>) = Some (r, st')"
  shows "group_inv invar look (cy_group st') \<and> group_inv invar look (cy_net st') \<and> group_set (cy_net st') = group_set (cy_net st) \<and>
    (\<forall>ks. ks \<noteq> name \<longrightarrow> group_set (cy_group st') ks = group_set (cy_group st) ks) \<and>
    (is_ok r \<longrightarrow> (\<forall>k. group_reg (cy_group st') name k = repaired_reg (group_set (cy_group st) name) (group_set (cy_net st) name) k))"
proof -
  obtain modified removed where l: "lacking (group_set (cy_group st) name) (group_set (cy_net st) name) = (modified, removed)" by fastforce
  note e = en [unfolded repair_enabled_def l Let_def prod.case]
  have env: "env_ops env = ops" and client: "\<forall>ch. env_client env ch = remote_client ops te ser" and deser: "\<forall>s b. ser s = Some b \<longrightarrow> env_deser env b = Some s"
    and time: "\<forall>t j. \<exists>i \<ge> j. t < poll_time (env_schedule env nid name) i"
    and keyed: "\<forall>k d. look (group_store (cy_net st)) name k = Some (Doc d) \<longrightarrow> doc_id d = k"
    and room: "\<exists>m. clock_fit m (group_clock (cy_group st)) \<and> clock_fit m (group_clock (cy_net st)) \<and>
      m + 5 * length (chunks MAX_NUMBER_OF_DOCS_PER_FETCH modified) + 8 < 2 ^ 16"
    and kn: "removed \<noteq> [] \<longrightarrow> known (group_store (cy_group st)) name"
    and ord: "\<forall>t \<in> md_last_updated ` set (modified @ removed). in_order READ_REPAIR_SOURCE_ID t (group_set (cy_group st) name)"
    and srt: "sorted_wrt stamps_before (sync_entries (removals_after (env_schedule env nid name)) removed modified)"
    using e by - (elim conjE, assumption)+
  obtain m where m: "clock_fit m (group_clock (cy_group st))" "clock_fit m (group_clock (cy_net st))"
    "m + 5 * length (chunks MAX_NUMBER_OF_DOCS_PER_FETCH modified) + 8 < 2 ^ 16" using room by (elim exE conjE)
  from replica_pair.polled_keyspace_repaired [OF replica_pair.intro [OF storage_axioms storage_axioms] inv env client [rule_format] deser [rule_format]
      time [rule_format] l m keyed [rule_format] kn [rule_format] ord [rule_format] srt, of ch b] run
  show ?thesis by auto
qed

lemma restart_keeps:
  assumes "group_inv invar look g0" "w_store w = group_store g0" "load_states_from_storage ops (group_new w) = Some (Inr u, g)"
    and "\<And>kss s. st_get_keyspace_list ops (w_store w) = Some (Inr kss, s) \<Longrightarrow> clock_answers (card (set kss)) (w_clock w)"
  shows "group_inv invar look g"
proof -
  have "invar (w_store w)" using assms(1,2) by (simp add: group_inv_def)
  then show ?thesis using load_states_from_storage_spec [of "group_new w"] assms(3,4) by (auto simp: group_new_def)
qed

lemma step_keeps:
  assumes "cluster_step ops known look te bte ser net net'" "\<forall>a. group_inv invar look (net a)"
  shows "\<forall>a. group_inv invar look (net' a)"
  using assms
proof (induction rule: cluster_step.induct)
  case (Write env name x st a net c r st')
  show ?case using write_keeps [OF Write.prems Write.hyps] by blast
next
  case (Tick sched qs st net ctx st' net')
  show ?case using tick_keeps [OF Tick.prems Tick.hyps] by blast
next
  case (Repair env nid name st a b net ch d g h r st')
  then show ?case using repair_spec [of st te ser env nid name ch b d g h r st'] by simp
next
  case (Purge net a g)
  then show ?case using purge_round_spec [of "net a"] by fastforce
next
  case (Restart w net a u g)
  then show ?case using restart_keeps [of "net a" w u g] by simp
qed

lemma steps_keep:
  assumes "cluster_steps ops known look te bte ser net net'" "\<forall>a. group_inv invar look (net a)"
  shows "\<forall>a. group_inv invar look (net' a)"
  using assms by (induction rule: rtranclp_induct) (auto dest: step_keeps)

end

text \<open>C8. In every state a cluster reaches from nodes in order, by writes, ticks of distributors, read
  repairs, purges and restarts of its nodes in any order, each node's set agrees with its store: what the store of a node holds for a
  key, a document or a tombstone and its timestamp, is what the set of the keyspace says. A write, a tick and a
  repair are steps only under their guards (\<open>write_enabled\<close>, \<open>tick_enabled\<close>, \<open>repair_enabled\<close>): their operations are in order at the
  sets they reach, a batch has no deletion newer than a document of the same node, the keyspaces of removals are known and the clocks have
  room. The code checks none of these: it also takes the other steps, and after some of them set and
  store differ (\<open>set_out_of_order_diverges\<close>), so states reached through those are not covered.\<close>

theorem reachable_nodes_agree:
  assumes "storage ops invar known look" "\<forall>a. group_inv invar look (net a)" "cluster_steps ops known look te bte ser net net'"
  shows "group_inv invar look (net' a) \<and>
    map_option stored_meta (look (group_store (net' a)) name k) = reg_meta (group_reg (net' a) name k)"
  using storage.steps_keep [OF assms(1,3,2)] group_agrees(1) by blast

text \<open>Two steps: a tick of a distributor and a purge.\<close>

lemma example_tick_enabled: "tick_enabled mem_known rev example_queue example_distributor (\<lambda>a. example_group)"
proof -
  have m: "fold apply_change (changes_in example_queue) (dist_members example_distributor) = [(1, ''a'')]"
    by (simp add: changes_in_def example_queue_def example_distributor_def apply_change_def member_new_def)
  have "takes_queue mem_known example_queue (Suc 0) example_group"
    using example_member_ready by (simp add: takes_queue_def member_ready_def)
  then show ?thesis
    using example_clock_fit unfolding tick_enabled_def m Let_def
    by (intro conjI exI [of _ 0]) (simp_all add: example_distributor_def example_queued)
qed

theorem reachable_nodes_agree_witness:
  "\<exists>st net g. distributor_tick \<lparr>local_node_id = 0, public_node_addr = ''b''\<rparr> (\<lambda>a. a) (batch_rpc mem_ops (\<lambda>e. [])) rev
      example_queue example_distributor (\<lambda>a. example_group) = Some (st, net) \<and> purge_round mem_ops (net ''a'') = Some g \<and>
    cluster_steps mem_ops mem_known mem_look (\<lambda>e. []) (\<lambda>e. []) (\<lambda>s. None) (\<lambda>a. example_group) (net(''a'' := g)) \<and>
    group_inv mem_inv mem_look g \<and> map_option stored_meta (mem_look (group_store g) ''ks'' 7) = reg_meta (group_reg g ''ks'' 7)"
proof -
  let ?steps = "cluster_steps mem_ops mem_known mem_look (\<lambda>e. []) (\<lambda>e. []) (\<lambda>s. None)"
  have m: "fold apply_change (changes_in example_queue) (dist_members example_distributor) = [(1, ''a'')]"
    by (simp add: changes_in_def example_queue_def example_distributor_def apply_change_def member_new_def)
  have f: "clock_fit 0 (dist_clock example_distributor)" using example_clock_fit by (simp add: example_distributor_def)
  obtain st net where t: "distributor_tick \<lparr>local_node_id = 0, public_node_addr = ''b''\<rparr> (\<lambda>a. a) (batch_rpc mem_ops (\<lambda>e. [])) rev
      example_queue example_distributor (\<lambda>a. example_group) = Some (st, net)" "group_inv mem_inv mem_look (net ''a'')"
    using mem.tick_spec [where sched = rev and qs = example_queue and st = example_distributor and m = 1 and net = "\<lambda>a. example_group"
        and members = "[(1, ''a'')]" and ctx = "\<lparr>local_node_id = 0, public_node_addr = ''b''\<rparr>" and te = "\<lambda>e. []", OF _ _ m [symmetric] _ _ f] example_member_ready
    by (auto simp: example_distributor_def example_queued)
  obtain g where g: "purge_round mem_ops (net ''a'') = Some g" using storage.purge_round_spec [OF mem.storage_axioms t(2)] by blast
  have steps: "?steps (\<lambda>a. example_group) (net(''a'' := g))"
    using cluster_step.Tick [OF example_tick_enabled t(1)] cluster_step.Purge [where net = net and a = "''a''", OF g] by (meson converse_rtranclp_into_rtranclp r_into_rtranclp)
  from reachable_nodes_agree [OF mem.storage_axioms _ steps, of "''a''" "''ks''" 7] example_group_inv
  show ?thesis using t(1) g steps by (intro exI [of _ st] exI [of _ net] exI [of _ g]) simp
qed

end
