(* ===== verification/Convergence.thy ===== *)
theory Convergence
  imports Cluster "HOL-Library.Countable"
begin

text \<open>
  Eventual consistency of a cluster. A read repair that succeeds joins, at every key, what the node holds
  with what the other holds; a sequence of repairs is therefore a run of a gossip protocol over the
  joins. When one node has repaired from all others and then all others from it, all of them hold the
  same entries and tombstones, the newest any of them had.
\<close>

section \<open>The protocol\<close>

text \<open>A pair \<open>(a, b)\<close>: node \<open>a\<close> repairs from node \<open>b\<close>.\<close>

definition gossip :: "('n \<times> 'n) list \<Rightarrow> ('n \<Rightarrow> 'r::linorder) \<Rightarrow> 'n \<Rightarrow> 'r" where
  "gossip ps f = fold (\<lambda>(a, b) f. f(a := max (f a) (f b))) ps f"

definition hub_schedule :: "'n \<Rightarrow> 'n list \<Rightarrow> ('n \<times> 'n) list" where
  "hub_schedule a bs = map (\<lambda>b. (a, b)) bs @ map (\<lambda>b. (b, a)) bs"

lemma gossip_simps [simp]: "gossip [] f = f" "gossip ((a, b) # ps) f = gossip ps (f(a := max (f a) (f b)))"
  "gossip (ps @ qs) f = gossip qs (gossip ps f)"
  by (simp_all add: gossip_def)

lemma gossip_gather: "a \<notin> set bs \<Longrightarrow> gossip (map (\<lambda>b. (a, b)) bs) f x = (if x = a then Max (f ` insert a (set bs)) else f x)"
proof (induction bs arbitrary: f)
  case (Cons b bs)
  define g where "g = f(a := max (f a) (f b))"
  have "g ` insert a (set bs) = insert (max (f a) (f b)) (f ` set bs)" using Cons.prems by (auto simp: g_def)
  moreover have "Max (insert (max (f a) (f b)) (f ` set bs)) = Max (f ` insert a (set (b # bs)))"
    by (cases "set bs = {}") (simp_all add: max.assoc)
  ultimately have "gossip (map (\<lambda>b. (a, b)) bs) g x = (if x = a then Max (f ` insert a (set (b # bs))) else g x)"
    using Cons.IH [of g] Cons.prems by simp
  then show ?case by (simp add: g_def)
qed simp

lemma gossip_spread:
  assumes "a \<notin> set bs" "\<forall>b \<in> set bs. f b \<le> f a"
  shows "gossip (map (\<lambda>b. (b, a)) bs) f x = (if x \<in> set bs then f a else f x)"
  using assms
proof (induction bs arbitrary: f)
  case (Cons b bs)
  define g where "g = f(b := f a)"
  have "gossip (map (\<lambda>b. (b, a)) (b # bs)) f x = gossip (map (\<lambda>b. (b, a)) bs) g x" using Cons.prems(2) by (simp add: g_def max_absorb2)
  also have "\<dots> = (if x \<in> set bs then g a else g x)" by (rule Cons.IH) (use Cons.prems in \<open>auto simp: g_def\<close>)
  also have "\<dots> = (if x \<in> set (b # bs) then f a else f x)" using Cons.prems(1) by (simp add: g_def)
  finally show ?case .
qed simp

lemma gossip_hub:
  fixes f :: "'n \<Rightarrow> 'r::linorder"
  assumes "a \<notin> set bs" "x \<in> insert a (set bs)"
  shows "gossip (hub_schedule a bs) f x = Max (f ` insert a (set bs))"
proof -
  define m where "m = Max (f ` insert a (set bs))"
  define g where "g = gossip (map (\<lambda>b. (a, b)) bs) f"
  have g: "g x = (if x = a then m else f x)" for x unfolding g_def m_def by (rule gossip_gather [OF assms(1)])
  have "f b \<le> m" if "b \<in> set bs" for b unfolding m_def by (rule Max_ge) (use that in auto)
  then have "\<forall>b \<in> set bs. g b \<le> g a" by (simp add: g)
  then have "gossip (map (\<lambda>b. (b, a)) bs) g x = m" using gossip_spread [OF assms(1), of g x] assms(2) by (auto simp: g)
  then show ?thesis by (simp only: hub_schedule_def gossip_simps m_def g_def)
qed

section \<open>A repair is a join\<close>

text \<open>
  At a key two sets are settled when neither has purged what the other still holds, and no insert and
  delete of the key have one timestamp.
\<close>

definition settled :: "orswot_set \<Rightarrow> orswot_set \<Rightarrow> key \<Rightarrow> bool" where
  "settled st other k \<longleftrightarrow> (case reg_ts (reg_of other k) of
     None \<Rightarrow> True
   | Some t \<Rightarrow> (reg_of st k = Absent \<longrightarrow> wanted st (k, t)) \<and> (reg_ts (reg_of st k) = Some t \<longrightarrow> reg_of st k = reg_of other k))"

lemma repaired_join: "settled st other k \<Longrightarrow> repaired_reg st other k = max (reg_of st k) (reg_of other k)"
  by (cases "reg_of st k"; cases "reg_of other k") (auto simp: repaired_reg_def settled_def wanted_def max_def)

section \<open>Repairs of a cluster\<close>

definition repair_step ::
  "('s, 'e) storage_ops \<Rightarrow> ('s \<Rightarrow> string \<Rightarrow> bool) \<Rightarrow> ('s \<Rightarrow> string \<Rightarrow> key \<rightharpoonup> stored) \<Rightarrow> ('e \<Rightarrow> string) \<Rightarrow> (orswot_set \<Rightarrow> u8 list option)
    \<Rightarrow> string \<Rightarrow> addr \<Rightarrow> addr \<Rightarrow> 's cluster \<Rightarrow> 's cluster \<Rightarrow> bool" where
  "repair_step ops known look te ser name a b net net' \<longleftrightarrow> a \<noteq> b \<and>
     (\<exists>env nid st ch d g h st'. repair_enabled ops known look te ser env nid name st \<and> cy_group st = net a \<and> cy_net st = net b \<and>
        get_keyspace_diff (env_deser env) (env_client env ch) name nid b (net a) (net b) = Some (Inr d, g, h) \<and>
        begin_keyspace_sync env nid b d (st\<lparr>cy_group := g, cy_net := h\<rparr>) = Some (Inr (), st') \<and>
        net' = net(a := cy_group st', b := cy_net st'))"

text \<open>A run of a schedule, in which the keys \<open>K\<close> are settled at each repair.\<close>

inductive repair_run ::
  "('s, 'e) storage_ops \<Rightarrow> ('s \<Rightarrow> string \<Rightarrow> bool) \<Rightarrow> ('s \<Rightarrow> string \<Rightarrow> key \<rightharpoonup> stored) \<Rightarrow> ('e \<Rightarrow> string) \<Rightarrow> (orswot_set \<Rightarrow> u8 list option)
    \<Rightarrow> string \<Rightarrow> key set \<Rightarrow> (addr \<times> addr) list \<Rightarrow> 's cluster \<Rightarrow> 's cluster \<Rightarrow> bool"
  for ops known look te ser name K
where
  Nil: "repair_run ops known look te ser name K [] net net"
| Cons: "repair_step ops known look te ser name a b net net1 \<Longrightarrow>
    \<forall>k \<in> K. settled (group_set (net a) name) (group_set (net b) name) k \<Longrightarrow>
    repair_run ops known look te ser name K ps net1 net2 \<Longrightarrow> repair_run ops known look te ser name K ((a, b) # ps) net net2"

context storage
begin

lemma repair_step_joins:
  assumes step: "repair_step ops known look te ser name a b net net'" and inv: "\<forall>a. group_inv invar look (net a)"
  shows "\<forall>a. group_inv invar look (net' a)" "ks \<noteq> name \<Longrightarrow> group_set (net' x) ks = group_set (net x) ks"
    "settled (group_set (net a) name) (group_set (net b) name) k \<Longrightarrow>
      (\<lambda>x. group_reg (net' x) name k) = (\<lambda>x. group_reg (net x) name k)(a := max (group_reg (net a) name k) (group_reg (net b) name k))"
proof -
  obtain env nid st ch d g h st' where s: "repair_enabled ops known look te ser env nid name st" "cy_group st = net a" "cy_net st = net b"
    "get_keyspace_diff (env_deser env) (env_client env ch) name nid b (net a) (net b) = Some (Inr d, g, h)"
    "begin_keyspace_sync env nid b d (st\<lparr>cy_group := g, cy_net := h\<rparr>) = Some (Inr (), st')" "net' = net(a := cy_group st', b := cy_net st')" "a \<noteq> b"
    using step unfolding repair_step_def by (elim exE conjE)
  have inv': "group_inv invar look (cy_group st)" "group_inv invar look (cy_net st)" using inv s(2,3) by simp_all
  from repair_spec [OF inv' s(1) s(4) [folded s(2,3)] s(5)] have r: "group_inv invar look (cy_group st')" "group_inv invar look (cy_net st')"
    "group_set (cy_net st') = group_set (net b)" "\<forall>ks. ks \<noteq> name \<longrightarrow> group_set (cy_group st') ks = group_set (net a) ks"
    "\<forall>k. group_reg (cy_group st') name k = repaired_reg (group_set (net a) name) (group_set (net b) name) k"
    by (simp_all add: s(2,3))
  show "\<forall>a. group_inv invar look (net' a)" using inv r(1,2) by (simp add: s(6))
  show "ks \<noteq> name \<Longrightarrow> group_set (net' x) ks = group_set (net x) ks" using r(3,4) s(7) by (simp add: s(6))
  assume "settled (group_set (net a) name) (group_set (net b) name) k"
  then show "(\<lambda>x. group_reg (net' x) name k) = (\<lambda>x. group_reg (net x) name k)(a := max (group_reg (net a) name k) (group_reg (net b) name k))"
    using r(3,5) s(7) repaired_join by (auto simp: s(6) fun_eq_iff group_reg_def)
qed

lemma repair_run_gossips:
  assumes "repair_run ops known look te ser name K ps net net'" "\<forall>a. group_inv invar look (net a)"
  shows "(\<forall>a. group_inv invar look (net' a)) \<and> (\<forall>x ks. ks \<noteq> name \<longrightarrow> group_set (net' x) ks = group_set (net x) ks) \<and>
    (\<forall>k \<in> K. (\<lambda>x. group_reg (net' x) name k) = gossip ps (\<lambda>x. group_reg (net x) name k))"
  using assms
proof (induction rule: repair_run.induct)
  case (Cons a b net net1 ps net2)
  note j = repair_step_joins [OF Cons.hyps(1) Cons.prems]
  have "\<forall>k \<in> K. (\<lambda>x. group_reg (net1 x) name k) = (\<lambda>x. group_reg (net x) name k)(a := max (group_reg (net a) name k) (group_reg (net b) name k))"
    using j(3) Cons.hyps(2) by blast
  then show ?case using Cons.IH [OF j(1)] j(2) by simp
qed simp

end

section \<open>Stores that do not fail\<close>

lemma sync_wait_ends_well: "sync_wait (sync_polls example_schedule \<lparr>progress_counter = 0, tracker_done = True\<rparr>) 0 (watcher_new 0 KEYSPACE_SYNC_TIMEOUT) = Some True"
proof -
  have "tracker_states \<lparr>progress_counter = 0, tracker_done = True\<rparr> = [\<lparr>progress_counter = 0, tracker_done = False\<rparr>, \<lparr>progress_counter = 0, tracker_done = True\<rparr>]"
    by (simp add: tracker_states_def)
  then have p: "sync_polls example_schedule \<lparr>progress_counter = 0, tracker_done = True\<rparr> 0 = (0, \<lparr>progress_counter = 0, tracker_done = False\<rparr>)"
    "sync_polls example_schedule \<lparr>progress_counter = 0, tracker_done = True\<rparr> (Suc 0) = (1, \<lparr>progress_counter = 0, tracker_done = True\<rparr>)"
    by (simp_all add: sync_polls_def example_schedule_def)
  show ?thesis by (subst sync_wait.simps, subst sync_wait.simps) (simp add: p has_expired_def watcher_new_def Let_def)
qed

lemma mem_removals_succeed: "handle_removals mem_ops i removed g = Some (r, g') \<Longrightarrow> is_ok r"
  by (auto simp: handle_removals_def send_to_def on_del_def on_multi_del_def mem_mark_as_tombstone_def mem_mark_many_as_tombstone_def
      bind_eq_Some_conv Let_def split: list.splits if_splits sum.splits option.splits)

lemma mem_sync_succeeds:
  assumes run: "begin_keyspace_sync env nid a d st = Some (r, st')" and env: "env_ops env = mem_ops" "env_schedule env nid (kd_keyspace d) = example_schedule"
    and d: "kd_modified d = []"
  shows "r = Inr ()"
proof -
  obtain ch cl where c: "get_or_connect (env_connect env) a (cy_clients st) = (ch, cl)" by fastforce
  have ch0: "chunks MAX_NUMBER_OF_DOCS_PER_FETCH [] = []" by (simp add: chunks.simps)
  obtain i g removal g' where t: "get_or_create_keyspace (kd_keyspace d) (cy_group st) = Some (i, g)" "handle_removals mem_ops i (kd_removed d) g = Some (removal, g')"
    "r = (case removal of Inl e \<Rightarrow> Inl e | Inr u \<Rightarrow> Inr ())"
    using run sync_wait_ends_well
    by (auto simp: begin_keyspace_sync_def c env d sync_tasks_def ch0 Let_def bind_eq_Some_conv set_done_def example_schedule_def)
  then show ?thesis using mem_removals_succeed [OF t(2)] by (cases removal) auto
qed

instance hlc_timestamp :: countable
  by countable_datatype

lemma orswot_countable: "\<exists>code :: orswot_set \<Rightarrow> nat. inj code"
proof -
  have "inj (\<lambda>s :: orswot_set. to_nat (entries s, dead s, nodes_max_stamps (versions s), safe_last_stamps (versions s)))"
    by (rule injI) simp
  then show ?thesis by blast
qed

section \<open>Properties\<close>

text \<open>C1. Eventual consistency, for repairs that arrive in order. A node of a cluster in order repairs a keyspace from
  every other node of a group, and then each of them from it. Every repair is taken when \<open>repair_enabled\<close> holds: what
  the node lacks is in order at its set, neither the removals nor a later chunk of documents have a timestamp
  below one of the same node written before them, the keyspace of removals is known to the store, and the clocks
  have room. The code ensures none of this: a repair that writes a document after a newer one of its node
  leaves set and store different and is not covered. When all these repairs succeed, every node of the group holds,
  at every key that was settled at each of them, the newest entry or tombstone any of them had, in its
  set and in its store; no other keyspace changes.\<close>

theorem cluster_converges:
  assumes "storage ops invar known look" "\<forall>a. group_inv invar look (net a)" "a \<notin> set bs"
    and "repair_run ops known look te ser name K (hub_schedule a bs) net net'"
    and "x \<in> insert a (set bs)" "k \<in> K"
  shows "group_reg (net' x) name k = Max ((\<lambda>y. group_reg (net y) name k) ` insert a (set bs)) \<and>
    map_option stored_meta (look (group_store (net' x)) name k) = reg_meta (Max ((\<lambda>y. group_reg (net y) name k) ` insert a (set bs))) \<and>
    (\<forall>ks. ks \<noteq> name \<longrightarrow> group_set (net' x) ks = group_set (net x) ks)"
proof -
  note r = storage.repair_run_gossips [OF assms(1,4,2)]
  have "group_reg (net' x) name k = gossip (hub_schedule a bs) (\<lambda>y. group_reg (net y) name k) x"
    using r assms(6) by (metis (mono_tags))
  also have "\<dots> = Max ((\<lambda>y. group_reg (net y) name k) ` insert a (set bs))" by (rule gossip_hub [OF assms(3,5)])
  finally show ?thesis using r group_agrees(1) [of invar look "net' x" name k] by simp
qed

text \<open>A node that holds a tombstone, and one that holds nothing.\<close>

definition example_dead_set :: orswot_set where
  "example_dead_set = \<lparr>entries = [], dead = [(8, HLCTimestamp 257)], versions = default_versions NUM_SOURCES\<rparr>"

definition example_dead_store :: mem_store where
  "example_dead_store = \<lparr>ms_metadata = [(''ks'', [(8, (HLCTimestamp 257, True))])], ms_data = [(''ks'', [])]\<rparr>"

definition example_dead_node :: "mem_store keyspace_group" where
  "example_dead_node = \<lparr>g_world = \<lparr>w_store = example_dead_store, w_clock = example_clock\<lparr>hlc := HLCTimestamp 2\<rparr>\<rparr>,
     g_actors = [spawn_keyspace ''ks'' example_dead_set (HLCTimestamp 2)], g_group = [(''ks'', 0)], keyspace_timestamps = [(''ks'', 0)]\<rparr>"

definition example_net :: "mem_store cluster" where
  "example_net = (\<lambda>a. if a = ''b'' then example_dead_node else example_group)"

lemma example_dead_inv: "group_inv mem_inv mem_look example_dead_node"
proof -
  have "orswot_wf NUM_SOURCES example_dead_set"
    using orswot_wf_default [of NUM_SOURCES] by (auto simp: orswot_wf_def example_dead_set_def default_set_def hm_wf_def)
  moreover have l: "mem_look example_dead_store = (\<lambda>ks k. None)(''ks'' := [8 \<mapsto> Tombstone (HLCTimestamp 257)])"
    by (auto simp: mem_look_def example_dead_store_def nested_def fun_eq_iff)
  moreover have "mem_inv example_dead_store"
    unfolding mem_inv_def l by (auto simp: example_dead_store_def nested_def nested_wf_def hm_wf_def split: if_splits)
  moreover have "agrees (mem_look example_dead_store) (spawn_keyspace ''ks'' example_dead_set (HLCTimestamp 2))"
    unfolding l by (auto simp: agrees_def spawn_keyspace_def reg_of_def example_dead_set_def)
  ultimately show ?thesis
    by (auto simp: group_inv_def group_wf_def example_dead_node_def actor_inv_def actor_wf_def spawn_keyspace_def split: if_splits)
qed

text \<open>A repair without documents to fetch, over the store in memory.\<close>

lemma mem_repair_step:
  fixes code :: "orswot_set \<Rightarrow> nat"
  defines "ser \<equiv> \<lambda>s. Some (replicate (code s) (0 :: u8))"
  assumes code: "inj code" and inv: "\<forall>a. group_inv mem_inv mem_look (net a)" and ab: "a \<noteq> b"
    and l: "lacking (group_set (net a) name) (group_set (net b) name) = ([], removed)"
    and clk: "clock_fit m (group_clock (net a))" "clock_fit m (group_clock (net b))" "m + 8 < 2 ^ 16"
    and keyed: "\<And>k d. mem_look (group_store (net b)) name k \<noteq> Some (Doc d)"
    and kn: "removed \<noteq> [] \<longrightarrow> mem_known (group_store (net a)) name"
    and ord: "\<And>t. t \<in> md_last_updated ` set removed \<Longrightarrow> in_order READ_REPAIR_SOURCE_ID t (group_set (net a) name)"
  shows "\<exists>net'. repair_step mem_ops mem_known mem_look te ser name a b net net' \<and>
    clock_fit (m + 8) (group_clock (net' a)) \<and> clock_fit (m + 8) (group_clock (net' b))"
proof -
  define env where "env = \<lparr>env_ops = mem_ops, env_deser = (\<lambda>b. Some (inv code (length b))), env_connect = (\<lambda>a. a),
    env_client = (\<lambda>ch. remote_client mem_ops te ser), env_schedule = (\<lambda>nid name. example_schedule)\<rparr>"
  define st :: "(mem_store, addr, mem_store keyspace_group) cycle_state"
    where "st = \<lparr>cy_group = net a, cy_clients = [], cy_tracker = [], cy_members = [], cy_net = net b\<rparr>"
  have e: "env_ops env = mem_ops" "env_client env ch = remote_client mem_ops te ser" "env_schedule env nid name = example_schedule" for ch nid name
    by (simp_all add: env_def)
  have s: "cy_group st = net a" "cy_net st = net b" by (simp_all add: st_def)
  have rt: "env_deser env b = Some s" if "ser s = Some b" for s b using that code by (auto simp: env_def ser_def inv_f_f)
  have ch0: "chunks MAX_NUMBER_OF_DOCS_PER_FETCH ([] :: document_metadata list) = []" by (simp add: chunks.simps)
  have srt: "sorted_wrt stamps_before (sync_entries (removals_after example_schedule) removed [])" by (simp add: sync_entries_def ch0)
  have en: "repair_enabled mem_ops mem_known mem_look te ser env 0 name st"
    unfolding repair_enabled_def s l Let_def prod.case e using rt example_times keyed clk kn ord srt ch0 by auto
  have i: "group_inv mem_inv mem_look (net a)" "group_inv mem_inv mem_look (net b)" using inv by simp_all
  have fit: "m + 6 < 2 ^ 16" using clk(3) by simp
  obtain q g h where q: "get_keyspace_diff (env_deser env) (remote_client mem_ops te ser) name 0 b (net a) (net b) = Some (q, g, h)"
    "case q of Inl e \<Rightarrow> ser (group_set (net b) name) = None
      | Inr d \<Rightarrow> kd_keyspace d = name \<and>
          kd_modified d = map (\<lambda>(k, t). metadata_new k t) (fst (orswot_diff (group_set (net a) name) (group_set (net b) name))) \<and>
          kd_removed d = map (\<lambda>(k, t). metadata_new k t) (snd (orswot_diff (group_set (net a) name) (group_set (net b) name)))"
    using diff_of_remote [where ser = ser and deser = "env_deser env" and rops = mem_ops and te = te and name = name and nid = 0 and a = b,
        OF i clk(1,2) fit rt] by blast
  obtain d where d: "q = Inr d" "kd_keyspace d = name" "kd_modified d = []"
    using q(2) l by (cases q) (auto simp: ser_def lacking_def map_prod_def case_prod_beta)
  have room: "m + 5 * length (chunks MAX_NUMBER_OF_DOCS_PER_FETCH ([] :: document_metadata list)) + 8 < 2 ^ 16" using clk(3) ch0 by simp
  have "\<exists>r st'. begin_keyspace_sync env 0 b d (st\<lparr>cy_group := g, cy_net := h\<rparr>) = Some (r, st') \<and>
      clock_fit (m + 8) (group_clock (cy_group st')) \<and> clock_fit (m + 8) (group_clock (cy_net st'))"
    using mem_pair.polled_keyspace_repaired [where st = st and env = env and te = te and ser = ser and nid = 0 and name = name and m = m
        and modified = "[]" and removed = removed and a = b and ch = "''b''"] i e rt example_times l clk room keyed kn ord srt q(1) d(1) ch0
    by (simp add: s) blast
  then obtain r st' where r: "begin_keyspace_sync env 0 b d (st\<lparr>cy_group := g, cy_net := h\<rparr>) = Some (r, st')"
    "clock_fit (m + 8) (group_clock (cy_group st'))" "clock_fit (m + 8) (group_clock (cy_net st'))" by blast
  have "r = Inr ()" by (rule mem_sync_succeeds [OF r(1)]) (simp_all add: e d)
  then have run: "begin_keyspace_sync env 0 b d (st\<lparr>cy_group := g, cy_net := h\<rparr>) = Some (Inr (), st')" using r(1) by simp
  have diff: "get_keyspace_diff (env_deser env) (env_client env ''b'') name 0 b (net a) (net b) = Some (Inr d, g, h)" using q(1) d(1) e(2) by simp
  have "repair_step mem_ops mem_known mem_look te ser name a b net (net(a := cy_group st', b := cy_net st'))"
    unfolding repair_step_def by (intro conjI ab exI [of _ env] exI [of _ 0] exI [of _ st] exI [of _ "''b''"] exI [of _ d] exI [of _ g] exI [of _ h]
      exI [of _ st'] en s diff run refl)
  then show ?thesis using r(2,3) ab by (intro exI [of _ "net(a := cy_group st', b := cy_net st')"]) simp
qed

lemma nothing_lacking:
  assumes wf: "orswot_wf n other" and "\<And>k t. reg_ts (reg_of other k) = Some t \<Longrightarrow> \<not> wanted st (k, t)"
  shows "lacking st other = ([], [])"
proof -
  have "set (meta_live (fst (lacking st other)) @ dead_entries (snd (lacking st other))) = {}"
    using lacking_entries(1) [OF wf, of _ _ st] assms(2) by (metis equals0I surj_pair)
  then show ?thesis by (cases "lacking st other") (simp add: meta_live_def dead_entries_def)
qed

lemma example_dead_reg: "group_set example_dead_node ''ks'' = example_dead_set" "reg_of example_dead_set = (\<lambda>k. Absent)(8 := Dead (HLCTimestamp 257))"
  by (auto simp: group_set_def example_dead_node_def spawn_keyspace_def reg_of_def example_dead_set_def fun_eq_iff)

theorem cluster_converges_witness:
  "\<exists>ser net'. repair_run mem_ops mem_known mem_look (\<lambda>e. []) ser ''ks'' UNIV (hub_schedule ''a'' [''b'']) example_net net' \<and>
    group_reg (net' ''a'') ''ks'' 8 = Dead (HLCTimestamp 257) \<and> group_reg (net' ''b'') ''ks'' 8 = Dead (HLCTimestamp 257)"
proof -
  obtain code :: "orswot_set \<Rightarrow> nat" where code: "inj code" using orswot_countable by blast
  define ser where "ser = (\<lambda>s. Some (replicate (code s) (0 :: u8)))"
  have inv: "\<forall>a. group_inv mem_inv mem_look (example_net a)" using example_group_inv example_dead_inv by (simp add: example_net_def)
  have n: "example_net ''a'' = example_group" "example_net ''b'' = example_dead_node" by (simp_all add: example_net_def)
  have fit: "clock_fit 0 (group_clock (example_net ''a''))" "clock_fit 0 (group_clock (example_net ''b''))" "(0 :: nat) + 8 < 2 ^ 16"
    using example_clock_fit by (simp_all add: n example_group_def example_world_def example_dead_node_def clock_fit_def clock_ok_def example_clock_def counter_def zero_time two_time)
  have sets: "group_set (example_net ''a'') ''ks'' = default_set NUM_SOURCES" "group_set (example_net ''b'') ''ks'' = example_dead_set"
    by (simp_all add: n example_group_set example_dead_reg)
  have "lacking (default_set NUM_SOURCES) example_dead_set = ([], [metadata_new 8 (HLCTimestamp 257)])"
    using example_wanted by (simp add: lacking_def orswot_diff_eq example_dead_set_def)
  then have l: "lacking (group_set (example_net ''a'') ''ks'') (group_set (example_net ''b'') ''ks'') = ([], [metadata_new 8 (HLCTimestamp 257)])"
    by (simp add: sets)
  have keyed: "mem_look (group_store (example_net ''b'')) ''ks'' k \<noteq> Some (Doc d)" for k d
    by (simp add: n example_dead_node_def mem_look_def example_dead_store_def nested_def)
  have kn: "mem_known (group_store (example_net ''a'')) ''ks''" using example_store_inv(2) by (simp add: n example_group_def)
  have ord: "in_order READ_REPAIR_SOURCE_ID t (group_set (example_net ''a'') ''ks'')" for t by (simp add: sets in_order_default sources)
  obtain net1 where s1: "repair_step mem_ops mem_known mem_look (\<lambda>e. []) ser ''ks'' ''a'' ''b'' example_net net1"
    "clock_fit (0 + 8) (group_clock (net1 ''a''))" "clock_fit (0 + 8) (group_clock (net1 ''b''))"
    using mem_repair_step [OF code inv _ l fit keyed _ ord, of "\<lambda>e. []", folded ser_def] kn by auto
  have set1: "settled (group_set (example_net ''a'') ''ks'') (group_set (example_net ''b'') ''ks'') k" for k
    using example_wanted by (auto simp: sets settled_def example_dead_reg reg_of_default)
  note j = storage.repair_step_joins [OF mem.storage_axioms s1(1) inv]
  have r1: "group_reg (net1 x) ''ks'' k = (if k = 8 then Dead (HLCTimestamp 257) else Absent)" if "x = ''a'' \<or> x = ''b''" for x k
    using fun_cong [OF j(3) [OF set1 [of k]], of x] that by (auto simp: group_reg_def sets example_dead_reg reg_of_default max_def)
  have regs: "reg_of (group_set (net1 x) ''ks'') k = (if k = 8 then Dead (HLCTimestamp 257) else Absent)" if "x = ''a'' \<or> x = ''b''" for x k
    using r1 [OF that] by (simp add: group_reg_def)
  have nw: "\<not> wanted (group_set (net1 ''b'') ''ks'') (k, t)" if "reg_ts (reg_of (group_set (net1 ''a'') ''ks'') k) = Some t" for k t
    using that by (auto simp: regs wanted_def split: if_splits)
  have "orswot_wf NUM_SOURCES (group_set (net1 ''a'') ''ks'')" using group_agrees(2) j(1) by blast
  from nothing_lacking [OF this nw] have l1: "lacking (group_set (net1 ''b'') ''ks'') (group_set (net1 ''a'') ''ks'') = ([], [])" .
  have k1: "mem_look (group_store (net1 ''a'')) ''ks'' k \<noteq> Some (Doc d)" for k d
    using group_agrees(1) [of mem_inv mem_look "net1 ''a''" "''ks''" k] j(1) r1 [of "''a''" k] by (auto split: if_splits)
  obtain net2 where s2: "repair_step mem_ops mem_known mem_look (\<lambda>e. []) ser ''ks'' ''b'' ''a'' net1 net2"
    using mem_repair_step [OF code j(1) _ l1 s1(3,2) _ k1, of "\<lambda>e. []", folded ser_def] by auto
  have set2: "settled (group_set (net1 ''b'') ''ks'') (group_set (net1 ''a'') ''ks'') k" for k by (simp add: settled_def regs)
  have run: "repair_run mem_ops mem_known mem_look (\<lambda>e. []) ser ''ks'' UNIV (hub_schedule ''a'' [''b'']) example_net net2"
    unfolding hub_schedule_def using set1 set2 by (auto intro!: repair_run.intros s1(1) s2)
  have m: "Max ((\<lambda>y. group_reg (example_net y) ''ks'' 8) ` insert ''a'' (set [''b''])) = Dead (HLCTimestamp 257)"
    by (simp add: group_reg_def sets example_dead_reg reg_of_default max_def)
  have "''a'' \<notin> set [''b'']" by simp
  then have "group_reg (net2 x) ''ks'' 8 = Dead (HLCTimestamp 257)" if "x \<in> insert ''a'' (set [''b''])" for x
    using cluster_converges [where k = 8, OF mem.storage_axioms inv _ run that UNIV_I] unfolding m by blast
  then show ?thesis using run by (intro exI [of _ ser] exI [of _ net2]) simp
qed

end
