(* ===== verification/Lmdb.thy ===== *)
theory Lmdb
  imports MemStore Group
begin

text \<open>
  The LMDB store, \<^verbatim>\<open>datacake-lmdb/src/db.rs\<close> and \<^verbatim>\<open>lib.rs\<close>. A background thread runs one task after the other;
  a keyspace is two databases, the documents and the timestamps, that are created when the keyspace
  is first used. The library \<open>heed\<close> is the parameter \<open>H\<close>: an environment \<open>'v\<close>, transactions \<open>'t\<close> on it and
  errors \<open>'x\<close>. What the store relies on is \<open>heed_laws\<close>: a transaction starts from the contents of the
  environment, sees its own writes, and its contents become those of the environment when it is
  committed; without a commit the environment is as before.
\<close>

section \<open>Environments and transactions\<close>

record ('v, 't, 'x) heed =
  hd_write_txn :: "'v \<Rightarrow> 'x + 't"
  hd_read_txn :: "'v \<Rightarrow> 'x + 't"
  hd_commit :: "'t \<Rightarrow> 'v \<Rightarrow> ('x + unit) \<times> 'v"
  hd_create :: "string \<Rightarrow> 't \<Rightarrow> 'x + 't"
  kv_put :: "string \<Rightarrow> key \<Rightarrow> u8 list \<Rightarrow> 't \<Rightarrow> 'x + 't"
  kv_delete :: "string \<Rightarrow> key \<Rightarrow> 't \<Rightarrow> 'x + 't"
  kv_get :: "string \<Rightarrow> key \<Rightarrow> 't \<Rightarrow> 'x + u8 list option"
  meta_put :: "string \<Rightarrow> key \<Rightarrow> u64 \<Rightarrow> 't \<Rightarrow> 'x + 't"
  meta_delete :: "string \<Rightarrow> key \<Rightarrow> 't \<Rightarrow> 'x + 't"
  meta_get :: "string \<Rightarrow> key \<Rightarrow> 't \<Rightarrow> 'x + u64 option"
  meta_iter :: "string \<Rightarrow> 't \<Rightarrow> 'x + ('x + key \<times> u64) list"
  list_put :: "string \<Rightarrow> string \<Rightarrow> 't \<Rightarrow> 'x + 't"
  list_iter :: "string \<Rightarrow> 't \<Rightarrow> 'x + ('x + string) list"

text \<open>A database handle is the name it was created with.\<close>

record 'v lmdb_store =
  lm_env :: 'v
  lm_databases :: "(string, string \<times> string) btree_map"

definition KEYSPACE_LIST :: string where
  "KEYSPACE_LIST = ''datacake-keyspace''"

definition kv_name :: "string \<Rightarrow> string" where
  "kv_name keyspace = ''datacake-'' @ keyspace @ ''-kv''"

definition meta_name :: "string \<Rightarrow> string" where
  "meta_name keyspace = ''datacake-'' @ keyspace @ ''-meta''"

text \<open>A write: the transaction is committed if its body succeeds and dropped otherwise.\<close>

definition in_write_txn :: "('v, 't, 'x) heed \<Rightarrow> ('t \<Rightarrow> 'x + 't) \<Rightarrow> 'v \<Rightarrow> ('x + unit) \<times> 'v" where
  "in_write_txn H body env =
     (case and_then (hd_write_txn H env) body of Inl e \<Rightarrow> (Inl e, env) | Inr txn \<Rightarrow> hd_commit H txn env)"

text \<open>The results of an iterator up to the first error.\<close>

primrec collect_results :: "('x + 'a) list \<Rightarrow> 'x + 'a list" where
  "collect_results [] = Inr []"
| "collect_results (r # rs) = and_then r (\<lambda>a. and_then (collect_results rs) (\<lambda>as. Inr (a # as)))"

primrec each_in :: "('a \<Rightarrow> 't \<Rightarrow> 'x + 't) \<Rightarrow> 'a list \<Rightarrow> 't \<Rightarrow> 'x + 't" where
  "each_in f [] txn = Inr txn"
| "each_in f (a # as) txn = and_then (f a txn) (each_in f as)"

definition try_create_dbs :: "('v, 't, 'x) heed \<Rightarrow> string \<Rightarrow> 'v \<Rightarrow> ('x + string \<times> string) \<times> 'v" where
  "try_create_dbs H keyspace env =
     (let (r, env) = in_write_txn H (\<lambda>txn. and_then (list_put H KEYSPACE_LIST keyspace txn)
            (\<lambda>txn. and_then (hd_create H (kv_name keyspace) txn) (hd_create H (meta_name keyspace)))) env
      in (map_sum id (\<lambda>u. (kv_name keyspace, meta_name keyspace)) r, env))"

text \<open>A task on a keyspace; the body may panic.\<close>

definition submit_task ::
  "('v, 't, 'x) heed \<Rightarrow> string \<Rightarrow> (string \<Rightarrow> string \<Rightarrow> 'v \<Rightarrow> (('x + 'r) \<times> 'v) exec) \<Rightarrow> ('v lmdb_store, 'x + 'r) action" where
  "submit_task H keyspace inner s =
     (case map_of (lm_databases s) keyspace of
        None \<Rightarrow>
          (case try_create_dbs H keyspace (lm_env s) of
             (Inr (kv, meta), env) \<Rightarrow>
               do { (r, env) \<leftarrow> inner kv meta env;
                    Some (r, \<lparr>lm_env = env, lm_databases = bt_insert keyspace (kv, meta) (lm_databases s)\<rparr>) }
           | (Inl e, env) \<Rightarrow> Some (Inl e, s\<lparr>lm_env := env\<rparr>))
      | Some (kv, meta) \<Rightarrow> do { (r, env) \<leftarrow> inner kv meta (lm_env s); Some (r, s\<lparr>lm_env := env\<rparr>) })"

text \<open>
  Opening: the list of keyspaces is created in the environment that was opened, and the thread starts
  with no database handles.
\<close>

definition setup_disk_handle :: "('v, 't, 'x) heed \<Rightarrow> 'x + 'v \<Rightarrow> 'x + 'v lmdb_store" where
  "setup_disk_handle H opened =
     and_then opened (\<lambda>env.
       case in_write_txn H (hd_create H KEYSPACE_LIST) env of
         (Inl e, env) \<Rightarrow> Inl e
       | (Inr u, env) \<Rightarrow> Inr \<lparr>lm_env = env, lm_databases = []\<rparr>)"

section \<open>The operations\<close>

definition keyspace_list :: "('v, 't, 'x) heed \<Rightarrow> ('v lmdb_store, 'x + string list) action" where
  "keyspace_list H s =
     Some (and_then (hd_read_txn H (lm_env s)) (\<lambda>txn. and_then (list_iter H KEYSPACE_LIST txn) collect_results), s)"

definition put_doc :: "('v, 't, 'x) heed \<Rightarrow> string \<Rightarrow> string \<Rightarrow> document \<Rightarrow> 't \<Rightarrow> 'x + 't" where
  "put_doc H kv meta doc txn =
     and_then (kv_put H kv (doc_id doc) (doc_data doc) txn) (meta_put H meta (doc_id doc) (as_u64 (last_updated doc)))"

definition put_kv :: "('v, 't, 'x) heed \<Rightarrow> string \<Rightarrow> document \<Rightarrow> ('v lmdb_store, 'x + unit) action" where
  "put_kv H keyspace doc = submit_task H keyspace (\<lambda>kv meta env. Some (in_write_txn H (put_doc H kv meta doc) env))"

definition put_many_kv :: "('v, 't, 'x) heed \<Rightarrow> string \<Rightarrow> document list \<Rightarrow> ('v lmdb_store, 'x + unit) action" where
  "put_many_kv H keyspace docs = submit_task H keyspace (\<lambda>kv meta env. Some (in_write_txn H (each_in (put_doc H kv meta) docs) env))"

definition read_metadata :: "('v, 't, 'x) heed \<Rightarrow> string \<Rightarrow> string \<Rightarrow> 'v \<Rightarrow> 'x + (key \<times> hlc_timestamp \<times> bool) list" where
  "read_metadata H kv meta env =
     and_then (hd_read_txn H env) (\<lambda>txn.
       and_then (meta_iter H meta txn) (\<lambda>pairs.
         collect_results (map (\<lambda>pair. and_then pair (\<lambda>(id, ts).
           and_then (kv_get H kv id txn) (\<lambda>doc. Inr (id, from_u64 ts, doc = None)))) pairs)))"

definition get_metadata :: "('v, 't, 'x) heed \<Rightarrow> string \<Rightarrow> ('v lmdb_store, 'x + (key \<times> hlc_timestamp \<times> bool) list) action" where
  "get_metadata H keyspace = submit_task H keyspace (\<lambda>kv meta env. Some (read_metadata H kv meta env, env))"

definition mark_doc :: "('v, 't, 'x) heed \<Rightarrow> string \<Rightarrow> string \<Rightarrow> document_metadata \<Rightarrow> 't \<Rightarrow> 'x + 't" where
  "mark_doc H kv meta doc txn =
     and_then (kv_delete H kv (md_id doc) txn) (meta_put H meta (md_id doc) (as_u64 (md_last_updated doc)))"

definition mark_tombstone :: "('v, 't, 'x) heed \<Rightarrow> string \<Rightarrow> key \<Rightarrow> hlc_timestamp \<Rightarrow> ('v lmdb_store, 'x + unit) action" where
  "mark_tombstone H keyspace k ts = submit_task H keyspace (\<lambda>kv meta env. Some (in_write_txn H (mark_doc H kv meta (metadata_new k ts)) env))"

definition mark_many_as_tombstone :: "('v, 't, 'x) heed \<Rightarrow> string \<Rightarrow> document_metadata list \<Rightarrow> ('v lmdb_store, 'x + unit) action" where
  "mark_many_as_tombstone H keyspace docs = submit_task H keyspace (\<lambda>kv meta env. Some (in_write_txn H (each_in (mark_doc H kv meta) docs) env))"

definition remove_tombstones :: "('v, 't, 'x) heed \<Rightarrow> string \<Rightarrow> key list \<Rightarrow> ('v lmdb_store, 'x + unit) action" where
  "remove_tombstones H keyspace keys = submit_task H keyspace (\<lambda>kv meta env. Some (in_write_txn H (each_in (meta_delete H meta) keys) env))"

text \<open>A document without a timestamp panics.\<close>

definition read_doc :: "('v, 't, 'x) heed \<Rightarrow> string \<Rightarrow> string \<Rightarrow> 't \<Rightarrow> key \<Rightarrow> ('x + document option) exec" where
  "read_doc H kv meta txn k =
     (case kv_get H kv k txn of
        Inl e \<Rightarrow> Some (Inl e)
      | Inr None \<Rightarrow> Some (Inr None)
      | Inr (Some doc) \<Rightarrow>
          (case meta_get H meta k txn of
             Inl e \<Rightarrow> Some (Inl e)
           | Inr ts \<Rightarrow> do { ts \<leftarrow> ts; Some (Inr (Some (document_new k (from_u64 ts) doc))) }))"

definition lmdb_get :: "('v, 't, 'x) heed \<Rightarrow> string \<Rightarrow> key \<Rightarrow> ('v lmdb_store, 'x + document option) action" where
  "lmdb_get H keyspace k = submit_task H keyspace (\<lambda>kv meta env.
     case hd_read_txn H env of
       Inl e \<Rightarrow> Some (Inl e, env)
     | Inr txn \<Rightarrow> do { r \<leftarrow> read_doc H kv meta txn k; Some (r, env) })"

primrec read_many :: "('v, 't, 'x) heed \<Rightarrow> string \<Rightarrow> string \<Rightarrow> 't \<Rightarrow> key list \<Rightarrow> ('x + document list) exec" where
  "read_many H kv meta txn [] = Some (Inr [])"
| "read_many H kv meta txn (k # ks) =
     do { r \<leftarrow> read_doc H kv meta txn k;
          case r of
            Inl e \<Rightarrow> Some (Inl e)
          | Inr d \<Rightarrow> do { r \<leftarrow> read_many H kv meta txn ks;
                         Some (map_sum id (\<lambda>ds. (case d of Some doc \<Rightarrow> doc # ds | None \<Rightarrow> ds)) r) } }"

definition lmdb_get_many :: "('v, 't, 'x) heed \<Rightarrow> string \<Rightarrow> key list \<Rightarrow> ('v lmdb_store, 'x + document list) action" where
  "lmdb_get_many H keyspace keys = submit_task H keyspace (\<lambda>kv meta env.
     case hd_read_txn H env of
       Inl e \<Rightarrow> Some (Inl e, env)
     | Inr txn \<Rightarrow> do { r \<leftarrow> read_many H kv meta txn keys; Some (r, env) })"

section \<open>The trait\<close>

definition lmdb_ops :: "('v, 't, 'x) heed \<Rightarrow> ('v lmdb_store, 'x) storage_ops" where
  "lmdb_ops H = \<lparr>st_get_keyspace_list = keyspace_list H, st_iter_metadata = get_metadata H,
     st_remove_tombstones = (\<lambda>ks keys. bulk (remove_tombstones H ks keys)), st_put_with_ctx = default_put_with_ctx (put_kv H),
     st_put = put_kv H, st_multi_put_with_ctx = default_multi_put_with_ctx (\<lambda>ks ds. bulk (put_many_kv H ks ds)),
     st_multi_put = (\<lambda>ks ds. bulk (put_many_kv H ks ds)), st_mark_as_tombstone = mark_tombstone H,
     st_mark_many_as_tombstone = (\<lambda>ks ds. bulk (mark_many_as_tombstone H ks ds)), st_get = lmdb_get H, st_multi_get = lmdb_get_many H\<rparr>"

section \<open>What the store relies on\<close>

text \<open>The contents of the databases, by name.\<close>

record contents =
  c_kv :: "string \<Rightarrow> key \<rightharpoonup> u8 list"
  c_meta :: "string \<Rightarrow> key \<rightharpoonup> u64"
  c_list :: "string \<Rightarrow> string set"

definition kv_set :: "string \<Rightarrow> key \<Rightarrow> u8 list option \<Rightarrow> contents \<Rightarrow> contents" where
  "kv_set n k v C = C\<lparr>c_kv := (c_kv C)(n := (c_kv C n)(k := v))\<rparr>"

definition meta_set :: "string \<Rightarrow> key \<Rightarrow> u64 option \<Rightarrow> contents \<Rightarrow> contents" where
  "meta_set n k v C = C\<lparr>c_meta := (c_meta C)(n := (c_meta C n)(k := v))\<rparr>"

definition list_add :: "string \<Rightarrow> string \<Rightarrow> contents \<Rightarrow> contents" where
  "list_add n x C = C\<lparr>c_list := (c_list C)(n := insert x (c_list C n))\<rparr>"

definition acts_as :: "('t \<Rightarrow> contents) \<Rightarrow> ('t \<Rightarrow> 'x + 't) \<Rightarrow> (contents \<Rightarrow> contents) \<Rightarrow> bool" where
  "acts_as tc f g \<longleftrightarrow> (\<forall>t t'. f t = Inr t' \<longrightarrow> tc t' = g (tc t))"

definition starts_as :: "('v \<Rightarrow> contents) \<Rightarrow> ('t \<Rightarrow> contents) \<Rightarrow> ('v \<Rightarrow> 'x + 't) \<Rightarrow> bool" where
  "starts_as ec tc f \<longleftrightarrow> (\<forall>v t. f v = Inr t \<longrightarrow> tc t = ec v)"

definition heed_laws :: "('v, 't, 'x) heed \<Rightarrow> ('v \<Rightarrow> contents) \<Rightarrow> ('t \<Rightarrow> contents) \<Rightarrow> bool" where
  "heed_laws H ec tc \<longleftrightarrow> starts_as ec tc (hd_write_txn H) \<and> starts_as ec tc (hd_read_txn H) \<and>
     (\<forall>t v. ec (snd (hd_commit H t v)) = (if is_ok (fst (hd_commit H t v)) then tc t else ec v)) \<and>
     (\<forall>n. acts_as tc (hd_create H n) id) \<and>
     (\<forall>n k d. acts_as tc (kv_put H n k d) (kv_set n k (Some d))) \<and> (\<forall>n k. acts_as tc (kv_delete H n k) (kv_set n k None)) \<and>
     (\<forall>n k d. acts_as tc (meta_put H n k d) (meta_set n k (Some d))) \<and> (\<forall>n k. acts_as tc (meta_delete H n k) (meta_set n k None)) \<and>
     (\<forall>n x. acts_as tc (list_put H n x) (list_add n x)) \<and>
     (\<forall>n k t r. kv_get H n k t = Inr r \<longrightarrow> r = c_kv (tc t) n k) \<and> (\<forall>n k t r. meta_get H n k t = Inr r \<longrightarrow> r = c_meta (tc t) n k) \<and>
     (\<forall>n t l es. meta_iter H n t = Inr l \<longrightarrow> collect_results l = Inr es \<longrightarrow> distinct (map fst es) \<and> map_of es = c_meta (tc t) n) \<and>
     (\<forall>n t l es. list_iter H n t = Inr l \<longrightarrow> collect_results l = Inr es \<longrightarrow> set es = c_list (tc t) n)"

section \<open>The contract\<close>

definition look_in :: "contents \<Rightarrow> string \<Rightarrow> key \<rightharpoonup> stored" where
  "look_in C ks k = (case c_meta C (meta_name ks) k of
     None \<Rightarrow> None
   | Some ts \<Rightarrow> Some (case c_kv C (kv_name ks) k of None \<Rightarrow> Tombstone (from_u64 ts) | Some d \<Rightarrow> Doc (document_new k (from_u64 ts) d)))"

definition contents_ok :: "contents \<Rightarrow> bool" where
  "contents_ok C \<longleftrightarrow> (\<forall>ks. dom (c_kv C (kv_name ks)) \<subseteq> dom (c_meta C (meta_name ks))) \<and>
     (\<forall>ks. c_meta C (meta_name ks) \<noteq> Map.empty \<longrightarrow> ks \<in> c_list C KEYSPACE_LIST)"

definition lmdb_inv :: "('v \<Rightarrow> contents) \<Rightarrow> 'v lmdb_store \<Rightarrow> bool" where
  "lmdb_inv ec s \<longleftrightarrow> contents_ok (ec (lm_env s)) \<and>
     (\<forall>ks p. map_of (lm_databases s) ks = Some p \<longrightarrow> p = (kv_name ks, meta_name ks) \<and> ks \<in> c_list (ec (lm_env s)) KEYSPACE_LIST)"

definition lmdb_look :: "('v \<Rightarrow> contents) \<Rightarrow> 'v lmdb_store \<Rightarrow> string \<Rightarrow> key \<rightharpoonup> stored" where
  "lmdb_look ec s = look_in (ec (lm_env s))"

definition lmdb_known :: "'v lmdb_store \<Rightarrow> string \<Rightarrow> bool" where
  "lmdb_known s ks = True"

text \<open>Databases of different types have different names, so the tables do not overlap.\<close>

lemma names_differ: "kv_name a \<noteq> meta_name b" "kv_name a \<noteq> KEYSPACE_LIST" "meta_name a \<noteq> KEYSPACE_LIST"
  by (rule notI, drule arg_cong [of _ _ last], simp add: kv_name_def meta_name_def KEYSPACE_LIST_def)+

lemma names [simp]: "kv_name a = kv_name b \<longleftrightarrow> a = b" "meta_name a = meta_name b \<longleftrightarrow> a = b"
  by (simp_all add: kv_name_def meta_name_def)

lemma document_rebuilt: "document_new (doc_id d) (from_u64 (as_u64 (last_updated d))) (doc_data d) = d"
  by (simp add: document_new_def doc_id_def last_updated_def from_u64_def metadata_new_def)

lemma acts_as_then: "acts_as tc f g \<Longrightarrow> acts_as tc f' g' \<Longrightarrow> acts_as tc (\<lambda>t. and_then (f t) f') (g' \<circ> g)"
  unfolding acts_as_def by (auto simp: and_then_def split: sum.splits)

lemma acts_as_each: "(\<And>a. acts_as tc (f a) (g a)) \<Longrightarrow> acts_as tc (each_in f as) (fold g as)"
proof (induction as)
  case (Cons a as)
  then show ?case using acts_as_then [of tc "f a" "g a" "each_in f as" "fold g as"] by (simp add: comp_def)
qed (simp add: acts_as_def)

definition put_in :: "string \<Rightarrow> document \<Rightarrow> contents \<Rightarrow> contents" where
  "put_in ks d = meta_set (meta_name ks) (doc_id d) (Some (as_u64 (last_updated d))) \<circ> kv_set (kv_name ks) (doc_id d) (Some (doc_data d))"

definition mark_in :: "string \<Rightarrow> document_metadata \<Rightarrow> contents \<Rightarrow> contents" where
  "mark_in ks d = meta_set (meta_name ks) (md_id d) (Some (as_u64 (md_last_updated d))) \<circ> kv_set (kv_name ks) (md_id d) None"

lemmas contents_defs = put_in_def mark_in_def kv_set_def meta_set_def list_add_def look_in_def

lemma look_put: "look_in (put_in ks d C) = (look_in C)(ks := put_docs [d] (look_in C ks))"
  by (intro ext) (auto simp: contents_defs put_docs_def document_rebuilt split: option.splits)

lemma look_mark: "look_in (mark_in ks d C) = (look_in C)(ks := put_tombstones [d] (look_in C ks))"
  by (intro ext) (auto simp: contents_defs put_tombstones_def from_u64_def split: option.splits)

lemma look_delete: "look_in (meta_set (meta_name ks) k None C) = (look_in C)(ks := (look_in C ks)(k := None))"
  by (intro ext) (auto simp: contents_defs split: option.splits)

lemma look_list [simp]: "look_in (list_add n x C) = look_in C"
  by (intro ext) (simp add: contents_defs split: option.split)

lemma look_puts: "look_in (fold (put_in ks) ds C) = (look_in C)(ks := put_docs ds (look_in C ks))"
  by (induction ds arbitrary: C) (auto simp: look_put puts_Cons)

lemma look_marks: "look_in (fold (mark_in ks) ms C) = (look_in C)(ks := put_tombstones ms (look_in C ks))"
  by (induction ms arbitrary: C) (auto simp: look_mark puts_Cons)

lemma look_deletes: "look_in (fold (\<lambda>k. meta_set (meta_name ks) k None) keys C) = (look_in C)(ks := look_in C ks |` (- set keys))"
  by (induction keys arbitrary: C) (auto simp: look_delete fun_eq_iff restrict_map_def)

text \<open>The contents of a listed keyspace may change; the list only grows.\<close>

lemma contents_ok_change:
  assumes "contents_ok C" "ks \<in> c_list C KEYSPACE_LIST"
  shows "contents_ok (put_in ks d C)" "contents_ok (mark_in ks m C)"
    "c_list (put_in ks d C) = c_list C" "c_list (mark_in ks m C) = c_list C" "c_list (meta_set n k v C) = c_list C"
  using assms by (auto simp: contents_ok_def contents_defs split: if_splits)

lemma contents_ok_puts:
  assumes "contents_ok C" "ks \<in> c_list C KEYSPACE_LIST"
  shows "contents_ok (fold (put_in ks) ds C) \<and> c_list (fold (put_in ks) ds C) = c_list C"
  using assms by (induction ds arbitrary: C) (auto simp: contents_ok_change)

lemma contents_ok_marks:
  assumes "contents_ok C" "ks \<in> c_list C KEYSPACE_LIST"
  shows "contents_ok (fold (mark_in ks) ms C) \<and> c_list (fold (mark_in ks) ms C) = c_list C"
  using assms by (induction ms arbitrary: C) (auto simp: contents_ok_change)

lemma contents_ok_deletes:
  assumes "contents_ok C" "\<And>k. k \<in> set keys \<Longrightarrow> c_kv C (kv_name ks) k = None"
  shows "contents_ok (fold (\<lambda>k. meta_set (meta_name ks) k None) keys C) \<and> c_list (fold (\<lambda>k. meta_set (meta_name ks) k None) keys C) = c_list C"
  using assms
proof (induction keys arbitrary: C)
  case (Cons k keys)
  have "dom (c_kv C (kv_name ks)) \<subseteq> dom ((c_meta C (meta_name ks))(k := None))"
    using Cons.prems unfolding contents_ok_def by fastforce
  moreover have "c_meta C (meta_name ks) \<noteq> Map.empty" if "(c_meta C (meta_name ks))(k := None) \<noteq> Map.empty" using that by auto
  ultimately have "contents_ok (meta_set (meta_name ks) k None C)" using Cons.prems(1) by (simp add: contents_ok_def meta_set_def)
  from Cons.IH [OF this] show ?case using Cons.prems(2) by (simp add: meta_set_def)
qed simp

section \<open>The tasks\<close>

lemma heed_lawsD:
  assumes "heed_laws H ec tc"
  shows "hd_write_txn H env = Inr t \<Longrightarrow> tc t = ec env" "hd_read_txn H env = Inr t \<Longrightarrow> tc t = ec env"
    "ec (snd (hd_commit H t env)) = (if is_ok (fst (hd_commit H t env)) then tc t else ec env)"
    "kv_get H n k t = Inr r \<Longrightarrow> r = c_kv (tc t) n k" "meta_get H n k t = Inr ts \<Longrightarrow> ts = c_meta (tc t) n k"
    "meta_iter H n t = Inr l \<Longrightarrow> collect_results l = Inr es \<Longrightarrow> distinct (map fst es) \<and> map_of es = c_meta (tc t) n"
    "list_iter H n t = Inr ls \<Longrightarrow> collect_results ls = Inr ns \<Longrightarrow> set ns = c_list (tc t) n"
  using assms unfolding heed_laws_def starts_as_def by simp_all

lemma write_txn_contents:
  assumes "heed_laws H ec tc" "acts_as tc body g" "in_write_txn H body env = (r, env')"
  shows "ec env' = (if is_ok r then g (ec env) else ec env)"
proof (cases "and_then (hd_write_txn H env) body")
  case (Inl e)
  then show ?thesis using assms(3) by (auto simp: in_write_txn_def)
next
  case (Inr t')
  then obtain t where t: "hd_write_txn H env = Inr t" "body t = Inr t'" by (cases "hd_write_txn H env") auto
  have "tc t' = g (ec env)" using heed_lawsD(1) [OF assms(1) t(1)] assms(2) t(2) unfolding acts_as_def by simp
  with heed_lawsD(3) [OF assms(1), of t' env] show ?thesis using assms(3) Inr by (simp add: in_write_txn_def)
qed

lemma doc_acts:
  assumes "heed_laws H ec tc"
  shows "acts_as tc (put_doc H (kv_name ks) (meta_name ks) d) (put_in ks d)" "acts_as tc (mark_doc H (kv_name ks) (meta_name ks) m) (mark_in ks m)"
    "acts_as tc (meta_delete H n k) (meta_set n k None)"
    "acts_as tc (\<lambda>txn. and_then (list_put H n ks txn) (\<lambda>txn. and_then (hd_create H a txn) (hd_create H b))) (list_add n ks)"
proof -
  have laws: "acts_as tc (kv_put H n k d) (kv_set n k (Some d))" "acts_as tc (kv_delete H n k) (kv_set n k None)"
    "acts_as tc (meta_put H n k t) (meta_set n k (Some t))" "acts_as tc (meta_delete H n k) (meta_set n k None)"
    "acts_as tc (list_put H n x) (list_add n x)" "acts_as tc (hd_create H n) id" for n k d t x
    using assms unfolding heed_laws_def by simp_all
  show "acts_as tc (put_doc H (kv_name ks) (meta_name ks) d) (put_in ks d)" unfolding put_doc_def put_in_def by (intro acts_as_then laws)
  show "acts_as tc (mark_doc H (kv_name ks) (meta_name ks) m) (mark_in ks m)" unfolding mark_doc_def mark_in_def by (intro acts_as_then laws)
  show "acts_as tc (meta_delete H n k) (meta_set n k None)" by (rule laws)
  show "acts_as tc (\<lambda>txn. and_then (list_put H n ks txn) (\<lambda>txn. and_then (hd_create H a txn) (hd_create H b))) (list_add n ks)"
    using acts_as_then [OF laws(5) acts_as_then [OF laws(6,6)]] by simp
qed

text \<open>A task runs on the databases of its keyspace once they are there; creating them changes nothing that is stored.\<close>

definition prepared :: "('v \<Rightarrow> contents) \<Rightarrow> string \<Rightarrow> 'v lmdb_store \<Rightarrow> 'v lmdb_store \<Rightarrow> bool" where
  "prepared ec ks s s1 \<longleftrightarrow> lmdb_inv ec s1 \<and> lmdb_look ec s1 = lmdb_look ec s \<and> ks \<in> c_list (ec (lm_env s1)) KEYSPACE_LIST"

lemma submit_task_cases:
  assumes H: "heed_laws H ec tc" and inv: "lmdb_inv ec s"
  shows "(\<exists>e s'. submit_task H ks inner s = Some (Inl e, s') \<and> lmdb_inv ec s' \<and> lmdb_look ec s' = lmdb_look ec s) \<or>
    (\<exists>s1. prepared ec ks s s1 \<and>
      submit_task H ks inner s = do { (r, env) \<leftarrow> inner (kv_name ks) (meta_name ks) (lm_env s1); Some (r, s1\<lparr>lm_env := env\<rparr>) })"
proof (cases "map_of (lm_databases s) ks")
  case (Some p)
  then have "p = (kv_name ks, meta_name ks)" "ks \<in> c_list (ec (lm_env s)) KEYSPACE_LIST" using inv unfolding lmdb_inv_def by blast+
  then show ?thesis using Some inv by (intro disjI2 exI [of _ s]) (simp add: prepared_def submit_task_def)
next
  case None
  obtain r env where r: "in_write_txn H (\<lambda>txn. and_then (list_put H KEYSPACE_LIST ks txn)
      (\<lambda>txn. and_then (hd_create H (kv_name ks) txn) (hd_create H (meta_name ks)))) (lm_env s) = (r, env)" by fastforce
  have c: "ec env = (if is_ok r then list_add KEYSPACE_LIST ks (ec (lm_env s)) else ec (lm_env s))"
    by (rule write_txn_contents [OF H doc_acts(4) [OF H] r])
  show ?thesis
  proof (cases r)
    case (Inl e)
    then show ?thesis using None r c inv
      by (intro disjI1 exI [of _ e] exI [of _ "s\<lparr>lm_env := env\<rparr>"]) (simp add: submit_task_def try_create_dbs_def lmdb_inv_def lmdb_look_def)
  next
    case (Inr u)
    let ?s1 = "\<lparr>lm_env = env, lm_databases = bt_insert ks (kv_name ks, meta_name ks) (lm_databases s)\<rparr>"
    have C: "ec env = list_add KEYSPACE_LIST ks (ec (lm_env s))" using c Inr by simp
    have "lmdb_inv ec ?s1" using inv by (auto simp: lmdb_inv_def C contents_ok_def list_add_def)
    moreover have "lmdb_look ec ?s1 = lmdb_look ec s" by (simp add: lmdb_look_def C)
    moreover have "ks \<in> c_list (ec (lm_env ?s1)) KEYSPACE_LIST" by (simp add: C list_add_def)
    ultimately show ?thesis using None r Inr
      by (intro disjI2 exI [of _ ?s1]) (simp add: prepared_def submit_task_def try_create_dbs_def)
  qed
qed

lemma read_task:
  assumes H: "heed_laws H ec tc" and inv: "lmdb_inv ec s"
    and inner: "\<And>s1. prepared ec ks s s1 \<Longrightarrow> \<exists>r. inner (kv_name ks) (meta_name ks) (lm_env s1) = Some (r, lm_env s1) \<and> (\<forall>a. r = Inr a \<longrightarrow> P a)"
  shows "\<exists>r s'. submit_task H ks inner s = Some (r, s') \<and> lmdb_inv ec s' \<and> lmdb_look ec s' = lmdb_look ec s \<and> (\<forall>a. r = Inr a \<longrightarrow> P a)"
  using submit_task_cases [OF H inv, of ks inner]
proof (elim disjE exE conjE)
  fix s1
  assume s1: "prepared ec ks s s1" and run: "submit_task H ks inner s = do { (r, env) \<leftarrow> inner (kv_name ks) (meta_name ks) (lm_env s1); Some (r, s1\<lparr>lm_env := env\<rparr>) }"
  obtain r where "inner (kv_name ks) (meta_name ks) (lm_env s1) = Some (r, lm_env s1)" "\<forall>a. r = Inr a \<longrightarrow> P a" using inner [OF s1] by blast
  then show ?thesis using run s1 by (intro exI [of _ r] exI [of _ s1]) (simp add: prepared_def)
qed auto

lemma write_task:
  assumes H: "heed_laws H ec tc" and inv: "lmdb_inv ec s" and body: "acts_as tc (body (kv_name ks) (meta_name ks)) g"
    and g: "\<And>C. contents_ok C \<Longrightarrow> ks \<in> c_list C KEYSPACE_LIST \<Longrightarrow> look_in C = lmdb_look ec s \<Longrightarrow> contents_ok (g C) \<and> c_list (g C) = c_list C \<and> look_in (g C) = m"
  shows "\<exists>r s'. submit_task H ks (\<lambda>kv meta env. Some (in_write_txn H (body kv meta) env)) s = Some (r, s') \<and> lmdb_inv ec s' \<and>
    lmdb_look ec s' = (if is_ok r then m else lmdb_look ec s)"
  using submit_task_cases [OF H inv, of ks "\<lambda>kv meta env. Some (in_write_txn H (body kv meta) env)"]
proof (elim disjE exE conjE)
  fix s1
  assume s1: "prepared ec ks s s1" and run: "submit_task H ks (\<lambda>kv meta env. Some (in_write_txn H (body kv meta) env)) s =
    do { (r, env) \<leftarrow> Some (in_write_txn H (body (kv_name ks) (meta_name ks)) (lm_env s1)); Some (r, s1\<lparr>lm_env := env\<rparr>) }"
  obtain r env where r: "in_write_txn H (body (kv_name ks) (meta_name ks)) (lm_env s1) = (r, env)" by fastforce
  have c: "ec env = (if is_ok r then g (ec (lm_env s1)) else ec (lm_env s1))" by (rule write_txn_contents [OF H body r])
  have "contents_ok (g (ec (lm_env s1))) \<and> c_list (g (ec (lm_env s1))) = c_list (ec (lm_env s1)) \<and> look_in (g (ec (lm_env s1))) = m"
    using s1 by (intro g) (simp_all add: prepared_def lmdb_inv_def lmdb_look_def)
  then show ?thesis using run r c s1
    by (intro exI [of _ r] exI [of _ "s1\<lparr>lm_env := env\<rparr>"]) (auto simp: prepared_def lmdb_inv_def lmdb_look_def)
qed auto

section \<open>The reads\<close>

lemma collect_mapM:
  "collect_results (map (\<lambda>r. and_then r f) rs) = Inr ys \<Longrightarrow> \<exists>xs. collect_results rs = Inr xs \<and> list_all2 (\<lambda>x y. f x = Inr y) xs ys"
proof (induction rs arbitrary: ys)
  case (Cons r rs)
  from Cons.prems obtain x y zs where x: "r = Inr x" "f x = Inr y" "collect_results (map (\<lambda>r. and_then r f) rs) = Inr zs" "ys = y # zs"
    by (auto simp: and_then_def split: sum.splits)
  from Cons.IH [OF x(3)] show ?case using x by auto
qed simp

lemma map_of_list_all2:
  "list_all2 (\<lambda>(k, v) y. y = (k, h k v)) xs ys \<Longrightarrow> map fst ys = map fst xs \<and> map_of ys = (\<lambda>k. map_option (h k) (map_of xs k))"
  by (induction xs ys rule: list_all2_induct) (auto simp: fun_eq_iff)

lemma read_metadata_spec:
  assumes H: "heed_laws H ec tc" and r: "read_metadata H (kv_name ks) (meta_name ks) env = Inr l"
  shows "distinct (map fst l) \<and> map_of l = map_option stored_meta \<circ> look_in (ec env) ks"
proof -
  let ?f = "\<lambda>t (id, ts). and_then (kv_get H (kv_name ks) id t) (\<lambda>doc. Inr (id, from_u64 ts, doc = None))"
  obtain t ps where t: "hd_read_txn H env = Inr t" "meta_iter H (meta_name ks) t = Inr ps" "collect_results (map (\<lambda>p. and_then p (?f t)) ps) = Inr l"
    using r by (auto simp: read_metadata_def and_then_def split: sum.splits)
  obtain es where es: "collect_results ps = Inr es" and l: "list_all2 (\<lambda>x y. ?f t x = Inr y) es l" using collect_mapM [OF t(3)] by blast
  have c: "tc t = ec env" by (rule heed_lawsD(2) [OF H t(1)])
  have d: "distinct (map fst es)" "map_of es = c_meta (ec env) (meta_name ks)" using heed_lawsD(6) [OF H t(2) es] c by simp_all
  have get: "kv_get H (kv_name ks) k t = Inr v \<Longrightarrow> c_kv (ec env) (kv_name ks) k = v" for k v using heed_lawsD(4) [OF H] c by metis
  have "list_all2 (\<lambda>(k, v) y. y = (k, from_u64 v, c_kv (ec env) (kv_name ks) k = None)) es l"
    using l by (rule list_all2_mono) (auto simp: and_then_def dest: get split: sum.splits)
  from map_of_list_all2 [OF this] have "map fst l = map fst es"
    "map_of l = (\<lambda>k. map_option (\<lambda>v. (from_u64 v, c_kv (ec env) (kv_name ks) k = None)) (c_meta (ec env) (meta_name ks) k))" using d by simp_all
  then show ?thesis using d by (auto simp: fun_eq_iff look_in_def split: option.splits)
qed

lemma read_doc_spec:
  assumes H: "heed_laws H ec tc" and ok: "contents_ok (tc t)"
  shows "\<exists>r. read_doc H (kv_name ks) (meta_name ks) t k = Some r \<and> (\<forall>d. r = Inr d \<longrightarrow> d = stored_doc (look_in (tc t) ks k))"
proof (cases "kv_get H (kv_name ks) k t")
  case (Inr v)
  from heed_lawsD(4) [OF H Inr] have v: "v = c_kv (tc t) (kv_name ks) k" .
  show ?thesis
  proof (cases v)
    case (Some d)
    have "dom (c_kv (tc t) (kv_name ks)) \<subseteq> dom (c_meta (tc t) (meta_name ks))" using ok by (simp add: contents_ok_def)
    then obtain ts where "c_meta (tc t) (meta_name ks) k = Some ts" using Some v by (metis domD domI subsetD)
    then show ?thesis using Some Inr v
      by (cases "meta_get H (meta_name ks) k t") (auto simp: read_doc_def look_in_def dest: heed_lawsD(5) [OF H])
  qed (use Inr v in \<open>simp add: read_doc_def look_in_def split: option.split\<close>)
qed (simp add: read_doc_def)

lemma read_many_spec:
  assumes H: "heed_laws H ec tc" and ok: "contents_ok (tc t)"
  shows "\<exists>r. read_many H (kv_name ks) (meta_name ks) t keys = Some r \<and>
    (\<forall>ds. r = Inr ds \<longrightarrow> ds = List.map_filter (\<lambda>k. stored_doc (look_in (tc t) ks k)) keys)"
proof (induction keys)
  case (Cons k keys)
  obtain r where r: "read_doc H (kv_name ks) (meta_name ks) t k = Some r" "\<forall>d. r = Inr d \<longrightarrow> d = stored_doc (look_in (tc t) ks k)"
    using read_doc_spec [OF H ok] by blast
  obtain r' where r': "read_many H (kv_name ks) (meta_name ks) t keys = Some r'"
    "\<forall>ds. r' = Inr ds \<longrightarrow> ds = List.map_filter (\<lambda>k. stored_doc (look_in (tc t) ks k)) keys" using Cons by blast
  show ?case using r r' by (cases r; cases r') (simp_all add: map_filter_simps split: option.split)
qed (simp add: map_filter_simps)

section \<open>The contract holds\<close>

lemma lmdb_reads:
  assumes H: "heed_laws H ec tc" and inv: "lmdb_inv ec s"
  shows "\<exists>r s'. get_metadata H ks s = Some (r, s') \<and> lmdb_inv ec s' \<and> lmdb_look ec s' = lmdb_look ec s \<and>
      (\<forall>l. r = Inr l \<longrightarrow> distinct (map fst l) \<and> map_of l = map_option stored_meta \<circ> lmdb_look ec s ks)"
    and "\<exists>r s'. lmdb_get H ks k s = Some (r, s') \<and> lmdb_inv ec s' \<and> lmdb_look ec s' = lmdb_look ec s \<and>
      (\<forall>d. r = Inr d \<longrightarrow> d = stored_doc (lmdb_look ec s ks k))"
    and "\<exists>r s'. lmdb_get_many H ks keys s = Some (r, s') \<and> lmdb_inv ec s' \<and> lmdb_look ec s' = lmdb_look ec s \<and>
      (\<forall>ds. r = Inr ds \<longrightarrow> ds = List.map_filter (\<lambda>k. stored_doc (lmdb_look ec s ks k)) keys)"
proof -
  have look: "lmdb_look ec s = look_in (ec (lm_env s1))" if "prepared ec ks s s1" for s1
    using that by (simp add: prepared_def lmdb_look_def)
  have ok: "contents_ok (tc t)" "tc t = ec (lm_env s1)" if "prepared ec ks s s1" "hd_read_txn H (lm_env s1) = Inr t" for s1 t
    using that heed_lawsD(2) [OF H that(2)] by (simp_all add: prepared_def lmdb_inv_def)
  show "\<exists>r s'. get_metadata H ks s = Some (r, s') \<and> lmdb_inv ec s' \<and> lmdb_look ec s' = lmdb_look ec s \<and>
      (\<forall>l. r = Inr l \<longrightarrow> distinct (map fst l) \<and> map_of l = map_option stored_meta \<circ> lmdb_look ec s ks)"
    unfolding get_metadata_def by (rule read_task [OF H inv]) (use look read_metadata_spec [OF H] in auto)
  show "\<exists>r s'. lmdb_get H ks k s = Some (r, s') \<and> lmdb_inv ec s' \<and> lmdb_look ec s' = lmdb_look ec s \<and>
      (\<forall>d. r = Inr d \<longrightarrow> d = stored_doc (lmdb_look ec s ks k))"
    unfolding lmdb_get_def
  proof (rule read_task [OF H inv])
    fix s1 assume s1: "prepared ec ks s s1"
    show "\<exists>r. (case hd_read_txn H (lm_env s1) of Inl e \<Rightarrow> Some (Inl e, lm_env s1)
        | Inr txn \<Rightarrow> do { r \<leftarrow> read_doc H (kv_name ks) (meta_name ks) txn k; Some (r, lm_env s1) }) = Some (r, lm_env s1) \<and>
      (\<forall>d. r = Inr d \<longrightarrow> d = stored_doc (lmdb_look ec s ks k))"
    proof (cases "hd_read_txn H (lm_env s1)")
      case (Inr t)
      then show ?thesis using read_doc_spec [OF H ok(1) [OF s1 Inr], of ks k] look [OF s1] ok(2) [OF s1 Inr] by auto
    qed simp
  qed
  show "\<exists>r s'. lmdb_get_many H ks keys s = Some (r, s') \<and> lmdb_inv ec s' \<and> lmdb_look ec s' = lmdb_look ec s \<and>
      (\<forall>ds. r = Inr ds \<longrightarrow> ds = List.map_filter (\<lambda>k. stored_doc (lmdb_look ec s ks k)) keys)"
    unfolding lmdb_get_many_def
  proof (rule read_task [OF H inv])
    fix s1 assume s1: "prepared ec ks s s1"
    show "\<exists>r. (case hd_read_txn H (lm_env s1) of Inl e \<Rightarrow> Some (Inl e, lm_env s1)
        | Inr txn \<Rightarrow> do { r \<leftarrow> read_many H (kv_name ks) (meta_name ks) txn keys; Some (r, lm_env s1) }) = Some (r, lm_env s1) \<and>
      (\<forall>ds. r = Inr ds \<longrightarrow> ds = List.map_filter (\<lambda>k. stored_doc (lmdb_look ec s ks k)) keys)"
    proof (cases "hd_read_txn H (lm_env s1)")
      case (Inr t)
      then show ?thesis using read_many_spec [OF H ok(1) [OF s1 Inr], of ks keys] look [OF s1] ok(2) [OF s1 Inr] by auto
    qed simp
  qed
qed

lemma tombstone_no_doc: "\<forall>k \<in> set keys. \<exists>t. look_in C ks k = Some (Tombstone t) \<Longrightarrow> k \<in> set keys \<Longrightarrow> c_kv C (kv_name ks) k = None"
  by (fastforce simp: look_in_def split: option.splits)

lemma lmdb_writes:
  assumes H: "heed_laws H ec tc" and inv: "lmdb_inv ec s"
  shows "\<exists>r s'. put_kv H ks d s = Some (r, s') \<and> lmdb_inv ec s' \<and>
      lmdb_look ec s' = (if is_ok r then (lmdb_look ec s)(ks := put_docs [d] (lmdb_look ec s ks)) else lmdb_look ec s)"
    and "\<exists>r s'. put_many_kv H ks ds s = Some (r, s') \<and> lmdb_inv ec s' \<and>
      lmdb_look ec s' = (if is_ok r then (lmdb_look ec s)(ks := put_docs ds (lmdb_look ec s ks)) else lmdb_look ec s)"
    and "\<exists>r s'. mark_tombstone H ks k ts s = Some (r, s') \<and> lmdb_inv ec s' \<and>
      lmdb_look ec s' = (if is_ok r then (lmdb_look ec s)(ks := put_tombstones [metadata_new k ts] (lmdb_look ec s ks)) else lmdb_look ec s)"
    and "\<exists>r s'. mark_many_as_tombstone H ks ms s = Some (r, s') \<and> lmdb_inv ec s' \<and>
      lmdb_look ec s' = (if is_ok r then (lmdb_look ec s)(ks := put_tombstones ms (lmdb_look ec s ks)) else lmdb_look ec s)"
    and "\<forall>k \<in> set keys. \<exists>t. lmdb_look ec s ks k = Some (Tombstone t) \<Longrightarrow>
      \<exists>r s'. remove_tombstones H ks keys s = Some (r, s') \<and> lmdb_inv ec s' \<and>
        lmdb_look ec s' = (if is_ok r then (lmdb_look ec s)(ks := lmdb_look ec s ks |` (- set keys)) else lmdb_look ec s)"
  unfolding put_kv_def put_many_kv_def mark_tombstone_def mark_many_as_tombstone_def remove_tombstones_def
      apply (rule write_task [OF H inv, where body = "\<lambda>kv meta. put_doc H kv meta d", OF doc_acts(1) [OF H]], simp add: contents_ok_change look_put)
     apply (rule write_task [OF H inv, where body = "\<lambda>kv meta. each_in (put_doc H kv meta) ds", OF acts_as_each [OF doc_acts(1) [OF H]]], simp add: contents_ok_puts look_puts)
    apply (rule write_task [OF H inv, where body = "\<lambda>kv meta. mark_doc H kv meta (metadata_new k ts)", OF doc_acts(2) [OF H]], simp add: contents_ok_change look_mark)
   apply (rule write_task [OF H inv, where body = "\<lambda>kv meta. each_in (mark_doc H kv meta) ms", OF acts_as_each [OF doc_acts(2) [OF H]]], simp add: contents_ok_marks look_marks)
  apply (rule write_task [OF H inv, where body = "\<lambda>kv meta. each_in (meta_delete H meta) keys", OF acts_as_each [OF doc_acts(3) [OF H]]])
  by (simp add: contents_ok_deletes [OF _ tombstone_no_doc] look_deletes)

lemma lmdb_lists:
  assumes H: "heed_laws H ec tc" and inv: "lmdb_inv ec s"
  shows "\<exists>r. keyspace_list H s = Some (r, s) \<and> (\<forall>l. r = Inr l \<longrightarrow> (\<forall>ks k. lmdb_look ec s ks k \<noteq> None \<longrightarrow> ks \<in> set l))"
proof -
  have "ks \<in> set l" if l: "and_then (hd_read_txn H (lm_env s)) (\<lambda>txn. and_then (list_iter H KEYSPACE_LIST txn) collect_results) = Inr l"
    and k: "lmdb_look ec s ks k \<noteq> None" for l ks k
  proof -
    obtain t ls where t: "hd_read_txn H (lm_env s) = Inr t" "list_iter H KEYSPACE_LIST t = Inr ls" "collect_results ls = Inr l"
      using l by (auto simp: and_then_def split: sum.splits)
    have "c_meta (ec (lm_env s)) (meta_name ks) \<noteq> Map.empty" using k by (auto simp: lmdb_look_def look_in_def split: option.splits)
    then show ?thesis using inv heed_lawsD(7) [OF H t(2,3)] heed_lawsD(2) [OF H t(1)] by (simp add: lmdb_inv_def contents_ok_def)
  qed
  then show ?thesis unfolding keyspace_list_def by blast
qed

lemma lmdb_ops_sel [simp]:
  "st_get_keyspace_list (lmdb_ops H) = keyspace_list H" "st_iter_metadata (lmdb_ops H) = get_metadata H"
  "st_remove_tombstones (lmdb_ops H) = (\<lambda>ks keys. bulk (remove_tombstones H ks keys))" "st_put (lmdb_ops H) = put_kv H"
  "st_put_with_ctx (lmdb_ops H) ks d ctx = put_kv H ks d" "st_multi_put_with_ctx (lmdb_ops H) ks ds ctx = bulk (put_many_kv H ks ds)"
  "st_multi_put (lmdb_ops H) = (\<lambda>ks ds. bulk (put_many_kv H ks ds))" "st_mark_as_tombstone (lmdb_ops H) = mark_tombstone H"
  "st_mark_many_as_tombstone (lmdb_ops H) = (\<lambda>ks ds. bulk (mark_many_as_tombstone H ks ds))"
  "st_get (lmdb_ops H) = lmdb_get H" "st_multi_get (lmdb_ops H) = lmdb_get_many H"
  by (simp_all add: lmdb_ops_def default_put_with_ctx_def default_multi_put_with_ctx_def)

lemma lmdb_bulk_writes:
  assumes H: "heed_laws H ec tc" and inv: "lmdb_inv ec s"
  shows "\<exists>r s'. bulk (put_many_kv H ks ds) s = Some (r, s') \<and> lmdb_inv ec s' \<and>
      lmdb_look ec s' = (lmdb_look ec s)(ks := put_docs (filter (\<lambda>d. applied r (doc_id d)) ds) (lmdb_look ec s ks))"
    and "\<exists>r s'. bulk (mark_many_as_tombstone H ks ms) s = Some (r, s') \<and> lmdb_inv ec s' \<and>
      lmdb_look ec s' = (lmdb_look ec s)(ks := put_tombstones (filter (\<lambda>d. applied r (md_id d)) ms) (lmdb_look ec s ks))"
    and "\<forall>k \<in> set keys. \<exists>t. lmdb_look ec s ks k = Some (Tombstone t) \<Longrightarrow>
      \<exists>r s'. bulk (remove_tombstones H ks keys) s = Some (r, s') \<and> lmdb_inv ec s' \<and>
        lmdb_look ec s' = (lmdb_look ec s)(ks := lmdb_look ec s ks |` (- {k \<in> set keys. applied r k}))"
  subgoal
    by (rule bulk_law [where g = "\<lambda>A. (lmdb_look ec s)(ks := put_docs (filter (\<lambda>d. A (doc_id d)) ds) (lmdb_look ec s ks))"])
      (use lmdb_writes(2) [OF H inv, of ks ds] in \<open>simp cong: if_cong split del: if_split\<close>)
  subgoal
    by (rule bulk_law [where g = "\<lambda>A. (lmdb_look ec s)(ks := put_tombstones (filter (\<lambda>d. A (md_id d)) ms) (lmdb_look ec s ks))"])
      (use lmdb_writes(4) [OF H inv, of ks ms] in \<open>simp cong: if_cong split del: if_split\<close>)
  subgoal
    by (rule bulk_law [where g = "\<lambda>A. (lmdb_look ec s)(ks := lmdb_look ec s ks |` (- {k \<in> set keys. A k}))"])
      (use lmdb_writes(5) [OF H inv, of keys ks] in \<open>simp add: restrict_map_def cong: if_cong split del: if_split\<close>)
  done

lemma lmdb_storage:
  assumes H: "heed_laws H ec tc"
  shows "storage (lmdb_ops H) (lmdb_inv ec) lmdb_known (lmdb_look ec)"
proof
  fix s :: "'a lmdb_store" and ks keys ms k ts
  assume inv: "lmdb_inv ec s"
  show "\<exists>r s'. st_get_keyspace_list (lmdb_ops H) s = Some (r, s') \<and> lmdb_inv ec s' \<and> lmdb_look ec s' = lmdb_look ec s \<and>
      (\<forall>ks'. lmdb_known s ks' \<longrightarrow> lmdb_known s' ks') \<and> (\<forall>l. r = Inr l \<longrightarrow> (\<forall>ks k. lmdb_look ec s ks k \<noteq> None \<longrightarrow> ks \<in> set l))"
    using lmdb_lists [OF H inv] inv by (auto simp: lmdb_known_def)
  show "\<exists>r s'. st_iter_metadata (lmdb_ops H) ks s = Some (r, s') \<and> lmdb_inv ec s' \<and> lmdb_look ec s' = lmdb_look ec s \<and>
      (\<forall>ks'. lmdb_known s ks' \<longrightarrow> lmdb_known s' ks') \<and>
      (\<forall>l. r = Inr l \<longrightarrow> distinct (map fst l) \<and> map_of l = map_option stored_meta \<circ> lmdb_look ec s ks)"
    using lmdb_reads(1) [OF H inv, of ks] by (simp add: lmdb_known_def)
  show "\<exists>r s'. st_get (lmdb_ops H) ks k s = Some (r, s') \<and> lmdb_inv ec s' \<and> lmdb_look ec s' = lmdb_look ec s \<and>
      (\<forall>d. r = Inr d \<longrightarrow> d = stored_doc (lmdb_look ec s ks k)) \<and> (\<forall>ks'. lmdb_known s ks' \<longrightarrow> lmdb_known s' ks')"
    using lmdb_reads(2) [OF H inv, of ks k] by (simp add: lmdb_known_def)
  show "\<exists>r s'. st_multi_get (lmdb_ops H) ks keys s = Some (r, s') \<and> lmdb_inv ec s' \<and> lmdb_look ec s' = lmdb_look ec s \<and>
      (\<forall>ds. r = Inr ds \<longrightarrow> mset ds = mset (List.map_filter (\<lambda>k. stored_doc (lmdb_look ec s ks k)) keys)) \<and>
      (\<forall>ks'. lmdb_known s ks' \<longrightarrow> lmdb_known s' ks')"
    using lmdb_reads(3) [OF H inv, of ks keys] by (auto simp: lmdb_known_def)
  show "\<forall>k \<in> set keys. \<exists>t. lmdb_look ec s ks k = Some (Tombstone t) \<Longrightarrow>
      \<exists>r s'. st_remove_tombstones (lmdb_ops H) ks keys s = Some (r, s') \<and> lmdb_inv ec s' \<and>
        lmdb_look ec s' = (lmdb_look ec s)(ks := lmdb_look ec s ks |` (- {k \<in> set keys. applied r k})) \<and>
        (\<forall>ks'. lmdb_known s ks' \<longrightarrow> lmdb_known s' ks')"
    using lmdb_bulk_writes(3) [OF H inv, of keys ks] by (simp add: lmdb_known_def)
  show "\<exists>r s'. st_mark_as_tombstone (lmdb_ops H) ks k ts s = Some (r, s') \<and> lmdb_inv ec s' \<and>
      lmdb_look ec s' = (if is_ok r then (lmdb_look ec s)(ks := put_tombstones [metadata_new k ts] (lmdb_look ec s ks)) else lmdb_look ec s) \<and>
      (\<forall>ks'. lmdb_known s ks' \<longrightarrow> lmdb_known s' ks')"
    using lmdb_writes(3) [OF H inv, of ks k ts] by (simp add: lmdb_known_def)
  show "\<exists>r s'. st_mark_many_as_tombstone (lmdb_ops H) ks ms s = Some (r, s') \<and> lmdb_inv ec s' \<and>
        lmdb_look ec s' = (lmdb_look ec s)(ks := put_tombstones (filter (\<lambda>d. applied r (md_id d)) ms) (lmdb_look ec s ks)) \<and>
        (\<forall>ks'. lmdb_known s ks' \<longrightarrow> lmdb_known s' ks')"
    using lmdb_bulk_writes(2) [OF H inv, of ks ms] by (simp add: lmdb_known_def)
qed (simp_all add: put_law_def multi_put_law_def lmdb_known_def lmdb_writes(1) [OF H] lmdb_bulk_writes(1) [OF H])

text \<open>Opening an environment again finds what was committed to it.\<close>

lemma setup_contents:
  assumes H: "heed_laws H ec tc" and ok: "contents_ok (ec env)" and s: "setup_disk_handle H (Inr env) = Inr s"
  shows "lmdb_inv ec s \<and> lmdb_look ec s = look_in (ec env)"
proof -
  obtain r env' where r: "in_write_txn H (hd_create H KEYSPACE_LIST) env = (r, env')" by fastforce
  have "acts_as tc (hd_create H KEYSPACE_LIST) id" using H unfolding heed_laws_def by simp
  from write_txn_contents [OF H this r] have "ec env' = ec env" by simp
  moreover have "lm_env s = env'" "lm_databases s = []" using s r by (auto simp: setup_disk_handle_def split: sum.splits)
  ultimately show ?thesis using ok by (simp add: lmdb_inv_def lmdb_look_def)
qed

section \<open>An environment\<close>

text \<open>The laws hold of tables that are kept as lists, where nothing fails.\<close>

record tables =
  t_kv :: "((string \<times> key) \<times> u8 list) list"
  t_meta :: "((string \<times> key) \<times> u64) list"
  t_list :: "(string \<times> string) list"

definition tables_contents :: "tables \<Rightarrow> contents" where
  "tables_contents T = \<lparr>c_kv = (\<lambda>n k. map_of (t_kv T) (n, k)), c_meta = (\<lambda>n k. map_of (t_meta T) (n, k)), c_list = (\<lambda>n. {x. (n, x) \<in> set (t_list T)})\<rparr>"

definition keys_in :: "string \<Rightarrow> ((string \<times> key) \<times> 'a) list \<Rightarrow> key list" where
  "keys_in n t = remdups (map snd (filter (\<lambda>p. fst p = n) (map fst t)))"

definition tables_heed :: "(tables, tables, unit) heed" where
  "tables_heed = \<lparr>hd_write_txn = Inr, hd_read_txn = Inr, hd_commit = (\<lambda>T T'. (Inr (), T)), hd_create = (\<lambda>n. Inr),
     kv_put = (\<lambda>n k d T. Inr (T\<lparr>t_kv := ((n, k), d) # t_kv T\<rparr>)), kv_delete = (\<lambda>n k T. Inr (T\<lparr>t_kv := AList.delete (n, k) (t_kv T)\<rparr>)),
     kv_get = (\<lambda>n k T. Inr (map_of (t_kv T) (n, k))),
     meta_put = (\<lambda>n k d T. Inr (T\<lparr>t_meta := ((n, k), d) # t_meta T\<rparr>)), meta_delete = (\<lambda>n k T. Inr (T\<lparr>t_meta := AList.delete (n, k) (t_meta T)\<rparr>)),
     meta_get = (\<lambda>n k T. Inr (map_of (t_meta T) (n, k))),
     meta_iter = (\<lambda>n T. Inr (map (\<lambda>k. Inr (k, the (map_of (t_meta T) (n, k)))) (keys_in n (t_meta T)))),
     list_put = (\<lambda>n x T. Inr (T\<lparr>t_list := (n, x) # t_list T\<rparr>)),
     list_iter = (\<lambda>n T. Inr (map (Inr \<circ> snd) (filter (\<lambda>p. fst p = n) (t_list T))))\<rparr>"

lemma collect_Inr [simp]: "collect_results (map (\<lambda>x. Inr (f x)) xs) = Inr (map f xs)"
  by (induction xs) simp_all

lemma keys_in_map: "map_of (map (\<lambda>k. (k, the (map_of t (n, k)))) (keys_in n t)) k = map_of t (n, k)"
proof (cases "map_of t (n, k)")
  case None
  then have "k \<notin> set (keys_in n t)" by (force simp: keys_in_def map_of_eq_None_iff)
  then show ?thesis using None by (simp add: map_of_map_restrict)
next
  case (Some v)
  then have "k \<in> set (keys_in n t)" by (force simp: keys_in_def dest: map_of_SomeD)
  then show ?thesis using Some by (simp add: map_of_map_restrict)
qed

lemma distinct_keys_in [simp]: "distinct (keys_in n t)"
  by (simp add: keys_in_def)

lemma tables_laws: "heed_laws tables_heed tables_contents tables_contents"
  unfolding heed_laws_def
  by (intro conjI) (auto simp: tables_heed_def starts_as_def acts_as_def tables_contents_def kv_set_def meta_set_def list_add_def fun_eq_iff
      AList.delete_conv' comp_def keys_in_map image_iff)

definition sample_store :: "tables lmdb_store" where
  "sample_store = \<lparr>lm_env = \<lparr>t_kv = [((kv_name ''a'', 1), [7])], t_meta = [((meta_name ''a'', 1), 5)], t_list = [(KEYSPACE_LIST, ''a'')]\<rparr>,
     lm_databases = [(''a'', (kv_name ''a'', meta_name ''a''))]\<rparr>"

lemma sample_store_inv: "lmdb_inv tables_contents sample_store"
proof -
  have "contents_ok (tables_contents (lm_env sample_store))"
    by (auto simp: contents_ok_def sample_store_def tables_contents_def split: if_splits)
  then show ?thesis by (simp add: lmdb_inv_def) (simp add: sample_store_def tables_contents_def)
qed

section \<open>The property\<close>

text \<open>C18. Over a database library that keeps its laws the LMDB store keeps the contract \<open>storage\<close>, the laws the system and its
  conformance suite rely on: every operation returns without a panic, keeps the invariant that a document always has a
  timestamp and its keyspace is listed, and does what the contract says of the documents and
  tombstones of a keyspace, all of it on success and nothing on an error. Marking a document
  that is not stored leaves a tombstone: this is what the conformance suite asserts and the store does, where the documentation of the trait says no-op. A store opened on the
  environment of another has the same documents and tombstones.\<close>

theorem lmdb_keeps_contract:
  assumes "heed_laws H ec tc"
  shows "storage (lmdb_ops H) (lmdb_inv ec) lmdb_known (lmdb_look ec) \<and>
    (\<forall>s s'. lmdb_inv ec s \<longrightarrow> setup_disk_handle H (Inr (lm_env s)) = Inr s' \<longrightarrow> lmdb_inv ec s' \<and> lmdb_look ec s' = lmdb_look ec s)"
  using lmdb_storage [OF assms] setup_contents [OF assms] by (auto simp: lmdb_inv_def lmdb_look_def)

theorem lmdb_keeps_contract_witness:
  "storage (lmdb_ops tables_heed) (lmdb_inv tables_contents) lmdb_known (lmdb_look tables_contents) \<and>
   lmdb_look tables_contents (sample_store\<lparr>lm_databases := []\<rparr>) ''a'' 1 = Some (Doc (document_new 1 (from_u64 5) [7]))"
proof -
  have "setup_disk_handle tables_heed (Inr (lm_env sample_store)) = Inr (sample_store\<lparr>lm_databases := []\<rparr>)"
    by (simp add: setup_disk_handle_def in_write_txn_def tables_heed_def sample_store_def)
  moreover have "lmdb_look tables_contents sample_store ''a'' 1 = Some (Doc (document_new 1 (from_u64 5) [7]))"
    by (simp add: lmdb_look_def look_in_def sample_store_def tables_contents_def)
  ultimately show ?thesis using lmdb_keeps_contract [OF tables_laws] sample_store_inv by metis
qed

end
