(* ===== verification/StorageOn.thy ===== *)
theory StorageOn
  imports MemStore Lmdb
begin

text \<open>
  The contract of a store for documents and tombstones with timestamps of a kind, \<open>valid\<close>: a store may
  not keep every timestamp as it is. It asks in addition that the error of a bulk operation names
  only ids of its call. A store of the contract \<open>storage\<close> keeps it for all timestamps.
\<close>

definition puts_on ::
  "(hlc_timestamp \<Rightarrow> bool) \<Rightarrow> ('s \<Rightarrow> bool) \<Rightarrow> ('s \<Rightarrow> string \<Rightarrow> bool) \<Rightarrow> ('s \<Rightarrow> string \<Rightarrow> key \<rightharpoonup> stored)
    \<Rightarrow> (string \<Rightarrow> document \<Rightarrow> ('s, 'e + unit) action) \<Rightarrow> bool" where
  "puts_on valid invar known look put_fn \<longleftrightarrow> (\<forall>s ks d. invar s \<longrightarrow> valid (last_updated d) \<longrightarrow> (\<exists>r s'. put_fn ks d s = Some (r, s') \<and> invar s' \<and>
      look s' = (if is_ok r then (look s)(ks := put_docs [d] (look s ks)) else look s) \<and>
      (\<forall>ks'. known s ks' \<or> is_ok r \<and> ks' = ks \<longrightarrow> known s' ks')))"

definition multi_puts_on ::
  "(hlc_timestamp \<Rightarrow> bool) \<Rightarrow> ('s \<Rightarrow> bool) \<Rightarrow> ('s \<Rightarrow> string \<Rightarrow> bool) \<Rightarrow> ('s \<Rightarrow> string \<Rightarrow> key \<rightharpoonup> stored)
    \<Rightarrow> (string \<Rightarrow> document list \<Rightarrow> ('s, 'e bulk_result) action) \<Rightarrow> bool" where
  "multi_puts_on valid invar known look put_fn \<longleftrightarrow> (\<forall>s ks ds. invar s \<longrightarrow> (\<forall>d \<in> set ds. valid (last_updated d)) \<longrightarrow>
      (\<exists>r s'. put_fn ks ds s = Some (r, s') \<and> invar s' \<and>
      look s' = (look s)(ks := put_docs (filter (\<lambda>d. applied r (doc_id d)) ds) (look s ks)) \<and>
      (\<forall>ks'. known s ks' \<or> is_ok r \<and> ks' = ks \<longrightarrow> known s' ks')))"

definition names_only :: "key set \<Rightarrow> 'e bulk_result \<Rightarrow> bool" where
  "names_only K r \<longleftrightarrow> (\<forall>e. r = Inl e \<longrightarrow> set (successful_doc_ids e) \<subseteq> K)"

definition names_own :: "('s, 'e) storage_ops \<Rightarrow> bool" where
  "names_own ops \<longleftrightarrow> (\<forall>ks keys s r s'. st_remove_tombstones ops ks keys s = Some (r, s') \<longrightarrow> names_only (set keys) r) \<and>
     (\<forall>ks ds s r s'. st_multi_put ops ks ds s = Some (r, s') \<longrightarrow> names_only (doc_id ` set ds) r) \<and>
     (\<forall>ks ms s r s'. st_mark_many_as_tombstone ops ks ms s = Some (r, s') \<longrightarrow> names_only (md_id ` set ms) r)"

locale storage_on =
  fixes ops :: "('s, 'e) storage_ops"
    and invar :: "'s \<Rightarrow> bool"
    and known :: "'s \<Rightarrow> string \<Rightarrow> bool"
    and look :: "'s \<Rightarrow> string \<Rightarrow> key \<rightharpoonup> stored"
    and valid :: "hlc_timestamp \<Rightarrow> bool"
  assumes keyspaces: "invar s \<Longrightarrow> \<exists>r s'. st_get_keyspace_list ops s = Some (r, s') \<and> invar s' \<and> look s' = look s \<and>
      (\<forall>ks'. known s ks' \<longrightarrow> known s' ks') \<and>
      (\<forall>l. r = Inr l \<longrightarrow> (\<forall>ks k. look s ks k \<noteq> None \<longrightarrow> ks \<in> set l))"
    and iterate: "invar s \<Longrightarrow> \<exists>r s'. st_iter_metadata ops ks s = Some (r, s') \<and> invar s' \<and> look s' = look s \<and>
      (\<forall>ks'. known s ks' \<longrightarrow> known s' ks') \<and>
      (\<forall>l. r = Inr l \<longrightarrow> distinct (map fst l) \<and> map_of l = map_option stored_meta \<circ> look s ks)"
    and remove: "invar s \<Longrightarrow> \<forall>k \<in> set keys. \<exists>t. look s ks k = Some (Tombstone t) \<Longrightarrow>
      \<exists>r s'. st_remove_tombstones ops ks keys s = Some (r, s') \<and> invar s' \<and>
        look s' = (look s)(ks := look s ks |` (- {k \<in> set keys. applied r k})) \<and>
        (\<forall>ks'. known s ks' \<longrightarrow> known s' ks')"
    and put: "puts_on valid invar known look (st_put ops)"
    and put_with_ctx: "puts_on valid invar known look (\<lambda>ks d. st_put_with_ctx ops ks d ctx)"
    and multi_put: "multi_puts_on valid invar known look (st_multi_put ops)"
    and multi_put_with_ctx: "multi_puts_on valid invar known look (\<lambda>ks ds. st_multi_put_with_ctx ops ks ds ctx)"
    and tombstone: "invar s \<Longrightarrow> known s ks \<Longrightarrow> valid ts \<Longrightarrow> \<exists>r s'. st_mark_as_tombstone ops ks k ts s = Some (r, s') \<and> invar s' \<and>
      look s' = (if is_ok r then (look s)(ks := put_tombstones [metadata_new k ts] (look s ks)) else look s) \<and>
      (\<forall>ks'. known s ks' \<longrightarrow> known s' ks')"
    and multi_tombstone: "invar s \<Longrightarrow> known s ks \<Longrightarrow> \<forall>m \<in> set ms. valid (md_last_updated m) \<Longrightarrow>
      \<exists>r s'. st_mark_many_as_tombstone ops ks ms s = Some (r, s') \<and> invar s' \<and>
        look s' = (look s)(ks := put_tombstones (filter (\<lambda>d. applied r (md_id d)) ms) (look s ks)) \<and>
        (\<forall>ks'. known s ks' \<longrightarrow> known s' ks')"
    and fetch: "invar s \<Longrightarrow> \<exists>r s'. st_get ops ks k s = Some (r, s') \<and> invar s' \<and> look s' = look s \<and>
      (\<forall>d. r = Inr d \<longrightarrow> d = stored_doc (look s ks k)) \<and> (\<forall>ks'. known s ks' \<longrightarrow> known s' ks')"
    and fetch_many: "invar s \<Longrightarrow> \<exists>r s'. st_multi_get ops ks keys s = Some (r, s') \<and> invar s' \<and> look s' = look s \<and>
      (\<forall>ds. r = Inr ds \<longrightarrow> mset ds = mset (List.map_filter (\<lambda>k. stored_doc (look s ks k)) keys)) \<and>
      (\<forall>ks'. known s ks' \<longrightarrow> known s' ks')"
    and own: "names_own ops"

lemma puts_on_all [simp]: "puts_on (\<lambda>t. True) invar known look = put_law invar known look"
  "multi_puts_on (\<lambda>t. True) invar known look = multi_put_law invar known look"
  by (simp_all add: fun_eq_iff puts_on_def multi_puts_on_def put_law_def multi_put_law_def)

context storage
begin

lemma storage_on_all:
  assumes "names_own ops"
  shows "storage_on ops invar known look (\<lambda>t. True)"
  using assms put put_with_ctx multi_put multi_put_with_ctx
  by unfold_locales (simp only: puts_on_all | (rule keyspaces iterate remove tombstone multi_tombstone fetch fetch_many; assumption))+

end

lemma storage_on_unrestricted:
  assumes s: "storage_on ops invar known look (\<lambda>t. True)"
  shows "storage ops invar known look"
  using storage_on.put [OF s] storage_on.put_with_ctx [OF s] storage_on.multi_put [OF s] storage_on.multi_put_with_ctx [OF s]
  by unfold_locales (simp only: puts_on_all | (rule storage_on.keyspaces [OF s] storage_on.iterate [OF s] storage_on.remove [OF s]
      storage_on.tombstone [OF s] storage_on.multi_tombstone [OF s] storage_on.fetch [OF s] storage_on.fetch_many [OF s]; simp))+

lemma mem_names_own: "names_own mem_ops"
  by (auto simp: names_own_def names_only_def mem_remove_tombstones_def mem_multi_put_def mem_mark_many_as_tombstone_def)

interpretation mem_on: storage_on mem_ops mem_inv mem_known mem_look "\<lambda>t. True"
  by (rule mem.storage_on_all [OF mem_names_own])

lemma names_only_bulk [simp]: "names_only K (map_sum empty_with_error f r)"
  by (cases r) (simp_all add: names_only_def empty_with_error_def bulk_error_new_def)

lemma lmdb_names_own: "names_own (lmdb_ops H)"
  by (auto simp: names_own_def bulk_def bind_eq_Some_conv)

section \<open>Timestamps outside the restriction refused\<close>

text \<open>
  A store of the restricted contract that is never given another timestamp is as good as one of the full
  contract: \<open>guarded\<close> is the store that answers with an error to what the restriction leaves open.
\<close>

definition guarded :: "(hlc_timestamp \<Rightarrow> bool) \<Rightarrow> 'e \<Rightarrow> ('s, 'e) storage_ops \<Rightarrow> ('s, 'e) storage_ops" where
  "guarded valid err ops = ops\<lparr>
     st_put := (\<lambda>ks d s. if valid (last_updated d) then st_put ops ks d s else Some (Inl err, s)),
     st_put_with_ctx := (\<lambda>ks d ctx s. if valid (last_updated d) then st_put_with_ctx ops ks d ctx s else Some (Inl err, s)),
     st_multi_put := (\<lambda>ks ds s. if \<forall>d \<in> set ds. valid (last_updated d) then st_multi_put ops ks ds s else Some (Inl (empty_with_error err), s)),
     st_multi_put_with_ctx := (\<lambda>ks ds ctx s. if \<forall>d \<in> set ds. valid (last_updated d) then st_multi_put_with_ctx ops ks ds ctx s else Some (Inl (empty_with_error err), s)),
     st_mark_as_tombstone := (\<lambda>ks k ts s. if valid ts then st_mark_as_tombstone ops ks k ts s else Some (Inl err, s)),
     st_mark_many_as_tombstone := (\<lambda>ks ms s. if \<forall>m \<in> set ms. valid (md_last_updated m) then st_mark_many_as_tombstone ops ks ms s else Some (Inl (empty_with_error err), s))\<rparr>"

lemma refused_names_none [simp]: "successful_doc_ids (empty_with_error err) = []"
  by (simp add: empty_with_error_def bulk_error_new_def)

context storage_on
begin

lemma guarded_puts:
  "put_law invar known look (st_put (guarded valid err ops))" "put_law invar known look (\<lambda>ks d. st_put_with_ctx (guarded valid err ops) ks d ctx)"
  "multi_put_law invar known look (st_multi_put (guarded valid err ops))" "multi_put_law invar known look (\<lambda>ks ds. st_multi_put_with_ctx (guarded valid err ops) ks ds ctx)"
  using put put_with_ctx [of ctx] multi_put multi_put_with_ctx [of ctx]
  unfolding put_law_def multi_put_law_def puts_on_def multi_puts_on_def guarded_def by simp_all

lemma guarded_storage: "storage (guarded valid err ops) invar known look"
proof
  fix s ks k ts ms
  assume s: "invar s" "known s ks"
  show "\<exists>r s'. st_mark_as_tombstone (guarded valid err ops) ks k ts s = Some (r, s') \<and> invar s' \<and>
      look s' = (if is_ok r then (look s)(ks := put_tombstones [metadata_new k ts] (look s ks)) else look s) \<and> (\<forall>ks'. known s ks' \<longrightarrow> known s' ks')"
    using tombstone [OF s, of ts k] s by (simp add: guarded_def)
  show "\<exists>r s'. st_mark_many_as_tombstone (guarded valid err ops) ks ms s = Some (r, s') \<and> invar s' \<and>
      look s' = (look s)(ks := put_tombstones (filter (\<lambda>d. applied r (md_id d)) ms) (look s ks)) \<and> (\<forall>ks'. known s ks' \<longrightarrow> known s' ks')"
    using multi_tombstone [OF s, of ms] s by (simp add: guarded_def)
qed (use guarded_puts keyspaces iterate remove fetch fetch_many in \<open>simp_all add: guarded_def\<close>)

end

end
