(* ===== verification/Sqlite.thy ===== *)
theory Sqlite
  imports StorageOn TimestampText
begin

text \<open>
  The SQLite store, \<^verbatim>\<open>datacake-sqlite/src/db.rs\<close>, \<^verbatim>\<open>lib.rs\<close> and \<^verbatim>\<open>from_row_impl.rs\<close>. A background thread runs one task
  after the other on a connection, and every document and tombstone is a row of one table, its
  timestamp kept as text. The library \<open>rusqlite\<close> is the parameter \<open>S\<close>: a connection \<open>'c\<close>, transactions \<open>'t\<close> on it
  and errors \<open>'x\<close>. What the store relies on is \<open>sqlite_laws\<close>: what each of its statements does to the rows
  of the table, and that a transaction changes the table when it is committed and otherwise not at all.
\<close>

section \<open>Statements\<close>

text \<open>The values a row has and the values bound to a statement.\<close>

datatype sql_value = SNull | SInteger int | SText string | SBlob "u8 list"

datatype sql_param = PText string | PI64 int | PU64 u64 | PBlob "u8 list"

type_synonym sql_row = "sql_value list"

record ('c, 't, 'x) rusqlite =
  sq_prepare :: "string \<Rightarrow> 'c \<Rightarrow> 'x + unit"
  sq_execute :: "string \<Rightarrow> sql_param list \<Rightarrow> 'c \<Rightarrow> ('x + nat) \<times> 'c"
  sq_query_row :: "string \<Rightarrow> sql_param list \<Rightarrow> 'c \<Rightarrow> 'x + sql_row"
  sq_query :: "string \<Rightarrow> sql_param list \<Rightarrow> 'c \<Rightarrow> 'x + ('x + sql_row) list"
  sq_transaction :: "'c \<Rightarrow> 'x + 't"
  tx_prepare :: "string \<Rightarrow> 't \<Rightarrow> 'x + unit"
  tx_execute :: "string \<Rightarrow> sql_param list \<Rightarrow> 't \<Rightarrow> 'x + nat \<times> 't"
  tx_commit :: "'t \<Rightarrow> 'c \<Rightarrow> ('x + unit) \<times> 'c"
  get_i64 :: "sql_row \<Rightarrow> nat \<Rightarrow> 'x + int"
  get_string :: "sql_row \<Rightarrow> nat \<Rightarrow> 'x + string"
  get_blob :: "sql_row \<Rightarrow> nat \<Rightarrow> 'x + u8 list"
  get_bool :: "sql_row \<Rightarrow> nat \<Rightarrow> 'x + bool"
  no_rows :: 'x
  conversion_failure :: "invalid_format \<Rightarrow> 'x"

definition newline :: string where
  "newline = [CHR 0x0A]"

definition INSERT :: string where
  "INSERT = newline @ ''        INSERT INTO state_entries (keyspace, doc_id, ts, data) VALUES (?, ?, ?, ?)'' @ newline @
     ''            ON CONFLICT (keyspace, doc_id) DO UPDATE SET ts = excluded.ts, data = excluded.data;'' @ newline @ ''        ''"

definition SELECT_DOC :: string where
  "SELECT_DOC = newline @
     ''        SELECT doc_id, ts, data FROM state_entries WHERE keyspace = ? AND doc_id = ? AND data IS NOT NULL;'' @ newline @ ''        ''"

definition SELECT_KEYSPACE_LIST :: string where
  "SELECT_KEYSPACE_LIST = newline @ ''        SELECT DISTINCT keyspace FROM state_entries GROUP BY keyspace;'' @ newline @ ''        ''"

definition SELECT_METADATA_LIST :: string where
  "SELECT_METADATA_LIST = newline @
     ''        SELECT doc_id, ts, (data IS NULL) as tombstone FROM state_entries WHERE keyspace = ?;'' @ newline @ ''        ''"

definition SET_TOMBSTONE :: string where
  "SET_TOMBSTONE = newline @ ''        INSERT INTO state_entries (keyspace, doc_id, ts, data) VALUES (?, ?, ?, NULL)'' @ newline @
     ''            ON CONFLICT (keyspace, doc_id) DO UPDATE SET ts = excluded.ts, data = NULL;'' @ newline @ ''        ''"

definition DELETE_TOMBSTONE :: string where
  "DELETE_TOMBSTONE = newline @ ''        DELETE FROM state_entries WHERE keyspace = ? AND doc_id = ?;'' @ newline @ ''        ''"

definition CREATE_TABLE :: string where
  "CREATE_TABLE = newline @ ''        CREATE TABLE IF NOT EXISTS state_entries ('' @ newline @ ''            keyspace TEXT,'' @ newline @
     ''            doc_id BIGINT,'' @ newline @ ''            ts TEXT,'' @ newline @ ''            data BLOB,'' @ newline @
     ''            PRIMARY KEY (keyspace, doc_id)'' @ newline @ ''        );'' @ newline @ ''    ''"

section \<open>The handle of the database\<close>

definition sqlite_execute :: "('c, 't, 'x) rusqlite \<Rightarrow> string \<Rightarrow> sql_param list \<Rightarrow> ('c, 'x + nat) action" where
  "sqlite_execute S sql params conn =
     Some (case sq_prepare S sql conn of Inl e \<Rightarrow> (Inl e, conn) | Inr u \<Rightarrow> sq_execute S sql params conn)"

primrec execute_each :: "('c, 't, 'x) rusqlite \<Rightarrow> string \<Rightarrow> sql_param list list \<Rightarrow> nat \<Rightarrow> 't \<Rightarrow> 'x + nat \<times> 't" where
  "execute_each S sql [] tot txn = Inr (tot, txn)"
| "execute_each S sql (params # param_set) tot txn =
     and_then (tx_execute S sql params txn) (\<lambda>(n, txn). execute_each S sql param_set (tot + n) txn)"

text \<open>A transaction that is dropped is rolled back: the connection is as before it.\<close>

definition execute_many :: "('c, 't, 'x) rusqlite \<Rightarrow> string \<Rightarrow> sql_param list list \<Rightarrow> ('c, 'x + nat) action" where
  "execute_many S sql param_set conn =
     Some (case and_then (sq_transaction S conn) (\<lambda>txn. and_then (tx_prepare S sql txn) (\<lambda>u. execute_each S sql param_set 0 txn)) of
       Inl e \<Rightarrow> (Inl e, conn)
     | Inr (tot, txn) \<Rightarrow> (let (r, conn) = tx_commit S txn conn in (map_sum id (\<lambda>u. tot) r, conn)))"

definition query_row_as ::
  "('c, 't, 'x) rusqlite \<Rightarrow> (sql_row \<Rightarrow> ('x + 'a) exec) \<Rightarrow> string \<Rightarrow> sql_param list \<Rightarrow> 'c \<Rightarrow> ('x + 'a) exec" where
  "query_row_as S from_row sql params conn =
     (case sq_query_row S sql params conn of Inl e \<Rightarrow> Some (Inl e) | Inr row \<Rightarrow> from_row row)"

definition optional :: "('c, 't, 'x) rusqlite \<Rightarrow> 'x + 'a \<Rightarrow> 'x + 'a option" where
  "optional S r = (case r of Inr a \<Rightarrow> Inr (Some a) | Inl e \<Rightarrow> if e = no_rows S then Inr None else Inl e)"

definition fetch_one ::
  "('c, 't, 'x) rusqlite \<Rightarrow> (sql_row \<Rightarrow> ('x + 'a) exec) \<Rightarrow> string \<Rightarrow> sql_param list \<Rightarrow> ('c, 'x + 'a option) action" where
  "fetch_one S from_row sql params conn =
     (case sq_prepare S sql conn of
        Inl e \<Rightarrow> Some (Inl e, conn)
      | Inr u \<Rightarrow> do { r \<leftarrow> query_row_as S from_row sql params conn; Some (optional S r, conn) })"

primrec fetch_each ::
  "('c, 't, 'x) rusqlite \<Rightarrow> (sql_row \<Rightarrow> ('x + 'a) exec) \<Rightarrow> string \<Rightarrow> sql_param list list \<Rightarrow> 'c \<Rightarrow> ('x + 'a list) exec" where
  "fetch_each S from_row sql [] conn = Some (Inr [])"
| "fetch_each S from_row sql (params # param_sets) conn =
     do { r \<leftarrow> query_row_as S from_row sql params conn;
          case optional S r of
            Inl e \<Rightarrow> Some (Inl e)
          | Inr row \<Rightarrow> do { r \<leftarrow> fetch_each S from_row sql param_sets conn;
                           Some (map_sum id (\<lambda>rows. (case row of Some a \<Rightarrow> a # rows | None \<Rightarrow> rows)) r) } }"

definition fetch_many ::
  "('c, 't, 'x) rusqlite \<Rightarrow> (sql_row \<Rightarrow> ('x + 'a) exec) \<Rightarrow> string \<Rightarrow> sql_param list list \<Rightarrow> ('c, 'x + 'a list) action" where
  "fetch_many S from_row sql param_sets conn =
     (case sq_prepare S sql conn of
        Inl e \<Rightarrow> Some (Inl e, conn)
      | Inr u \<Rightarrow> do { r \<leftarrow> fetch_each S from_row sql param_sets conn; Some (r, conn) })"

primrec collect_rows :: "(sql_row \<Rightarrow> ('x + 'a) exec) \<Rightarrow> ('x + sql_row) list \<Rightarrow> ('x + 'a list) exec" where
  "collect_rows from_row [] = Some (Inr [])"
| "collect_rows from_row (row # iter) =
     (case row of
        Inl e \<Rightarrow> Some (Inl e)
      | Inr row \<Rightarrow>
          do { r \<leftarrow> from_row row;
               case r of
                 Inl e \<Rightarrow> Some (Inl e)
               | Inr a \<Rightarrow> do { r \<leftarrow> collect_rows from_row iter; Some (map_sum id (\<lambda>rows. a # rows) r) } })"

definition fetch_all ::
  "('c, 't, 'x) rusqlite \<Rightarrow> (sql_row \<Rightarrow> ('x + 'a) exec) \<Rightarrow> string \<Rightarrow> sql_param list \<Rightarrow> ('c, 'x + 'a list) action" where
  "fetch_all S from_row sql params conn =
     (case and_then (sq_prepare S sql conn) (\<lambda>u. sq_query S sql params conn) of
        Inl e \<Rightarrow> Some (Inl e, conn)
      | Inr iter \<Rightarrow> do { r \<leftarrow> collect_rows from_row iter; Some (r, conn) })"

text \<open>Opening: the pragmas, whose answers are not read, and the table.\<close>

definition sqlite_setup_disk_handle :: "('c, 't, 'x) rusqlite \<Rightarrow> 'x + 'c \<Rightarrow> 'x + 'c" where
  "sqlite_setup_disk_handle S opened =
     and_then opened (\<lambda>disk.
       and_then (sq_query_row S ''pragma journal_mode = WAL;'' [] disk) (\<lambda>row.
         case sq_execute S ''pragma synchronous = normal;'' [] disk of
           (Inl e, disk) \<Rightarrow> Inl e
         | (Inr n, disk) \<Rightarrow>
             (case sq_execute S ''pragma temp_store = memory;'' [] disk of (Inl e, disk) \<Rightarrow> Inl e | (Inr n, disk) \<Rightarrow> Inr disk)))"

definition setup_db :: "('c, 't, 'x) rusqlite \<Rightarrow> ('c, 'x + unit) action" where
  "setup_db S conn = do { (r, conn) \<leftarrow> sqlite_execute S CREATE_TABLE [] conn; Some (map_sum id (\<lambda>n. ()) r, conn) }"

definition sqlite_open :: "('c, 't, 'x) rusqlite \<Rightarrow> 'x + 'c \<Rightarrow> ('x + 'c) exec" where
  "sqlite_open S opened =
     (case sqlite_setup_disk_handle S opened of
        Inl e \<Rightarrow> Some (Inl e)
      | Inr conn \<Rightarrow> do { (r, conn) \<leftarrow> setup_db S conn; Some (map_sum id (\<lambda>u. conn) r) })"

section \<open>Rows\<close>

text \<open>\<open>derive_tuple\<close> for the tuple of one field, and the two models; \<open>as i64\<close> and \<open>as Key\<close> keep the bits of the id.\<close>

definition tuple_from_row :: "('c, 't, 'x) rusqlite \<Rightarrow> sql_row \<Rightarrow> ('x + string) exec" where
  "tuple_from_row S row = Some (get_string S row 0)"

definition timestamp_of_text :: "('c, 't, 'x) rusqlite \<Rightarrow> string \<Rightarrow> ('x + hlc_timestamp) exec" where
  "timestamp_of_text S ts = do { r \<leftarrow> hlc_from_str ts; Some (map_sum (conversion_failure S) id r) }"

definition doc_from_row :: "('c, 't, 'x) rusqlite \<Rightarrow> sql_row \<Rightarrow> ('x + document) exec" where
  "doc_from_row S row =
     (case and_then (get_i64 S row 0) (\<lambda>i. and_then (get_string S row 1) (\<lambda>ts. and_then (get_blob S row 2) (\<lambda>data. Inr (i, ts, data)))) of
        Inl e \<Rightarrow> Some (Inl e)
      | Inr (i, ts, data) \<Rightarrow> do { r \<leftarrow> timestamp_of_text S ts; Some (and_then r (\<lambda>ts. Inr (document_new (word_of_int i) ts data))) })"

definition metadata_from_row :: "('c, 't, 'x) rusqlite \<Rightarrow> sql_row \<Rightarrow> ('x + key \<times> hlc_timestamp \<times> bool) exec" where
  "metadata_from_row S row =
     (case and_then (get_i64 S row 0) (\<lambda>i. and_then (get_string S row 1) (\<lambda>ts. and_then (get_bool S row 2) (\<lambda>is_tombstone. Inr (i, ts, is_tombstone)))) of
        Inl e \<Rightarrow> Some (Inl e)
      | Inr (i, ts, is_tombstone) \<Rightarrow> do { r \<leftarrow> timestamp_of_text S ts; Some (and_then r (\<lambda>ts. Inr (word_of_int i, ts, is_tombstone))) })"

section \<open>The operations of the trait\<close>

definition doc_params :: "string \<Rightarrow> document \<Rightarrow> sql_param list" where
  "doc_params keyspace doc = [PText keyspace, PI64 (sint (doc_id doc)), PText (hlc_display (last_updated doc)), PBlob (doc_data doc)]"

definition tombstone_params :: "string \<Rightarrow> document_metadata \<Rightarrow> sql_param list" where
  "tombstone_params keyspace doc = [PText keyspace, PI64 (sint (md_id doc)), PText (hlc_display (md_last_updated doc))]"

definition executed :: "('c, 'x + nat) action \<Rightarrow> ('c, 'x + unit) action" where
  "executed act conn = do { (r, conn) \<leftarrow> act conn; Some (map_sum id (\<lambda>n. ()) r, conn) }"

definition sqlite_get_keyspace_list :: "('c, 't, 'x) rusqlite \<Rightarrow> ('c, 'x + string list) action" where
  "sqlite_get_keyspace_list S = fetch_all S (tuple_from_row S) SELECT_KEYSPACE_LIST []"

definition sqlite_iter_metadata :: "('c, 't, 'x) rusqlite \<Rightarrow> string \<Rightarrow> ('c, 'x + (key \<times> hlc_timestamp \<times> bool) list) action" where
  "sqlite_iter_metadata S keyspace = fetch_all S (metadata_from_row S) SELECT_METADATA_LIST [PText keyspace]"

definition sqlite_remove_tombstones :: "('c, 't, 'x) rusqlite \<Rightarrow> string \<Rightarrow> key list \<Rightarrow> ('c, 'x bulk_result) action" where
  "sqlite_remove_tombstones S keyspace keys =
     bulk (execute_many S DELETE_TOMBSTONE (map (\<lambda>k. [PText keyspace, PI64 (sint k)]) keys))"

definition sqlite_put :: "('c, 't, 'x) rusqlite \<Rightarrow> string \<Rightarrow> document \<Rightarrow> ('c, 'x + unit) action" where
  "sqlite_put S keyspace doc = executed (sqlite_execute S INSERT (doc_params keyspace doc))"

definition sqlite_multi_put :: "('c, 't, 'x) rusqlite \<Rightarrow> string \<Rightarrow> document list \<Rightarrow> ('c, 'x bulk_result) action" where
  "sqlite_multi_put S keyspace documents = bulk (execute_many S INSERT (map (doc_params keyspace) documents))"

definition sqlite_mark_as_tombstone :: "('c, 't, 'x) rusqlite \<Rightarrow> string \<Rightarrow> key \<Rightarrow> hlc_timestamp \<Rightarrow> ('c, 'x + unit) action" where
  "sqlite_mark_as_tombstone S keyspace k timestamp =
     executed (sqlite_execute S SET_TOMBSTONE (tombstone_params keyspace (metadata_new k timestamp)))"

definition sqlite_mark_many_as_tombstone :: "('c, 't, 'x) rusqlite \<Rightarrow> string \<Rightarrow> document_metadata list \<Rightarrow> ('c, 'x bulk_result) action" where
  "sqlite_mark_many_as_tombstone S keyspace documents = bulk (execute_many S SET_TOMBSTONE (map (tombstone_params keyspace) documents))"

definition sqlite_get :: "('c, 't, 'x) rusqlite \<Rightarrow> string \<Rightarrow> key \<Rightarrow> ('c, 'x + document option) action" where
  "sqlite_get S keyspace k = fetch_one S (doc_from_row S) SELECT_DOC [PText keyspace, PI64 (sint k)]"

text \<open>Here the ids are bound as they are, unsigned.\<close>

definition sqlite_multi_get :: "('c, 't, 'x) rusqlite \<Rightarrow> string \<Rightarrow> key list \<Rightarrow> ('c, 'x + document list) action" where
  "sqlite_multi_get S keyspace doc_ids = fetch_many S (doc_from_row S) SELECT_DOC (map (\<lambda>k. [PText keyspace, PU64 k]) doc_ids)"

definition sqlite_ops :: "('c, 't, 'x) rusqlite \<Rightarrow> ('c, 'x) storage_ops" where
  "sqlite_ops S = \<lparr>st_get_keyspace_list = sqlite_get_keyspace_list S, st_iter_metadata = sqlite_iter_metadata S,
     st_remove_tombstones = sqlite_remove_tombstones S, st_put_with_ctx = default_put_with_ctx (sqlite_put S), st_put = sqlite_put S,
     st_multi_put_with_ctx = default_multi_put_with_ctx (sqlite_multi_put S), st_multi_put = sqlite_multi_put S,
     st_mark_as_tombstone = sqlite_mark_as_tombstone S, st_mark_many_as_tombstone = sqlite_mark_many_as_tombstone S,
     st_get = sqlite_get S, st_multi_get = sqlite_multi_get S\<rparr>"

section \<open>What the store relies on\<close>

text \<open>The table: a text of a timestamp and the data, or \<open>NULL\<close>, for a keyspace and an id.\<close>

type_synonym state_entries = "string \<times> int \<rightharpoonup> string \<times> u8 list option"

text \<open>The statements that write.\<close>

definition sql_effect :: "string \<Rightarrow> sql_param list \<Rightarrow> (state_entries \<Rightarrow> state_entries) option" where
  "sql_effect sql params =
     (case params of
        [PText ks, PI64 i, PText ts, PBlob d] \<Rightarrow> if sql = INSERT then Some (\<lambda>T. T((ks, i) \<mapsto> (ts, Some d))) else None
      | [PText ks, PI64 i, PText ts] \<Rightarrow> if sql = SET_TOMBSTONE then Some (\<lambda>T. T((ks, i) \<mapsto> (ts, None))) else None
      | [PText ks, PI64 i] \<Rightarrow> if sql = DELETE_TOMBSTONE then Some (\<lambda>T. T((ks, i) := None)) else None
      | _ \<Rightarrow> None)"

definition write_laws :: "('c, 't, 'x) rusqlite \<Rightarrow> ('c \<Rightarrow> state_entries) \<Rightarrow> ('t \<Rightarrow> state_entries) \<Rightarrow> bool" where
  "write_laws S tb xtb \<longleftrightarrow>
     (\<forall>sql ps f c. sql_effect sql ps = Some f \<longrightarrow> tb (snd (sq_execute S sql ps c)) = (if is_ok (fst (sq_execute S sql ps c)) then f (tb c) else tb c)) \<and>
     (\<forall>sql ps f t n t'. sql_effect sql ps = Some f \<longrightarrow> tx_execute S sql ps t = Inr (n, t') \<longrightarrow> xtb t' = f (xtb t)) \<and>
     (\<forall>c t. sq_transaction S c = Inr t \<longrightarrow> xtb t = tb c) \<and>
     (\<forall>t c. tb (snd (tx_commit S t c)) = (if is_ok (fst (tx_commit S t c)) then xtb t else tb c)) \<and>
     (\<forall>sql c. sql \<in> {CREATE_TABLE, ''pragma synchronous = normal;'', ''pragma temp_store = memory;''} \<longrightarrow> tb (snd (sq_execute S sql [] c)) = tb c)"

text \<open>
  The statements that read. A query that finds no row is an error of its own, which \<open>optional\<close> turns into
  \<open>None\<close>; an unsigned integer is bound when it fits the signed integers of the database and refused otherwise.
\<close>

definition doc_query_laws :: "('c, 't, 'x) rusqlite \<Rightarrow> ('c \<Rightarrow> state_entries) \<Rightarrow> bool" where
  "doc_query_laws S tb \<longleftrightarrow>
     (\<forall>ks i c row. sq_query_row S SELECT_DOC [PText ks, PI64 i] c = Inr row \<longrightarrow>
        (\<exists>ts d. tb c (ks, i) = Some (ts, Some d) \<and> row = [SInteger i, SText ts, SBlob d])) \<and>
     (\<forall>ks i c. sq_query_row S SELECT_DOC [PText ks, PI64 i] c = Inl (no_rows S) \<longrightarrow> (\<forall>ts d. tb c (ks, i) \<noteq> Some (ts, Some d))) \<and>
     (\<forall>ks k c. if uint k < 2 ^ 63 then sq_query_row S SELECT_DOC [PText ks, PU64 k] c = sq_query_row S SELECT_DOC [PText ks, PI64 (uint k)] c
        else \<exists>e. sq_query_row S SELECT_DOC [PText ks, PU64 k] c = Inl e \<and> e \<noteq> no_rows S)"

definition lists_rows :: "'x + ('x + sql_row) list \<Rightarrow> sql_row set \<Rightarrow> bool" where
  "lists_rows q R \<longleftrightarrow> (\<forall>l. q = Inr l \<longrightarrow> (\<forall>row. Inr row \<in> set l \<longrightarrow> row \<in> R) \<and> (\<forall>rs. l = map Inr rs \<longrightarrow> distinct rs \<and> set rs = R))"

definition list_query_laws :: "('c, 't, 'x) rusqlite \<Rightarrow> ('c \<Rightarrow> state_entries) \<Rightarrow> bool" where
  "list_query_laws S tb \<longleftrightarrow>
     (\<forall>ks c. lists_rows (sq_query S SELECT_METADATA_LIST [PText ks] c)
        {[SInteger i, SText ts, SInteger (if d = None then 1 else 0)] | i ts d. tb c (ks, i) = Some (ts, d)}) \<and>
     (\<forall>c. lists_rows (sq_query S SELECT_KEYSPACE_LIST [] c) {[SText ks] | ks i. tb c (ks, i) \<noteq> None})"

definition column_laws :: "('c, 't, 'x) rusqlite \<Rightarrow> bool" where
  "column_laws S \<longleftrightarrow>
     (\<forall>row n i. n < length row \<longrightarrow> row ! n = SInteger i \<longrightarrow> get_i64 S row n = Inr i \<and> get_bool S row n = Inr (i \<noteq> 0)) \<and>
     (\<forall>row n s. n < length row \<longrightarrow> row ! n = SText s \<longrightarrow> get_string S row n = Inr s) \<and>
     (\<forall>row n d. n < length row \<longrightarrow> row ! n = SBlob d \<longrightarrow> get_blob S row n = Inr d)"

definition sqlite_laws :: "('c, 't, 'x) rusqlite \<Rightarrow> ('c \<Rightarrow> state_entries) \<Rightarrow> ('t \<Rightarrow> state_entries) \<Rightarrow> bool" where
  "sqlite_laws S tb xtb \<longleftrightarrow> write_laws S tb xtb \<and> doc_query_laws S tb \<and> list_query_laws S tb \<and> column_laws S"

end
