(* ===== verification/SqliteStore.thy ===== *)
theory SqliteStore
  imports Sqlite
begin

text \<open>
  What the SQLite store keeps. A row is a document or a tombstone; a timestamp reads back from its text
  when it is \<open>canonical\<close>, and for those the store keeps the contract of the trait. The last sections are what
  it does not keep, and a table over which the laws of the database hold.
\<close>

section \<open>What is stored\<close>

text \<open>Timestamps whose text reads back: those with fewer than 250 steps of four milliseconds.\<close>

definition canonical :: "hlc_timestamp \<Rightarrow> bool" where
  "canonical t \<longleftrightarrow> unat (fractional t) < 250"

definition text_time :: "string \<Rightarrow> hlc_timestamp" where
  "text_time ts = (case hlc_from_str ts of Some (Inr t) \<Rightarrow> t | _ \<Rightarrow> HLCTimestamp 0)"

definition table_look :: "state_entries \<Rightarrow> string \<Rightarrow> key \<rightharpoonup> stored" where
  "table_look T ks k = map_option (\<lambda>(ts, d). case d of None \<Rightarrow> Tombstone (text_time ts) | Some data \<Rightarrow> Doc (document_new k (text_time ts) data)) (T (ks, sint k))"

definition table_ok :: "state_entries \<Rightarrow> bool" where
  "table_ok T \<longleftrightarrow> (\<forall>ks i ts d. T (ks, i) = Some (ts, d) \<longrightarrow> (\<exists>t. canonical t \<and> ts = hlc_display t) \<and> (\<exists>k :: key. i = sint k))"

definition sqlite_inv :: "('c \<Rightarrow> state_entries) \<Rightarrow> 'c \<Rightarrow> bool" where
  "sqlite_inv tb c = table_ok (tb c)"

definition sqlite_look :: "('c \<Rightarrow> state_entries) \<Rightarrow> 'c \<Rightarrow> string \<Rightarrow> key \<rightharpoonup> stored" where
  "sqlite_look tb c = table_look (tb c)"

definition sqlite_known :: "'c \<Rightarrow> string \<Rightarrow> bool" where
  "sqlite_known c ks = True"

lemma canonical_pack: "canonical (HLCTimestamp (pack d c n))"
  using pack_fields(3) [of d c n] by (simp add: canonical_def)

text \<open>The clock of a node makes no other timestamps.\<close>

lemma clock_get_canonical: "clock_get nc = Some (ts, nc') \<Longrightarrow> canonical ts"
  by (auto simp: clock_get_def hlc_send_def Let_def canonical_pack bind_eq_Some_conv split: sum.splits option.splits if_splits)

lemma canonical_text: "canonical t \<Longrightarrow> hlc_from_str (hlc_display t) = Some (Inr t)" "canonical t \<Longrightarrow> text_time (hlc_display t) = t"
  by (simp_all add: canonical_def display_roundtrip text_time_def)

definition row_put :: "string \<Rightarrow> document \<Rightarrow> state_entries \<Rightarrow> state_entries" where
  "row_put ks d T = T((ks, sint (doc_id d)) \<mapsto> (hlc_display (last_updated d), Some (doc_data d)))"

definition row_mark :: "string \<Rightarrow> document_metadata \<Rightarrow> state_entries \<Rightarrow> state_entries" where
  "row_mark ks m T = T((ks, sint (md_id m)) \<mapsto> (hlc_display (md_last_updated m), None))"

definition row_delete :: "string \<Rightarrow> key \<Rightarrow> state_entries \<Rightarrow> state_entries" where
  "row_delete ks k T = T((ks, sint k) := None)"

lemmas row_defs = row_put_def row_mark_def row_delete_def

lemma statements_differ: "distinct [INSERT, SET_TOMBSTONE, DELETE_TOMBSTONE, SELECT_DOC, SELECT_METADATA_LIST, SELECT_KEYSPACE_LIST, CREATE_TABLE]"
  by (simp add: INSERT_def SET_TOMBSTONE_def DELETE_TOMBSTONE_def SELECT_DOC_def SELECT_METADATA_LIST_def SELECT_KEYSPACE_LIST_def CREATE_TABLE_def newline_def)

lemma statement_effects:
  "sql_effect INSERT (doc_params ks d) = Some (row_put ks d)" "sql_effect SET_TOMBSTONE (tombstone_params ks m) = Some (row_mark ks m)"
  "sql_effect DELETE_TOMBSTONE [PText ks, PI64 (sint k)] = Some (row_delete ks k)"
  by (simp_all add: sql_effect_def doc_params_def tombstone_params_def fun_eq_iff row_defs)

lemma document_same: "document_new (doc_id d) (last_updated d) (doc_data d) = d"
  by (simp add: document_new_def doc_id_def last_updated_def)

lemma sint_inject [simp]: "sint (a :: 'a::len word) = sint b \<longleftrightarrow> a = b"
proof
  assume "sint a = sint b"
  then have "(of_int (sint a) :: 'a word) = of_int (sint b)" by (rule arg_cong)
  then show "a = b" by (simp only: of_int_sint scast_id)
qed simp

lemma look_row_put: "canonical (last_updated d) \<Longrightarrow> table_look (row_put ks d T) = (table_look T)(ks := put_docs [d] (table_look T ks))"
  by (intro ext) (auto simp: table_look_def row_put_def put_docs_def canonical_text document_same)

lemma look_row_mark: "canonical (md_last_updated m) \<Longrightarrow> table_look (row_mark ks m T) = (table_look T)(ks := put_tombstones [m] (table_look T ks))"
  by (intro ext) (auto simp: table_look_def row_mark_def put_tombstones_def canonical_text)

lemma look_row_delete: "table_look (row_delete ks k T) = (table_look T)(ks := (table_look T ks)(k := None))"
  by (intro ext) (auto simp: table_look_def row_delete_def)

lemma table_ok_row:
  assumes "table_ok T"
  shows "canonical (last_updated d) \<Longrightarrow> table_ok (row_put ks d T)" "canonical (md_last_updated m) \<Longrightarrow> table_ok (row_mark ks m T)"
    "table_ok (row_delete ks k T)"
  using assms by (auto simp: table_ok_def row_defs)

lemma look_rows_put: "\<forall>d \<in> set ds. canonical (last_updated d) \<Longrightarrow> table_look (fold (row_put ks) ds T) = (table_look T)(ks := put_docs ds (table_look T ks))"
  by (induction ds arbitrary: T) (auto simp: look_row_put puts_Cons)

lemma look_rows_mark: "\<forall>m \<in> set ms. canonical (md_last_updated m) \<Longrightarrow> table_look (fold (row_mark ks) ms T) = (table_look T)(ks := put_tombstones ms (table_look T ks))"
  by (induction ms arbitrary: T) (auto simp: look_row_mark puts_Cons)

lemma look_rows_delete: "table_look (fold (row_delete ks) keys T) = (table_look T)(ks := table_look T ks |` (- set keys))"
  by (induction keys arbitrary: T) (auto simp: look_row_delete fun_eq_iff restrict_map_def)

lemma table_ok_rows:
  "table_ok T \<Longrightarrow> \<forall>d \<in> set ds. canonical (last_updated d) \<Longrightarrow> table_ok (fold (row_put ks) ds T)"
  "table_ok T \<Longrightarrow> \<forall>m \<in> set ms. canonical (md_last_updated m) \<Longrightarrow> table_ok (fold (row_mark ks) ms T)"
  "table_ok T \<Longrightarrow> table_ok (fold (row_delete ks) keys T)"
  subgoal by (induction ds arbitrary: T) (auto simp: table_ok_row)
  subgoal by (induction ms arbitrary: T) (auto simp: table_ok_row)
  subgoal by (induction keys arbitrary: T) (auto simp: table_ok_row)
  done

section \<open>The writes\<close>

lemma write_lawsD:
  assumes "write_laws S tb xtb"
  shows "sql_effect sql ps = Some f \<Longrightarrow> tb (snd (sq_execute S sql ps c)) = (if is_ok (fst (sq_execute S sql ps c)) then f (tb c) else tb c)"
    "sql_effect sql ps = Some f \<Longrightarrow> tx_execute S sql ps t = Inr (n, t') \<Longrightarrow> xtb t' = f (xtb t)"
    "sq_transaction S c = Inr t \<Longrightarrow> xtb t = tb c"
    "tb (snd (tx_commit S t c)) = (if is_ok (fst (tx_commit S t c)) then xtb t else tb c)"
    "sql \<in> {CREATE_TABLE, ''pragma synchronous = normal;'', ''pragma temp_store = memory;''} \<Longrightarrow> tb (snd (sq_execute S sql [] c)) = tb c"
  subgoal using assms unfolding write_laws_def by (elim conjE) simp
  subgoal using assms unfolding write_laws_def by (elim conjE) simp
  subgoal using assms unfolding write_laws_def by (elim conjE) simp
  subgoal using assms unfolding write_laws_def by (elim conjE) simp
  subgoal using assms unfolding write_laws_def by (elim conjE) blast
  done

lemma execute_spec:
  assumes "write_laws S tb xtb" "sql_effect sql ps = Some f"
  shows "\<exists>r c'. sqlite_execute S sql ps c = Some (r, c') \<and> tb c' = (if is_ok r then f (tb c) else tb c)"
proof (cases "sq_prepare S sql c")
  case (Inr u)
  obtain r c' where r: "sq_execute S sql ps c = (r, c')" by fastforce
  have "tb (snd (sq_execute S sql ps c)) = (if is_ok (fst (sq_execute S sql ps c)) then f (tb c) else tb c)" by (rule write_lawsD(1) [OF assms])
  then show ?thesis using Inr r by (simp add: sqlite_execute_def)
qed (simp add: sqlite_execute_def)

lemma execute_each_spec:
  assumes "write_laws S tb xtb" "\<And>x. sql_effect sql (P x) = Some (F x)"
  shows "execute_each S sql (map P xs) n t = Inr (m, t') \<Longrightarrow> xtb t' = fold F xs (xtb t)"
proof (induction xs arbitrary: n t)
  case (Cons x xs)
  from Cons.prems obtain k t1 where t1: "tx_execute S sql (P x) t = Inr (k, t1)" "execute_each S sql (map P xs) (n + k) t1 = Inr (m, t')"
    by (auto simp: and_then_def split: sum.splits)
  have "xtb t1 = F x (xtb t)" by (rule write_lawsD(2) [OF assms t1(1)])
  then show ?case using Cons.IH [OF t1(2)] by simp
qed simp

lemma execute_many_spec:
  assumes S: "write_laws S tb xtb" and F: "\<And>x. sql_effect sql (P x) = Some (F x)"
  shows "\<exists>r c'. execute_many S sql (map P xs) c = Some (r, c') \<and> tb c' = (if is_ok r then fold F xs (tb c) else tb c)"
proof (cases "and_then (sq_transaction S c) (\<lambda>txn. and_then (tx_prepare S sql txn) (\<lambda>u. execute_each S sql (map P xs) 0 txn))")
  case (Inl e)
  then show ?thesis by (simp add: execute_many_def)
next
  case (Inr p)
  obtain n t' where p: "p = (n, t')" by fastforce
  from Inr obtain t where t: "sq_transaction S c = Inr t" "execute_each S sql (map P xs) 0 t = Inr (n, t')"
    unfolding p by (auto simp: and_then_def split: sum.splits)
  have "xtb t = tb c" "tb (snd (tx_commit S t' c)) = (if is_ok (fst (tx_commit S t' c)) then xtb t' else tb c)"
    using write_lawsD(3) [OF S t(1)] write_lawsD(4) [OF S] by simp_all
  moreover obtain r c' where "tx_commit S t' c = (r, c')" by fastforce
  moreover have "is_ok (map_sum id (\<lambda>u. n) r) = is_ok r" for r :: "'c + unit" by (cases r) simp_all
  ultimately show ?thesis using Inr p execute_each_spec [OF S F t(2)] by (simp add: execute_many_def)
qed

lemma executed_write:
  assumes S: "write_laws S tb xtb" and inv: "sqlite_inv tb c" and f: "sql_effect sql ps = Some f" "table_ok (f (tb c))" "table_look (f (tb c)) = m"
  shows "\<exists>r c'. executed (sqlite_execute S sql ps) c = Some (r, c') \<and> sqlite_inv tb c' \<and> sqlite_look tb c' = (if is_ok r then m else sqlite_look tb c)"
proof -
  obtain r c' where r: "sqlite_execute S sql ps c = Some (r, c')" "tb c' = (if is_ok r then f (tb c) else tb c)"
    using execute_spec [OF S f(1)] by blast
  have "is_ok (map_sum id (\<lambda>n. ()) r) = is_ok r" by (cases r) simp_all
  then show ?thesis using r inv f(2,3)
    by (intro exI [of _ "map_sum id (\<lambda>n. ()) r"] exI [of _ c']) (simp add: executed_def sqlite_inv_def sqlite_look_def)
qed

lemma many_write:
  assumes S: "write_laws S tb xtb" and inv: "sqlite_inv tb c" and F: "\<And>x. sql_effect sql (P x) = Some (F x)"
    and ok: "table_ok (fold F xs (tb c))" "table_look (fold F xs (tb c)) = m"
  shows "\<exists>r c'. execute_many S sql (map P xs) c = Some (r, c') \<and> sqlite_inv tb c' \<and> sqlite_look tb c' = (if is_ok r then m else sqlite_look tb c)"
  using execute_many_spec [where xs = xs and c = c, OF S F] inv ok by (fastforce simp: sqlite_inv_def sqlite_look_def)

lemma sqlite_writes:
  assumes S: "write_laws S tb xtb" and inv: "sqlite_inv tb c"
  shows "canonical (last_updated d) \<Longrightarrow> \<exists>r c'. sqlite_put S ks d c = Some (r, c') \<and> sqlite_inv tb c' \<and>
      sqlite_look tb c' = (if is_ok r then (sqlite_look tb c)(ks := put_docs [d] (sqlite_look tb c ks)) else sqlite_look tb c)"
    and "canonical ts \<Longrightarrow> \<exists>r c'. sqlite_mark_as_tombstone S ks k ts c = Some (r, c') \<and> sqlite_inv tb c' \<and>
      sqlite_look tb c' = (if is_ok r then (sqlite_look tb c)(ks := put_tombstones [metadata_new k ts] (sqlite_look tb c ks)) else sqlite_look tb c)"
  subgoal unfolding sqlite_put_def
    by (rule executed_write [OF S inv statement_effects(1)]) (use inv in \<open>simp_all add: sqlite_inv_def sqlite_look_def table_ok_row look_row_put\<close>)
  subgoal unfolding sqlite_mark_as_tombstone_def
    by (rule executed_write [OF S inv statement_effects(2)])
      (use inv in \<open>simp_all add: sqlite_inv_def sqlite_look_def table_ok_row look_row_mark metadata_new_def\<close>)
  done

lemma sqlite_bulk_writes:
  assumes S: "write_laws S tb xtb" and inv: "sqlite_inv tb c"
  shows "\<forall>d \<in> set ds. canonical (last_updated d) \<Longrightarrow> \<exists>r c'. sqlite_multi_put S ks ds c = Some (r, c') \<and> sqlite_inv tb c' \<and>
      sqlite_look tb c' = (sqlite_look tb c)(ks := put_docs (filter (\<lambda>d. applied r (doc_id d)) ds) (sqlite_look tb c ks))"
    and "\<forall>m \<in> set ms. canonical (md_last_updated m) \<Longrightarrow> \<exists>r c'. sqlite_mark_many_as_tombstone S ks ms c = Some (r, c') \<and> sqlite_inv tb c' \<and>
      sqlite_look tb c' = (sqlite_look tb c)(ks := put_tombstones (filter (\<lambda>m. applied r (md_id m)) ms) (sqlite_look tb c ks))"
    and "\<exists>r c'. sqlite_remove_tombstones S ks keys c = Some (r, c') \<and> sqlite_inv tb c' \<and>
      sqlite_look tb c' = (sqlite_look tb c)(ks := sqlite_look tb c ks |` (- {k \<in> set keys. applied r k}))"
  subgoal unfolding sqlite_multi_put_def
    by (rule bulk_law [where g = "\<lambda>A. (sqlite_look tb c)(ks := put_docs (filter (\<lambda>d. A (doc_id d)) ds) (sqlite_look tb c ks))"])
      (use many_write [where xs = ds and P = "doc_params ks" and F = "row_put ks", OF S inv statement_effects(1) _ refl] inv in
        \<open>simp add: sqlite_inv_def sqlite_look_def table_ok_rows look_rows_put cong: if_cong split del: if_split\<close>)
  subgoal unfolding sqlite_mark_many_as_tombstone_def
    by (rule bulk_law [where g = "\<lambda>A. (sqlite_look tb c)(ks := put_tombstones (filter (\<lambda>m. A (md_id m)) ms) (sqlite_look tb c ks))"])
      (use many_write [where xs = ms and P = "tombstone_params ks" and F = "row_mark ks", OF S inv statement_effects(2) _ refl] inv in
        \<open>simp add: sqlite_inv_def sqlite_look_def table_ok_rows look_rows_mark cong: if_cong split del: if_split\<close>)
  subgoal unfolding sqlite_remove_tombstones_def
    by (rule bulk_law [where g = "\<lambda>A. (sqlite_look tb c)(ks := sqlite_look tb c ks |` (- {k \<in> set keys. A k}))"])
      (use many_write [where xs = keys and P = "\<lambda>k. [PText ks, PI64 (sint k)]" and F = "row_delete ks", OF S inv statement_effects(3) _ refl] inv in
        \<open>simp add: sqlite_inv_def sqlite_look_def table_ok_rows look_rows_delete restrict_map_def cong: if_cong split del: if_split\<close>)
  done

section \<open>The reads\<close>

lemma column_read [simp]:
  assumes "column_laws S"
  shows "get_i64 S (SInteger i # row) 0 = Inr i" "get_string S (SText txt # row) 0 = Inr txt" "get_string S (v # SText txt # row) (Suc 0) = Inr txt"
    "get_blob S (v # w # SBlob b # row) 2 = Inr b" "get_bool S (v # w # SInteger i # row) 2 = Inr (i \<noteq> 0)"
  using assms by (simp_all add: column_laws_def)

lemma doc_read:
  assumes S: "column_laws S" and t: "canonical t"
  shows "doc_from_row S [SInteger (sint k), SText (hlc_display t), SBlob d] = Some (Inr (document_new k t d))"
    "metadata_from_row S [SInteger (sint k), SText (hlc_display t), SInteger b] = Some (Inr (k, t, b \<noteq> 0))"
  using canonical_text(1) [OF t] by (simp_all add: doc_from_row_def metadata_from_row_def timestamp_of_text_def S)

lemma stored_row:
  assumes T: "table_ok T" and i: "T (ks, i) = Some (ts, d)"
  obtains t k where "canonical t" "ts = hlc_display t" "i = sint k"
    "table_look T ks k = Some (case d of None \<Rightarrow> Tombstone t | Some data \<Rightarrow> Doc (document_new k t data))"
proof -
  obtain t and k :: key where t: "canonical t" "ts = hlc_display t" "i = sint k" using T i unfolding table_ok_def by meson
  moreover have "table_look T ks k = Some (case d of None \<Rightarrow> Tombstone t | Some data \<Rightarrow> Doc (document_new k t data))"
    using t i by (simp add: table_look_def canonical_text(2))
  ultimately show thesis by (rule that)
qed

lemma query_doc_spec:
  assumes S: "column_laws S" "doc_query_laws S tb" and T: "table_ok (tb c)" and p: "p = PI64 (sint k) \<or> p = PU64 k"
  shows "\<exists>r. query_row_as S (doc_from_row S) SELECT_DOC [PText ks, p] c = Some r \<and>
    (\<forall>d. optional S r = Inr d \<longrightarrow> d = stored_doc (table_look (tb c) ks k))"
proof -
  consider (pos) "sq_query_row S SELECT_DOC [PText ks, p] c = sq_query_row S SELECT_DOC [PText ks, PI64 (sint k)] c"
    | (neg) e where "sq_query_row S SELECT_DOC [PText ks, p] c = Inl e" "e \<noteq> no_rows S"
  proof (cases "p = PI64 (sint k)")
    case False
    show thesis
    proof (cases "uint k < 2 ^ 63")
      case True
      moreover have "- (2 ^ 63) \<le> uint k" by (rule order_trans [OF _ uint_ge_0]) simp
      ultimately have "sint k = uint k" using signed_take_bit_int_eq_self [of 63 "uint k"] by (simp add: sint_uint)
      then show thesis using pos False True p S(2) unfolding doc_query_laws_def by metis
    next
      case F: False
      then show thesis using neg False p S(2) unfolding doc_query_laws_def by metis
    qed
  qed simp
  then show ?thesis
  proof cases
    case pos
    show ?thesis
    proof (cases "sq_query_row S SELECT_DOC [PText ks, PI64 (sint k)] c")
      case (Inl e)
      have "stored_doc (table_look (tb c) ks k) = None" if "e = no_rows S"
      proof -
        have "tb c (ks, sint k) \<noteq> Some (ts, Some d)" for ts d using S(2) Inl that unfolding doc_query_laws_def by blast
        then show ?thesis by (cases "tb c (ks, sint k)") (auto simp: table_look_def split: option.split)
      qed
      then show ?thesis using pos Inl by (simp add: query_row_as_def optional_def)
    next
      case (Inr row)
      then obtain ts d where r: "tb c (ks, sint k) = Some (ts, Some d)" "row = [SInteger (sint k), SText ts, SBlob d]"
        using S(2) unfolding doc_query_laws_def by blast
      obtain t where t: "canonical t" "ts = hlc_display t" "table_look (tb c) ks k = Some (Doc (document_new k t d))"
        using stored_row [OF T r(1)] by auto
      show ?thesis using pos Inr r(2) t by (simp add: query_row_as_def optional_def doc_read S(1))
    qed
  next
    case neg
    then show ?thesis by (simp add: query_row_as_def optional_def)
  qed
qed

lemma fetch_each_spec:
  assumes S: "column_laws S" "doc_query_laws S tb" and T: "table_ok (tb c)"
  shows "\<exists>r. fetch_each S (doc_from_row S) SELECT_DOC (map (\<lambda>k. [PText ks, PU64 k]) keys) c = Some r \<and>
    (\<forall>ds. r = Inr ds \<longrightarrow> ds = List.map_filter (\<lambda>k. stored_doc (table_look (tb c) ks k)) keys)"
proof (induction keys)
  case (Cons k keys)
  obtain r where r: "query_row_as S (doc_from_row S) SELECT_DOC [PText ks, PU64 k] c = Some r" "\<forall>d. optional S r = Inr d \<longrightarrow> d = stored_doc (table_look (tb c) ks k)"
    using query_doc_spec [OF S T, of "PU64 k" k ks] by blast
  obtain r' where "fetch_each S (doc_from_row S) SELECT_DOC (map (\<lambda>k. [PText ks, PU64 k]) keys) c = Some r'"
    "\<forall>ds. r' = Inr ds \<longrightarrow> ds = List.map_filter (\<lambda>k. stored_doc (table_look (tb c) ks k)) keys" using Cons by blast
  then show ?case using r by (cases "optional S r"; cases r') (simp_all add: map_filter_simps split: option.split)
qed (simp add: map_filter_simps)

lemma sqlite_gets:
  assumes S: "column_laws S" "doc_query_laws S tb" and inv: "sqlite_inv tb c"
  shows "\<exists>r. sqlite_get S ks k c = Some (r, c) \<and> (\<forall>d. r = Inr d \<longrightarrow> d = stored_doc (sqlite_look tb c ks k))"
    and "\<exists>r. sqlite_multi_get S ks keys c = Some (r, c) \<and> (\<forall>ds. r = Inr ds \<longrightarrow> ds = List.map_filter (\<lambda>k. stored_doc (sqlite_look tb c ks k)) keys)"
proof -
  have T: "table_ok (tb c)" using inv by (simp add: sqlite_inv_def)
  show "\<exists>r. sqlite_get S ks k c = Some (r, c) \<and> (\<forall>d. r = Inr d \<longrightarrow> d = stored_doc (sqlite_look tb c ks k))"
    using query_doc_spec [OF S T, of "PI64 (sint k)" k ks]
    by (cases "sq_prepare S SELECT_DOC c") (auto simp: sqlite_get_def fetch_one_def sqlite_look_def)
  show "\<exists>r. sqlite_multi_get S ks keys c = Some (r, c) \<and> (\<forall>ds. r = Inr ds \<longrightarrow> ds = List.map_filter (\<lambda>k. stored_doc (sqlite_look tb c ks k)) keys)"
    using fetch_each_spec [OF S T, of ks keys]
    by (cases "sq_prepare S SELECT_DOC c") (auto simp: sqlite_multi_get_def fetch_many_def sqlite_look_def)
qed

text \<open>The rows of a query that are all read: each gives one element, in their order.\<close>

lemma collect_rows_spec:
  assumes "\<And>row. Inr row \<in> set l \<Longrightarrow> from_row row = Some (Inr (h row))"
  shows "\<exists>r. collect_rows from_row l = Some r \<and> (\<forall>as. r = Inr as \<longrightarrow> (\<exists>rs. l = map Inr rs \<and> as = map h rs))"
  using assms
proof (induction l)
  case (Cons q l)
  then obtain r where r: "collect_rows from_row l = Some r" "\<forall>as. r = Inr as \<longrightarrow> (\<exists>rs. l = map Inr rs \<and> as = map h rs)" by auto
  show ?case
  proof (cases q)
    case (Inr row)
    show ?thesis
    proof (cases r)
      case R: (Inr as)
      then obtain rs where "l = map Inr rs" "as = map h rs" using r(2) by blast
      then show ?thesis using Inr R r(1) Cons.prems [of row] by (auto intro: exI [of _ "row # rs"])
    qed (use Inr r(1) Cons.prems [of row] in simp)
  qed simp
qed simp

lemma fetch_all_spec:
  assumes q: "lists_rows (sq_query S sql ps c) R" and h: "\<And>row. row \<in> R \<Longrightarrow> from_row row = Some (Inr (h row))"
  shows "\<exists>r. fetch_all S from_row sql ps c = Some (r, c) \<and> (\<forall>as. r = Inr as \<longrightarrow> (\<exists>rs. distinct rs \<and> set rs = R \<and> as = map h rs))"
proof (cases "and_then (sq_prepare S sql c) (\<lambda>u. sq_query S sql ps c)")
  case (Inr l)
  then have l: "sq_query S sql ps c = Inr l" by (auto simp: and_then_def split: sum.splits)
  then obtain r where "collect_rows from_row l = Some r" "\<forall>as. r = Inr as \<longrightarrow> (\<exists>rs. l = map Inr rs \<and> as = map h rs)"
    using collect_rows_spec [of l from_row h] q h unfolding lists_rows_def by metis
  then show ?thesis using Inr l q unfolding lists_rows_def by (simp add: fetch_all_def) metis
qed (simp add: fetch_all_def)

definition row_metadata :: "sql_row \<Rightarrow> key \<times> hlc_timestamp \<times> bool" where
  "row_metadata row = (case row of [SInteger i, SText ts, SInteger b] \<Rightarrow> (word_of_int i, text_time ts, b \<noteq> 0) | _ \<Rightarrow> (0, HLCTimestamp 0, False))"

definition metadata_rows :: "state_entries \<Rightarrow> string \<Rightarrow> sql_row set" where
  "metadata_rows T ks = {[SInteger i, SText ts, SInteger (if d = None then 1 else 0)] | i ts d. T (ks, i) = Some (ts, d)}"

lemma metadata_row:
  assumes T: "table_ok T" and row: "row \<in> metadata_rows T ks"
  obtains k t b where "canonical t" "row = [SInteger (sint k), SText (hlc_display t), SInteger b]" "row_metadata row = (k, t, b \<noteq> 0)"
    "map_option stored_meta (table_look T ks k) = Some (t, b \<noteq> 0)"
proof -
  obtain i ts d where r: "row = [SInteger i, SText ts, SInteger (if d = None then 1 else 0)]" "T (ks, i) = Some (ts, d)"
    using row unfolding metadata_rows_def by blast
  obtain t k where t: "canonical t" "ts = hlc_display t" "i = sint k"
    "table_look T ks k = Some (case d of None \<Rightarrow> Tombstone t | Some data \<Rightarrow> Doc (document_new k t data))" by (rule stored_row [OF T r(2)])
  show thesis
  proof (rule that [OF t(1)])
    show "row = [SInteger (sint k), SText (hlc_display t), SInteger (if d = None then 1 else 0)]" using r t by simp
    show "row_metadata row = (k, t, (if d = None then 1 else 0 :: int) \<noteq> 0)" using r t by (simp add: row_metadata_def canonical_text(2))
    show "map_option stored_meta (table_look T ks k) = Some (t, (if d = None then 1 else 0 :: int) \<noteq> 0)"
      using t(4) by (simp add: document_new_def last_updated_def split: option.split)
  qed
qed

lemma metadata_row_of:
  assumes "table_ok T" "map_option stored_meta (table_look T ks k) = Some v"
  shows "(k, v) \<in> row_metadata ` metadata_rows T ks"
proof -
  obtain ts d where r: "T (ks, sint k) = Some (ts, d)" using assms(2) by (auto simp: table_look_def)
  let ?row = "[SInteger (sint k), SText ts, SInteger (if d = None then 1 else 0)]"
  have row: "?row \<in> metadata_rows T ks" using r unfolding metadata_rows_def by blast
  obtain k' t b where e: "?row = [SInteger (sint k'), SText (hlc_display t), SInteger b]" "row_metadata ?row = (k', t, b \<noteq> 0)"
    "map_option stored_meta (table_look T ks k') = Some (t, b \<noteq> 0)" by (rule metadata_row [OF assms(1) row])
  have "k' = k" using e(1) by simp
  then have "row_metadata ?row = (k, v)" using assms(2) e(2,3) by (metis option.inject)
  then show ?thesis using row by (metis image_eqI)
qed

lemma metadata_rows_map:
  assumes T: "table_ok T" and rs: "distinct rs" "set rs = metadata_rows T ks"
  shows "distinct (map fst (map row_metadata rs)) \<and> map_of (map row_metadata rs) = map_option stored_meta \<circ> table_look T ks"
proof
  have "inj_on (fst \<circ> row_metadata) (metadata_rows T ks)"
  proof (rule inj_onI)
    fix a b assume ab: "a \<in> metadata_rows T ks" "b \<in> metadata_rows T ks" "(fst \<circ> row_metadata) a = (fst \<circ> row_metadata) b"
    obtain k t x where a: "a = [SInteger (sint k), SText (hlc_display t), SInteger x]" "row_metadata a = (k, t, x \<noteq> 0)" by (rule metadata_row [OF T ab(1)])
    obtain k' t' x' where b: "b = [SInteger (sint k'), SText (hlc_display t'), SInteger x']" "row_metadata b = (k', t', x' \<noteq> 0)" by (rule metadata_row [OF T ab(2)])
    have "k' = k" using ab(3) a(2) b(2) by simp
    then show "a = b" using ab(1,2) a(1) b(1) unfolding metadata_rows_def by auto
  qed
  then show d: "distinct (map fst (map row_metadata rs))" using rs by (simp add: distinct_map comp_def)
  show "map_of (map row_metadata rs) = map_option stored_meta \<circ> table_look T ks"
  proof (rule map_le_antisym; unfold map_le_def; intro ballI)
    fix k assume "k \<in> dom (map_of (map row_metadata rs))"
    then obtain v where v: "map_of (map row_metadata rs) k = Some v" by blast
    then obtain row where row: "row \<in> metadata_rows T ks" "row_metadata row = (k, v)" using rs(2) by (auto dest!: map_of_SomeD)
    obtain k' t b where e: "row = [SInteger (sint k'), SText (hlc_display t), SInteger b]" "row_metadata row = (k', t, b \<noteq> 0)"
      "map_option stored_meta (table_look T ks k') = Some (t, b \<noteq> 0)" by (rule metadata_row [OF T row(1)])
    then have "k' = k" "(t, b \<noteq> 0) = v" using row(2) by simp_all
    then show "map_of (map row_metadata rs) k = (map_option stored_meta \<circ> table_look T ks) k" using v e(3) by (simp only: comp_apply)
  next
    fix k assume "k \<in> dom (map_option stored_meta \<circ> table_look T ks)"
    then obtain v where v: "map_option stored_meta (table_look T ks k) = Some v" unfolding dom_def comp_def by blast
    have "(k, v) \<in> set (map row_metadata rs)" using metadata_row_of [OF T v] rs(2) by simp
    then show "(map_option stored_meta \<circ> table_look T ks) k = map_of (map row_metadata rs) k" using v map_of_is_SomeI [OF d] by simp
  qed
qed

lemma sqlite_lists:
  assumes S: "column_laws S" "list_query_laws S tb" and inv: "sqlite_inv tb c"
  shows "\<exists>r. sqlite_get_keyspace_list S c = Some (r, c) \<and> (\<forall>l. r = Inr l \<longrightarrow> (\<forall>ks k. sqlite_look tb c ks k \<noteq> None \<longrightarrow> ks \<in> set l))"
    and "\<exists>r. sqlite_iter_metadata S ks c = Some (r, c) \<and>
      (\<forall>l. r = Inr l \<longrightarrow> distinct (map fst l) \<and> map_of l = map_option stored_meta \<circ> sqlite_look tb c ks)"
proof -
  have T: "table_ok (tb c)" using inv by (simp add: sqlite_inv_def)
  let ?K = "{[SText ks] | ks i. tb c (ks, i) \<noteq> None}" and ?h = "\<lambda>row. case row of [SText ks] \<Rightarrow> ks | _ \<Rightarrow> []"
  have "lists_rows (sq_query S SELECT_KEYSPACE_LIST [] c) ?K" using S(2) by (simp add: list_query_laws_def)
  moreover have "tuple_from_row S row = Some (Inr (?h row))" if "row \<in> ?K" for row using that by (auto simp: tuple_from_row_def S(1))
  ultimately have "\<exists>r. fetch_all S (tuple_from_row S) SELECT_KEYSPACE_LIST [] c = Some (r, c) \<and>
    (\<forall>as. r = Inr as \<longrightarrow> (\<exists>rs. distinct rs \<and> set rs = ?K \<and> as = map ?h rs))" by (rule fetch_all_spec)
  then obtain r where r: "sqlite_get_keyspace_list S c = Some (r, c)" "\<forall>as. r = Inr as \<longrightarrow> (\<exists>rs. distinct rs \<and> set rs = ?K \<and> as = map ?h rs)"
    unfolding sqlite_get_keyspace_list_def by blast
  have "ks \<in> set l" if l: "r = Inr l" and k: "sqlite_look tb c ks k \<noteq> None" for l ks k
  proof -
    obtain rs where rs: "set rs = ?K" "l = map ?h rs" using r(2) l by blast
    have "[SText ks] \<in> set rs" using k unfolding rs(1) by (auto simp: sqlite_look_def table_look_def)
    then show ?thesis using rs(2) by force
  qed
  then show "\<exists>r. sqlite_get_keyspace_list S c = Some (r, c) \<and> (\<forall>l. r = Inr l \<longrightarrow> (\<forall>ks k. sqlite_look tb c ks k \<noteq> None \<longrightarrow> ks \<in> set l))"
    using r(1) by blast
  have q: "lists_rows (sq_query S SELECT_METADATA_LIST [PText ks] c) (metadata_rows (tb c) ks)" using S(2) by (simp add: list_query_laws_def metadata_rows_def)
  have "metadata_from_row S row = Some (Inr (row_metadata row))" if "row \<in> metadata_rows (tb c) ks" for row
    by (rule metadata_row [OF T that]) (simp add: doc_read S(1))
  from fetch_all_spec [where from_row = "metadata_from_row S", OF q this] show "\<exists>r. sqlite_iter_metadata S ks c = Some (r, c) \<and>
      (\<forall>l. r = Inr l \<longrightarrow> distinct (map fst l) \<and> map_of l = map_option stored_meta \<circ> sqlite_look tb c ks)"
    using metadata_rows_map [OF T] unfolding sqlite_iter_metadata_def sqlite_look_def by metis
qed

section \<open>The contract holds\<close>

lemma sqlite_ops_sel [simp]:
  "st_get_keyspace_list (sqlite_ops S) = sqlite_get_keyspace_list S" "st_iter_metadata (sqlite_ops S) = sqlite_iter_metadata S"
  "st_remove_tombstones (sqlite_ops S) = sqlite_remove_tombstones S" "st_put (sqlite_ops S) = sqlite_put S"
  "st_put_with_ctx (sqlite_ops S) ks d ctx = sqlite_put S ks d" "st_multi_put_with_ctx (sqlite_ops S) ks ds ctx = sqlite_multi_put S ks ds"
  "st_multi_put (sqlite_ops S) = sqlite_multi_put S" "st_mark_as_tombstone (sqlite_ops S) = sqlite_mark_as_tombstone S"
  "st_mark_many_as_tombstone (sqlite_ops S) = sqlite_mark_many_as_tombstone S" "st_get (sqlite_ops S) = sqlite_get S" "st_multi_get (sqlite_ops S) = sqlite_multi_get S"
  by (simp_all add: sqlite_ops_def default_put_with_ctx_def default_multi_put_with_ctx_def)

lemma sqlite_names_own: "names_own (sqlite_ops S)"
  by (auto simp: names_own_def sqlite_remove_tombstones_def sqlite_multi_put_def sqlite_mark_many_as_tombstone_def bulk_def bind_eq_Some_conv)

lemma sqlite_storage_on:
  assumes "sqlite_laws S tb xtb"
  shows "storage_on (sqlite_ops S) (sqlite_inv tb) sqlite_known (sqlite_look tb) canonical"
proof -
  have S: "write_laws S tb xtb" "doc_query_laws S tb" "list_query_laws S tb" "column_laws S" using assms by (simp_all add: sqlite_laws_def)
  show ?thesis
  proof
    fix c ks keys k ts ms
    assume inv: "sqlite_inv tb c"
    show "\<exists>r s'. st_get_keyspace_list (sqlite_ops S) c = Some (r, s') \<and> sqlite_inv tb s' \<and> sqlite_look tb s' = sqlite_look tb c \<and>
        (\<forall>ks'. sqlite_known c ks' \<longrightarrow> sqlite_known s' ks') \<and> (\<forall>l. r = Inr l \<longrightarrow> (\<forall>ks k. sqlite_look tb c ks k \<noteq> None \<longrightarrow> ks \<in> set l))"
      using sqlite_lists(1) [OF S(4,3) inv] inv by (auto simp: sqlite_known_def)
    show "\<exists>r s'. st_iter_metadata (sqlite_ops S) ks c = Some (r, s') \<and> sqlite_inv tb s' \<and> sqlite_look tb s' = sqlite_look tb c \<and>
        (\<forall>ks'. sqlite_known c ks' \<longrightarrow> sqlite_known s' ks') \<and>
        (\<forall>l. r = Inr l \<longrightarrow> distinct (map fst l) \<and> map_of l = map_option stored_meta \<circ> sqlite_look tb c ks)"
      using sqlite_lists(2) [OF S(4,3) inv, of ks] inv by (auto simp: sqlite_known_def)
    show "\<exists>r s'. st_get (sqlite_ops S) ks k c = Some (r, s') \<and> sqlite_inv tb s' \<and> sqlite_look tb s' = sqlite_look tb c \<and>
        (\<forall>d. r = Inr d \<longrightarrow> d = stored_doc (sqlite_look tb c ks k)) \<and> (\<forall>ks'. sqlite_known c ks' \<longrightarrow> sqlite_known s' ks')"
      using sqlite_gets(1) [OF S(4,2) inv, of ks k] inv by (auto simp: sqlite_known_def)
    show "\<exists>r s'. st_multi_get (sqlite_ops S) ks keys c = Some (r, s') \<and> sqlite_inv tb s' \<and> sqlite_look tb s' = sqlite_look tb c \<and>
        (\<forall>ds. r = Inr ds \<longrightarrow> mset ds = mset (List.map_filter (\<lambda>k. stored_doc (sqlite_look tb c ks k)) keys)) \<and>
        (\<forall>ks'. sqlite_known c ks' \<longrightarrow> sqlite_known s' ks')"
      using sqlite_gets(2) [OF S(4,2) inv, of ks keys] inv by (auto simp: sqlite_known_def)
    show "\<exists>r s'. st_remove_tombstones (sqlite_ops S) ks keys c = Some (r, s') \<and> sqlite_inv tb s' \<and>
        sqlite_look tb s' = (sqlite_look tb c)(ks := sqlite_look tb c ks |` (- {k \<in> set keys. applied r k})) \<and>
        (\<forall>ks'. sqlite_known c ks' \<longrightarrow> sqlite_known s' ks')"
      using sqlite_bulk_writes(3) [OF S(1) inv, of ks keys] by (simp add: sqlite_known_def)
    show "canonical ts \<Longrightarrow> \<exists>r s'. st_mark_as_tombstone (sqlite_ops S) ks k ts c = Some (r, s') \<and> sqlite_inv tb s' \<and>
        sqlite_look tb s' = (if is_ok r then (sqlite_look tb c)(ks := put_tombstones [metadata_new k ts] (sqlite_look tb c ks)) else sqlite_look tb c) \<and>
        (\<forall>ks'. sqlite_known c ks' \<longrightarrow> sqlite_known s' ks')"
      using sqlite_writes(2) [OF S(1) inv, of ts ks k] by (simp add: sqlite_known_def)
    show "\<forall>m \<in> set ms. canonical (md_last_updated m) \<Longrightarrow> \<exists>r s'. st_mark_many_as_tombstone (sqlite_ops S) ks ms c = Some (r, s') \<and> sqlite_inv tb s' \<and>
        sqlite_look tb s' = (sqlite_look tb c)(ks := put_tombstones (filter (\<lambda>d. applied r (md_id d)) ms) (sqlite_look tb c ks)) \<and>
        (\<forall>ks'. sqlite_known c ks' \<longrightarrow> sqlite_known s' ks')"
      using sqlite_bulk_writes(2) [OF S(1) inv, of ms ks] by (simp add: sqlite_known_def)
  qed (simp_all add: puts_on_def multi_puts_on_def sqlite_known_def sqlite_writes(1) [OF S(1)] sqlite_bulk_writes(1) [OF S(1)] sqlite_names_own)
qed

section \<open>Where it does not\<close>

lemma not_canonical_text:
  assumes "\<not> canonical t"
  shows "hlc_from_str (hlc_display t) \<noteq> Some (Inr t)" "unat (seconds t) = 2 ^ 32 - 1 \<Longrightarrow> hlc_from_str (hlc_display t) = None"
proof -
  let ?d = "datacake_timestamp t" and ?f = "unat (fractional t)"
  have f: "250 \<le> ?f" "?f < 256" using assms field_bounds(2) [of t] by (simp_all add: canonical_def)
  have tk: "ticks ?d = unat (seconds t) * 250 + ?f" by (rule ticks_datacake_timestamp)
  then have secs: "as_secs ?d = Suc (unat (seconds t))" using f by (simp add: as_secs_ticks)
  then show "unat (seconds t) = 2 ^ 32 - 1 \<Longrightarrow> hlc_from_str (hlc_display t) = None"
    by (simp add: from_str_display hlc_new_def TIMESTAMP_MAX_def rust_assert_def)
  show "hlc_from_str (hlc_display t) \<noteq> Some (Inr t)"
  proof
    assume "hlc_from_str (hlc_display t) = Some (Inr t)"
    then have p: "HLCTimestamp (pack ?d (counter t) (node t)) = t" "as_secs ?d < 2 ^ 32"
      by (auto simp: from_str_display hlc_new_def TIMESTAMP_MAX_def rust_assert_def split: if_splits)
    have "time40 (HLCTimestamp (pack ?d (counter t) (node t))) = upper (ticks ?d)" using p(2) by (simp add: pack_time(1))
    then have "?f = ?f div 250 * 256 + ?f mod 250" using p(1) tk by (simp add: upper_def time40_def [of t])
    moreover have "?f div 250 = 1" using f by (intro div_nat_eqI) simp_all
    ultimately show False using div_mult_mod_eq [of ?f 250] by linarith
  qed
qed

lemma fetch_each_refused:
  assumes S: "doc_query_laws S tb" "column_laws S" and T: "table_ok (tb c)" and k: "k \<in> set keys" "2 ^ 63 \<le> uint k"
  shows "\<exists>e. fetch_each S (doc_from_row S) SELECT_DOC (map (\<lambda>k. [PText ks, PU64 k]) keys) c = Some (Inl e)"
  using k(1)
proof (induction keys)
  case (Cons j keys)
  obtain r where r: "query_row_as S (doc_from_row S) SELECT_DOC [PText ks, PU64 j] c = Some r" using query_doc_spec [OF S(2,1) T, of "PU64 j" j ks] by blast
  obtain r' where r': "fetch_each S (doc_from_row S) SELECT_DOC (map (\<lambda>k. [PText ks, PU64 k]) keys) c = Some r'"
    using fetch_each_spec [OF S(2,1) T] by blast
  show ?case
  proof (cases "j = k")
    case True
    have "\<not> uint k < 2 ^ 63" using k(2) by simp
    then obtain e where "sq_query_row S SELECT_DOC [PText ks, PU64 k] c = Inl e" "e \<noteq> no_rows S" using S(1) unfolding doc_query_laws_def by meson
    then show ?thesis using True by (simp add: query_row_as_def optional_def)
  next
    case False
    then have "k \<in> set keys" using Cons.prems by simp
    then obtain e where "fetch_each S (doc_from_row S) SELECT_DOC (map (\<lambda>k. [PText ks, PU64 k]) keys) c = Some (Inl e)" using Cons.IH by blast
    then show ?thesis using r by (cases "optional S r") simp_all
  qed
qed simp

lemma put_row:
  assumes S: "write_laws S tb xtb" and p: "sqlite_put S ks d c = Some (Inr u, c')"
  shows "tb c' (ks, sint (doc_id d)) = Some (hlc_display (last_updated d), Some (doc_data d))"
proof -
  obtain r c1 where r: "sqlite_execute S INSERT (doc_params ks d) c = Some (r, c1)" "tb c1 = (if is_ok r then row_put ks d (tb c) else tb c)"
    using execute_spec [OF S statement_effects(1)] by blast
  then have "map_sum id (\<lambda>n. ()) r = Inr u" "c1 = c'" using p by (simp_all add: sqlite_put_def executed_def)
  then show ?thesis using r(2) by (cases r) (simp_all add: row_put_def)
qed

lemma get_not_canonical:
  assumes S: "sqlite_laws S tb xtb" and t: "\<not> canonical t" and row: "tb c (ks, sint k) = Some (hlc_display t, Some b)"
  shows "sqlite_get S ks k c \<noteq> Some (Inr None, c')" "sqlite_get S ks k c \<noteq> Some (Inr (Some (document_new k t b)), c')"
    "unat (seconds t) = 2 ^ 32 - 1 \<Longrightarrow> sqlite_get S ks k c \<noteq> Some (Inr r, c')"
proof -
  have laws: "doc_query_laws S tb" "column_laws S" using S by (simp_all add: sqlite_laws_def)
  consider e where "sq_query_row S SELECT_DOC [PText ks, PI64 (sint k)] c = Inl e" "e \<noteq> no_rows S"
    | "sq_query_row S SELECT_DOC [PText ks, PI64 (sint k)] c = Inr [SInteger (sint k), SText (hlc_display t), SBlob b]"
    using laws(1) row unfolding doc_query_laws_def by (cases "sq_query_row S SELECT_DOC [PText ks, PI64 (sint k)] c") (metis, fastforce)
  then have q: "(\<exists>e. query_row_as S (doc_from_row S) SELECT_DOC [PText ks, PI64 (sint k)] c = Some (Inl e) \<and> e \<noteq> no_rows S) \<or>
    query_row_as S (doc_from_row S) SELECT_DOC [PText ks, PI64 (sint k)] c =
      map_option (\<lambda>ts. Inr (document_new k ts b)) (hlc_new (datacake_timestamp t) (counter t) (node t))"
    by cases (auto simp: query_row_as_def doc_from_row_def laws(2) timestamp_of_text_def from_str_display bind_map_option comp_def map_conv_bind_option)
  then have g: "sqlite_get S ks k c = Some (r, c'') \<Longrightarrow> (\<exists>e. r = Inl e) \<or> (\<exists>t'. hlc_from_str (hlc_display t) = Some (Inr t') \<and> r = Inr (Some (document_new k t' b)))" for r c''
    by (cases "hlc_new (datacake_timestamp t) (counter t) (node t)")
      (auto simp: sqlite_get_def fetch_one_def optional_def from_str_display split: sum.splits if_splits)
  show "sqlite_get S ks k c \<noteq> Some (Inr None, c')" using g [of "Inr None"] by auto
  show "sqlite_get S ks k c \<noteq> Some (Inr (Some (document_new k t b)), c')"
    using g [of "Inr (Some (document_new k t b))"] not_canonical_text(1) [OF t] by (auto simp: document_new_def)
  show "unat (seconds t) = 2 ^ 32 - 1 \<Longrightarrow> sqlite_get S ks k c \<noteq> Some (Inr r, c')" using g [of "Inr r"] not_canonical_text(2) [OF t] by auto
qed

lemma open_keeps:
  assumes S: "write_laws S tb xtb" and o: "sqlite_open S (Inr c) = Some (Inr c')"
  shows "tb c' = tb c"
proof -
  note k = write_lawsD(5) [OF S]
  have 1: "tb (snd (sq_execute S ''pragma synchronous = normal;'' [] c)) = tb c" for c by (rule k) simp
  have 2: "tb (snd (sq_execute S ''pragma temp_store = memory;'' [] c)) = tb c" for c by (rule k) simp
  have 3: "tb (snd (sq_execute S CREATE_TABLE [] c)) = tb c" for c by (rule k) simp
  obtain c1 r c2 where c1: "sqlite_setup_disk_handle S (Inr c) = Inr c1" "setup_db S c1 = Some (r, c2)" "map_sum id (\<lambda>u. c2) r = Inr c'"
    using o by (auto simp: sqlite_open_def bind_eq_Some_conv split: sum.splits)
  then have r: "r = Inr ()" "c2 = c'" by (cases r; simp)+
  have "tb c1 = tb c" using c1(1) 1 [of c] 2
    by (auto simp: sqlite_setup_disk_handle_def and_then_def split: sum.splits prod.splits) (metis snd_conv)
  moreover have "tb c' = tb c1" using c1(2) r 3 [of c1]
    by (auto simp: setup_db_def sqlite_execute_def map_sum_def split: sum.splits prod.splits)
  ultimately show ?thesis by simp
qed

section \<open>A database\<close>

text \<open>The laws hold of a table that is kept as a list of rows, where nothing fails but what the laws refuse.\<close>

type_synonym rows = "((string \<times> int) \<times> (string \<times> u8 list option)) list"

definition rows_effect :: "string \<Rightarrow> sql_param list \<Rightarrow> rows \<Rightarrow> rows" where
  "rows_effect sql params T =
     (case params of
        [PText ks, PI64 i, PText ts, PBlob d] \<Rightarrow> if sql = INSERT then ((ks, i), (ts, Some d)) # T else T
      | [PText ks, PI64 i, PText ts] \<Rightarrow> if sql = SET_TOMBSTONE then ((ks, i), (ts, None)) # T else T
      | [PText ks, PI64 i] \<Rightarrow> if sql = DELETE_TOMBSTONE then AList.delete (ks, i) T else T
      | _ \<Rightarrow> T)"

definition rows_doc :: "string \<Rightarrow> int \<Rightarrow> rows \<Rightarrow> string + sql_row" where
  "rows_doc ks i T = (case map_of T (ks, i) of Some (ts, Some d) \<Rightarrow> Inr [SInteger i, SText ts, SBlob d] | _ \<Rightarrow> Inl ''no rows'')"

definition rows_query_row :: "string \<Rightarrow> sql_param list \<Rightarrow> rows \<Rightarrow> string + sql_row" where
  "rows_query_row sql params T =
     (case params of
        [PText ks, PI64 i] \<Rightarrow> rows_doc ks i T
      | [PText ks, PU64 k] \<Rightarrow> if uint k < 2 ^ 63 then rows_doc ks (uint k) T else Inl ''out of range''
      | _ \<Rightarrow> Inr [])"

definition rows_query :: "string \<Rightarrow> sql_param list \<Rightarrow> rows \<Rightarrow> string + (string + sql_row) list" where
  "rows_query sql params T =
     (case params of
        [PText ks] \<Rightarrow> Inr (map (\<lambda>i. Inr (case the (map_of T (ks, i)) of (ts, d) \<Rightarrow> [SInteger i, SText ts, SInteger (if d = None then 1 else 0)]))
          (remdups (map (snd \<circ> fst) (filter (\<lambda>r. fst (fst r) = ks) T))))
      | _ \<Rightarrow> Inr (map (\<lambda>ks. Inr [SText ks]) (remdups (map (fst \<circ> fst) T))))"

definition rows_sqlite :: "(rows, rows, string) rusqlite" where
  "rows_sqlite = \<lparr>sq_prepare = (\<lambda>sql T. Inr ()), sq_execute = (\<lambda>sql ps T. (Inr 1, rows_effect sql ps T)), sq_query_row = rows_query_row, sq_query = rows_query,
     sq_transaction = Inr, tx_prepare = (\<lambda>sql T. Inr ()), tx_execute = (\<lambda>sql ps T. Inr (1, rows_effect sql ps T)), tx_commit = (\<lambda>T T'. (Inr (), T)),
     get_i64 = (\<lambda>row n. case row ! n of SInteger i \<Rightarrow> Inr i | _ \<Rightarrow> Inl ''type''), get_string = (\<lambda>row n. case row ! n of SText s \<Rightarrow> Inr s | _ \<Rightarrow> Inl ''type''),
     get_blob = (\<lambda>row n. case row ! n of SBlob b \<Rightarrow> Inr b | _ \<Rightarrow> Inl ''type''), get_bool = (\<lambda>row n. case row ! n of SInteger i \<Rightarrow> Inr (i \<noteq> 0) | _ \<Rightarrow> Inl ''type''),
     no_rows = ''no rows'', conversion_failure = (\<lambda>e. ''conversion'')\<rparr>"

lemma rows_effect_map: "sql_effect sql ps = Some f \<Longrightarrow> map_of (rows_effect sql ps T) = f (map_of T)"
  by (auto simp: sql_effect_def rows_effect_def AList.delete_conv' split: list.splits sql_param.splits if_splits)

lemma rows_ids: "i \<in> set (map (snd \<circ> fst) (filter (\<lambda>r. fst (fst r) = ks) T)) \<longleftrightarrow> map_of T (ks, i) \<noteq> None"
  by (force simp: map_of_eq_None_iff)

lemma lists_rows_map:
  assumes "distinct ids" "inj_on g (set ids)" "g ` set ids = R"
  shows "lists_rows (Inr (map (\<lambda>i. Inr (g i)) ids) :: 'x + ('x + sql_row) list) R"
proof -
  have "rs = map g ids" if "map (\<lambda>i. Inr (g i) :: 'x + sql_row) ids = map Inr rs" for rs
    using arg_cong [OF that, of "map projr"] by (simp add: comp_def)
  then show ?thesis using assms by (auto simp: lists_rows_def distinct_map)
qed

lemma rows_list_laws: "list_query_laws rows_sqlite map_of"
  unfolding list_query_laws_def
proof (intro conjI allI)
  fix ks and T :: rows
  let ?g = "\<lambda>i. case the (map_of T (ks, i)) of (ts, d) \<Rightarrow> [SInteger i, SText ts, SInteger (if d = None then 1 else 0)]"
  let ?ids = "remdups (map (snd \<circ> fst) (filter (\<lambda>r. fst (fst r) = ks) T))"
  have i: "i \<in> set ?ids \<longleftrightarrow> map_of T (ks, i) \<noteq> None" for i using rows_ids [of i ks T] by simp
  have "?g ` set ?ids = {[SInteger i, SText ts, SInteger (if d = None then 1 else 0)] | i ts d. map_of T (ks, i) = Some (ts, d)}"
  proof (intro set_eqI iffI)
    fix x assume "x \<in> ?g ` set ?ids"
    then obtain j ts d where "x = ?g j" "map_of T (ks, j) = Some (ts, d)" using i by fast
    then have "x = [SInteger j, SText ts, SInteger (if d = None then 1 else 0)]" "map_of T (ks, j) = Some (ts, d)" by simp_all
    then show "x \<in> {[SInteger i, SText ts, SInteger (if d = None then 1 else 0)] | i ts d. map_of T (ks, i) = Some (ts, d)}" by blast
  next
    fix x assume "x \<in> {[SInteger i, SText ts, SInteger (if d = None then 1 else 0)] | i ts d. map_of T (ks, i) = Some (ts, d)}"
    then obtain j ts d where "x = [SInteger j, SText ts, SInteger (if d = None then 1 else 0)]" "map_of T (ks, j) = Some (ts, d)" by blast
    then have "x = ?g j" "j \<in> set ?ids" using i by simp_all
    then show "x \<in> ?g ` set ?ids" by (rule image_eqI)
  qed
  moreover have "inj_on ?g (set ?ids)" by (auto simp: inj_on_def split: prod.splits)
  ultimately have "lists_rows (Inr (map (\<lambda>i. Inr (?g i)) ?ids) :: string + (string + sql_row) list)
    {[SInteger i, SText ts, SInteger (if d = None then 1 else 0)] | i ts d. map_of T (ks, i) = Some (ts, d)}" by (intro lists_rows_map) simp_all
  then show "lists_rows (sq_query rows_sqlite SELECT_METADATA_LIST [PText ks] T)
    {[SInteger i, SText ts, SInteger (if d = None then 1 else 0)] | i ts d. map_of T (ks, i) = Some (ts, d)}"
    by (simp only: rows_sqlite_def rusqlite.simps rows_query_def list.case sql_param.case)
next
  fix T :: rows
  have "(\<lambda>ks. [SText ks]) ` set (remdups (map (fst \<circ> fst) T)) = {[SText ks] | ks i. map_of T (ks, i) \<noteq> None}"
    by (force simp: map_of_eq_None_iff)
  then have "lists_rows (Inr (map (\<lambda>ks. Inr [SText ks]) (remdups (map (fst \<circ> fst) T))) :: string + (string + sql_row) list) {[SText ks] | ks i. map_of T (ks, i) \<noteq> None}"
    by (intro lists_rows_map) (simp_all add: inj_on_def)
  then show "lists_rows (sq_query rows_sqlite SELECT_KEYSPACE_LIST [] T) {[SText ks] | ks i. map_of T (ks, i) \<noteq> None}"
    by (simp only: rows_sqlite_def rusqlite.simps rows_query_def list.case)
qed

lemma rows_laws: "sqlite_laws rows_sqlite map_of map_of"
  unfolding sqlite_laws_def
proof (intro conjI)
  show "write_laws rows_sqlite map_of map_of"
    by (auto simp: write_laws_def rows_sqlite_def rows_effect_map) (simp_all add: rows_effect_def)
  show "doc_query_laws rows_sqlite map_of"
    by (auto simp: doc_query_laws_def rows_sqlite_def rows_query_row_def rows_doc_def split: option.splits)
  show "column_laws rows_sqlite" by (simp add: column_laws_def rows_sqlite_def)
  show "list_query_laws rows_sqlite map_of" by (rule rows_list_laws)
qed

section \<open>Properties\<close>

text \<open>C26. Over a database that does what its statements say the SQLite store keeps the contract, the laws the system and its
  conformance suite rely on, for documents and tombstones whose timestamps have a fraction below 250: every operation
  returns without a panic, keeps every row one that reads back, and does what the contract says of the
  documents and tombstones of a keyspace, a bulk operation for all its ids on success and for none
  on an error. Marking a document
  that is not stored leaves a tombstone: this is what the conformance suite asserts and the store does, where the documentation of the trait says no-op. A store opened again has the same rows.\<close>

theorem sqlite_keeps_contract:
  assumes "sqlite_laws S tb xtb"
  shows "storage_on (sqlite_ops S) (sqlite_inv tb) sqlite_known (sqlite_look tb) canonical \<and>
    (\<forall>c c'. sqlite_open S (Inr c) = Some (Inr c') \<longrightarrow> sqlite_look tb c' = sqlite_look tb c)"
  using sqlite_storage_on [OF assms] open_keeps [of S tb xtb] assms by (auto simp: sqlite_laws_def sqlite_look_def)

definition sample_rows :: rows where
  "sample_rows = [((''a'', sint (2 ^ 63 :: key)), (hlc_display (HLCTimestamp 5), Some [7]))]"

lemma sample_rows_ok: "sqlite_inv map_of sample_rows"
  unfolding sqlite_inv_def table_ok_def
  by (auto simp: sample_rows_def canonical_def fractional_def split: if_splits intro!: exI [of _ "HLCTimestamp 5"] exI [of _ "2 ^ 63 :: key"])

theorem sqlite_keeps_contract_witness:
  "storage_on (sqlite_ops rows_sqlite) (sqlite_inv map_of) sqlite_known (sqlite_look map_of) canonical \<and>
   (\<exists>c. sqlite_open rows_sqlite (Inr sample_rows) = Some (Inr c) \<and> sqlite_look map_of c = sqlite_look map_of sample_rows)"
proof -
  have "sqlite_open rows_sqlite (Inr sample_rows) = Some (Inr sample_rows)"
    by (simp add: sqlite_open_def sqlite_setup_disk_handle_def setup_db_def sqlite_execute_def rows_sqlite_def rows_query_row_def rows_effect_def)
  then show ?thesis using sqlite_keeps_contract [OF rows_laws] by blast
qed

text \<open>A bulk read with an id of 64 bits is refused: \<open>multi_get\<close> binds the ids unsigned, where every other
  operation casts them to the signed integers of the database, so a read of several documents fails
  with an error for an id of \<open>2 ^ 63\<close> or more, also where a document with that id is stored.\<close>

lemma sqlite_multi_get_refuses_large_ids:
  assumes "sqlite_laws S tb xtb" "sqlite_inv tb c" "k \<in> set keys" "2 ^ 63 \<le> uint k"
  shows "\<exists>e. sqlite_multi_get S ks keys c = Some (Inl e, c)"
proof -
  have "doc_query_laws S tb" "column_laws S" "table_ok (tb c)" using assms(1,2) by (simp_all add: sqlite_laws_def sqlite_inv_def)
  from fetch_each_refused [OF this assms(3,4), of ks] show ?thesis
    by (cases "sq_prepare S SELECT_DOC c") (auto simp: sqlite_multi_get_def fetch_many_def)
qed

lemma sqlite_multi_get_refuses_large_ids_witness:
  "sqlite_get rows_sqlite ''a'' (2 ^ 63) sample_rows = Some (Inr (Some (document_new (2 ^ 63) (HLCTimestamp 5) [7])), sample_rows) \<and>
   (\<exists>e. sqlite_multi_get rows_sqlite ''a'' [2 ^ 63] sample_rows = Some (Inl e, sample_rows))"
proof
  have "canonical (HLCTimestamp 5)" by (simp add: canonical_def fractional_def)
  moreover have "column_laws rows_sqlite" using rows_laws by (simp only: sqlite_laws_def)
  moreover have q: "sq_prepare rows_sqlite SELECT_DOC sample_rows = Inr ()"
    "sq_query_row rows_sqlite SELECT_DOC [PText ''a'', PI64 (- 9223372036854775808)] sample_rows =
      Inr [SInteger (- 9223372036854775808), SText (hlc_display (HLCTimestamp 5)), SBlob [7]]"
    by (simp_all add: rows_sqlite_def rows_query_row_def rows_doc_def sample_rows_def)
  ultimately have "doc_from_row rows_sqlite [SInteger (sint (2 ^ 63 :: key)), SText (hlc_display (HLCTimestamp 5)), SBlob [7]] =
      Some (Inr (document_new (2 ^ 63) (HLCTimestamp 5) [7]))"
    by (intro doc_read(1))
  then show "sqlite_get rows_sqlite ''a'' (2 ^ 63) sample_rows = Some (Inr (Some (document_new (2 ^ 63) (HLCTimestamp 5) [7])), sample_rows)"
    by (simp add: sqlite_get_def fetch_one_def query_row_as_def optional_def q)
  show "\<exists>e. sqlite_multi_get rows_sqlite ''a'' [2 ^ 63] sample_rows = Some (Inl e, sample_rows)"
    by (rule sqlite_multi_get_refuses_large_ids [OF rows_laws sample_rows_ok, where k = "2 ^ 63"]) simp_all
qed

text \<open>C29. A timestamp whose fraction is 250 or more, which no clock makes but a peer can send, is not the one the
  store reads back: the document that was put is never returned again, and where the seconds are the
  largest of 32 bits reading it panics or fails.\<close>

theorem sqlite_rewrites_timestamp:
  assumes "sqlite_laws S tb xtb" "\<not> canonical (last_updated d)" "sqlite_put S ks d c = Some (Inr (), c')"
  shows "sqlite_get S ks (doc_id d) c' \<noteq> Some (Inr (Some d), c'') \<and>
    (unat (seconds (last_updated d)) = 2 ^ 32 - 1 \<longrightarrow> (\<forall>r. sqlite_get S ks (doc_id d) c' \<noteq> Some (Inr r, c'')))"
proof -
  have "write_laws S tb xtb" using assms(1) by (simp add: sqlite_laws_def)
  note row = put_row [OF this assms(3)]
  show ?thesis using get_not_canonical(2,3) [OF assms(1,2) row] unfolding document_same by blast
qed

definition odd_document :: document where
  "odd_document = document_new 1 (HLCTimestamp 0xFFFFFFFFFF000000) []"

theorem sqlite_rewrites_timestamp_witness:
  "\<exists>c'. sqlite_put rows_sqlite ''a'' odd_document [] = Some (Inr (), c') \<and> (\<forall>r. sqlite_get rows_sqlite ''a'' 1 c' \<noteq> Some (Inr r, c'))"
proof -
  have d: "last_updated odd_document = HLCTimestamp 0xFFFFFFFFFF000000" "doc_id odd_document = 1"
    by (simp_all add: odd_document_def document_new_def last_updated_def doc_id_def)
  have "\<not> canonical (last_updated odd_document)" "unat (seconds (last_updated odd_document)) = 2 ^ 32 - 1"
    by (simp_all add: d canonical_def fractional_def seconds_def)
  moreover have "\<exists>c'. sqlite_put rows_sqlite ''a'' odd_document [] = Some (Inr (), c')"
    by (simp add: sqlite_put_def executed_def sqlite_execute_def rows_sqlite_def)
  ultimately show ?thesis using sqlite_rewrites_timestamp [OF rows_laws] d(2) by metis
qed

end
