(* ===== verification/Shards.thy ===== *)
theory Shards
  imports SqliteStore
begin

text \<open>
  The sharded store of \<^verbatim>\<open>examples/replicated-kv/src/storage.rs\<close>: several stores, each with the keys that hash to it.
  An operation on one key goes to the store of the key; a bulk operation is split into a block per
  store and its error names the ids of all blocks that went through. The shards of the example are
  SQLite stores; here they are the stores \<open>ops\<close>, and the hash is the parameter \<open>hash\<close>.
\<close>

section \<open>The store\<close>

text \<open>The rest by the number of shards, which panics when there are none.\<close>

definition get_shard_id :: "(key \<Rightarrow> u64) \<Rightarrow> 's list \<Rightarrow> key \<Rightarrow> nat exec" where
  "get_shard_id hash shards k = (if shards = [] then None else Some (unat (hash k) mod length shards))"

primrec open_shards :: "(nat \<Rightarrow> ('e + 's) exec) \<Rightarrow> nat list \<Rightarrow> ('e + 's list) exec" where
  "open_shards open_db [] = Some (Inr [])"
| "open_shards open_db (i # is) =
     do { r \<leftarrow> open_db i;
          case r of
            Inl e \<Rightarrow> Some (Inl e)
          | Inr db \<Rightarrow> do { r \<leftarrow> open_shards open_db is; Some (map_sum id (\<lambda>shards. db # shards) r) } }"

definition open_in_dir :: "'e + unit \<Rightarrow> nat \<Rightarrow> (nat \<Rightarrow> ('e + 's) exec) \<Rightarrow> ('e + 's list) exec" where
  "open_in_dir create_dir num_cpus open_db =
     (case create_dir of Inl e \<Rightarrow> Some (Inl e) | Inr u \<Rightarrow> open_shards open_db [0..<min num_cpus 16])"

text \<open>A call of one shard.\<close>

definition on_shard :: "(key \<Rightarrow> u64) \<Rightarrow> key \<Rightarrow> ('s, 'r) action \<Rightarrow> ('s list, 'r) action" where
  "on_shard hash k act shards =
     do { i \<leftarrow> get_shard_id hash shards k; (r, s) \<leftarrow> act (shards ! i); Some (r, shards[i := s]) }"

text \<open>A block per shard, filled in the order of the items.\<close>

primrec fill_blocks :: "(key \<Rightarrow> u64) \<Rightarrow> 's list \<Rightarrow> ('a \<Rightarrow> key) \<Rightarrow> 'a list \<Rightarrow> 'a list list \<Rightarrow> 'a list list exec" where
  "fill_blocks hash shards item_id [] blocks = Some blocks"
| "fill_blocks hash shards item_id (x # xs) blocks =
     do { i \<leftarrow> get_shard_id hash shards (item_id x); fill_blocks hash shards item_id xs (blocks[i := blocks ! i @ [x]]) }"

definition shard_blocks :: "(key \<Rightarrow> u64) \<Rightarrow> 's list \<Rightarrow> ('a \<Rightarrow> key) \<Rightarrow> 'a list \<Rightarrow> 'a list list exec" where
  "shard_blocks hash shards item_id xs = fill_blocks hash shards item_id xs (replicate (length shards) [])"

text \<open>The loop of the reads: the first error is returned.\<close>

fun read_shards :: "('b \<Rightarrow> ('s, 'e + 'r list) action) \<Rightarrow> 'b list \<Rightarrow> ('s list, 'e + 'r list) action" where
  "read_shards f (b # bs) (s # shards) =
     do { (r, s) \<leftarrow> f b s;
          case r of
            Inl e \<Rightarrow> Some (Inl e, s # shards)
          | Inr rs \<Rightarrow> do { (r, shards) \<leftarrow> read_shards f bs shards; Some (map_sum id (\<lambda>rs'. rs @ rs') r, s # shards) } }"
| "read_shards f bs shards = Some (Inr [], shards)"

text \<open>The loop of the bulk writes: every shard is called, the ids that went through are collected.\<close>

fun write_shards ::
  "('a list \<Rightarrow> ('s, 'e bulk_result) action) \<Rightarrow> ('a \<Rightarrow> key) \<Rightarrow> 'a list list \<Rightarrow> 'e option \<times> key list \<Rightarrow> ('s list, 'e option \<times> key list) action" where
  "write_shards f item_id (b # bs) (error, successful_ids) (s # shards) =
     do { (r, s) \<leftarrow> f b s;
          (acc, shards) \<leftarrow> write_shards f item_id bs
            (case r of Inl e \<Rightarrow> (Some (bulk_inner e), successful_ids @ successful_doc_ids e)
                     | Inr u \<Rightarrow> (error, successful_ids @ map item_id b)) shards;
          Some (acc, s # shards) }"
| "write_shards f item_id bs acc shards = Some (acc, shards)"

definition shards_bulk :: "(key \<Rightarrow> u64) \<Rightarrow> ('a \<Rightarrow> key) \<Rightarrow> ('a list \<Rightarrow> ('s, 'e bulk_result) action) \<Rightarrow> 'a list \<Rightarrow> ('s list, 'e bulk_result) action" where
  "shards_bulk hash item_id f xs shards =
     do { blocks \<leftarrow> shard_blocks hash shards item_id xs;
          ((error, successful_ids), shards) \<leftarrow> write_shards f item_id blocks (None, []) shards;
          Some (case error of Some e \<Rightarrow> Inl (bulk_error_new e successful_ids) | None \<Rightarrow> Inr (), shards) }"

definition shards_get_keyspace_list :: "('s, 'e) storage_ops \<Rightarrow> ('s list, 'e + string list) action" where
  "shards_get_keyspace_list ops shards =
     do { (r, shards) \<leftarrow> read_shards (\<lambda>u. st_get_keyspace_list ops) (replicate (length shards) ()) shards;
          Some (map_sum id (\<lambda>l. map fst (fold (\<lambda>ks m. bt_insert ks () m) l [])) r, shards) }"

definition shards_iter_metadata :: "('s, 'e) storage_ops \<Rightarrow> string \<Rightarrow> ('s list, 'e + (key \<times> hlc_timestamp \<times> bool) list) action" where
  "shards_iter_metadata ops ks shards = read_shards (\<lambda>u. st_iter_metadata ops ks) (replicate (length shards) ()) shards"

definition shards_multi_get :: "(key \<Rightarrow> u64) \<Rightarrow> ('s, 'e) storage_ops \<Rightarrow> string \<Rightarrow> key list \<Rightarrow> ('s list, 'e + document list) action" where
  "shards_multi_get hash ops ks keys shards =
     do { blocks \<leftarrow> shard_blocks hash shards (\<lambda>k. k) keys; read_shards (st_multi_get ops ks) blocks shards }"

definition shards_remove_tombstones :: "(key \<Rightarrow> u64) \<Rightarrow> ('s, 'e) storage_ops \<Rightarrow> string \<Rightarrow> key list \<Rightarrow> ('s list, 'e bulk_result) action" where
  "shards_remove_tombstones hash ops ks = shards_bulk hash (\<lambda>k. k) (st_remove_tombstones ops ks)"

definition shards_put :: "(key \<Rightarrow> u64) \<Rightarrow> ('s, 'e) storage_ops \<Rightarrow> string \<Rightarrow> document \<Rightarrow> ('s list, 'e + unit) action" where
  "shards_put hash ops ks d = on_shard hash (doc_id d) (st_put ops ks d)"

definition shards_multi_put :: "(key \<Rightarrow> u64) \<Rightarrow> ('s, 'e) storage_ops \<Rightarrow> string \<Rightarrow> document list \<Rightarrow> ('s list, 'e bulk_result) action" where
  "shards_multi_put hash ops ks = shards_bulk hash doc_id (st_multi_put ops ks)"

definition shards_mark_as_tombstone :: "(key \<Rightarrow> u64) \<Rightarrow> ('s, 'e) storage_ops \<Rightarrow> string \<Rightarrow> key \<Rightarrow> hlc_timestamp \<Rightarrow> ('s list, 'e + unit) action" where
  "shards_mark_as_tombstone hash ops ks k ts = on_shard hash k (st_mark_as_tombstone ops ks k ts)"

definition shards_mark_many_as_tombstone :: "(key \<Rightarrow> u64) \<Rightarrow> ('s, 'e) storage_ops \<Rightarrow> string \<Rightarrow> document_metadata list \<Rightarrow> ('s list, 'e bulk_result) action" where
  "shards_mark_many_as_tombstone hash ops ks = shards_bulk hash md_id (st_mark_many_as_tombstone ops ks)"

definition shards_get :: "(key \<Rightarrow> u64) \<Rightarrow> ('s, 'e) storage_ops \<Rightarrow> string \<Rightarrow> key \<Rightarrow> ('s list, 'e + document option) action" where
  "shards_get hash ops ks k = on_shard hash k (st_get ops ks k)"

text \<open>The operations with a context are the defaults of the trait.\<close>

definition shards_ops :: "(key \<Rightarrow> u64) \<Rightarrow> ('s, 'e) storage_ops \<Rightarrow> ('s list, 'e) storage_ops" where
  "shards_ops hash ops = \<lparr>st_get_keyspace_list = shards_get_keyspace_list ops, st_iter_metadata = shards_iter_metadata ops,
     st_remove_tombstones = shards_remove_tombstones hash ops,
     st_put_with_ctx = default_put_with_ctx (shards_put hash ops), st_put = shards_put hash ops,
     st_multi_put_with_ctx = default_multi_put_with_ctx (shards_multi_put hash ops), st_multi_put = shards_multi_put hash ops,
     st_mark_as_tombstone = shards_mark_as_tombstone hash ops, st_mark_many_as_tombstone = shards_mark_many_as_tombstone hash ops,
     st_get = shards_get hash ops, st_multi_get = shards_multi_get hash ops\<rparr>"

lemmas shards_defs = shards_ops_def shards_remove_tombstones_def shards_put_def shards_multi_put_def shards_mark_as_tombstone_def
  shards_mark_many_as_tombstone_def shards_get_def

lemma shards_puts_fields:
  "st_put (shards_ops hash ops) = shards_put hash ops" "st_put_with_ctx (shards_ops hash ops) ks d ctx = shards_put hash ops ks d"
  "st_multi_put (shards_ops hash ops) = shards_multi_put hash ops" "st_multi_put_with_ctx (shards_ops hash ops) ks ds ctx = shards_multi_put hash ops ks ds"
  by (simp_all add: shards_ops_def default_put_with_ctx_def default_multi_put_with_ctx_def)

section \<open>Blocks\<close>

definition shard_of :: "(key \<Rightarrow> u64) \<Rightarrow> nat \<Rightarrow> key \<Rightarrow> nat" where
  "shard_of hash n k = unat (hash k) mod n"

lemma get_shard_id_Some: "shards \<noteq> [] \<Longrightarrow> get_shard_id hash shards k = Some (shard_of hash (length shards) k)"
  by (simp add: get_shard_id_def shard_of_def)

lemma shard_of_less: "0 < n \<Longrightarrow> shard_of hash n k < n"
  by (simp add: shard_of_def)

lemma fill_blocks_Some:
  assumes "shards \<noteq> []" "length blocks = length shards"
  shows "fill_blocks hash shards item_id xs blocks =
    Some (map (\<lambda>i. blocks ! i @ filter (\<lambda>x. shard_of hash (length shards) (item_id x) = i) xs) [0..<length shards])"
  using assms(2)
proof (induction xs arbitrary: blocks)
  case Nil
  then show ?case using map_nth [of blocks] by simp
next
  case (Cons x xs)
  let ?j = "shard_of hash (length shards) (item_id x)"
  have j: "?j < length shards" using assms(1) by (simp add: shard_of_less)
  show ?case
    using Cons.IH [of "blocks[?j := blocks ! ?j @ [x]]"] Cons.prems j
    by (auto simp: get_shard_id_Some [OF assms(1)] nth_list_update intro!: map_cong)
qed

lemma shard_blocks_Some:
  assumes "shards \<noteq> []"
  shows "shard_blocks hash shards item_id xs = Some (map (\<lambda>i. filter (\<lambda>x. shard_of hash (length shards) (item_id x) = i) xs) [0..<length shards])"
  using fill_blocks_Some [OF assms, of "replicate (length shards) []" hash item_id xs] by (simp add: shard_blocks_def)

section \<open>Loops\<close>

lemma read_shards_spec:
  assumes "length bs = length shards" "\<forall>i < length shards. \<exists>r s'. f (bs ! i) (shards ! i) = Some (r, s') \<and> Q i (shards ! i) s' \<and> (\<forall>l. r = Inr l \<longrightarrow> P i l)"
  shows "\<exists>r shards'. read_shards f bs shards = Some (r, shards') \<and> length shards' = length shards \<and>
    (\<forall>i < length shards. shards' ! i = shards ! i \<or> Q i (shards ! i) (shards' ! i)) \<and>
    (\<forall>l. r = Inr l \<longrightarrow> (\<exists>ls. length ls = length shards \<and> (\<forall>i < length shards. P i (ls ! i)) \<and> l = concat ls))"
  using assms
proof (induction bs arbitrary: shards P Q)
  case (Cons b bs all)
  then obtain s shards where sh: "all = s # shards" "length bs = length shards" by (cases all) auto
  obtain r s' where r: "f b s = Some (r, s')" "Q 0 s s'" "\<forall>l. r = Inr l \<longrightarrow> P 0 l" using Cons.prems(2) [rule_format, of 0] sh by auto
  show ?case
  proof (cases r)
    case (Inl e)
    then show ?thesis using r sh by (auto simp: less_Suc_eq_0_disj)
  next
    case (Inr l0)
    have "\<forall>i < length shards. \<exists>r s'. f (bs ! i) (shards ! i) = Some (r, s') \<and> Q (Suc i) (shards ! i) s' \<and> (\<forall>l. r = Inr l \<longrightarrow> P (Suc i) l)"
      using Cons.prems(2) sh by auto
    from Cons.IH [where Q = "\<lambda>i. Q (Suc i)" and P = "\<lambda>i. P (Suc i)", OF sh(2) this] obtain r' shards' where
      r': "read_shards f bs shards = Some (r', shards')" "length shards' = length shards"
        "\<forall>i < length shards. shards' ! i = shards ! i \<or> Q (Suc i) (shards ! i) (shards' ! i)"
        "\<forall>l. r' = Inr l \<longrightarrow> (\<exists>ls. length ls = length shards \<and> (\<forall>i < length shards. P (Suc i) (ls ! i)) \<and> l = concat ls)"
      by blast
    have "\<exists>ls. length ls = Suc (length shards) \<and> (\<forall>i < Suc (length shards). P i (ls ! i)) \<and> l0 @ l = concat ls" if l: "r' = Inr l" for l
    proof -
      obtain ls where "length ls = length shards" "\<forall>i < length shards. P (Suc i) (ls ! i)" "l = concat ls" using r'(4) l by blast
      then show ?thesis using r(3) Inr by (intro exI [of _ "l0 # ls"]) (auto simp: less_Suc_eq_0_disj)
    qed
    then show ?thesis using r(1,2) Inr r'(1-3) sh by (cases r') (auto simp: less_Suc_eq_0_disj)
  qed
qed simp

lemma write_shards_spec:
  assumes "length bs = length shards"
    and "\<forall>i < length shards. \<exists>r s'. f (bs ! i) (shards ! i) = Some (r, s') \<and> Q i r s' \<and> names_only (item_id ` set (bs ! i)) r"
  shows "\<exists>e ok shards' rs. write_shards f item_id bs (e0, ok0) shards = Some ((e, ok), shards') \<and> length shards' = length shards \<and> length rs = length shards \<and>
    (\<forall>i < length shards. Q i (rs ! i) (shards' ! i)) \<and>
    set ok = set ok0 \<union> (\<Union>i < length shards. {k \<in> item_id ` set (bs ! i). applied (rs ! i) k}) \<and>
    (e = None \<longleftrightarrow> e0 = None \<and> (\<forall>i < length shards. is_ok (rs ! i)))"
  using assms
proof (induction bs arbitrary: shards Q e0 ok0)
  case (Cons b bs)
  then obtain s ss where sh: "shards = s # ss" "length bs = length ss" by (cases shards) auto
  obtain r s' where r: "f b s = Some (r, s')" "Q 0 r s'" "names_only (item_id ` set b) r" using Cons.prems(2) [rule_format, of 0] sh by auto
  obtain e1 ok1 where acc: "(case r of Inl e \<Rightarrow> (Some (bulk_inner e), ok0 @ successful_doc_ids e) | Inr u \<Rightarrow> (e0, ok0 @ map item_id b)) = (e1, ok1)"
    by fastforce
  have ok: "set ok1 = set ok0 \<union> {k \<in> item_id ` set b. applied r k}" "e1 = None \<longleftrightarrow> e0 = None \<and> is_ok r"
    using r(3) acc by (cases r; auto simp: names_only_def)+
  have "\<forall>i < length ss. \<exists>r s'. f (bs ! i) (ss ! i) = Some (r, s') \<and> Q (Suc i) r s' \<and> names_only (item_id ` set (bs ! i)) r"
    using Cons.prems(2) sh by auto
  from Cons.IH [where Q = "\<lambda>i. Q (Suc i)" and ?e0.0 = e1 and ?ok0.0 = ok1, OF sh(2) this] obtain e ok' ss' rs where
    w: "write_shards f item_id bs (e1, ok1) ss = Some ((e, ok'), ss')" "length ss' = length ss" "length rs = length ss"
      "\<forall>i < length ss. Q (Suc i) (rs ! i) (ss' ! i)"
      "set ok' = set ok1 \<union> (\<Union>i < length ss. {k \<in> item_id ` set (bs ! i). applied (rs ! i) k})"
      "e = None \<longleftrightarrow> e1 = None \<and> (\<forall>i < length ss. is_ok (rs ! i))" by (elim exE conjE)
  have U: "(\<Union>i < length (s # ss). {k \<in> item_id ` set ((b # bs) ! i). applied ((r # rs) ! i) k}) =
      {k \<in> item_id ` set b. applied r k} \<union> (\<Union>i < length ss. {k \<in> item_id ` set (bs ! i). applied (rs ! i) k})"
    unfolding list.size add_0_right add_Suc_right lessThan_Suc_eq_insert_0 by simp
  have run: "write_shards f item_id (b # bs) (e0, ok0) (s # ss) = Some ((e, ok'), s' # ss')" using r(1) w(1) acc by simp
  have q: "\<forall>i < length (s # ss). Q i ((r # rs) ! i) ((s' # ss') ! i)" using r(2) w(4) by (auto simp: less_Suc_eq_0_disj)
  have o: "set ok' = set ok0 \<union> (\<Union>i < length (s # ss). {k \<in> item_id ` set ((b # bs) ! i). applied ((r # rs) ! i) k})"
    unfolding U w(5) ok(1) by (rule Un_assoc)
  have n: "e = None \<longleftrightarrow> e0 = None \<and> (\<forall>i < length (s # ss). is_ok ((r # rs) ! i))" unfolding w(6) ok(2) by (auto simp: less_Suc_eq_0_disj)
  have l: "length (s' # ss') = length (s # ss)" "length (r # rs) = length (s # ss)" using w(2,3) by simp_all
  show ?case unfolding sh(1) using run l q o n by blast
qed simp

section \<open>Joining the answers\<close>

lemma joined_maps:
  assumes "\<And>i k. i < length ls \<Longrightarrow> k \<in> fst ` set (ls ! i) \<Longrightarrow> c k = i" "\<And>i. i < length ls \<Longrightarrow> distinct (map fst (ls ! i))"
  shows "distinct (map fst (concat ls)) \<and> map_of (concat ls) = (\<lambda>k. if c k < length ls then map_of (ls ! c k) k else None)"
  using assms
proof (induction ls rule: rev_induct)
  case (snoc x ls)
  have lt: "c k = i" if "i < length ls" "k \<in> fst ` set (ls ! i)" for i k using snoc.prems(1) [of i k] that by (simp add: nth_append)
  have "distinct (map fst (ls ! i))" if "i < length ls" for i using snoc.prems(2) [of i] that by (simp add: nth_append)
  then have IH: "distinct (map fst (concat ls))" "map_of (concat ls) = (\<lambda>k. if c k < length ls then map_of (ls ! c k) k else None)"
    using snoc.IH lt by simp_all
  have x: "c k = length ls" if "k \<in> fst ` set x" for k using snoc.prems(1) [of "length ls" k] that by simp
  have old: "c k < length ls" if k: "k \<in> fst ` set (concat ls)" for k
  proof -
    obtain l where "l \<in> set ls" "k \<in> fst ` set l" using k by auto
    then show ?thesis using lt by (metis in_set_conv_nth)
  qed
  have "fst ` set (concat ls) \<inter> fst ` set x = {}" using old x by force
  then have "distinct (map fst (concat (ls @ [x])))" using IH(1) snoc.prems(2) [of "length ls"] by (simp add: image_Un [symmetric])
  moreover have "map_of (concat (ls @ [x])) k = (if c k < length (ls @ [x]) then map_of ((ls @ [x]) ! c k) k else None)" for k
  proof (cases "k \<in> fst ` set x")
    case True
    then have "map_of (concat ls) k = None" using IH(2) x by simp
    then show ?thesis using x [OF True] by (simp add: map_add_def)
  next
    case False
    then have "map_of x k = None" by (simp add: map_of_eq_None_iff)
    then show ?thesis using IH(2) by (cases "map_of (concat ls) k") (auto simp: map_add_def nth_append less_Suc_eq split: if_splits)
  qed
  ultimately show ?case by blast
qed simp

lemma joined_blocks:
  assumes "\<And>k. c k < n"
  shows "sum_list (map (\<lambda>i. mset (List.map_filter h (filter (\<lambda>k. c k = i) keys))) [0..<n]) = mset (List.map_filter h keys)"
proof (induction keys)
  case (Cons k keys)
  have "mset (List.map_filter h (filter (\<lambda>k. c k = i) (k # keys))) =
      mset (List.map_filter h (filter (\<lambda>k. c k = i) keys)) + (if i = c k then (case h k of Some d \<Rightarrow> {#d#} | None \<Rightarrow> {#}) else {#})" for i
    by (simp add: map_filter_simps split: option.split)
  then have "sum_list (map (\<lambda>i. mset (List.map_filter h (filter (\<lambda>k. c k = i) (k # keys)))) [0..<n]) =
      mset (List.map_filter h keys) + sum_list (map (\<lambda>i. if i = c k then (case h k of Some d \<Rightarrow> {#d#} | None \<Rightarrow> {#}) else {#}) [0..<n])"
    using Cons by (simp add: sum_list_addf)
  moreover have "sum_list (map (\<lambda>i. if i = j then x else {#}) [0..<m]) = (if j < m then x else {#})" for j m :: nat and x :: "'b multiset"
    by (induction m) auto
  ultimately show ?case using assms by (simp add: map_filter_simps split: option.split)
qed (simp add: map_filter_simps)

lemma write_shards_names:
  assumes f: "\<And>b s r s'. f b s = Some (r, s') \<Longrightarrow> names_only (item_id ` set b) r"
  shows "write_shards f item_id bs acc shards = Some (acc', shards') \<Longrightarrow> set (snd acc') \<subseteq> set (snd acc) \<union> (\<Union>b \<in> set bs. item_id ` set b)"
proof (induction bs arbitrary: acc shards shards')
  case (Cons b bs)
  note IH = Cons.IH and run = Cons.prems
  show ?case
  proof (cases shards)
    case Nil
    then show ?thesis using run by (cases acc) auto
  next
    case (Cons s ss)
    obtain e0 ok0 where acc: "acc = (e0, ok0)" by fastforce
    obtain r s' ss' where r: "f b s = Some (r, s')"
      "write_shards f item_id bs (case r of Inl e \<Rightarrow> (Some (bulk_inner e), ok0 @ successful_doc_ids e) | Inr u \<Rightarrow> (e0, ok0 @ map item_id b)) ss = Some (acc', ss')"
      using run unfolding acc Cons by (auto simp: bind_eq_Some_conv)
    let ?acc = "case r of Inl e \<Rightarrow> (Some (bulk_inner e), ok0 @ successful_doc_ids e) | Inr u \<Rightarrow> (e0, ok0 @ map item_id b)"
    have "set (snd ?acc) \<subseteq> set ok0 \<union> item_id ` set b" using f [OF r(1)] by (cases r) (auto simp: names_only_def)
    moreover have "set (snd acc') \<subseteq> set (snd ?acc) \<union> (\<Union>b \<in> set bs. item_id ` set b)" by (rule IH [OF r(2)])
    ultimately have "set (snd acc') \<subseteq> (set ok0 \<union> item_id ` set b) \<union> (\<Union>b \<in> set bs. item_id ` set b)" by blast
    then show ?thesis unfolding acc by (simp add: Un_assoc)
  qed
qed auto

lemma shards_bulk_names:
  assumes "\<And>b s r s'. f b s = Some (r, s') \<Longrightarrow> names_only (item_id ` set b) r" "shards_bulk hash item_id f xs shards = Some (r, shards')"
  shows "names_only (item_id ` set xs) r"
proof -
  obtain bs e ok ss where w: "shard_blocks hash shards item_id xs = Some bs" "write_shards f item_id bs (None, []) shards = Some ((e, ok), ss)"
    "r = (case e of Some e \<Rightarrow> Inl (bulk_error_new e ok) | None \<Rightarrow> Inr ())" using assms(2) by (auto simp: shards_bulk_def bind_eq_Some_conv)
  have "\<Union> (set ` set bs) \<subseteq> set xs"
  proof (cases "shards = []")
    case True
    then have "xs = [] \<or> False" using w(1) by (cases xs) (simp_all add: shard_blocks_def get_shard_id_def)
    then show ?thesis using w(1) True by (simp add: shard_blocks_def)
  next
    case False
    then show ?thesis using w(1) by (auto simp: shard_blocks_Some)
  qed
  then have "(\<Union>b \<in> set bs. item_id ` set b) \<subseteq> item_id ` set xs" by blast
  moreover have "set ok \<subseteq> (\<Union>b \<in> set bs. item_id ` set b)" using write_shards_names [of f item_id, OF assms(1) w(2)] by simp
  ultimately have "set ok \<subseteq> item_id ` set xs" by (rule subset_trans [rotated])
  then show ?thesis using w(3) by (cases e) (auto simp: names_only_def bulk_error_new_def)
qed

section \<open>The contract\<close>

definition shards_inv :: "(key \<Rightarrow> u64) \<Rightarrow> ('s \<Rightarrow> bool) \<Rightarrow> ('s \<Rightarrow> string \<Rightarrow> key \<rightharpoonup> stored) \<Rightarrow> 's list \<Rightarrow> bool" where
  "shards_inv hash invar look shards \<longleftrightarrow> shards \<noteq> [] \<and> (\<forall>i < length shards. invar (shards ! i) \<and>
     (\<forall>ks k. look (shards ! i) ks k \<noteq> None \<longrightarrow> shard_of hash (length shards) k = i))"

definition shards_look :: "(key \<Rightarrow> u64) \<Rightarrow> ('s \<Rightarrow> string \<Rightarrow> key \<rightharpoonup> stored) \<Rightarrow> 's list \<Rightarrow> string \<Rightarrow> key \<rightharpoonup> stored" where
  "shards_look hash look shards ks k = look (shards ! shard_of hash (length shards) k) ks k"

definition all_known :: "'s \<Rightarrow> string \<Rightarrow> bool" where
  "all_known s ks = True"

text \<open>What is put at a key depends on the items of the key only.\<close>

lemma put_docs_local:
  assumes "filter (\<lambda>d. doc_id d = k) ys = filter (\<lambda>d. doc_id d = k) zs" "m k = m' k"
  shows "put_docs ys m k = put_docs zs m' k"
proof -
  have "put_docs ds m k = put_docs (filter (\<lambda>d. doc_id d = k) ds) m k" for ds
    by (induction ds arbitrary: m) (auto simp: put_docs_def map_add_def split: option.splits)
  moreover have "put_docs ds m k = put_docs ds m' k" for ds using assms(2) by (simp add: put_docs_def map_add_def split: option.split)
  ultimately show ?thesis using assms(1) by metis
qed

lemma put_tombstones_local:
  assumes "filter (\<lambda>d. md_id d = k) ys = filter (\<lambda>d. md_id d = k) zs" "m k = m' k"
  shows "put_tombstones ys m k = put_tombstones zs m' k"
proof -
  have "put_tombstones ds m k = put_tombstones (filter (\<lambda>d. md_id d = k) ds) m k" for ds
    by (induction ds arbitrary: m) (auto simp: put_tombstones_def map_add_def split: option.splits)
  moreover have "put_tombstones ds m k = put_tombstones ds m' k" for ds using assms(2) by (simp add: put_tombstones_def map_add_def split: option.split)
  ultimately show ?thesis using assms(1) by metis
qed

lemma put_other: "k \<notin> doc_id ` set ds \<Longrightarrow> put_docs ds m k = m k" "k \<notin> md_id ` set ms \<Longrightarrow> put_tombstones ms m k = m k"
  by (auto simp: put_docs_def put_tombstones_def map_add_def map_of_eq_None_iff split: option.splits dest!: map_of_SomeD)

context storage_on
begin

abbreviation sinv :: "(key \<Rightarrow> u64) \<Rightarrow> 's list \<Rightarrow> bool" where
  "sinv hash \<equiv> shards_inv hash invar look"

abbreviation slook :: "(key \<Rightarrow> u64) \<Rightarrow> 's list \<Rightarrow> string \<Rightarrow> key \<rightharpoonup> stored" where
  "slook hash \<equiv> shards_look hash look"

lemma on_shard_reads:
  assumes inv: "sinv hash shards" and act: "\<And>s. invar s \<Longrightarrow> \<exists>r s'. act s = Some (r, s') \<and> invar s' \<and> look s' = look s \<and> P s r"
  shows "\<exists>r shards'. on_shard hash k act shards = Some (r, shards') \<and> sinv hash shards' \<and> slook hash shards' = slook hash shards \<and>
    P (shards ! shard_of hash (length shards) k) r"
proof -
  let ?i = "shard_of hash (length shards) k"
  have ne: "shards \<noteq> []" and i: "?i < length shards" using inv by (simp_all add: shards_inv_def shard_of_less)
  then obtain r s' where r: "act (shards ! ?i) = Some (r, s')" "invar s'" "look s' = look (shards ! ?i)" "P (shards ! ?i) r"
    using act inv unfolding shards_inv_def by blast
  have "look (shards[?i := s'] ! j) = look (shards ! j)" for j using r(3) i by (cases "j = ?i") simp_all
  moreover have "invar (shards[?i := s'] ! j)" if "j < length shards" for j
    using r(2) inv that by (cases "j = ?i") (simp_all add: shards_inv_def)
  ultimately show ?thesis using r ne inv by (simp add: on_shard_def get_shard_id_Some shards_inv_def shards_look_def fun_eq_iff)
qed

lemma on_shard_writes:
  assumes inv: "sinv hash shards" and g: "\<And>m j. j \<noteq> k \<Longrightarrow> g m j = m j" "\<And>m m'. m k = m' k \<Longrightarrow> g m k = g m' k"
    and act: "\<And>s. invar s \<Longrightarrow> \<exists>r s'. act s = Some (r, s') \<and> invar s' \<and> look s' = (if is_ok r then (look s)(ks := g (look s ks)) else look s)"
  shows "\<exists>r shards'. on_shard hash k act shards = Some (r, shards') \<and> sinv hash shards' \<and>
    slook hash shards' = (if is_ok r then (slook hash shards)(ks := g (slook hash shards ks)) else slook hash shards)"
proof -
  let ?n = "length shards" let ?i = "shard_of hash ?n k"
  have ne: "shards \<noteq> []" and i: "?i < ?n" using inv by (simp_all add: shards_inv_def shard_of_less)
  then obtain r s' where r: "act (shards ! ?i) = Some (r, s')" "invar s'"
    "look s' = (if is_ok r then (look (shards ! ?i))(ks := g (look (shards ! ?i) ks)) else look (shards ! ?i))"
    using act inv unfolding shards_inv_def by blast
  have other: "look s' ks' j = look (shards ! ?i) ks' j" if "j \<noteq> k" for ks' j using r(3) g(1) [OF that] by simp
  have "sinv hash (shards[?i := s'])"
    unfolding shards_inv_def
  proof (intro conjI allI impI)
    fix j ks' k' assume j: "j < length (shards[?i := s'])"
    show "invar (shards[?i := s'] ! j)" using j inv r(2) by (cases "j = ?i") (simp_all add: shards_inv_def)
    assume l: "look (shards[?i := s'] ! j) ks' k' \<noteq> None"
    have sh: "look (shards ! j) ks' k' \<noteq> None \<Longrightarrow> shard_of hash ?n k' = j" using inv j unfolding shards_inv_def by simp
    show "shard_of hash (length (shards[?i := s'])) k' = j"
    proof (cases "j = ?i \<and> k' = k")
      case False
      then have "look (shards ! j) ks' k' \<noteq> None" using l other i by (cases "j = ?i") auto
      then show ?thesis using sh by simp
    qed simp
  qed (use ne in simp)
  moreover have "slook hash (shards[?i := s']) = (if is_ok r then (slook hash shards)(ks := g (slook hash shards ks)) else slook hash shards)"
  proof (intro ext)
    fix ks' j
    show "slook hash (shards[?i := s']) ks' j = (if is_ok r then (slook hash shards)(ks := g (slook hash shards ks)) else slook hash shards) ks' j"
    proof (cases "j = k")
      case True
      have "g (slook hash shards ks) k = g (look (shards ! ?i) ks) k" by (rule g(2)) (simp add: shards_look_def)
      then show ?thesis using True i r(3) by (simp add: shards_look_def)
    next
      case False
      then show ?thesis using other [OF False] i g(1) [OF False] by (cases "shard_of hash ?n j = ?i") (simp_all add: shards_look_def)
    qed
  qed
  ultimately show ?thesis using r(1) ne by (simp add: on_shard_def get_shard_id_Some)
qed

text \<open>
  Each shard is given the items of its keys and takes some of them, \<open>P i\<close>. For an effect \<open>G\<close> on a key
  that is that of the items with the key, the store has then taken the same items.
\<close>

lemma blocks_written:
  fixes xs :: "'a list"
  assumes inv: "sinv hash shards" and len: "length shards' = length shards"
    and G: "\<And>ys zs m m' k. filter (\<lambda>x. item_id x = k) ys = filter (\<lambda>x. item_id x = k) zs \<Longrightarrow> m k = m' k \<Longrightarrow> G ys m k = G zs m' k"
      "\<And>ys m k. k \<notin> item_id ` set ys \<Longrightarrow> G ys m k = m k"
    and w: "\<forall>i < length shards. invar (shards' ! i) \<and> look (shards' ! i) = (look (shards ! i))(ks :=
      G (filter (\<lambda>x. P i (item_id x)) (filter (\<lambda>x. shard_of hash (length shards) (item_id x) = i) xs)) (look (shards ! i) ks))"
    and A: "\<And>k. k \<in> item_id ` set xs \<Longrightarrow> A k = P (shard_of hash (length shards) k) k"
  shows "sinv hash shards'" "slook hash shards' = (slook hash shards)(ks := G (filter (\<lambda>x. A (item_id x)) xs) (slook hash shards ks))"
proof -
  define n where "n = length shards"
  define B where "B = (\<lambda>i. filter (\<lambda>x. P i (item_id x)) (filter (\<lambda>x. shard_of hash n (item_id x) = i) xs))"
  have ne: "shards \<noteq> []" using inv by (simp add: shards_inv_def)
  then have sl: "shard_of hash n k < n" for k by (simp add: n_def shard_of_less)
  have look_at: "look (shards' ! i) ks' k = ((look (shards ! i))(ks := G (B i) (look (shards ! i) ks))) ks' k" if "i < n" for i ks' k
    using w that by (simp add: n_def B_def)
  have same: "G (B (shard_of hash n k)) (look (shards ! shard_of hash n k) ks) k = G (filter (\<lambda>x. A (item_id x)) xs) (slook hash shards ks) k" for k
  proof (rule G(1))
    show "filter (\<lambda>x. item_id x = k) (B (shard_of hash n k)) = filter (\<lambda>x. item_id x = k) (filter (\<lambda>x. A (item_id x)) xs)"
      unfolding B_def filter_filter by (rule filter_cong [OF refl]) (use A in \<open>auto simp: n_def\<close>)
  qed (simp add: shards_look_def n_def)
  show "slook hash shards' = (slook hash shards)(ks := G (filter (\<lambda>x. A (item_id x)) xs) (slook hash shards ks))"
  proof (intro ext)
    fix ks' k
    have "slook hash shards' ks' k = look (shards' ! shard_of hash n k) ks' k" "slook hash shards ks' k = look (shards ! shard_of hash n k) ks' k"
      by (simp_all add: shards_look_def len n_def)
    then show "slook hash shards' ks' k = ((slook hash shards)(ks := G (filter (\<lambda>x. A (item_id x)) xs) (slook hash shards ks))) ks' k"
      using look_at [OF sl [of k], of ks' k] same [of k] by (cases "ks' = ks") simp_all
  qed
  show "sinv hash shards'"
    unfolding shards_inv_def
  proof (intro conjI allI impI)
    fix i ks' k assume i: "i < length shards'"
    then have i': "i < n" by (simp add: len n_def)
    show "invar (shards' ! i)" using len w i by simp
    assume l: "look (shards' ! i) ks' k \<noteq> None"
    have "shard_of hash n k = i"
    proof (cases "k \<in> item_id ` set (B i)")
      case False
      then have "look (shards ! i) ks' k \<noteq> None" using l look_at [OF i'] G(2) by (simp split: if_splits)
      then show ?thesis using inv i' unfolding shards_inv_def n_def by blast
    qed (auto simp: B_def)
    then show "shard_of hash (length shards') k = i" by (simp add: len n_def)
  qed (use ne len in auto)
qed

lemma shards_bulk_spec:
  fixes f :: "'a list \<Rightarrow> ('s, 'x bulk_result) action"
  assumes inv: "sinv hash shards"
    and G: "\<And>ys zs m m' k. filter (\<lambda>x. item_id x = k) ys = filter (\<lambda>x. item_id x = k) zs \<Longrightarrow> m k = m' k \<Longrightarrow> G ys m k = G zs m' k"
      "\<And>ys m k. k \<notin> item_id ` set ys \<Longrightarrow> G ys m k = m k"
    and f: "\<forall>i < length shards. \<exists>r s'. f (filter (\<lambda>x. shard_of hash (length shards) (item_id x) = i) xs) (shards ! i) = Some (r, s') \<and>
      (invar s' \<and> look s' = (look (shards ! i))(ks := G (filter (\<lambda>x. applied r (item_id x)) (filter (\<lambda>x. shard_of hash (length shards) (item_id x) = i) xs)) (look (shards ! i) ks))) \<and>
      names_only (item_id ` set (filter (\<lambda>x. shard_of hash (length shards) (item_id x) = i) xs)) r"
  shows "\<exists>r shards'. shards_bulk hash item_id f xs shards = Some (r, shards') \<and> sinv hash shards' \<and>
    slook hash shards' = (slook hash shards)(ks := G (filter (\<lambda>x. applied r (item_id x)) xs) (slook hash shards ks)) \<and> names_only (item_id ` set xs) r"
proof -
  define n where "n = length shards"
  define B where "B = (\<lambda>i. filter (\<lambda>x. shard_of hash n (item_id x) = i) xs)"
  have ne: "shards \<noteq> []" using inv by (simp add: shards_inv_def)
  then have sl: "shard_of hash n k < n" for k by (simp add: n_def shard_of_less)
  have bl: "shard_blocks hash shards item_id xs = Some (map B [0..<n])" using shard_blocks_Some [OF ne, of hash item_id xs] by (simp add: B_def n_def)
  have fB: "\<forall>i < length shards. \<exists>r s'. f (map B [0..<n] ! i) (shards ! i) = Some (r, s') \<and>
      (invar s' \<and> look s' = (look (shards ! i))(ks := G (filter (\<lambda>x. applied r (item_id x)) (B i)) (look (shards ! i) ks))) \<and>
      names_only (item_id ` set (map B [0..<n] ! i)) r" using f by (simp add: B_def n_def)
  have lenB: "length (map B [0..<n]) = length shards" by (simp add: n_def)
  obtain e ok shards' and rs :: "'x bulk_result list" where
    w: "write_shards f item_id (map B [0..<n]) (None, []) shards = Some ((e, ok), shards')" "length shards' = length shards" "length rs = length shards"
      "\<forall>i < length shards. invar (shards' ! i) \<and> look (shards' ! i) = (look (shards ! i))(ks := G (filter (\<lambda>x. applied (rs ! i) (item_id x)) (B i)) (look (shards ! i) ks))"
      "set ok = set [] \<union> (\<Union>i < length shards. {k \<in> item_id ` set (map B [0..<n] ! i). applied (rs ! i) k})"
      "e = None \<longleftrightarrow> (None :: 'x option) = None \<and> (\<forall>i < length shards. is_ok (rs ! i))"
    using write_shards_spec [where ?e0.0 = None and ?ok0.0 = "[]" and Q = "\<lambda>i r s'. invar s' \<and> look s' = (look (shards ! i))(ks := G (filter (\<lambda>x. applied r (item_id x)) (B i)) (look (shards ! i) ks))",
        OF lenB fB] by (elim exE conjE)
  let ?r = "case e of Some e \<Rightarrow> Inl (bulk_error_new e ok) | None \<Rightarrow> Inr ()"
  have ids: "item_id ` set (B i) = {k \<in> item_id ` set xs. shard_of hash n k = i}" for i by (auto simp: B_def)
  have okk: "set ok = {k \<in> item_id ` set xs. applied (rs ! shard_of hash n k) k}" unfolding w(5) using sl by (auto simp: n_def [symmetric] ids)
  have ap: "applied ?r k = applied (rs ! shard_of hash (length shards) k) k" if "k \<in> item_id ` set xs" for k
  proof (cases e)
    case None
    then have "is_ok (rs ! shard_of hash n k)" using w(6) sl by (simp add: n_def)
    then show ?thesis using None by (cases "rs ! shard_of hash n k") (simp_all add: n_def)
  next
    case (Some x)
    then show ?thesis using okk that by (simp add: bulk_error_new_def n_def)
  qed
  note bw = blocks_written [where A = "applied ?r" and P = "\<lambda>i. applied (rs ! i)", OF inv w(2) G w(4) [unfolded B_def n_def] ap]
  have "names_only (item_id ` set xs) ?r" by (cases e) (auto simp: names_only_def bulk_error_new_def okk)
  moreover have "shards_bulk hash item_id f xs shards = Some (?r, shards')" using bl w(1) by (simp add: shards_bulk_def)
  ultimately show ?thesis using bw by blast
qed

lemma read_all:
  assumes inv: "sinv hash shards" and len: "length bs = length shards"
    and f: "\<And>i. i < length shards \<Longrightarrow> \<exists>r s'. f (bs ! i) (shards ! i) = Some (r, s') \<and> invar s' \<and> look s' = look (shards ! i) \<and> (\<forall>l. r = Inr l \<longrightarrow> P i l)"
  shows "\<exists>r shards'. read_shards f bs shards = Some (r, shards') \<and> sinv hash shards' \<and> slook hash shards' = slook hash shards \<and>
    (\<forall>l. r = Inr l \<longrightarrow> (\<exists>ls. length ls = length shards \<and> (\<forall>i < length shards. P i (ls ! i)) \<and> l = concat ls))"
proof -
  have f': "\<forall>i < length shards. \<exists>r s'. f (bs ! i) (shards ! i) = Some (r, s') \<and> (invar s' \<and> look s' = look (shards ! i)) \<and> (\<forall>l. r = Inr l \<longrightarrow> P i l)"
    using f by simp
  obtain r shards' where r: "read_shards f bs shards = Some (r, shards')" "length shards' = length shards"
      "\<forall>i < length shards. shards' ! i = shards ! i \<or> invar (shards' ! i) \<and> look (shards' ! i) = look (shards ! i)"
      "\<forall>l. r = Inr l \<longrightarrow> (\<exists>ls. length ls = length shards \<and> (\<forall>i < length shards. P i (ls ! i)) \<and> l = concat ls)"
    using read_shards_spec [where Q = "\<lambda>i s s'. invar s' \<and> look s' = look s" and P = P, OF len f'] by (elim exE conjE)
  have ne: "shards \<noteq> []" using inv by (simp add: shards_inv_def)
  have s': "invar (shards' ! i)" "look (shards' ! i) = look (shards ! i)" if "i < length shards" for i
    using r(3) that inv unfolding shards_inv_def by metis+
  have "slook hash shards' = slook hash shards" using s'(2) ne by (simp add: shards_look_def fun_eq_iff r(2) shard_of_less)
  moreover have "sinv hash shards'" using inv s' r(2) ne unfolding shards_inv_def by auto
  ultimately show ?thesis using r(1,4) by blast
qed

text \<open>The reads of all shards, joined.\<close>

lemma shard_keys:
  assumes "sinv hash shards" "i < length shards" "look (shards ! i) ks k \<noteq> None"
  shows "shard_of hash (length shards) k = i"
  using assms unfolding shards_inv_def by blast

lemma shards_list:
  assumes inv: "sinv hash shards"
  shows "\<exists>r shards'. shards_get_keyspace_list ops shards = Some (r, shards') \<and> sinv hash shards' \<and> slook hash shards' = slook hash shards \<and>
    (\<forall>l. r = Inr l \<longrightarrow> (\<forall>ks k. slook hash shards ks k \<noteq> None \<longrightarrow> ks \<in> set l))"
proof -
  define P where "P = (\<lambda>i l. \<forall>ks k. look (shards ! i) ks k \<noteq> None \<longrightarrow> ks \<in> set (l :: string list))"
  have f: "\<exists>r s'. st_get_keyspace_list ops (shards ! i) = Some (r, s') \<and> invar s' \<and> look s' = look (shards ! i) \<and> (\<forall>l. r = Inr l \<longrightarrow> P i l)"
    if "i < length shards" for i
    using keyspaces [of "shards ! i"] inv that unfolding P_def shards_inv_def by blast
  obtain r shards' where r: "read_shards (\<lambda>u. st_get_keyspace_list ops) (replicate (length shards) ()) shards = Some (r, shards')"
      "sinv hash shards'" "slook hash shards' = slook hash shards"
      "\<forall>l. r = Inr l \<longrightarrow> (\<exists>ls. length ls = length shards \<and> (\<forall>i < length shards. P i (ls ! i)) \<and> l = concat ls)"
    using read_all [where P = P and bs = "replicate (length shards) ()" and f = "\<lambda>u. st_get_keyspace_list ops", OF inv _ f] by auto
  have "ks \<in> set l" if l: "r = Inr l" and k: "slook hash shards ks k \<noteq> None" for l ks k
  proof -
    obtain ls where ls: "length ls = length shards" "\<forall>i < length shards. P i (ls ! i)" "l = concat ls" using r(4) l by blast
    let ?i = "shard_of hash (length shards) k"
    have i: "?i < length shards" using inv by (simp add: shards_inv_def shard_of_less)
    then have "ks \<in> set (ls ! ?i)" using ls(2) k by (auto simp: P_def shards_look_def)
    then show ?thesis using i ls(1) by (auto simp: ls(3))
  qed
  moreover have "fst ` set (fold (\<lambda>ks. bt_insert ks ()) l m) = set l \<union> fst ` set m" for l and m :: "(string, unit) btree_map"
    by (induction l arbitrary: m) (auto simp: set_fst_bt_insert)
  ultimately show ?thesis using r(1-3) by (cases r) (auto simp: shards_get_keyspace_list_def)
qed

lemma shards_iter:
  assumes inv: "sinv hash shards"
  shows "\<exists>r shards'. shards_iter_metadata ops ks shards = Some (r, shards') \<and> sinv hash shards' \<and> slook hash shards' = slook hash shards \<and>
    (\<forall>l. r = Inr l \<longrightarrow> distinct (map fst l) \<and> map_of l = map_option stored_meta \<circ> slook hash shards ks)"
proof -
  let ?c = "shard_of hash (length shards)"
  define P where "P = (\<lambda>i l. distinct (map fst l) \<and> map_of l = map_option stored_meta \<circ> look (shards ! i) ks)"
  have f: "\<exists>r s'. st_iter_metadata ops ks (shards ! i) = Some (r, s') \<and> invar s' \<and> look s' = look (shards ! i) \<and> (\<forall>l. r = Inr l \<longrightarrow> P i l)"
    if "i < length shards" for i
    using iterate [of "shards ! i" ks] inv that unfolding P_def shards_inv_def by blast
  obtain r shards' where r: "read_shards (\<lambda>u. st_iter_metadata ops ks) (replicate (length shards) ()) shards = Some (r, shards')"
      "sinv hash shards'" "slook hash shards' = slook hash shards"
      "\<forall>l. r = Inr l \<longrightarrow> (\<exists>ls. length ls = length shards \<and> (\<forall>i < length shards. P i (ls ! i)) \<and> l = concat ls)"
    using read_all [where P = P and bs = "replicate (length shards) ()" and f = "\<lambda>u. st_iter_metadata ops ks", OF inv _ f] by auto
  have "distinct (map fst l) \<and> map_of l = map_option stored_meta \<circ> slook hash shards ks" if l: "r = Inr l" for l
  proof -
    obtain ls where ls: "length ls = length shards" "\<forall>i < length shards. P i (ls ! i)" "l = concat ls" using r(4) l by blast
    have of: "map_of (ls ! i) k = map_option stored_meta (look (shards ! i) ks k)" if "i < length shards" for i k using ls(2) that by (simp add: P_def)
    have c: "?c k = i" if "i < length ls" "k \<in> fst ` set (ls ! i)" for i k
      using that of [of i k] shard_keys [OF inv, of i ks k] ls(1) by (auto simp: dom_map_of_conv_image_fst [symmetric] dom_def)
    have d: "distinct (map fst (ls ! i))" if "i < length ls" for i using ls(1,2) that by (simp add: P_def)
    have lt: "?c k < length shards" for k using inv by (simp add: shards_inv_def shard_of_less)
    show ?thesis using joined_maps [of ls ?c, OF c d] lt of by (simp add: ls(1,3) fun_eq_iff shards_look_def)
  qed
  then show ?thesis using r(1-3) by (simp add: shards_iter_metadata_def)
qed

lemma shards_fetch_many:
  assumes inv: "sinv hash shards"
  shows "\<exists>r shards'. shards_multi_get hash ops ks keys shards = Some (r, shards') \<and> sinv hash shards' \<and> slook hash shards' = slook hash shards \<and>
    (\<forall>ds. r = Inr ds \<longrightarrow> mset ds = mset (List.map_filter (\<lambda>k. stored_doc (slook hash shards ks k)) keys))"
proof -
  let ?c = "shard_of hash (length shards)" and ?h = "\<lambda>k. stored_doc (slook hash shards ks k)"
  define B where "B = map (\<lambda>i. filter (\<lambda>k. ?c k = i) keys) [0..<length shards]"
  define P where "P = (\<lambda>i ds. mset ds = mset (List.map_filter ?h (B ! i)))"
  have ne: "shards \<noteq> []" using inv by (simp add: shards_inv_def)
  have same: "List.map_filter (\<lambda>k. stored_doc (look (shards ! i) ks k)) (B ! i) = List.map_filter ?h (B ! i)" if i: "i < length shards" for i
    using i by (auto simp: List.map_filter_def B_def shards_look_def intro!: map_cong filter_cong)
  have f: "\<exists>r s'. st_multi_get ops ks (B ! i) (shards ! i) = Some (r, s') \<and> invar s' \<and> look s' = look (shards ! i) \<and> (\<forall>l. r = Inr l \<longrightarrow> P i l)"
    if "i < length shards" for i
    using fetch_many [of "shards ! i" ks "B ! i"] inv that unfolding P_def shards_inv_def same [OF that, symmetric] by blast
  obtain r shards' where r: "read_shards (st_multi_get ops ks) B shards = Some (r, shards')" "sinv hash shards'" "slook hash shards' = slook hash shards"
      "\<forall>l. r = Inr l \<longrightarrow> (\<exists>ls. length ls = length shards \<and> (\<forall>i < length shards. P i (ls ! i)) \<and> l = concat ls)"
    using read_all [where P = P and bs = B and f = "st_multi_get ops ks", OF inv _ f] by (auto simp: B_def)
  have "mset ds = mset (List.map_filter ?h keys)" if ds: "r = Inr ds" for ds
  proof -
    obtain ls where ls: "length ls = length shards" "\<forall>i < length shards. P i (ls ! i)" "ds = concat ls" using r(4) ds by blast
    have "map mset ls = map (\<lambda>i. mset (List.map_filter ?h (filter (\<lambda>k. ?c k = i) keys))) [0..<length shards]"
      by (rule nth_equalityI) (use ls(1,2) in \<open>simp_all add: P_def B_def\<close>)
    then have "mset ds = sum_list (map (\<lambda>i. mset (List.map_filter ?h (filter (\<lambda>k. ?c k = i) keys))) [0..<length shards])"
      by (simp add: ls(3) mset_concat)
    then show ?thesis using joined_blocks [of ?c "length shards" ?h keys] ne by (simp add: shard_of_less)
  qed
  then show ?thesis using r(1-3) shard_blocks_Some [OF ne, of hash "\<lambda>k. k" keys] by (simp add: shards_multi_get_def B_def)
qed

text \<open>The writes, split over the shards.\<close>

lemma each_shard:
  assumes "sinv hash shards" "i < length shards"
  shows "invar (shards ! i)"
  using assms by (simp add: shards_inv_def)

lemma shards_multi_put_spec:
  assumes inv: "sinv hash shards" and v: "\<forall>d \<in> set ds. valid (last_updated d)"
  shows "\<exists>r shards'. shards_bulk hash doc_id (st_multi_put ops ks) ds shards = Some (r, shards') \<and> sinv hash shards' \<and>
    slook hash shards' = (slook hash shards)(ks := put_docs (filter (\<lambda>d. applied r (doc_id d)) ds) (slook hash shards ks)) \<and> names_only (doc_id ` set ds) r"
proof (rule shards_bulk_spec [where G = put_docs, OF inv])
  show "\<forall>i < length shards. \<exists>r s'. st_multi_put ops ks (filter (\<lambda>x. shard_of hash (length shards) (doc_id x) = i) ds) (shards ! i) = Some (r, s') \<and>
      (invar s' \<and> look s' = (look (shards ! i))(ks := put_docs (filter (\<lambda>x. applied r (doc_id x)) (filter (\<lambda>x. shard_of hash (length shards) (doc_id x) = i) ds)) (look (shards ! i) ks))) \<and>
      names_only (doc_id ` set (filter (\<lambda>x. shard_of hash (length shards) (doc_id x) = i) ds)) r"
    (is "\<forall>i < length shards. ?P i")
  proof (intro allI impI)
    fix i assume i: "i < length shards"
    have "\<forall>d \<in> set (filter (\<lambda>x. shard_of hash (length shards) (doc_id x) = i) ds). valid (last_updated d)" using v by simp
    with multi_put each_shard [OF inv i] own show "?P i" unfolding multi_puts_on_def names_own_def by meson
  qed
qed (rule put_docs_local put_other; assumption)+

lemma shards_multi_tombstone_spec:
  assumes inv: "sinv hash shards" and known: "\<And>s. known s ks" and v: "\<forall>m \<in> set ms. valid (md_last_updated m)"
  shows "\<exists>r shards'. shards_bulk hash md_id (st_mark_many_as_tombstone ops ks) ms shards = Some (r, shards') \<and> sinv hash shards' \<and>
    slook hash shards' = (slook hash shards)(ks := put_tombstones (filter (\<lambda>d. applied r (md_id d)) ms) (slook hash shards ks)) \<and> names_only (md_id ` set ms) r"
proof (rule shards_bulk_spec [where G = put_tombstones, OF inv])
  show "\<forall>i < length shards. \<exists>r s'. st_mark_many_as_tombstone ops ks (filter (\<lambda>x. shard_of hash (length shards) (md_id x) = i) ms) (shards ! i) = Some (r, s') \<and>
      (invar s' \<and> look s' = (look (shards ! i))(ks := put_tombstones (filter (\<lambda>x. applied r (md_id x)) (filter (\<lambda>x. shard_of hash (length shards) (md_id x) = i) ms)) (look (shards ! i) ks))) \<and>
      names_only (md_id ` set (filter (\<lambda>x. shard_of hash (length shards) (md_id x) = i) ms)) r"
    (is "\<forall>i < length shards. ?P i")
  proof (intro allI impI)
    fix i assume "i < length shards"
    from multi_tombstone [OF each_shard [OF inv this] known, of "filter (\<lambda>x. shard_of hash (length shards) (md_id x) = i) ms"] v own
    show "?P i" unfolding names_own_def by fastforce
  qed
qed (rule put_tombstones_local put_other; assumption)+

lemma shards_remove_spec:
  assumes inv: "sinv hash shards" and dead: "\<forall>k \<in> set keys. \<exists>t. slook hash shards ks k = Some (Tombstone t)"
  shows "\<exists>r shards'. shards_bulk hash (\<lambda>k. k) (st_remove_tombstones ops ks) keys shards = Some (r, shards') \<and> sinv hash shards' \<and>
    slook hash shards' = (slook hash shards)(ks := slook hash shards ks |` (- set (filter (applied r) keys))) \<and> names_only ((\<lambda>k. k) ` set keys) r"
proof (rule shards_bulk_spec [where G = "\<lambda>keys m. m |` (- set keys)", OF inv])
  show "\<forall>i < length shards. \<exists>r s'. st_remove_tombstones ops ks (filter (\<lambda>x. shard_of hash (length shards) x = i) keys) (shards ! i) = Some (r, s') \<and>
      (invar s' \<and> look s' = (look (shards ! i))(ks := look (shards ! i) ks |` (- set (filter (applied r) (filter (\<lambda>x. shard_of hash (length shards) x = i) keys))))) \<and>
      names_only ((\<lambda>k. k) ` set (filter (\<lambda>x. shard_of hash (length shards) x = i) keys)) r"
    (is "\<forall>i < length shards. ?P i")
  proof (intro allI impI)
    fix i assume i: "i < length shards"
    let ?B = "filter (\<lambda>x. shard_of hash (length shards) x = i) keys"
    have "\<forall>k \<in> set ?B. \<exists>t. look (shards ! i) ks k = Some (Tombstone t)" using dead by (auto simp: shards_look_def)
    then obtain r s' where r: "st_remove_tombstones ops ks ?B (shards ! i) = Some (r, s')" "invar s'"
      "look s' = (look (shards ! i))(ks := look (shards ! i) ks |` (- {k \<in> set ?B. applied r k}))"
      using remove [OF each_shard [OF inv i]] by blast
    have "names_only (set ?B) r" using own r(1) unfolding names_own_def by blast
    moreover have "{k \<in> set ?B. applied r k} = set (filter (applied r) ?B)" by auto
    ultimately show "?P i" using r by (simp only: image_ident) blast
  qed
  show "(m |` (- set ys)) k = (m' |` (- set zs)) k" if "filter (\<lambda>x. x = k) ys = filter (\<lambda>x. x = k) zs" "m k = m' k" for ys zs m m' k
    using arg_cong [OF that(1), of set] that(2) by (auto simp: restrict_map_def)
qed (simp add: restrict_map_def)

lemma shards_names_own: "names_own (shards_ops hash ops)"
proof -
  have own': "names_only ((\<lambda>k. k) ` set keys) r" if "st_remove_tombstones ops ks keys s = Some (r, s')" for ks keys s r s'
    using own that unfolding names_own_def image_ident by blast
  have "names_only (set keys) r" if "shards_bulk hash (\<lambda>k. k) (st_remove_tombstones ops ks) keys shards = Some (r, shards')" for ks keys shards r shards'
    using shards_bulk_names [of "st_remove_tombstones ops ks" "\<lambda>k. k", OF own' that] by simp
  moreover have "names_only (doc_id ` set ds) r" if "shards_bulk hash doc_id (st_multi_put ops ks) ds shards = Some (r, shards')" for ks ds shards r shards'
    by (rule shards_bulk_names [OF _ that]) (use own in \<open>unfold names_own_def, blast\<close>)
  moreover have "names_only (md_id ` set ms) r" if "shards_bulk hash md_id (st_mark_many_as_tombstone ops ks) ms shards = Some (r, shards')" for ks ms shards r shards'
    by (rule shards_bulk_names [OF _ that]) (use own in \<open>unfold names_own_def, blast\<close>)
  ultimately show ?thesis unfolding names_own_def shards_defs storage_ops.simps by blast
qed

lemma shards_tombstone_spec:
  assumes inv: "sinv hash shards" and known: "\<And>s. known s ks" and v: "valid ts"
  shows "\<exists>r shards'. on_shard hash k (st_mark_as_tombstone ops ks k ts) shards = Some (r, shards') \<and> sinv hash shards' \<and>
    slook hash shards' = (if is_ok r then (slook hash shards)(ks := put_tombstones [metadata_new k ts] (slook hash shards ks)) else slook hash shards)"
proof (rule on_shard_writes [OF inv])
  show "\<exists>r s'. st_mark_as_tombstone ops ks k ts s = Some (r, s') \<and> invar s' \<and>
      look s' = (if is_ok r then (look s)(ks := put_tombstones [metadata_new k ts] (look s ks)) else look s)" if "invar s" for s
    using tombstone [OF that known v] by blast
qed (simp_all add: put_tombstones_def metadata_new_def)

lemma shards_puts:
  "puts_on valid (sinv hash) all_known (slook hash) (shards_put hash ops)"
  "multi_puts_on valid (sinv hash) all_known (slook hash) (shards_multi_put hash ops)"
proof -
  have "\<exists>r s'. on_shard hash (doc_id d) (st_put ops ks d) shards = Some (r, s') \<and> sinv hash s' \<and>
      slook hash s' = (if is_ok r then (slook hash shards)(ks := put_docs [d] (slook hash shards ks)) else slook hash shards)"
    if inv: "sinv hash shards" and v: "valid (last_updated d)" for shards ks d
  proof (rule on_shard_writes [OF inv])
    show "\<exists>r s'. st_put ops ks d s = Some (r, s') \<and> invar s' \<and> look s' = (if is_ok r then (look s)(ks := put_docs [d] (look s ks)) else look s)"
      if "invar s" for s using put that v unfolding puts_on_def by blast
  qed (simp_all add: put_docs_def)
  then show "puts_on valid (sinv hash) all_known (slook hash) (shards_put hash ops)"
    unfolding puts_on_def all_known_def shards_put_def by simp
  show "multi_puts_on valid (sinv hash) all_known (slook hash) (shards_multi_put hash ops)"
    unfolding multi_puts_on_def all_known_def shards_multi_put_def using shards_multi_put_spec by blast
qed

theorem shards_storage_on:
  assumes known: "\<And>s ks. known s ks"
  shows "storage_on (shards_ops hash ops) (sinv hash) all_known (slook hash) valid"
proof
  fix shards ks keys k ts ms
  assume inv: "sinv hash shards"
  show "\<exists>r s'. st_get_keyspace_list (shards_ops hash ops) shards = Some (r, s') \<and> sinv hash s' \<and> slook hash s' = slook hash shards \<and>
      (\<forall>ks'. all_known shards ks' \<longrightarrow> all_known s' ks') \<and> (\<forall>l. r = Inr l \<longrightarrow> (\<forall>ks k. slook hash shards ks k \<noteq> None \<longrightarrow> ks \<in> set l))"
    using shards_list [OF inv] by (simp add: shards_defs all_known_def)
  show "\<exists>r s'. st_iter_metadata (shards_ops hash ops) ks shards = Some (r, s') \<and> sinv hash s' \<and> slook hash s' = slook hash shards \<and>
      (\<forall>ks'. all_known shards ks' \<longrightarrow> all_known s' ks') \<and>
      (\<forall>l. r = Inr l \<longrightarrow> distinct (map fst l) \<and> map_of l = map_option stored_meta \<circ> slook hash shards ks)"
    using shards_iter [OF inv] by (simp add: shards_defs all_known_def)
  show "\<exists>r s'. st_get (shards_ops hash ops) ks k shards = Some (r, s') \<and> sinv hash s' \<and> slook hash s' = slook hash shards \<and>
      (\<forall>d. r = Inr d \<longrightarrow> d = stored_doc (slook hash shards ks k)) \<and> (\<forall>ks'. all_known shards ks' \<longrightarrow> all_known s' ks')"
    using on_shard_reads [OF inv, where act = "st_get ops ks k" and P = "\<lambda>s r. \<forall>d. r = Inr d \<longrightarrow> d = stored_doc (look s ks k)" and k = k] fetch [of _ ks k]
    by (simp add: shards_defs all_known_def shards_look_def) blast
  show "\<exists>r s'. st_multi_get (shards_ops hash ops) ks keys shards = Some (r, s') \<and> sinv hash s' \<and> slook hash s' = slook hash shards \<and>
      (\<forall>ds. r = Inr ds \<longrightarrow> mset ds = mset (List.map_filter (\<lambda>k. stored_doc (slook hash shards ks k)) keys)) \<and>
      (\<forall>ks'. all_known shards ks' \<longrightarrow> all_known s' ks')"
    using shards_fetch_many [OF inv] by (simp add: shards_defs all_known_def)
  show "\<forall>k \<in> set keys. \<exists>t. slook hash shards ks k = Some (Tombstone t) \<Longrightarrow> \<exists>r s'. st_remove_tombstones (shards_ops hash ops) ks keys shards = Some (r, s') \<and> sinv hash s' \<and>
      slook hash s' = (slook hash shards)(ks := slook hash shards ks |` (- {k \<in> set keys. applied r k})) \<and>
      (\<forall>ks'. all_known shards ks' \<longrightarrow> all_known s' ks')"
    using shards_remove_spec [OF inv, of keys ks] by (auto simp: shards_defs all_known_def)
  show "valid ts \<Longrightarrow> \<exists>r s'. st_mark_as_tombstone (shards_ops hash ops) ks k ts shards = Some (r, s') \<and> sinv hash s' \<and>
      slook hash s' = (if is_ok r then (slook hash shards)(ks := put_tombstones [metadata_new k ts] (slook hash shards ks)) else slook hash shards) \<and>
      (\<forall>ks'. all_known shards ks' \<longrightarrow> all_known s' ks')"
    using shards_tombstone_spec [OF inv known] by (simp add: shards_defs all_known_def)
  show "\<forall>m \<in> set ms. valid (md_last_updated m) \<Longrightarrow> \<exists>r s'. st_mark_many_as_tombstone (shards_ops hash ops) ks ms shards = Some (r, s') \<and> sinv hash s' \<and>
      slook hash s' = (slook hash shards)(ks := put_tombstones (filter (\<lambda>d. applied r (md_id d)) ms) (slook hash shards ks)) \<and>
      (\<forall>ks'. all_known shards ks' \<longrightarrow> all_known s' ks')"
    using shards_multi_tombstone_spec [OF inv known, where ks = ks and ms = ms] by (simp add: shards_defs all_known_def) blast
qed (simp_all add: shards_puts_fields shards_puts shards_names_own)

end

section \<open>Opening\<close>

lemma open_shards_nth:
  assumes "open_shards open_db ids = Some (Inr shards)"
  shows "length shards = length ids \<and> (\<forall>i < length ids. open_db (ids ! i) = Some (Inr (shards ! i)))"
  using assms
proof (induction ids arbitrary: shards)
  case (Cons j ids)
  then obtain q where q: "open_db j = Some q"
    "(case q of Inl e \<Rightarrow> Some (Inl e) | Inr db \<Rightarrow> open_shards open_db ids \<bind> (\<lambda>r. Some (map_sum id (\<lambda>dbs. db # dbs) r))) = Some (Inr shards)"
    by (auto simp: bind_eq_Some_conv)
  then obtain db r where db: "open_db j = Some (Inr db)" "open_shards open_db ids = Some r" "map_sum id (\<lambda>dbs. db # dbs) r = Inr shards"
    by (cases q) (auto simp: bind_eq_Some_conv)
  then obtain dbs where "r = Inr dbs" "shards = db # dbs" by (cases r) auto
  then show ?case using Cons.IH [of dbs] db(1,2) by (auto simp: nth_Cons split: nat.split)
qed simp

lemma reopened:
  assumes o: "open_in_dir (Inr ()) n (\<lambda>i. open_db (dbs ! i)) = Some (Inr shards)" and len: "length dbs = min n 16"
    and keeps: "\<And>c c'. open_db c = Some (Inr c') \<Longrightarrow> look c' = look c \<and> (invar c \<longrightarrow> invar c')"
    and inv: "shards_inv hash invar look dbs"
  shows "shards_inv hash invar look shards \<and> shards_look hash look shards = shards_look hash look dbs"
proof -
  have l: "length shards = length dbs" and s: "\<forall>i < length dbs. open_db (dbs ! i) = Some (Inr (shards ! i))"
    using open_shards_nth [of _ _ shards] o len by (fastforce simp: open_in_dir_def)+
  have k: "look (shards ! i) = look (dbs ! i)" "invar (shards ! i)" if "i < length dbs" for i
    using keeps s inv that unfolding shards_inv_def by blast+
  have ne: "dbs \<noteq> []" using inv by (simp add: shards_inv_def)
  then show ?thesis using inv k l shard_of_less [of "length dbs" hash] by (auto simp: shards_inv_def shards_look_def fun_eq_iff)
qed

text \<open>The number of shards is that of the processors: on a machine with fewer of them a document is found
  only where its hash leaves the same rest.\<close>

theorem reopened_with_fewer_shards:
  assumes "shards_inv hash invar look shards" "0 < n" "n \<le> length shards"
  shows "shards_look hash look (take n shards) ks k =
    (if shard_of hash n k = shard_of hash (length shards) k then shards_look hash look shards ks k else None)"
proof -
  have n: "shard_of hash n k < n" using assms(2) by (rule shard_of_less)
  then have "look (shards ! shard_of hash n k) ks k \<noteq> None \<Longrightarrow> shard_of hash (length shards) k = shard_of hash n k"
    using assms(1,3) unfolding shards_inv_def by (meson order_less_le_trans)
  then show ?thesis using n assms(3) by (cases "look (shards ! shard_of hash n k) ks k") (auto simp: shards_look_def min_def)
qed

section \<open>Properties\<close>

text \<open>C27. A store of shards, each of them an SQLite store, keeps the contract as one store does, for timestamps with a fraction below 250 and whatever
  the hash: every operation returns without a panic, keeps every key in the shard of its hash, and
  does to the documents and tombstones of a keyspace what the contract says. A bulk operation that
  fails in some shards names in its error exactly the ids that were written. Marking a document
  that is not stored leaves a tombstone: this is what the conformance suite asserts and the store does, where the documentation of the trait says no-op. Opened again with as many shards it has the same documents.\<close>

theorem shards_keep_contract:
  assumes "sqlite_laws S tb xtb"
  shows "storage_on (shards_ops hash (sqlite_ops S)) (shards_inv hash (sqlite_inv tb) (sqlite_look tb)) all_known (shards_look hash (sqlite_look tb)) canonical \<and>
    (\<forall>n dbs shards. open_in_dir (Inr ()) n (\<lambda>i. sqlite_open S (Inr (dbs ! i))) = Some (Inr shards) \<longrightarrow> length dbs = min n 16 \<longrightarrow>
      shards_inv hash (sqlite_inv tb) (sqlite_look tb) dbs \<longrightarrow>
      shards_inv hash (sqlite_inv tb) (sqlite_look tb) shards \<and> shards_look hash (sqlite_look tb) shards = shards_look hash (sqlite_look tb) dbs)"
proof
  show "storage_on (shards_ops hash (sqlite_ops S)) (shards_inv hash (sqlite_inv tb) (sqlite_look tb)) all_known (shards_look hash (sqlite_look tb)) canonical"
    by (rule storage_on.shards_storage_on [OF sqlite_storage_on [OF assms]]) (simp add: sqlite_known_def)
  have "tb c' = tb c" if "sqlite_open S (Inr c) = Some (Inr c')" for c c' using open_keeps [OF _ that, of tb xtb] assms by (simp add: sqlite_laws_def)
  then have "sqlite_look tb c' = sqlite_look tb c \<and> (sqlite_inv tb c \<longrightarrow> sqlite_inv tb c')" if "sqlite_open S (Inr c) = Some (Inr c')" for c c'
    using that by (simp add: sqlite_look_def sqlite_inv_def)
  then show "\<forall>n dbs shards. open_in_dir (Inr ()) n (\<lambda>i. sqlite_open S (Inr (dbs ! i))) = Some (Inr shards) \<longrightarrow> length dbs = min n 16 \<longrightarrow>
      shards_inv hash (sqlite_inv tb) (sqlite_look tb) dbs \<longrightarrow>
      shards_inv hash (sqlite_inv tb) (sqlite_look tb) shards \<and> shards_look hash (sqlite_look tb) shards = shards_look hash (sqlite_look tb) dbs"
    using reopened [where open_db = "\<lambda>c. sqlite_open S (Inr c)"] by blast
qed

definition sample_hash :: "key \<Rightarrow> u64" where
  "sample_hash k = k"

definition sample_shards :: "rows list" where
  "sample_shards = [[], [], sample_rows]"

lemma sample_shards_ok: "shards_inv sample_hash (sqlite_inv map_of) (sqlite_look map_of) sample_shards"
proof -
  have 0: "shard_of sample_hash 3 (2 ^ 63) = 2" by (simp add: shard_of_def sample_hash_def)
  have "k = 2 ^ 63" if "sqlite_look map_of sample_rows ks k \<noteq> None" for ks k
  proof -
    have "sint k = sint (2 ^ 63 :: key)" using that by (simp add: sqlite_look_def table_look_def sample_rows_def split: if_splits)
    then show ?thesis by (rule signed_word_eqI)
  qed
  then have 2: "shard_of sample_hash 3 k = 2" if "sqlite_look map_of sample_rows ks k = Some y" for ks k y using that 0 by blast
  have e: "sqlite_inv map_of []" "sqlite_look map_of [] ks k = None" for ks k by (simp_all add: sqlite_inv_def table_ok_def sqlite_look_def table_look_def)
  show ?thesis unfolding shards_inv_def sample_shards_def by (auto simp: less_Suc_eq_0_disj e sample_rows_ok intro: 2 [unfolded numeral_3_eq_3 numeral_2_eq_2])
qed

lemma rows_open: "sqlite_open rows_sqlite (Inr rows) = Some (Inr rows)"
  by (simp add: sqlite_open_def sqlite_setup_disk_handle_def setup_db_def sqlite_execute_def rows_sqlite_def rows_query_row_def rows_effect_def)

theorem shards_keep_contract_witness:
  "storage_on (shards_ops sample_hash (sqlite_ops rows_sqlite)) (shards_inv sample_hash (sqlite_inv map_of) (sqlite_look map_of)) all_known
     (shards_look sample_hash (sqlite_look map_of)) canonical \<and>
   (\<exists>shards. open_in_dir (Inr ()) 3 (\<lambda>i. sqlite_open rows_sqlite (Inr (sample_shards ! i))) = Some (Inr shards) \<and>
      shards_look sample_hash (sqlite_look map_of) shards ''a'' (2 ^ 63) = shards_look sample_hash (sqlite_look map_of) sample_shards ''a'' (2 ^ 63))"
proof -
  have "open_in_dir (Inr ()) 3 (\<lambda>i. sqlite_open rows_sqlite (Inr (sample_shards ! i))) = Some (Inr sample_shards)"
    by (simp add: open_in_dir_def rows_open numeral_3_eq_3 sample_shards_def)
  moreover note ok = shards_keep_contract [OF rows_laws, of sample_hash]
  moreover have "length sample_shards = min 3 16" by (simp add: sample_shards_def)
  ultimately show ?thesis using sample_shards_ok by blast
qed

end
