(* ===== verification/Conformance.thy ===== *)
theory Conformance
  imports MemStore
begin

text \<open>
  The conformance suite of \<^verbatim>\<open>datacake-eventual-consistency/src/storage.rs\<close> (\<open>test_suite\<close>), which every
  implementation of the trait \<open>Storage\<close> is meant to pass. A failed assertion, an error that is unwrapped and
  a panic of the store end it, as \<open>None\<close>. A \<open>HashSet\<close> that is only compared is the set of its elements.
\<close>

section \<open>The wrapper\<close>

text \<open>\<open>InstrumentedStorage\<close> logs each call and passes it on.\<close>

definition instrumented :: "('s, 'e) storage_ops \<Rightarrow> ('s, 'e) storage_ops" where
  "instrumented ops = \<lparr>st_get_keyspace_list = st_get_keyspace_list ops, st_iter_metadata = st_iter_metadata ops,
     st_remove_tombstones = (\<lambda>ks keys. st_remove_tombstones ops ks keys),
     st_put_with_ctx = (\<lambda>ks d ctx. st_put_with_ctx ops ks d ctx), st_put = (\<lambda>ks d. st_put ops ks d),
     st_multi_put_with_ctx = (\<lambda>ks ds ctx. st_multi_put_with_ctx ops ks ds ctx), st_multi_put = (\<lambda>ks ds. st_multi_put ops ks ds),
     st_mark_as_tombstone = (\<lambda>ks k ts. st_mark_as_tombstone ops ks k ts), st_mark_many_as_tombstone = (\<lambda>ks ms. st_mark_many_as_tombstone ops ks ms),
     st_get = (\<lambda>ks k. st_get ops ks k), st_multi_get = (\<lambda>ks keys. st_multi_get ops ks keys)\<rparr>"

section \<open>Steps of a test\<close>

text \<open>The store and the clock of the suite; the clock reads the system clock at each timestamp.\<close>

record 's suite =
  su_store :: 's
  su_clock :: node_clock

definition call :: "('s, 'r) action \<Rightarrow> ('s suite, 'r) action" where
  "call f st = do { (r, s) \<leftarrow> f (su_store st); Some (r, st\<lparr>su_store := s\<rparr>) }"

definition expect :: "'e + 'a \<Rightarrow> 'a exec" where
  "expect r = (case r of Inl e \<Rightarrow> None | Inr a \<Rightarrow> Some a)"

definition call_ok :: "('s, 'e + 'a) action \<Rightarrow> ('s suite, 'a) action" where
  "call_ok f st = do { (r, st) \<leftarrow> call f st; a \<leftarrow> expect r; Some (a, st) }"

definition stamp :: "('s suite, hlc_timestamp) action" where
  "stamp st =
     do { (r, c) \<leftarrow> hlc_send (wall (su_clock st) (reads (su_clock st))) (hlc (su_clock st));
          ts \<leftarrow> expect r;
          Some (ts, st\<lparr>su_clock := (su_clock st)\<lparr>reads := Suc (reads (su_clock st)), hlc := c\<rparr>\<rparr>) }"

definition stamp_doc :: "document \<Rightarrow> ('s suite, document) action" where
  "stamp_doc d st = do { (ts, st) \<leftarrow> stamp st; Some (d\<lparr>metadata := (metadata d)\<lparr>md_last_updated := ts\<rparr>\<rparr>, st) }"

definition new_doc :: "key \<Rightarrow> string \<Rightarrow> ('s suite, document) action" where
  "new_doc k bytes st = do { (ts, st) \<leftarrow> stamp st; Some (document_new k ts (map (\<lambda>c. of_nat (of_char c)) bytes), st) }"

section \<open>The tests\<close>

definition test_keyspace_semantics :: "('s, 'e) storage_ops \<Rightarrow> 's suite \<Rightarrow> 's suite exec" where
  "test_keyspace_semantics ops st =
     do { let KEYSPACE = ''first-keyspace'';
          (res, st) \<leftarrow> call_ok (st_iter_metadata ops KEYSPACE) st;
          (metadata, st) \<leftarrow> call_ok (st_iter_metadata ops KEYSPACE) st;
          rust_assert (set metadata = {});
          (doc, st) \<leftarrow> new_doc 1 [] st;
          (res, st) \<leftarrow> call_ok (st_put_with_ctx ops KEYSPACE doc None) st;
          (doc, st) \<leftarrow> new_doc 2 [] st;
          (res, st) \<leftarrow> call_ok (st_put_with_ctx ops KEYSPACE doc None) st;
          (metadata, st) \<leftarrow> call_ok (st_iter_metadata ops KEYSPACE) st;
          rust_assert (card (set metadata) = 2);
          (keyspace_list, st) \<leftarrow> call_ok (st_get_keyspace_list ops) st;
          rust_assert (keyspace_list = [KEYSPACE]);
          (metadata, st) \<leftarrow> call_ok (st_iter_metadata ops ''second-keyspace'') st;
          rust_assert (set metadata = {});
          Some st }"

definition test_basic_persistence_test :: "('s, 'e) storage_ops \<Rightarrow> 's suite \<Rightarrow> 's suite exec" where
  "test_basic_persistence_test ops st =
     do { let KEYSPACE = ''persistence-test-keyspace'';
          (res, st) \<leftarrow> call_ok (st_get ops KEYSPACE 1) st;
          rust_assert (res = None);
          (docs, st) \<leftarrow> call_ok (st_multi_get ops KEYSPACE [1, 2, 3]) st;
          rust_assert (docs = []);
          (doc_1, st) \<leftarrow> new_doc 1 ''Hello, world!'' st;
          (doc_2, st) \<leftarrow> new_doc 2 [] st;
          (doc_3, st) \<leftarrow> new_doc 3 ''Hello, from document 3!'' st;
          (doc_3_updated, st) \<leftarrow> new_doc 3 ''Hello, from document 3 With an update!'' st;
          (u, st) \<leftarrow> call_ok (st_put_with_ctx ops KEYSPACE doc_1 None) st;
          (res, st) \<leftarrow> call_ok (st_get ops KEYSPACE 1) st;
          rust_assert (res = Some doc_1);
          (u, st) \<leftarrow> call_ok (st_multi_put ops KEYSPACE [doc_3, doc_2]) st;
          (docs, st) \<leftarrow> call_ok (st_multi_get ops KEYSPACE [1, 2, 3]) st;
          rust_assert (set docs = {doc_1, doc_2, doc_3});
          (u, st) \<leftarrow> call_ok (st_put_with_ctx ops KEYSPACE doc_3_updated None) st;
          (res, st) \<leftarrow> call_ok (st_get ops KEYSPACE 3) st;
          rust_assert (res = Some doc_3_updated);
          (doc_2, st) \<leftarrow> stamp_doc doc_2 st;
          (u, st) \<leftarrow> call_ok (st_mark_as_tombstone ops KEYSPACE (doc_id doc_2) (last_updated doc_2)) st;
          (res, st) \<leftarrow> call_ok (st_get ops KEYSPACE 2) st;
          rust_assert (res = None);
          (doc_1, st) \<leftarrow> stamp_doc doc_1 st;
          (doc_2, st) \<leftarrow> stamp_doc doc_2 st;
          (ts, st) \<leftarrow> stamp st;
          (u, st) \<leftarrow> call_ok (st_mark_many_as_tombstone ops KEYSPACE [metadata doc_1, metadata doc_2, metadata_new 4 ts]) st;
          (docs, st) \<leftarrow> call_ok (st_multi_get ops KEYSPACE [1, 2, 3]) st;
          rust_assert (set docs = {doc_3_updated});
          (doc_3, st) \<leftarrow> stamp_doc doc_3 st;
          (u, st) \<leftarrow> call_ok (st_mark_as_tombstone ops KEYSPACE (doc_id doc_3) (last_updated doc_3)) st;
          (docs, st) \<leftarrow> call_ok (st_multi_get ops KEYSPACE [1, 2, 3]) st;
          rust_assert (docs = []);
          Some st }"

definition test_basic_metadata_test :: "('s, 'e) storage_ops \<Rightarrow> 's suite \<Rightarrow> 's suite exec" where
  "test_basic_metadata_test ops st =
     do { let KEYSPACE = ''metadata-test-keyspace'';
          (doc_1, st) \<leftarrow> new_doc 1 [] st;
          (doc_2, st) \<leftarrow> new_doc 2 [] st;
          (doc_3, st) \<leftarrow> new_doc 3 [] st;
          (u, st) \<leftarrow> call_ok (st_multi_put ops KEYSPACE [doc_1, doc_2, doc_3]) st;
          (doc_3, st) \<leftarrow> stamp_doc doc_3 st;
          (u, st) \<leftarrow> call_ok (st_mark_as_tombstone ops KEYSPACE (doc_id doc_3) (last_updated doc_3)) st;
          (metadata_seen, st) \<leftarrow> call_ok (st_iter_metadata ops KEYSPACE) st;
          rust_assert (set metadata_seen = {(doc_id doc_1, last_updated doc_1, False), (doc_id doc_2, last_updated doc_2, False), (doc_id doc_3, last_updated doc_3, True)});
          (doc_1, st) \<leftarrow> stamp_doc doc_1 st;
          (doc_2, st) \<leftarrow> stamp_doc doc_2 st;
          (u, st) \<leftarrow> call_ok (st_mark_many_as_tombstone ops KEYSPACE [metadata doc_1, metadata doc_2]) st;
          (metadata_seen, st) \<leftarrow> call_ok (st_iter_metadata ops KEYSPACE) st;
          rust_assert (set metadata_seen = {(doc_id doc_1, last_updated doc_1, True), (doc_id doc_2, last_updated doc_2, True), (doc_id doc_3, last_updated doc_3, True)});
          (u, st) \<leftarrow> call_ok (st_remove_tombstones ops KEYSPACE [1, 2]) st;
          (metadata_seen, st) \<leftarrow> call_ok (st_iter_metadata ops KEYSPACE) st;
          rust_assert (set metadata_seen = {(doc_id doc_3, last_updated doc_3, True)});
          (doc_1, st) \<leftarrow> stamp_doc doc_1 st;
          (doc_2, st) \<leftarrow> stamp_doc doc_2 st;
          (doc_3, st) \<leftarrow> stamp_doc doc_3 st;
          (u, st) \<leftarrow> call_ok (st_multi_put ops KEYSPACE [doc_1, doc_2, doc_3]) st;
          (metadata_seen, st) \<leftarrow> call_ok (st_iter_metadata ops KEYSPACE) st;
          rust_assert (set metadata_seen = {(doc_id doc_1, last_updated doc_1, False), (doc_id doc_2, last_updated doc_2, False), (doc_id doc_3, last_updated doc_3, False)});
          (doc_1, st) \<leftarrow> stamp_doc doc_1 st;
          (doc_2, st) \<leftarrow> stamp_doc doc_2 st;
          (doc_3, st) \<leftarrow> stamp_doc doc_3 st;
          (u, st) \<leftarrow> call_ok (st_mark_many_as_tombstone ops KEYSPACE [metadata doc_1, metadata doc_2, metadata doc_3]) st;
          (u, st) \<leftarrow> call_ok (st_remove_tombstones ops KEYSPACE [1, 2, 3]) st;
          (metadata_seen, st) \<leftarrow> call_ok (st_iter_metadata ops KEYSPACE) st;
          rust_assert (length metadata_seen = 0);
          (doc_1, st) \<leftarrow> stamp_doc doc_1 st;
          (doc_2, st) \<leftarrow> stamp_doc doc_2 st;
          (doc_3, st) \<leftarrow> stamp_doc doc_3 st;
          (doc_4_ts, st) \<leftarrow> stamp st;
          (u, st) \<leftarrow> call_ok (st_mark_many_as_tombstone ops KEYSPACE [metadata doc_1, metadata doc_2, metadata doc_3, metadata_new 4 doc_4_ts]) st;
          (metadata_seen, st) \<leftarrow> call_ok (st_iter_metadata ops KEYSPACE) st;
          rust_assert (set metadata_seen = {(doc_id doc_1, last_updated doc_1, True), (doc_id doc_2, last_updated doc_2, True), (doc_id doc_3, last_updated doc_3, True), (4, doc_4_ts, True)});
          Some st }"

definition run_test_suite :: "('s, 'e) storage_ops \<Rightarrow> (nat \<Rightarrow> duration) \<Rightarrow> 's \<Rightarrow> 's suite exec" where
  "run_test_suite ops w s =
     do { ts \<leftarrow> hlc_now (w 0) 0 0;
          let storage = instrumented ops;
          let st = \<lparr>su_store = s, su_clock = \<lparr>wall = w, reads = 1, hlc = ts\<rparr>\<rparr>;
          st \<leftarrow> test_keyspace_semantics storage st;
          st \<leftarrow> test_basic_persistence_test storage st;
          test_basic_metadata_test storage st }"

lemma instrumented_same: "instrumented ops = ops"
  by (simp add: instrumented_def)

section \<open>What a keyspace shows\<close>

definition seen :: "(key \<rightharpoonup> stored) \<Rightarrow> (key \<times> hlc_timestamp \<times> bool) set" where
  "seen N = {(k, stored_meta v) | k v. N k = Some v}"

lemma seen_simps: "seen Map.empty = {}" "seen (N(k \<mapsto> v)) = insert (k, stored_meta v) (seen (N(k := None)))"
  "k \<noteq> j \<Longrightarrow> (N(k \<mapsto> v))(j := None) = (N(j := None))(k \<mapsto> v)"
  by (auto simp: seen_def fun_upd_twist split: if_splits)

lemma stored_simps:
  "put_docs (d # ds) N = put_docs ds (N(doc_id d \<mapsto> Doc d))" "put_tombstones (x # xs) N = put_tombstones xs (N(md_id x \<mapsto> Tombstone (md_last_updated x)))"
  "md_id (metadata d) = doc_id d" "md_last_updated (metadata d) = last_updated d" "md_id (metadata_new k ts) = k" "md_last_updated (metadata_new k ts) = ts"
  "(N(k \<mapsto> v)) |` (- A) = (if k \<in> A then N |` (- A) else (N |` (- A))(k \<mapsto> v))"
  by (simp_all add: put_docs_def put_tombstones_def doc_id_def last_updated_def metadata_new_def restrict_map_def fun_eq_iff)

section \<open>Stores that pass\<close>

text \<open>
  A store of the contract whose operations do not fail, and which lists no keyspace that was not
  named in a call: \<open>listed\<close> is what it lists.
\<close>

locale conformant = storage +
  fixes listed :: "'a \<Rightarrow> string set"
  assumes list_ok: "invar s \<Longrightarrow> st_get_keyspace_list ops s = Some (r1, s') \<Longrightarrow> \<exists>l. r1 = Inr l \<and> distinct l \<and> set l = listed s"
    and iterate_ok: "invar s \<Longrightarrow> st_iter_metadata ops ks s = Some (r2, s') \<Longrightarrow> is_ok r2 \<and> listed s' \<subseteq> insert ks (listed s)"
    and put_ok: "invar s \<Longrightarrow> st_put_with_ctx ops ks d ctx s = Some (r3, s') \<Longrightarrow> is_ok r3 \<and> listed s' \<subseteq> insert ks (listed s)"
    and multi_put_ok: "invar s \<Longrightarrow> st_multi_put ops ks ds s = Some (r4, s') \<Longrightarrow> is_ok r4"
    and tombstone_ok: "invar s \<Longrightarrow> st_mark_as_tombstone ops ks k ts s = Some (r5, s') \<Longrightarrow> is_ok r5"
    and multi_tombstone_ok: "invar s \<Longrightarrow> st_mark_many_as_tombstone ops ks ms s = Some (r6, s') \<Longrightarrow> is_ok r6"
    and remove_ok: "invar s \<Longrightarrow> st_remove_tombstones ops ks keys s = Some (r7, s') \<Longrightarrow> is_ok r7"
    and fetch_ok: "invar s \<Longrightarrow> st_get ops ks k s = Some (r8, s') \<Longrightarrow> is_ok r8"
    and fetch_many_ok: "invar s \<Longrightarrow> st_multi_get ops ks keys s = Some (r9, s') \<Longrightarrow> is_ok r9"
begin

text \<open>
  What the suite knows between two steps of a test on a keyspace: which keyspaces may be listed,
  whether the keyspace exists, what is stored in it and elsewhere, and how much room the clock has used.
\<close>

definition suite_at :: "string \<Rightarrow> string set \<Rightarrow> bool \<Rightarrow> (key \<rightharpoonup> stored) \<Rightarrow> (string \<Rightarrow> key \<rightharpoonup> stored) \<Rightarrow> nat \<Rightarrow> 'a suite \<Rightarrow> bool" where
  "suite_at ks T b N M m st \<longleftrightarrow> invar (su_store st) \<and> listed (su_store st) \<subseteq> T \<and> (b \<longrightarrow> known (su_store st) ks) \<and> look (su_store st) = M(ks := N) \<and>
     clock_fit m (su_clock st)"

definition goes :: "('r \<times> 'a suite) exec \<Rightarrow> ('r \<Rightarrow> 'a suite \<Rightarrow> bool) \<Rightarrow> bool" where
  "goes m P \<longleftrightarrow> (\<exists>r st. m = Some (r, st) \<and> P r st)"

lemma goesI: "f (su_store st) = Some (r, s) \<Longrightarrow> is_ok r \<Longrightarrow> (\<And>a. r = Inr a \<Longrightarrow> P a (st\<lparr>su_store := s\<rparr>)) \<Longrightarrow> goes (call_ok f st) P"
  by (cases r) (simp_all add: goes_def call_ok_def call_def expect_def)

lemma suite_atD:
  assumes "suite_at ks T b N M m st"
  shows "invar (su_store st)" "look (su_store st) = M(ks := N)" "b \<Longrightarrow> known (su_store st) ks" "listed (su_store st) \<subseteq> T" "look (su_store st) ks = N"
  using assms by (simp_all add: suite_at_def)

lemma suite_at_store:
  assumes "suite_at ks T b N M m st" "invar s" "look s = M(ks := N')" "\<forall>ks. known (su_store st) ks \<longrightarrow> known s ks" "listed s \<subseteq> T'" "b' \<longrightarrow> b \<or> known s ks"
  shows "suite_at ks T' b' N' M m (st\<lparr>su_store := s\<rparr>)"
  using assms by (auto simp: suite_at_def)

lemma iter_at:
  assumes at: "suite_at ks T b N M m st"
  shows "goes (call_ok (st_iter_metadata ops ks') st) (\<lambda>l st. suite_at ks (insert ks' T) b N M m st \<and> set l = seen ((M(ks := N)) ks'))"
proof -
  note i = suite_atD(1) [OF at] and M = suite_atD(2) [OF at]
  obtain r s where r: "st_iter_metadata ops ks' (su_store st) = Some (r, s)" "invar s" "look s = M(ks := N)" "\<forall>ks. known (su_store st) ks \<longrightarrow> known s ks"
    "\<forall>l. r = Inr l \<longrightarrow> distinct (map fst l) \<and> map_of l = map_option stored_meta \<circ> (M(ks := N)) ks'"
    using iterate [OF i, of ks', unfolded M] by (elim exE conjE)
  have ok: "is_ok r" "listed s \<subseteq> insert ks' T" using iterate_ok [OF i r(1)] suite_atD(4) [OF at] by auto
  have "set l = seen ((M(ks := N)) ks')" if l: "r = Inr l" for l
  proof -
    have d: "distinct (map fst l)" and m: "map_of l = map_option stored_meta \<circ> (M(ks := N)) ks'" using r(5) l by auto
    have "e \<in> set l \<longleftrightarrow> (\<exists>x. (M(ks := N)) ks' (fst e) = Some x \<and> stored_meta x = snd e)" for e using map_of_eq_Some_iff [OF d, of "fst e" "snd e"] m by auto
    then show ?thesis unfolding seen_def by force
  qed
  then show ?thesis by (intro goesI [where f = "st_iter_metadata ops ks'", OF r(1) ok(1)] conjI suite_at_store [OF at r(2-4) ok(2)]) auto
qed

lemma iter_step:
  assumes "suite_at ks T b N M m st"
  shows "goes (call_ok (st_iter_metadata ops ks) st) (\<lambda>l st. suite_at ks (insert ks T) b N M m st \<and> set l = seen N)"
  using iter_at [OF assms, of ks] by simp

lemma list_step:
  assumes at: "suite_at ks T b N M m st" and T: "T \<subseteq> {ks}" and ne: "N \<noteq> Map.empty"
  shows "goes (call_ok (st_get_keyspace_list ops) st) (\<lambda>l st. suite_at ks UNIV b N M m st \<and> l = [ks])"
proof -
  note i = suite_atD(1) [OF at] and M = suite_atD(2) [OF at]
  obtain r s where r: "st_get_keyspace_list ops (su_store st) = Some (r, s)" "invar s" "look s = M(ks := N)" "\<forall>ks. known (su_store st) ks \<longrightarrow> known s ks"
    "\<forall>l. r = Inr l \<longrightarrow> (\<forall>ks' k. (M(ks := N)) ks' k \<noteq> None \<longrightarrow> ks' \<in> set l)"
    using keyspaces [OF i, unfolded M] by (elim exE conjE)
  obtain l where l: "r = Inr l" "distinct l" "set l = listed (su_store st)" using list_ok [OF i r(1)] by blast
  obtain k where "N k \<noteq> None" using ne by (auto simp: fun_eq_iff)
  then have "(M(ks := N)) ks k \<noteq> None" by simp
  then have "ks \<in> set l" using r(5) l(1) by blast
  then have "set l = {ks}" using l(3) suite_atD(4) [OF at] T by auto
  then have "l = [ks]" using l(2) by (cases l; cases "tl l") auto
  then show ?thesis using l(1) by (intro goesI [where f = "st_get_keyspace_list ops", OF r(1)] conjI suite_at_store [OF at r(2-4)]) auto
qed

lemma put_step:
  assumes at: "suite_at ks T b N M m st"
  shows "goes (call_ok (st_put_with_ctx ops ks d ctx) st) (\<lambda>u st. suite_at ks (insert ks T) True (N(doc_id d \<mapsto> Doc d)) M m st)"
proof -
  note i = suite_atD(1) [OF at] and M = suite_atD(2) [OF at]
  obtain r s where r: "st_put_with_ctx ops ks d ctx (su_store st) = Some (r, s)" "invar s" "look s = (if is_ok r then (look (su_store st))(ks := put_docs [d] (look (su_store st) ks)) else look (su_store st))"
    "\<forall>ks'. known (su_store st) ks' \<or> is_ok r \<and> ks' = ks \<longrightarrow> known s ks'"
    using put_with_ctx [of ctx] i unfolding put_law_def by blast
  have ok: "is_ok r" "listed s \<subseteq> insert ks T" using put_ok [OF i r(1)] suite_atD(4) [OF at] by auto
  show ?thesis by (intro goesI [where f = "st_put_with_ctx ops ks d ctx", OF r(1) ok(1)] suite_at_store [OF at r(2) _ _ ok(2)]) (use r(3,4) ok M in \<open>auto simp: put_docs_def\<close>)
qed

lemma multi_put_step:
  assumes at: "suite_at ks T b N M m st"
  shows "goes (call_ok (st_multi_put ops ks ds) st) (\<lambda>u st. suite_at ks UNIV True (put_docs ds N) M m st)"
proof -
  note i = suite_atD(1) [OF at] and M = suite_atD(2) [OF at]
  obtain r s where r: "st_multi_put ops ks ds (su_store st) = Some (r, s)" "invar s" "look s = (look (su_store st))(ks := put_docs (filter (\<lambda>d. applied r (doc_id d)) ds) (look (su_store st) ks))"
    "\<forall>ks'. known (su_store st) ks' \<or> is_ok r \<and> ks' = ks \<longrightarrow> known s ks'"
    using multi_put i unfolding multi_put_law_def by blast
  note ok = multi_put_ok [OF i r(1)]
  then have "filter (\<lambda>d. applied r (doc_id d)) ds = ds" by (cases r) simp_all
  then show ?thesis by (intro goesI [where f = "st_multi_put ops ks ds", OF r(1) ok] suite_at_store [OF at r(2)]) (use r(3,4) ok M in auto)
qed

lemma tombstone_step:
  assumes at: "suite_at ks T True N M m st"
  shows "goes (call_ok (st_mark_as_tombstone ops ks k ts) st) (\<lambda>u st. suite_at ks UNIV True (N(k \<mapsto> Tombstone ts)) M m st)"
proof -
  note i = suite_atD(1) [OF at] and M = suite_atD(2) [OF at]
  obtain r s where r: "st_mark_as_tombstone ops ks k ts (su_store st) = Some (r, s)" "invar s"
    "look s = (if is_ok r then (look (su_store st))(ks := put_tombstones [metadata_new k ts] (look (su_store st) ks)) else look (su_store st))" "\<forall>ks'. known (su_store st) ks' \<longrightarrow> known s ks'"
    using tombstone [OF i suite_atD(3) [OF at TrueI], of k ts] by blast
  note ok = tombstone_ok [OF i r(1)]
  show ?thesis by (intro goesI [where f = "st_mark_as_tombstone ops ks k ts", OF r(1) ok] suite_at_store [OF at r(2)])
    (use r(3,4) ok M in \<open>auto simp: put_tombstones_def metadata_new_def\<close>)
qed

lemma multi_tombstone_step:
  assumes at: "suite_at ks T True N M m st"
  shows "goes (call_ok (st_mark_many_as_tombstone ops ks ms) st) (\<lambda>u st. suite_at ks UNIV True (put_tombstones ms N) M m st)"
proof -
  note i = suite_atD(1) [OF at] and M = suite_atD(2) [OF at]
  obtain r s where r: "st_mark_many_as_tombstone ops ks ms (su_store st) = Some (r, s)" "invar s"
    "look s = (look (su_store st))(ks := put_tombstones (filter (\<lambda>d. applied r (md_id d)) ms) (look (su_store st) ks))" "\<forall>ks'. known (su_store st) ks' \<longrightarrow> known s ks'"
    using multi_tombstone [OF i suite_atD(3) [OF at TrueI], of ms] by blast
  note ok = multi_tombstone_ok [OF i r(1)]
  then have "filter (\<lambda>d. applied r (md_id d)) ms = ms" by (cases r) simp_all
  then show ?thesis by (intro goesI [where f = "st_mark_many_as_tombstone ops ks ms", OF r(1) ok] suite_at_store [OF at r(2)]) (use r(3,4) ok M in auto)
qed

lemma remove_step:
  assumes at: "suite_at ks T b N M m st" and dead: "\<forall>k \<in> set keys. \<exists>t. N k = Some (Tombstone t)"
  shows "goes (call_ok (st_remove_tombstones ops ks keys) st) (\<lambda>u st. suite_at ks UNIV b (N |` (- set keys)) M m st)"
proof -
  note i = suite_atD(1) [OF at] and M = suite_atD(2) [OF at]
  obtain r s where r: "st_remove_tombstones ops ks keys (su_store st) = Some (r, s)" "invar s"
    "look s = (look (su_store st))(ks := look (su_store st) ks |` (- {k \<in> set keys. applied r k}))" "\<forall>ks'. known (su_store st) ks' \<longrightarrow> known s ks'"
    using remove [OF i, of keys ks] suite_atD(5) [OF at] dead by auto
  note ok = remove_ok [OF i r(1)]
  then have "{k \<in> set keys. applied r k} = set keys" by (cases r) auto
  then show ?thesis by (intro goesI [where f = "st_remove_tombstones ops ks keys", OF r(1) ok] suite_at_store [OF at r(2)]) (use r(3,4) ok M in auto)
qed

lemma fetch_step:
  assumes at: "suite_at ks T b N M m st"
  shows "goes (call_ok (st_get ops ks k) st) (\<lambda>d st. suite_at ks UNIV b N M m st \<and> d = stored_doc (N k))"
proof -
  note i = suite_atD(1) [OF at] and M = suite_atD(2) [OF at]
  obtain r s where r: "st_get ops ks k (su_store st) = Some (r, s)" "invar s" "look s = look (su_store st)" "\<forall>ks'. known (su_store st) ks' \<longrightarrow> known s ks'"
    "\<forall>d. r = Inr d \<longrightarrow> d = stored_doc (look (su_store st) ks k)"
    using fetch [OF i, of ks k] by blast
  show ?thesis by (intro goesI [where f = "st_get ops ks k", OF r(1) fetch_ok [OF i r(1)]] conjI suite_at_store [OF at r(2) r(3) [unfolded M] r(4)]) (use r(5) M in auto)
qed

lemma fetch_many_step:
  assumes at: "suite_at ks T b N M m st"
  shows "goes (call_ok (st_multi_get ops ks keys) st) (\<lambda>ds st. suite_at ks UNIV b N M m st \<and> mset ds = mset (List.map_filter (\<lambda>k. stored_doc (N k)) keys))"
proof -
  note i = suite_atD(1) [OF at] and M = suite_atD(2) [OF at]
  obtain r s where r: "st_multi_get ops ks keys (su_store st) = Some (r, s)" "invar s" "look s = look (su_store st)" "\<forall>ks'. known (su_store st) ks' \<longrightarrow> known s ks'"
    "\<forall>ds. r = Inr ds \<longrightarrow> mset ds = mset (List.map_filter (\<lambda>k. stored_doc (look (su_store st) ks k)) keys)"
    using fetch_many [OF i, of ks keys] by blast
  show ?thesis by (intro goesI [where f = "st_multi_get ops ks keys", OF r(1) fetch_many_ok [OF i r(1)]] conjI suite_at_store [OF at r(2) r(3) [unfolded M] r(4)]) (use r(5) M in auto)
qed

lemma stamp_step:
  assumes at: "suite_at ks T b N M m st" and m: "m < 2 ^ 16 - 1"
  shows "goes (stamp st) (\<lambda>ts st. suite_at ks T b N M (Suc m) st)"
proof -
  have "clock_fit m (su_clock st)" using at by (simp add: suite_at_def)
  then obtain t nc where g: "clock_get (su_clock st) = Some (t, nc)" "clock_fit (Suc m) nc" using clock_fit_get m by blast
  then obtain r c where r: "hlc_send (wall (su_clock st) (reads (su_clock st))) (hlc (su_clock st)) = Some (r, c)"
    by (auto simp: clock_get_def bind_eq_Some_conv)
  then have "r = Inr t" "nc = (su_clock st)\<lparr>reads := Suc (reads (su_clock st)), hlc := c\<rparr>"
    using g(1) by (cases r; simp add: clock_get_def)+
  then show ?thesis using at g(2) r by (simp add: goes_def stamp_def expect_def suite_at_def)
qed

lemma new_doc_step:
  assumes "suite_at ks T b N M m st" "m < 2 ^ 16 - 1"
  shows "goes (new_doc k bytes st) (\<lambda>d st. suite_at ks T b N M (Suc m) st \<and> doc_id d = k)"
  using stamp_step [OF assms] by (auto simp: goes_def new_doc_def)

lemma stamp_doc_step:
  assumes "suite_at ks T b N M m st" "m < 2 ^ 16 - 1"
  shows "goes (stamp_doc d st) (\<lambda>d' st. suite_at ks T b N M (Suc m) st \<and> doc_id d' = doc_id d)"
  using stamp_step [OF assms] by (auto simp: goes_def stamp_doc_def doc_id_def)

text \<open>A step of a test and the rest of it.\<close>

lemma goes_bind: "goes m P \<Longrightarrow> (\<And>r st. P r st \<Longrightarrow> \<exists>st'. k r st = Some st' \<and> Q st') \<Longrightarrow> \<exists>st'. (m \<bind> (\<lambda>(r, st). k r st)) = Some st' \<and> Q st'"
  by (auto simp: goes_def)

lemma assert_bind: "b \<Longrightarrow> \<exists>st'. k = Some st' \<and> Q st' \<Longrightarrow> \<exists>st'. (rust_assert b \<bind> (\<lambda>u. k)) = Some st' \<and> Q st'"
  by simp

lemma test_over: "suite_at ks T b N M n st \<Longrightarrow> n = m \<Longrightarrow> \<exists>st'. Some st = Some st' \<and> (\<exists>T b N. suite_at ks T b N M m st')"
  by blast

lemmas reads = goes_bind [OF iter_step] goes_bind [OF fetch_step] goes_bind [OF fetch_many_step]
lemmas writes_of = goes_bind [OF put_step] goes_bind [OF multi_put_step] goes_bind [OF tombstone_step] goes_bind [OF multi_tombstone_step]
lemmas stamps = goes_bind [OF stamp_step] goes_bind [OF new_doc_step] goes_bind [OF stamp_doc_step]

lemma keyspace_test:
  assumes "suite_at ''first-keyspace'' {} b Map.empty M m st" "M ''second-keyspace'' = Map.empty" "m + 2 < 2 ^ 16 - 1"
  shows "\<exists>st'. test_keyspace_semantics ops st = Some st' \<and> (\<exists>T b N. suite_at ''first-keyspace'' T b N M (m + 2) st')"
  using assms unfolding test_keyspace_semantics_def Let_def
  apply -
  apply (erule reads, elim conjE)+
  apply (rule assert_bind, simp add: seen_simps)
  apply (erule stamps, simp, (elim conjE)?)
  apply (erule writes_of)
  apply (erule stamps, simp, (elim conjE)?)
  apply (erule writes_of)
  apply (erule reads, elim conjE)
  apply (rule assert_bind, simp add: seen_simps)
  apply (erule goes_bind [OF list_step], simp, simp, elim conjE)
  apply (rule assert_bind, assumption)
  apply (erule goes_bind [OF iter_at], elim conjE)
  apply (rule assert_bind, simp add: seen_simps)
  apply (erule test_over, simp)
  done

lemma mset_set: "mset xs = mset ys \<Longrightarrow> set xs = set ys"
  by (rule mset_eq_setD)

lemma persistence_test:
  assumes "suite_at ''persistence-test-keyspace'' T b Map.empty M m st" "m + 9 < 2 ^ 16 - 1"
  shows "\<exists>st'. test_basic_persistence_test ops st = Some st' \<and> (\<exists>T b N. suite_at ''persistence-test-keyspace'' T b N M (m + 9) st')"
  using assms unfolding test_basic_persistence_test_def Let_def
  apply -
  apply ((erule reads, elim conjE) | (erule stamps, simp, (elim conjE)?) | erule writes_of |
    (rule assert_bind, (drule mset_set)?, (simp add: map_filter_simps stored_simps insert_commute; fail)))+
  apply (erule test_over, simp)
  done

lemma metadata_test:
  assumes "suite_at ''metadata-test-keyspace'' T b Map.empty M m st" "m + 16 < 2 ^ 16 - 1"
  shows "\<exists>st'. test_basic_metadata_test ops st = Some st' \<and> (\<exists>T b N. suite_at ''metadata-test-keyspace'' T b N M (m + 16) st')"
  using assms unfolding test_basic_metadata_test_def Let_def
  apply -
  apply ((erule reads, elim conjE) | (erule stamps, simp, (elim conjE)?) | erule writes_of |
    (erule goes_bind [OF remove_step], simp add: stored_simps) |
    (rule assert_bind, (simp add: seen_simps stored_simps insert_commute; fail)))+
  apply (erule test_over, simp)
  done

lemma next_test: "suite_at ks T b N M m st \<Longrightarrow> suite_at ks' UNIV False ((M(ks := N)) ks') (M(ks := N)) m st"
  by (simp add: suite_at_def fun_upd_idem)

lemma suite_from:
  assumes s: "invar s" "listed s = {}" "look s = (\<lambda>ks. Map.empty)" and c: "clock_fit 0 nc"
  shows "\<exists>st. do { st \<leftarrow> test_keyspace_semantics ops \<lparr>su_store = s, su_clock = nc\<rparr>;
      st \<leftarrow> test_basic_persistence_test ops st; test_basic_metadata_test ops st } = Some st"
proof -
  have "suite_at ''first-keyspace'' {} False Map.empty (\<lambda>ks. Map.empty) 0 \<lparr>su_store = s, su_clock = nc\<rparr>"
    using s c by (simp add: suite_at_def fun_eq_iff)
  then have "\<exists>a. test_keyspace_semantics ops \<lparr>su_store = s, su_clock = nc\<rparr> = Some a \<and>
      (\<exists>T b N. suite_at ''first-keyspace'' T b N (\<lambda>ks. Map.empty) (0 + 2) a)" by (rule keyspace_test) simp_all
  then obtain a T1 b1 N1 where a: "test_keyspace_semantics ops \<lparr>su_store = s, su_clock = nc\<rparr> = Some a"
    "suite_at ''first-keyspace'' T1 b1 N1 (\<lambda>ks. Map.empty) (0 + 2) a" by (elim exE conjE)
  note pt = persistence_test [OF next_test [OF a(2), of "''persistence-test-keyspace''", simplified]]
  then obtain b T2 b2 N2 where b: "test_basic_persistence_test ops a = Some b"
      "suite_at ''persistence-test-keyspace'' T2 b2 N2 ((\<lambda>ks. Map.empty)(''first-keyspace'' := N1)) 11 b" by auto
  from metadata_test [OF next_test [OF b(2), of "''metadata-test-keyspace''", simplified]] obtain d where "test_basic_metadata_test ops b = Some d" by auto
  then show ?thesis using a(1) b(1) by simp
qed

end

lemma clock_fit_now:
  assumes "mono w" "\<forall>n. valid_wall (w n)"
  shows "\<exists>ts. hlc_now (w 0) 0 nd = Some ts \<and> clock_fit 0 \<lparr>wall = w, reads = 1, hlc = ts\<rparr>"
proof -
  let ?now = "trunc_tick (w 0 - DATACAKE_EPOCH)" and ?t = "HLCTimestamp (pack (trunc_tick (w 0 - DATACAKE_EPOCH)) 0 nd)"
  have v: "valid_wall (w 0)" using assms by simp
  have s: "as_secs ?now < 2 ^ 32" by (rule drift_in_range(1) [OF v]) simp
  then have "hlc_now (w 0) 0 nd = Some ?t" by (simp add: hlc_now_def get_datacake_timestamp_valid [OF v] hlc_new_def TIMESTAMP_MAX_def rust_assert_def)
  moreover have "counter ?t = 0" "datacake_timestamp ?t = ?now" using s by (simp_all add: pack_time pack_fields trunc_tick_props)
  moreover have "?now \<le> trunc_tick (w 1 - DATACAKE_EPOCH)"
    using assms(1) by (simp add: mono_def trunc_tick_def ticks_def div_le_mono diff_le_mono)
  ultimately show ?thesis using assms by (simp add: clock_fit_def clock_ok_def)
qed

definition mem_listed :: "mem_store \<Rightarrow> string set" where
  "mem_listed s = dom (map_of (ms_metadata s))"

lemma mem_default_listed: "mem_listed mem_default = {}"
  by (simp add: mem_listed_def mem_default_def)

interpretation mem_suite: conformant mem_ops mem_inv mem_known mem_look mem_listed
proof
  fix s s' :: mem_store and ks d ctx r
  assume inv: "mem_inv s"
  show "st_get_keyspace_list mem_ops s = Some (r, s') \<Longrightarrow> \<exists>l. r = Inr l \<and> distinct l \<and> set l = mem_listed s" for r
    using inv by (auto simp: mem_get_keyspace_list_def mem_listed_def mem_inv_def nested_wf_def hm_wf_def dom_map_of_conv_image_fst)
  show "st_iter_metadata mem_ops ks s = Some (r, s') \<Longrightarrow> is_ok r \<and> mem_listed s' \<subseteq> insert ks (mem_listed s)" for r
    by (auto simp: mem_iter_metadata_def)
  show "st_put_with_ctx mem_ops ks d ctx s = Some (r, s') \<Longrightarrow> is_ok r \<and> mem_listed s' \<subseteq> insert ks (mem_listed s)" for r
    by (auto simp: mem_put_def mem_multi_put_def mem_listed_def entry_modify_or_insert_def split: option.splits if_splits)
qed (auto simp: mem_multi_put_def mem_mark_as_tombstone_def mem_mark_many_as_tombstone_def mem_remove_tombstones_def mem_get_def mem_multi_get_def)

text \<open>The run over the in-memory store.\<close>

definition test_suite_semantics :: "(nat \<Rightarrow> duration) \<Rightarrow> mem_store suite exec" where
  "test_suite_semantics w = run_test_suite mem_ops w mem_default"

section \<open>Stores that follow the documentation\<close>

text \<open>
  The documentation of \<open>mark_as_tombstone\<close> and \<open>mark_many_as_tombstone\<close> says that marking a document that does not exist should
  be a no-op (\<^verbatim>\<open>storage.rs\<close>, lines 294 and 312). The suite asserts the opposite, in line with the contract \<open>storage\<close>: its last test marks
  four documents in a keyspace it has just found empty and wants the four tombstones listed. So a
  store that does as documented, and lists what it holds, fails the suite.
\<close>

lemma bind_None: "(\<And>a st. m = Some (a, st) \<Longrightarrow> f a st = None) \<Longrightarrow> (do { (a, st) \<leftarrow> m; f a st }) = None"
  by (cases m) auto

lemma assert_None: "(P \<Longrightarrow> f () = None) \<Longrightarrow> do { u \<leftarrow> rust_assert P; f u } = None"
  by (simp add: rust_assert_def)

definition follows_documentation :: "('s, 'e) storage_ops \<Rightarrow> ('s \<Rightarrow> string \<Rightarrow> key \<rightharpoonup> stored) \<Rightarrow> bool" where
  "follows_documentation ops look \<longleftrightarrow>
     (\<forall>s ks l s'. st_iter_metadata ops ks s = Some (Inr l, s') \<longrightarrow> look s' = look s \<and> set l = seen (look s ks)) \<and>
     (\<forall>s ks ms u s'. st_mark_many_as_tombstone ops ks ms s = Some (Inr u, s') \<longrightarrow> (\<forall>m \<in> set ms. look s ks (md_id m) = None) \<longrightarrow> look s' = look s)"

lemma call_okD: "call_ok f st = Some (a, st') \<Longrightarrow> f (su_store st) = Some (Inr a, su_store st')"
  by (cases "f (su_store st)" rule: option.exhaust [case_product sum.exhaust]; cases "fst (the (f (su_store st)))") (auto simp: call_ok_def call_def expect_def)

lemma stamp_store: "stamp st = Some (ts, st') \<Longrightarrow> su_store st' = su_store st" "stamp_doc d st = Some (d', st') \<Longrightarrow> su_store st' = su_store st"
proof -
  show s: "su_store st' = su_store st" if "stamp st = Some (ts, st')" for ts st' using that by (auto simp: stamp_def bind_eq_Some_conv)
  show "stamp_doc d st = Some (d', st') \<Longrightarrow> su_store st' = su_store st" using s by (auto simp: stamp_doc_def bind_eq_Some_conv)
qed

lemma documented_calls:
  assumes "follows_documentation ops look"
  shows "call_ok (st_iter_metadata ops ks) st = Some (l, st') \<Longrightarrow> look (su_store st') = look (su_store st) \<and> set l = seen (look (su_store st) ks)"
    and "call_ok (st_mark_many_as_tombstone ops ks ms) st = Some (u, st') \<Longrightarrow> look (su_store st) ks = Map.empty \<Longrightarrow> look (su_store st') = look (su_store st)"
proof -
  note d = assms [unfolded follows_documentation_def, THEN conjunct1, rule_format] assms [unfolded follows_documentation_def, THEN conjunct2, rule_format]
  show "call_ok (st_iter_metadata ops ks) st = Some (l, st') \<Longrightarrow> look (su_store st') = look (su_store st) \<and> set l = seen (look (su_store st) ks)"
    by (drule call_okD, drule d(1)) simp
  show "call_ok (st_mark_many_as_tombstone ops ks ms) st = Some (u, st') \<Longrightarrow> look (su_store st) ks = Map.empty \<Longrightarrow> look (su_store st') = look (su_store st)"
    by (drule call_okD, drule d(2)) simp_all
qed

lemma seen_empty:
  assumes "seen N = {}"
  shows "N = Map.empty"
proof
  fix k
  show "N k = None"
  proof (cases "N k")
    case (Some v)
    then have "(k, stored_meta v) \<in> seen N" by (cases "stored_meta v") (auto simp: seen_def)
    with assms show ?thesis by simp
  qed simp
qed

lemma metadata_test_refused:
  assumes doc: "follows_documentation ops look"
  shows "test_basic_metadata_test ops st = None"
  unfolding test_basic_metadata_test_def Let_def
proof (intro bind_None assert_None, goal_cases)
  case (1 d1 st1 d2 st2 d3 st3 u4 st4 d5 st5 u6 st6 l7 st7 d8 st8 d9 st9 u10 st10 l11 st11 u12 st12 l13 st13 d14 st14 d15 st15 d16 st16 u17 st17 l18 st18
    d19 st19 d20 st20 d21 st21 u22 st22 u23 st23 l24 st24 d25 st25 d26 st26 d27 st27 t28 st28 u29 st29 l30 st30)
  have "look (su_store st24) ''metadata-test-keyspace'' = Map.empty" using documented_calls(1) [OF doc 1(28)] 1(29) seen_empty by simp
  moreover have "su_store st28 = su_store st24" using stamp_store(2) [OF 1(30)] stamp_store(2) [OF 1(31)] stamp_store(2) [OF 1(32)] stamp_store(1) [OF 1(33)] by simp
  ultimately have "set l30 = {}" using documented_calls(2) [OF doc 1(34)] documented_calls(1) [OF doc 1(35)] by (simp add: seen_simps)
  then show ?case using 1(36) by simp
qed

lemma documented_store_fails_suite: "follows_documentation ops look \<Longrightarrow> run_test_suite ops w s = None"
  unfolding run_test_suite_def instrumented_same Let_def by (simp add: metadata_test_refused bind_eq_None_conv del: not_None_eq)

text \<open>
  There are such stores: the in-memory store, when it lists each key once and passes over the documents it does not have.
\<close>

definition listed_look :: "mem_store \<Rightarrow> string \<Rightarrow> key \<rightharpoonup> stored" where
  "listed_look s ks k = map_option (\<lambda>(t, b). if b then Tombstone t else Doc (document_new k t [])) (nested (ms_metadata s) ks k)"

definition ignoring_missing :: "(mem_store, mem_store_error) storage_ops" where
  "ignoring_missing = mem_ops\<lparr>
     st_iter_metadata := (\<lambda>ks s. Some (Inr (case map_of (ms_metadata s) ks of
         Some m \<Rightarrow> map (\<lambda>k. (k, the (map_of m k))) (remdups (map fst m)) | None \<Rightarrow> []), s)),
     st_mark_many_as_tombstone := (\<lambda>ks ms s. mem_mark_many_as_tombstone ks (filter (\<lambda>m. listed_look s ks (md_id m) \<noteq> None) ms) s)\<rparr>"

lemma seen_iff: "(k, v) \<in> seen N \<longleftrightarrow> map_option stored_meta (N k) = Some v"
  by (auto simp: seen_def)

lemma listed_seen: "seen (listed_look s ks) = {(k, v). nested (ms_metadata s) ks k = Some v}"
  by (auto simp: seen_iff listed_look_def last_updated_def document_new_def split: if_splits)

lemma set_keys_values: "set (map (\<lambda>k. (k, the (map_of m k))) (remdups (map fst m))) = {(k, v). map_of m k = Some v}"
proof -
  have "fst ` set m = dom (map_of m)" by (simp add: dom_map_of_conv_image_fst)
  then show ?thesis by (force simp: image_iff)
qed

lemma ignoring_missing_documented: "follows_documentation ignoring_missing listed_look"
  unfolding follows_documentation_def
proof (intro conjI allI impI)
  fix s ks l s'
  assume "st_iter_metadata ignoring_missing ks s = Some (Inr l, s')"
  then have "s' = s" "l = (case map_of (ms_metadata s) ks of Some m \<Rightarrow> map (\<lambda>k. (k, the (map_of m k))) (remdups (map fst m)) | None \<Rightarrow> [])"
    by (auto simp: ignoring_missing_def)
  then show "listed_look s' = listed_look s" "set l = seen (listed_look s ks)"
    unfolding listed_seen by (simp_all only: nested_def set_keys_values split: option.splits) simp_all
next
  fix s ks ms u s'
  assume "st_mark_many_as_tombstone ignoring_missing ks ms s = Some (Inr u, s')" "\<forall>m \<in> set ms. listed_look s ks (md_id m) = None"
  then have "s' = s\<lparr>ms_data := entry_modify ks id (ms_data s), ms_metadata := entry_modify ks id (ms_metadata s)\<rparr>"
    by (auto simp: ignoring_missing_def mem_mark_many_as_tombstone_def filter_False)
  then show "listed_look s' = listed_look s" by (intro ext) (auto simp: listed_look_def nested_entry_modify nested_def split: option.splits)
qed

section \<open>Properties\<close>

text \<open>C28. The conformance suite accepts every store that keeps the contract \<open>storage\<close>: when the store
  starts empty, its operations do not fail and it lists no keyspace that was not named in a call, and when the system
  clock does not run backwards, no assertion of the three tests fails and nothing panics. In the contract marking a document that is not
  stored leaves a tombstone, as the last assertion of the suite wants it; a store for which that is a no-op, as the documentation of
  the trait says, fails the suite (\<open>documented_store_fails_suite\<close>).\<close>

theorem suite_passes:
  assumes "conformant ops invar known look listed" "invar s" "listed s = {}" "look s = (\<lambda>ks. Map.empty)"
    and "mono w" "\<forall>n. valid_wall (w n)"
  shows "\<exists>st. run_test_suite ops w s = Some st"
proof -
  obtain ts where "hlc_now (w 0) 0 0 = Some ts" "clock_fit 0 \<lparr>wall = w, reads = 1, hlc = ts\<rparr>"
    using clock_fit_now [OF assms(5,6)] by blast
  then show ?thesis using conformant.suite_from [OF assms(1-4)] by (simp add: run_test_suite_def instrumented_same)
qed

theorem suite_passes_witness: "\<exists>st. test_suite_semantics (\<lambda>n. example_wall) = Some st"
  unfolding test_suite_semantics_def
  by (rule suite_passes [OF mem_suite.conformant_axioms])
    (simp_all add: mem_default_inv mem_default_listed mono_def example_wall_def wall_example)

end
