(* ===== verification/LazyClient.thy ===== *)
theory LazyClient
  imports Rpc
begin

text \<open>
  The connection of a simulated client, \<^verbatim>\<open>datacake-rpc/src/net/simulation.rs\<close>, and its errors
  (\<^verbatim>\<open>datacake-rpc/src/net/mod.rs\<close>). The clones of a client share one cell; the first call
  connects and fills it. Calls of several tasks interleave where \<open>get_or_init\<close> awaits: for the stream
  and for the handshake, whose outcomes are those of the network.
\<close>

datatype 'io io_error = TimedOut string | OtherIo 'io

datatype ('io, 'hy) net_error = Io "'io io_error" | Hyper 'hy

record 'c lazy_client =
  lc_addr :: addr
  lc_client :: "'c option"

definition lazy_connect :: "addr \<Rightarrow> 'c lazy_client" where
  "lazy_connect socket = \<lparr>lc_addr = socket, lc_client = None\<rparr>"

text \<open>Where a call of \<open>get_or_init\<close> is.\<close>

datatype ('p, 'c, 'io, 'hy) init_call =
    Calling
  | Connecting
  | Handshaking 'p
  | Ready 'c
  | FailedWith "('io, 'hy) net_error"
  | Panicked

text \<open>What it waits for: its first turn, the stream or the end of its time, the handshake.\<close>

datatype ('p, 'c, 'io, 'hy) init_event =
    Called
  | StreamOpened "('io + 'p) option"
  | HandshakeDone "'hy + 'c"

fun get_or_init ::
  "('p, 'c, 'io, 'hy) init_event \<Rightarrow> ('p, 'c, 'io, 'hy) init_call \<Rightarrow> 'c lazy_client \<Rightarrow> (('p, 'c, 'io, 'hy) init_call \<times> 'c lazy_client) option" where
  "get_or_init Called Calling lc =
     (case lc_client lc of
        Some existing \<Rightarrow> Some (Ready existing, lc)
      | None \<Rightarrow> Some (Connecting, lc))"
| "get_or_init (StreamOpened r) Connecting lc =
     (case r of
        None \<Rightarrow> Some (FailedWith (Io (TimedOut ''Failed to connect within deadline'')), lc)
      | Some (Inl e) \<Rightarrow> Some (FailedWith (Io (OtherIo e)), lc)
      | Some (Inr io) \<Rightarrow> Some (Handshaking io, lc))"
| "get_or_init (HandshakeDone r) (Handshaking io) lc =
     (case r of
        Inl e \<Rightarrow> Some (FailedWith (Hyper e), lc)
      | Inr sender \<Rightarrow>
          (case lc_client lc of
             None \<Rightarrow> Some (Ready sender, lc\<lparr>lc_client := Some sender\<rparr>)
           | Some existing \<Rightarrow> Some (Panicked, lc)))"
| "get_or_init ev c lc = None"

text \<open>Calls of a shared client, each a step of the call it belongs to.\<close>

inductive lazy_run ::
  "('p, 'c, 'io, 'hy) init_call list \<times> 'c lazy_client \<Rightarrow> (nat \<times> ('p, 'c, 'io, 'hy) init_event) list \<Rightarrow> ('p, 'c, 'io, 'hy) init_call list \<times> 'c lazy_client \<Rightarrow> bool"
  for s where
  lazy_start: "lazy_run s [] s"
| lazy_step: "lazy_run s tr (calls, lc) \<Longrightarrow> i < length calls \<Longrightarrow> get_or_init ev (calls ! i) lc = Some (c, lc') \<Longrightarrow>
    lazy_run s (tr @ [(i, ev)]) (calls[i := c], lc')"

section \<open>One connection is kept\<close>

text \<open>The handshakes that succeeded, in order.\<close>

fun connection_of :: "nat \<times> ('p, 'c, 'io, 'hy) init_event \<Rightarrow> (nat \<times> 'c) option" where
  "connection_of (i, HandshakeDone (Inr sender)) = Some (i, sender)"
| "connection_of e = None"

definition connections :: "(nat \<times> ('p, 'c, 'io, 'hy) init_event) list \<Rightarrow> (nat \<times> 'c) list" where
  "connections tr = List.map_filter connection_of tr"

lemma connections_snoc: "connections (tr @ [e]) = connections tr @ (case connection_of e of None \<Rightarrow> [] | Some x \<Rightarrow> [x])"
  by (simp add: connections_def map_filter_def split: option.split)

text \<open>The first connection is the one of the client and every later one has made its call panic.\<close>

definition first_kept :: "nat \<Rightarrow> (nat \<times> 'c) list \<Rightarrow> ('p, 'c, 'io, 'hy) init_call list \<times> 'c lazy_client \<Rightarrow> bool" where
  "first_kept n cs s \<longleftrightarrow> length (fst s) = n \<and> lc_client (snd s) = (case cs of [] \<Rightarrow> None | c # _ \<Rightarrow> Some (snd c)) \<and>
     {i. i < n \<and> fst s ! i = Panicked} = fst ` set (tl cs) \<and> (\<forall>i < n. \<forall>c. fst s ! i = Ready c \<longrightarrow> lc_client (snd s) = Some c)"

lemma panicked_update:
  "i < length xs \<Longrightarrow> {j. j < length xs \<and> xs[i := c] ! j = Panicked} = (if c = Panicked then insert i else (\<lambda>A. A - {i})) {j. j < length xs \<and> xs ! j = Panicked}"
  by (auto simp: nth_list_update)

lemma first_kept_step:
  assumes k: "first_kept n (connections tr) (calls, lc)" and i: "i < length calls" and st: "get_or_init ev (calls ! i) lc = Some (c, lc')"
  shows "first_kept n (connections (tr @ [(i, ev)])) (calls[i := c], lc')"
proof -
  have p: "calls ! i \<noteq> Panicked" using st by auto
  show ?thesis
  proof (cases "connection_of (i, ev)")
    case None
    then have c: "c \<noteq> Panicked" "lc' = lc" "\<And>x. c = Ready x \<Longrightarrow> lc_client lc = Some x"
      using st by (auto elim!: get_or_init.elims split: option.splits sum.splits)
    then show ?thesis using k i p None by (auto simp: first_kept_def connections_snoc panicked_update nth_list_update)
  next
    case (Some y)
    then have ev: "ev = HandshakeDone (Inr (snd y))" "fst y = i" by (auto elim!: connection_of.elims)
    then have c: "c = (if lc_client lc = None then Ready (snd y) else Panicked)" "lc_client lc' = Some (case lc_client lc of None \<Rightarrow> snd y | Some x \<Rightarrow> x)"
      using st by (auto elim!: get_or_init.elims split: option.splits)
    then show ?thesis using k i p Some ev(2)
      by (cases "connections tr") (auto simp: first_kept_def connections_snoc panicked_update nth_list_update)
  qed
qed

lemma lazy_run_kept:
  "lazy_run s tr t \<Longrightarrow> s = (replicate n Calling, lazy_connect a) \<Longrightarrow> first_kept n (connections tr) t"
proof (induction rule: lazy_run.induct)
  case lazy_start
  then show ?case by (auto simp: first_kept_def connections_def map_filter_simps lazy_connect_def)
next
  case (lazy_step tr calls lc i ev c lc')
  then show ?case using first_kept_step by blast
qed

section \<open>Properties\<close>

text \<open>C25. Several calls on one client that is not connected: whatever the order of their steps, the
  client keeps the first connection made, every call that returns has that connection, and the
  calls that panic are exactly those whose own connection was made after the first. Calls that
  start before the first of them has connected therefore panic, unless their connection fails.\<close>

theorem later_connections_panic:
  assumes "lazy_run (replicate n Calling, lazy_connect a) tr (calls, lc)"
  shows "lc_client lc = (case connections tr of [] \<Rightarrow> None | c # _ \<Rightarrow> Some (snd c)) \<and>
    {i. i < n \<and> calls ! i = Panicked} = fst ` set (tl (connections tr)) \<and>
    (\<forall>i < n. \<forall>c. calls ! i = Ready c \<longrightarrow> lc_client lc = Some c)"
  using lazy_run_kept [OF assms refl] unfolding first_kept_def fst_conv snd_conv by blast

definition example_calls :: "(nat \<times> (unit, nat, unit, unit) init_event) list" where
  "example_calls = [(0, Called), (1, Called), (0, StreamOpened (Some (Inr ()))), (1, StreamOpened (Some (Inr ()))),
     (0, HandshakeDone (Inr 7)), (1, HandshakeDone (Inr 8))]"

lemma lazy_run_cons:
  assumes "i < length calls" "get_or_init ev (calls ! i) lc = Some (c, lc')" "lazy_run (calls[i := c], lc') tr t"
  shows "lazy_run (calls, lc) ((i, ev) # tr) t"
  using assms(3)
proof (induction rule: lazy_run.induct)
  case lazy_start
  then show ?case using lazy_run.lazy_step [OF lazy_run.lazy_start assms(1,2)] by simp
next
  case (lazy_step tr calls' lc' j ev' c' lc'')
  then show ?case using lazy_run.lazy_step [OF lazy_step.IH] by fastforce
qed

theorem later_connections_panic_witness:
  "\<exists>calls lc. lazy_run (replicate 2 Calling, lazy_connect ''a'') example_calls (calls, lc) \<and>
    lc_client lc = Some 7 \<and> {i. i < 2 \<and> calls ! i = Panicked} = {1}"
proof -
  have run: "lazy_run (replicate 2 Calling, lazy_connect ''a'') example_calls ([Ready 7, Panicked], \<lparr>lc_addr = ''a'', lc_client = Some 7\<rparr>)"
    unfolding example_calls_def
    by (rule lazy_run_cons, simp, simp add: lazy_connect_def numeral_2_eq_2)+ (simp add: lazy_run.lazy_start numeral_2_eq_2)
  have conns: "connections example_calls = [(0, 7), (1, 8)]" by (simp add: example_calls_def connections_def map_filter_simps)
  show ?thesis
    by (intro exI conjI, rule run) (use later_connections_panic [OF run] in \<open>simp_all add: conns\<close>)
qed

end
