(* ===== verification/Scratch.thy ===== *)
theory Scratch
  imports Prelude
begin

text \<open>
  The memory the serialiser works in, \<^verbatim>\<open>datacake-rpc/src/rkyv_tooling/scratch.rs\<close>: a buffer on the stack,
  then one on the heap that is made when it is first needed, then the allocator. The three scratch
  spaces are those of \<open>rkyv\<close>, parameters with the laws \<open>scratch_laws\<close>: what is pushed last can be popped, and
  a pointer from elsewhere is refused.
\<close>

section \<open>The space\<close>

record layout =
  ly_size :: nat
  ly_align :: nat

text \<open>The trait \<open>ScratchSpace\<close>; a pointer is its address.\<close>

record ('s, 'e) scratch_ops =
  sc_push :: "layout \<Rightarrow> 's \<Rightarrow> ('e + nat) \<times> 's"
  sc_pop :: "nat \<Rightarrow> layout \<Rightarrow> 's \<Rightarrow> ('e + unit) \<times> 's"

definition STACK_SCRATCH_SIZE :: nat where "STACK_SCRATCH_SIZE = 1024"
definition HEAP_SCRATCH_SIZE :: nat where "HEAP_SCRATCH_SIZE = 16 * 2 ^ 10"

record ('a, 'b, 'c) lazy_scratch =
  stack_scratch :: 'a
  heap_scratch :: "'b option"
  alloc_scratch :: 'c

text \<open>The constructors of the three spaces: the buffers of a given size, and the allocator's.\<close>

definition lazy_scratch_default :: "(nat \<Rightarrow> 'a) \<Rightarrow> 'c \<Rightarrow> ('a, 'b, 'c) lazy_scratch" where
  "lazy_scratch_default buffer alloc =
     \<lparr>stack_scratch = buffer STACK_SCRATCH_SIZE, heap_scratch = None, alloc_scratch = alloc\<rparr>"

text \<open>\<open>StackScratch\<close> passes every call to its buffer.\<close>

definition stack_ops :: "('a, 'e) scratch_ops \<Rightarrow> ('a, 'e) scratch_ops" where
  "stack_ops inner = \<lparr>sc_push = (\<lambda>layout s. sc_push inner layout s), sc_pop = (\<lambda>ptr layout s. sc_pop inner ptr layout s)\<rparr>"

definition heap_of :: "(nat \<Rightarrow> 'b) \<Rightarrow> ('a, 'b, 'c) lazy_scratch \<Rightarrow> 'b" where
  "heap_of new s = (case heap_scratch s of Some h \<Rightarrow> h | None \<Rightarrow> new HEAP_SCRATCH_SIZE)"

definition push_scratch ::
  "('a, 'e) scratch_ops \<Rightarrow> ('b, 'f) scratch_ops \<Rightarrow> (nat \<Rightarrow> 'b) \<Rightarrow> ('c, 'g) scratch_ops \<Rightarrow> layout \<Rightarrow> ('a, 'b, 'c) lazy_scratch
    \<Rightarrow> ('g + nat) \<times> ('a, 'b, 'c) lazy_scratch" where
  "push_scratch B H new A layout s =
     (case sc_push (stack_ops B) layout (stack_scratch s) of
        (Inr buf, st) \<Rightarrow> (Inr buf, s\<lparr>stack_scratch := st\<rparr>)
      | (Inl e, st) \<Rightarrow>
          (case sc_push H layout (heap_of new s) of
             (Inr buf, h) \<Rightarrow> (Inr buf, s\<lparr>stack_scratch := st, heap_scratch := Some h\<rparr>)
           | (Inl e, h) \<Rightarrow>
               (let (r, a) = sc_push A layout (alloc_scratch s)
                in (r, s\<lparr>stack_scratch := st, heap_scratch := Some h, alloc_scratch := a\<rparr>))))"

definition pop_scratch ::
  "('a, 'e) scratch_ops \<Rightarrow> ('b, 'f) scratch_ops \<Rightarrow> (nat \<Rightarrow> 'b) \<Rightarrow> ('c, 'g) scratch_ops \<Rightarrow> nat \<Rightarrow> layout \<Rightarrow> ('a, 'b, 'c) lazy_scratch
    \<Rightarrow> ('g + unit) \<times> ('a, 'b, 'c) lazy_scratch" where
  "pop_scratch B H new A ptr layout s =
     (case sc_pop (stack_ops B) ptr layout (stack_scratch s) of
        (Inr u, st) \<Rightarrow> (Inr (), s\<lparr>stack_scratch := st\<rparr>)
      | (Inl e, st) \<Rightarrow>
          (case sc_pop H ptr layout (heap_of new s) of
             (Inr u, h) \<Rightarrow> (Inr (), s\<lparr>stack_scratch := st, heap_scratch := Some h\<rparr>)
           | (Inl e, h) \<Rightarrow>
               (let (r, a) = sc_pop A ptr layout (alloc_scratch s)
                in (r, s\<lparr>stack_scratch := st, heap_scratch := Some h, alloc_scratch := a\<rparr>))))"

definition lazy_ops ::
  "('a, 'e) scratch_ops \<Rightarrow> ('b, 'f) scratch_ops \<Rightarrow> (nat \<Rightarrow> 'b) \<Rightarrow> ('c, 'g) scratch_ops \<Rightarrow> (('a, 'b, 'c) lazy_scratch, 'g) scratch_ops" where
  "lazy_ops B H new A = \<lparr>sc_push = push_scratch B H new A, sc_pop = pop_scratch B H new A\<rparr>"

section \<open>Scratch spaces\<close>

text \<open>
  The contract of a scratch space whose pointers are in a region: \<open>live s L\<close> says that the allocations of \<open>L\<close>,
  the last one first, have not been popped.
\<close>

definition scratch_laws :: "('s, 'e) scratch_ops \<Rightarrow> ('s \<Rightarrow> (nat \<times> layout) list \<Rightarrow> bool) \<Rightarrow> nat set \<Rightarrow> bool" where
  "scratch_laws ops live R \<longleftrightarrow>
     (\<forall>s L layout r s'. live s L \<longrightarrow> sc_push ops layout s = (r, s') \<longrightarrow>
        (case r of Inr p \<Rightarrow> p \<in> R \<and> live s' ((p, layout) # L) | Inl e \<Rightarrow> live s' L)) \<and>
     (\<forall>s L p layout. live s ((p, layout) # L) \<longrightarrow> (\<exists>s'. sc_pop ops p layout s = (Inr (), s') \<and> live s' L)) \<and>
     (\<forall>s L p layout. live s L \<longrightarrow> p \<notin> R \<longrightarrow> (\<exists>e s'. sc_pop ops p layout s = (Inl e, s') \<and> live s' L))"

lemma scratch_lawsD:
  assumes "scratch_laws ops live R" "live s L"
  shows "sc_push ops layout s = (Inr p, s') \<Longrightarrow> p \<in> R \<and> live s' ((p, layout) # L)"
    and "sc_push ops layout s = (Inl e, s') \<Longrightarrow> live s' L"
    and "L = (p, layout) # L' \<Longrightarrow> \<exists>s'. sc_pop ops p layout s = (Inr (), s') \<and> live s' L'"
    and "p \<notin> R \<Longrightarrow> \<exists>e s'. sc_pop ops p layout s = (Inl e, s') \<and> live s' L"
proof -
  show "sc_push ops layout s = (Inr p, s') \<Longrightarrow> p \<in> R \<and> live s' ((p, layout) # L)" "sc_push ops layout s = (Inl e, s') \<Longrightarrow> live s' L"
    using assms unfolding scratch_laws_def by fastforce+
  show "L = (p, layout) # L' \<Longrightarrow> \<exists>s'. sc_pop ops p layout s = (Inr (), s') \<and> live s' L'"
    "p \<notin> R \<Longrightarrow> \<exists>e s'. sc_pop ops p layout s = (Inl e, s') \<and> live s' L"
    using assms unfolding scratch_laws_def by blast+
qed

text \<open>The allocations of each part of a lazy space are those in its region.\<close>

definition in_region :: "nat set \<Rightarrow> (nat \<times> layout) list \<Rightarrow> (nat \<times> layout) list" where
  "in_region R = filter (\<lambda>x. fst x \<in> R)"

lemma in_region_simps [simp]: "in_region R [] = []" "in_region R (x # L) = (if fst x \<in> R then x # in_region R L else in_region R L)"
  by (simp_all add: in_region_def)

definition lazy_live ::
  "('a \<Rightarrow> (nat \<times> layout) list \<Rightarrow> bool) \<Rightarrow> nat set \<Rightarrow> ('b \<Rightarrow> (nat \<times> layout) list \<Rightarrow> bool) \<Rightarrow> nat set \<Rightarrow> (nat \<Rightarrow> 'b)
    \<Rightarrow> ('c \<Rightarrow> (nat \<times> layout) list \<Rightarrow> bool) \<Rightarrow> nat set \<Rightarrow> ('a, 'b, 'c) lazy_scratch \<Rightarrow> (nat \<times> layout) list \<Rightarrow> bool" where
  "lazy_live lb RB lh RH new la RA s L \<longleftrightarrow> lb (stack_scratch s) (in_region RB L) \<and> lh (heap_of new s) (in_region RH L) \<and>
     la (alloc_scratch s) (in_region RA L) \<and> fst ` set L \<subseteq> RB \<union> RH \<union> RA"

lemma lazy_liveD:
  assumes "lazy_live lb RB lh RH new la RA s L"
  shows "lb (stack_scratch s) (in_region RB L)" "lh (heap_of new s) (in_region RH L)" "la (alloc_scratch s) (in_region RA L)" "fst ` set L \<subseteq> RB \<union> RH \<union> RA"
  using assms by (simp_all add: lazy_live_def)

lemma heap_of_simps [simp]: "heap_of new (s\<lparr>stack_scratch := x\<rparr>) = heap_of new s" "heap_of new (s\<lparr>heap_scratch := Some h\<rparr>) = h"
  "heap_of new (s\<lparr>alloc_scratch := y\<rparr>) = heap_of new s"
  by (simp_all add: heap_of_def)

lemma stack_ops_same [simp]: "stack_ops B = B"
  by (simp add: stack_ops_def)

lemma lazy_push:
  assumes laws: "scratch_laws B lb RB" "scratch_laws H lh RH" "scratch_laws A la RA"
    and dis: "RB \<inter> RH = {}" "RB \<inter> RA = {}" "RH \<inter> RA = {}" and live: "lazy_live lb RB lh RH new la RA s L"
    and run: "push_scratch B H new A layout s = (r, s')"
  shows "case r of Inr p \<Rightarrow> p \<in> RB \<union> RH \<union> RA \<and> lazy_live lb RB lh RH new la RA s' ((p, layout) # L) | Inl e \<Rightarrow> lazy_live lb RB lh RH new la RA s' L"
proof -
  note l = lazy_liveD [OF live]
  note b = scratch_lawsD(1,2) [OF laws(1) l(1), of layout] and h = scratch_lawsD(1,2) [OF laws(2) l(2), of layout] and a = scratch_lawsD(1,2) [OF laws(3) l(3), of layout]
  obtain rb sb where rb: "sc_push B layout (stack_scratch s) = (rb, sb)" by (rule prod.exhaust)
  obtain rh sh where rh: "sc_push H layout (heap_of new s) = (rh, sh)" by (rule prod.exhaust)
  obtain ra sa where ra: "sc_push A layout (alloc_scratch s) = (ra, sa)" by (rule prod.exhaust)
  show ?thesis
  proof (cases rb)
    case (Inr p)
    then show ?thesis using b(1) [of p sb] rb run l dis by (auto simp: push_scratch_def lazy_live_def)
  next
    case fb: (Inl e)
    note sb = b(2) [of e sb, OF rb [unfolded fb]]
    show ?thesis
    proof (cases rh)
      case (Inr p)
      then show ?thesis using h(1) [of p sh] sb rb fb rh run l dis by (auto simp: push_scratch_def lazy_live_def)
    next
      case fh: (Inl e')
      note sh = h(2) [of e' sh, OF rh [unfolded fh]]
      have run': "r = ra" "s' = s\<lparr>stack_scratch := sb, heap_scratch := Some sh, alloc_scratch := sa\<rparr>"
        using run rb fb rh fh ra by (auto simp: push_scratch_def)
      show ?thesis using a(1) [of _ sa] a(2) [of _ sa] ra sb sh l(4) dis unfolding run' by (cases ra) (auto simp: lazy_live_def)
    qed
  qed
qed

lemma lazy_pop:
  assumes laws: "scratch_laws B lb RB" "scratch_laws H lh RH" "scratch_laws A la RA"
    and dis: "RB \<inter> RH = {}" "RB \<inter> RA = {}" "RH \<inter> RA = {}" and live: "lazy_live lb RB lh RH new la RA s ((p, layout) # L)"
  shows "\<exists>s'. pop_scratch B H new A p layout s = (Inr (), s') \<and> lazy_live lb RB lh RH new la RA s' L"
proof -
  note l = lazy_liveD [OF live]
  note b = scratch_lawsD(3,4) [OF laws(1) l(1)] and h = scratch_lawsD(3,4) [OF laws(2) l(2)] and a = scratch_lawsD(3) [OF laws(3) l(3)]
  consider "p \<in> RB" "p \<notin> RH" "p \<notin> RA" | "p \<in> RH" "p \<notin> RB" "p \<notin> RA" | "p \<in> RA" "p \<notin> RB" "p \<notin> RH" using l(4) dis by auto
  then show ?thesis
  proof cases
    case 1
    then obtain sb where "sc_pop B p layout (stack_scratch s) = (Inr (), sb)" "lb sb (in_region RB L)" using b(1) [of p layout] by auto
    then show ?thesis using 1 l dis by (auto simp: pop_scratch_def lazy_live_def)
  next
    case 2
    then obtain e sb sh where "sc_pop B p layout (stack_scratch s) = (Inl e, sb)" "lb sb (in_region RB L)"
      "sc_pop H p layout (heap_of new s) = (Inr (), sh)" "lh sh (in_region RH L)" using b(2) [of p layout] h(1) [of p layout] by auto
    then show ?thesis using 2 l dis by (auto simp: pop_scratch_def lazy_live_def)
  next
    case 3
    then obtain e sb e' sh sa where "sc_pop B p layout (stack_scratch s) = (Inl e, sb)" "lb sb (in_region RB L)"
      "sc_pop H p layout (heap_of new s) = (Inl e', sh)" "lh sh (in_region RH L)"
      "sc_pop A p layout (alloc_scratch s) = (Inr (), sa)" "la sa (in_region RA L)"
      using b(2) [of p layout] h(2) [of p layout] a [of p layout] by auto
    then show ?thesis using 3 l dis by (auto simp: pop_scratch_def lazy_live_def)
  qed
qed

lemma lazy_refuses:
  assumes laws: "scratch_laws B lb RB" "scratch_laws H lh RH" "scratch_laws A la RA"
    and live: "lazy_live lb RB lh RH new la RA s L" and p: "p \<notin> RB \<union> RH \<union> RA"
  shows "\<exists>e s'. pop_scratch B H new A p layout s = (Inl e, s') \<and> lazy_live lb RB lh RH new la RA s' L"
proof -
  note l = lazy_liveD [OF live]
  obtain e sb e' sh e'' sa where "sc_pop B p layout (stack_scratch s) = (Inl e, sb)" "lb sb (in_region RB L)"
    "sc_pop H p layout (heap_of new s) = (Inl e', sh)" "lh sh (in_region RH L)"
    "sc_pop A p layout (alloc_scratch s) = (Inl e'', sa)" "la sa (in_region RA L)"
    using p scratch_lawsD(4) [OF laws(1) l(1), of p layout] scratch_lawsD(4) [OF laws(2) l(2), of p layout] scratch_lawsD(4) [OF laws(3) l(3), of p layout] by blast
  then show ?thesis using l(4) by (auto simp: pop_scratch_def lazy_live_def)
qed

section \<open>Properties\<close>

text \<open>C23. The lazy space is a scratch space when its parts are and do not share memory: what is pushed is
  taken from the first part that has room and can be popped in reverse order, each allocation from the
  part that gave it; a pointer from elsewhere is refused. It starts with nothing allocated.\<close>

theorem lazy_scratch_keeps_laws:
  assumes B: "scratch_laws B lb RB" and H: "scratch_laws H lh RH" and A: "scratch_laws A la RA"
    and dis: "RB \<inter> RH = {}" "RB \<inter> RA = {}" "RH \<inter> RA = {}"
    and new: "lb (buffer STACK_SCRATCH_SIZE) []" "lh (new HEAP_SCRATCH_SIZE) []" "la alloc []"
  shows "scratch_laws (lazy_ops B H new A) (lazy_live lb RB lh RH new la RA) (RB \<union> RH \<union> RA) \<and>
    lazy_live lb RB lh RH new la RA (lazy_scratch_default buffer alloc) []"
proof -
  let ?live = "lazy_live lb RB lh RH new la RA"
  have "scratch_laws (lazy_ops B H new A) ?live (RB \<union> RH \<union> RA)"
    unfolding scratch_laws_def lazy_ops_def scratch_ops.simps
    by (intro conjI allI impI) (rule lazy_push [OF B H A dis] lazy_pop [OF B H A dis] lazy_refuses [OF B H A]; assumption)+
  moreover have "?live (lazy_scratch_default buffer alloc) []" using new by (simp add: lazy_live_def lazy_scratch_default_def heap_of_def)
  ultimately show ?thesis by simp
qed

text \<open>Three spaces of a limited number of allocations, with pointers of their own.\<close>

definition example_region :: "nat \<Rightarrow> nat set" where
  "example_region k = {n. n mod 3 = k}"

definition example_scratch :: "nat \<Rightarrow> nat \<Rightarrow> ((nat \<times> layout) list, unit) scratch_ops" where
  "example_scratch k room =
     \<lparr>sc_push = (\<lambda>layout s. if length s < room then (Inr (3 * length s + k), (3 * length s + k, layout) # s) else (Inl (), s)),
      sc_pop = (\<lambda>p layout s. if s \<noteq> [] \<and> hd s = (p, layout) then (Inr (), tl s) else (Inl (), s))\<rparr>"

definition example_live :: "nat \<Rightarrow> (nat \<times> layout) list \<Rightarrow> (nat \<times> layout) list \<Rightarrow> bool" where
  "example_live k s L \<longleftrightarrow> s = L \<and> fst ` set L \<subseteq> example_region k"

lemma example_scratch_laws: "k < 3 \<Longrightarrow> scratch_laws (example_scratch k room) (example_live k) (example_region k)"
  unfolding scratch_laws_def example_scratch_def example_live_def example_region_def
  by (intro conjI allI impI) (auto simp: neq_Nil_conv split: sum.splits if_splits)

lemma example_regions: "i \<noteq> j \<Longrightarrow> example_region i \<inter> example_region j = {}"
  by (auto simp: example_region_def)

theorem lazy_scratch_keeps_laws_witness:
  "scratch_laws (lazy_ops (example_scratch 0 1) (example_scratch 1 1) (\<lambda>n. []) (example_scratch 2 9))
     (lazy_live (example_live 0) (example_region 0) (example_live 1) (example_region 1) (\<lambda>n. []) (example_live 2) (example_region 2))
     (example_region 0 \<union> example_region 1 \<union> example_region 2)"
  by (rule conjunct1, rule lazy_scratch_keeps_laws [where buffer = "\<lambda>n. []" and alloc = "[]"])
    (simp_all add: example_scratch_laws example_regions example_live_def)

end
