(* ===== verification/Mock.thy ===== *)
theory Mock
  imports MemStore
begin

text \<open>
  The mock store that the unit tests of the actors are written against,
  \<^verbatim>\<open>datacake-eventual-consistency/src/test_utils.rs\<close> (\<open>MockStorage\<close>): a callback for each method that
  is expected to be called, with the number of calls, which are counted and compared when the mock is dropped. The
  callbacks share the state \<open>'s\<close> that they capture.
\<close>

section \<open>Counters\<close>

datatype mock_error = MockError string

record mock_counters =
  expected_method_counts :: "(string, nat) hash_map"
  actual_counts :: "(string, nat) hash_map"

definition counters_default :: mock_counters where
  "counters_default = \<lparr>expected_method_counts = [], actual_counts = []\<rparr>"

definition register_expected_counts :: "string \<Rightarrow> nat \<Rightarrow> mock_counters \<Rightarrow> mock_counters" where
  "register_expected_counts name cnt c = c\<lparr>expected_method_counts := hm_insert name cnt (expected_method_counts c)\<rparr>"

definition counters_inc :: "string \<Rightarrow> mock_counters \<Rightarrow> mock_counters" where
  "counters_inc name c = c\<lparr>actual_counts := entry_modify_or_insert name Suc 1 (actual_counts c)\<rparr>"

text \<open>The assertions of \<open>drop\<close>, in the order of the map; none while the thread unwinds.\<close>

fun assert_counts :: "(string, nat) hash_map \<Rightarrow> (string, nat) hash_map \<Rightarrow> unit exec" where
  "assert_counts actual [] = Some ()"
| "assert_counts actual ((name, cnt) # es) =
     (if (case map_of actual name of Some n \<Rightarrow> n | None \<Rightarrow> 0) = cnt then assert_counts actual es else None)"

definition counters_drop :: "bool \<Rightarrow> mock_counters \<Rightarrow> unit exec" where
  "counters_drop panicking c = (if panicking then Some () else assert_counts (actual_counts c) (expected_method_counts c))"

section \<open>The mock\<close>

record 's mock_storage =
  mock_counters :: mock_counters
  mk_get_keyspace_list :: "((('s, mock_error + string list) action) \<times> string) option"
  mk_iter_metadata :: "((string \<Rightarrow> ('s, mock_error + (key \<times> hlc_timestamp \<times> bool) list) action) \<times> string) option"
  mk_remove_tombstones :: "((string \<Rightarrow> key list \<Rightarrow> ('s, mock_error bulk_result) action) \<times> string) option"
  mk_put_with_ctx :: "((string \<Rightarrow> document \<Rightarrow> put_context option \<Rightarrow> ('s, mock_error + unit) action) \<times> string) option"
  mk_put :: "((string \<Rightarrow> document \<Rightarrow> ('s, mock_error + unit) action) \<times> string) option"
  mk_multi_put_with_ctx :: "((string \<Rightarrow> document list \<Rightarrow> put_context option \<Rightarrow> ('s, mock_error bulk_result) action) \<times> string) option"
  mk_multi_put :: "((string \<Rightarrow> document list \<Rightarrow> ('s, mock_error bulk_result) action) \<times> string) option"
  mk_mark_as_tombstone :: "((string \<Rightarrow> key \<Rightarrow> hlc_timestamp \<Rightarrow> ('s, mock_error + unit) action) \<times> string) option"
  mk_mark_many_as_tombstone :: "((string \<Rightarrow> document_metadata list \<Rightarrow> ('s, mock_error bulk_result) action) \<times> string) option"
  mk_get :: "((string \<Rightarrow> key \<Rightarrow> ('s, mock_error + document option) action) \<times> string) option"
  mk_multi_get :: "((string \<Rightarrow> key list \<Rightarrow> ('s, mock_error + document list) action) \<times> string) option"

definition mock_default :: "'s mock_storage" where
  "mock_default = \<lparr>mock_counters = counters_default, mk_get_keyspace_list = None, mk_iter_metadata = None, mk_remove_tombstones = None, mk_put_with_ctx = None, mk_put = None, mk_multi_put_with_ctx = None, mk_multi_put = None, mk_mark_as_tombstone = None, mk_mark_many_as_tombstone = None, mk_get = None, mk_multi_get = None\<rparr>"

definition expect_get_keyspace_list :: "nat \<Rightarrow> (('s, mock_error + string list) action) \<Rightarrow> 's mock_storage \<Rightarrow> 's mock_storage" where
  "expect_get_keyspace_list cnt cb m =
     m\<lparr>mk_get_keyspace_list := Some (cb, ''get_keyspace_list''), mock_counters := register_expected_counts ''get_keyspace_list'' cnt (mock_counters m)\<rparr>"

definition expect_iter_metadata :: "nat \<Rightarrow> (string \<Rightarrow> ('s, mock_error + (key \<times> hlc_timestamp \<times> bool) list) action) \<Rightarrow> 's mock_storage \<Rightarrow> 's mock_storage" where
  "expect_iter_metadata cnt cb m =
     m\<lparr>mk_iter_metadata := Some (cb, ''iter_metadata''), mock_counters := register_expected_counts ''iter_metadata'' cnt (mock_counters m)\<rparr>"

definition expect_remove_tombstones :: "nat \<Rightarrow> (string \<Rightarrow> key list \<Rightarrow> ('s, mock_error bulk_result) action) \<Rightarrow> 's mock_storage \<Rightarrow> 's mock_storage" where
  "expect_remove_tombstones cnt cb m =
     m\<lparr>mk_remove_tombstones := Some (cb, ''remove_tombstones''), mock_counters := register_expected_counts ''remove_tombstones'' cnt (mock_counters m)\<rparr>"

definition expect_put_with_ctx :: "nat \<Rightarrow> (string \<Rightarrow> document \<Rightarrow> put_context option \<Rightarrow> ('s, mock_error + unit) action) \<Rightarrow> 's mock_storage \<Rightarrow> 's mock_storage" where
  "expect_put_with_ctx cnt cb m =
     m\<lparr>mk_put_with_ctx := Some (cb, ''put_with_ctx''), mock_counters := register_expected_counts ''put_with_ctx'' cnt (mock_counters m)\<rparr>"

definition expect_put :: "nat \<Rightarrow> (string \<Rightarrow> document \<Rightarrow> ('s, mock_error + unit) action) \<Rightarrow> 's mock_storage \<Rightarrow> 's mock_storage" where
  "expect_put cnt cb m =
     m\<lparr>mk_put := Some (cb, ''put''), mock_counters := register_expected_counts ''put'' cnt (mock_counters m)\<rparr>"

definition expect_multi_put_with_ctx :: "nat \<Rightarrow> (string \<Rightarrow> document list \<Rightarrow> put_context option \<Rightarrow> ('s, mock_error bulk_result) action) \<Rightarrow> 's mock_storage \<Rightarrow> 's mock_storage" where
  "expect_multi_put_with_ctx cnt cb m =
     m\<lparr>mk_multi_put_with_ctx := Some (cb, ''multi_put_with_ctx''), mock_counters := register_expected_counts ''multi_put_with_ctx'' cnt (mock_counters m)\<rparr>"

definition expect_multi_put :: "nat \<Rightarrow> (string \<Rightarrow> document list \<Rightarrow> ('s, mock_error bulk_result) action) \<Rightarrow> 's mock_storage \<Rightarrow> 's mock_storage" where
  "expect_multi_put cnt cb m =
     m\<lparr>mk_multi_put := Some (cb, ''multi_put''), mock_counters := register_expected_counts ''multi_put'' cnt (mock_counters m)\<rparr>"

definition expect_mark_as_tombstone :: "nat \<Rightarrow> (string \<Rightarrow> key \<Rightarrow> hlc_timestamp \<Rightarrow> ('s, mock_error + unit) action) \<Rightarrow> 's mock_storage \<Rightarrow> 's mock_storage" where
  "expect_mark_as_tombstone cnt cb m =
     m\<lparr>mk_mark_as_tombstone := Some (cb, ''mark_as_tombstone''), mock_counters := register_expected_counts ''mark_as_tombstone'' cnt (mock_counters m)\<rparr>"

definition expect_mark_many_as_tombstone :: "nat \<Rightarrow> (string \<Rightarrow> document_metadata list \<Rightarrow> ('s, mock_error bulk_result) action) \<Rightarrow> 's mock_storage \<Rightarrow> 's mock_storage" where
  "expect_mark_many_as_tombstone cnt cb m =
     m\<lparr>mk_mark_many_as_tombstone := Some (cb, ''mark_many_as_tombstone''), mock_counters := register_expected_counts ''mark_many_as_tombstone'' cnt (mock_counters m)\<rparr>"

definition expect_get :: "nat \<Rightarrow> (string \<Rightarrow> key \<Rightarrow> ('s, mock_error + document option) action) \<Rightarrow> 's mock_storage \<Rightarrow> 's mock_storage" where
  "expect_get cnt cb m =
     m\<lparr>mk_get := Some (cb, ''get''), mock_counters := register_expected_counts ''get'' cnt (mock_counters m)\<rparr>"

definition expect_multi_get :: "nat \<Rightarrow> (string \<Rightarrow> key list \<Rightarrow> ('s, mock_error + document list) action) \<Rightarrow> 's mock_storage \<Rightarrow> 's mock_storage" where
  "expect_multi_get cnt cb m =
     m\<lparr>mk_multi_get := Some (cb, ''multi_get''), mock_counters := register_expected_counts ''multi_get'' cnt (mock_counters m)\<rparr>"

section \<open>Its methods\<close>

text \<open>What the methods share: the call is counted and the callback answers; a method with no callback panics.\<close>

definition mock_call :: "('c \<times> string) option \<Rightarrow> ('c \<Rightarrow> ('s, 'r) action) \<Rightarrow> ('s mock_storage \<times> 's, 'r) action" where
  "mock_call field call = (\<lambda>(m, s). do {
     (expected, name) \<leftarrow> field;
     let m = m\<lparr>mock_counters := counters_inc name (mock_counters m)\<rparr>;
     (r, s) \<leftarrow> call expected s;
     Some (r, m, s) })"

definition mock_get_keyspace_list :: "('s mock_storage \<times> 's, mock_error + string list) action" where
  "mock_get_keyspace_list ms = mock_call (mk_get_keyspace_list (fst ms)) (\<lambda>cb. cb) ms"

definition mock_iter_metadata :: "string \<Rightarrow> ('s mock_storage \<times> 's, mock_error + (key \<times> hlc_timestamp \<times> bool) list) action" where
  "mock_iter_metadata ks ms = mock_call (mk_iter_metadata (fst ms)) (\<lambda>cb. cb ks) ms"

definition mock_remove_tombstones :: "string \<Rightarrow> key list \<Rightarrow> ('s mock_storage \<times> 's, mock_error bulk_result) action" where
  "mock_remove_tombstones ks x ms = mock_call (mk_remove_tombstones (fst ms)) (\<lambda>cb. cb ks x) ms"

definition mock_put_with_ctx :: "string \<Rightarrow> document \<Rightarrow> put_context option \<Rightarrow> ('s mock_storage \<times> 's, mock_error + unit) action" where
  "mock_put_with_ctx ks x y ms = mock_call (mk_put_with_ctx (fst ms)) (\<lambda>cb. cb ks x y) ms"

definition mock_put :: "string \<Rightarrow> document \<Rightarrow> ('s mock_storage \<times> 's, mock_error + unit) action" where
  "mock_put ks x ms = mock_call (mk_put (fst ms)) (\<lambda>cb. cb ks x) ms"

definition mock_multi_put_with_ctx :: "string \<Rightarrow> document list \<Rightarrow> put_context option \<Rightarrow> ('s mock_storage \<times> 's, mock_error bulk_result) action" where
  "mock_multi_put_with_ctx ks x y ms = mock_call (mk_multi_put_with_ctx (fst ms)) (\<lambda>cb. cb ks x y) ms"

definition mock_multi_put :: "string \<Rightarrow> document list \<Rightarrow> ('s mock_storage \<times> 's, mock_error bulk_result) action" where
  "mock_multi_put ks x ms = mock_call (mk_multi_put (fst ms)) (\<lambda>cb. cb ks x) ms"

definition mock_mark_as_tombstone :: "string \<Rightarrow> key \<Rightarrow> hlc_timestamp \<Rightarrow> ('s mock_storage \<times> 's, mock_error + unit) action" where
  "mock_mark_as_tombstone ks x y ms = mock_call (mk_mark_as_tombstone (fst ms)) (\<lambda>cb. cb ks x y) ms"

definition mock_mark_many_as_tombstone :: "string \<Rightarrow> document_metadata list \<Rightarrow> ('s mock_storage \<times> 's, mock_error bulk_result) action" where
  "mock_mark_many_as_tombstone ks x ms = mock_call (mk_mark_many_as_tombstone (fst ms)) (\<lambda>cb. cb ks x) ms"

definition mock_get :: "string \<Rightarrow> key \<Rightarrow> ('s mock_storage \<times> 's, mock_error + document option) action" where
  "mock_get ks x ms = mock_call (mk_get (fst ms)) (\<lambda>cb. cb ks x) ms"

definition mock_multi_get :: "string \<Rightarrow> key list \<Rightarrow> ('s mock_storage \<times> 's, mock_error + document list) action" where
  "mock_multi_get ks x ms = mock_call (mk_multi_get (fst ms)) (\<lambda>cb. cb ks x) ms"

definition mock_ops :: "('s mock_storage \<times> 's, mock_error) storage_ops" where
  "mock_ops = \<lparr>st_get_keyspace_list = mock_get_keyspace_list, st_iter_metadata = mock_iter_metadata, st_remove_tombstones = mock_remove_tombstones, st_put_with_ctx = mock_put_with_ctx, st_put = mock_put, st_multi_put_with_ctx = mock_multi_put_with_ctx, st_multi_put = mock_multi_put, st_mark_as_tombstone = mock_mark_as_tombstone, st_mark_many_as_tombstone = mock_mark_many_as_tombstone, st_get = mock_get, st_multi_get = mock_multi_get\<rparr>"

section \<open>Calls of a store\<close>

text \<open>The methods, and the calls of them with their arguments and replies.\<close>

datatype storage_method = MGetKeyspaceList | MIterMetadata | MRemoveTombstones | MPutWithCtx | MPut | MMultiPutWithCtx | MMultiPut | MMarkAsTombstone | MMarkManyAsTombstone | MGet | MMultiGet

datatype storage_call =
    CallGetKeyspaceList
  | CallIterMetadata string
  | CallRemoveTombstones string "key list"
  | CallPutWithCtx string document "put_context option"
  | CallPut string document
  | CallMultiPutWithCtx string "document list" "put_context option"
  | CallMultiPut string "document list"
  | CallMarkAsTombstone string key hlc_timestamp
  | CallMarkManyAsTombstone string "document_metadata list"
  | CallGet string key
  | CallMultiGet string "key list"

datatype 'e storage_reply =
    Names "'e + string list" | Metadata "'e + (key \<times> hlc_timestamp \<times> bool) list" | Written "'e + unit" | BulkWritten "'e bulk_result"
  | Found "'e + document option" | FoundMany "'e + document list"

fun method_name :: "storage_method \<Rightarrow> string" where
  "method_name MGetKeyspaceList = ''get_keyspace_list''"
| "method_name MIterMetadata = ''iter_metadata''"
| "method_name MRemoveTombstones = ''remove_tombstones''"
| "method_name MPutWithCtx = ''put_with_ctx''"
| "method_name MPut = ''put''"
| "method_name MMultiPutWithCtx = ''multi_put_with_ctx''"
| "method_name MMultiPut = ''multi_put''"
| "method_name MMarkAsTombstone = ''mark_as_tombstone''"
| "method_name MMarkManyAsTombstone = ''mark_many_as_tombstone''"
| "method_name MGet = ''get''"
| "method_name MMultiGet = ''multi_get''"

fun method_of :: "storage_call \<Rightarrow> storage_method" where
  "method_of (CallGetKeyspaceList) = MGetKeyspaceList"
| "method_of (CallIterMetadata ks) = MIterMetadata"
| "method_of (CallRemoveTombstones ks x) = MRemoveTombstones"
| "method_of (CallPutWithCtx ks x y) = MPutWithCtx"
| "method_of (CallPut ks x) = MPut"
| "method_of (CallMultiPutWithCtx ks x y) = MMultiPutWithCtx"
| "method_of (CallMultiPut ks x) = MMultiPut"
| "method_of (CallMarkAsTombstone ks x y) = MMarkAsTombstone"
| "method_of (CallMarkManyAsTombstone ks x) = MMarkManyAsTombstone"
| "method_of (CallGet ks x) = MGet"
| "method_of (CallMultiGet ks x) = MMultiGet"

fun perform :: "('s, 'e) storage_ops \<Rightarrow> storage_call \<Rightarrow> ('s, 'e storage_reply) action" where
  "perform ops (CallGetKeyspaceList) s = map_option (map_prod Names id) (st_get_keyspace_list ops s)"
| "perform ops (CallIterMetadata ks) s = map_option (map_prod Metadata id) (st_iter_metadata ops ks s)"
| "perform ops (CallRemoveTombstones ks x) s = map_option (map_prod BulkWritten id) (st_remove_tombstones ops ks x s)"
| "perform ops (CallPutWithCtx ks x y) s = map_option (map_prod Written id) (st_put_with_ctx ops ks x y s)"
| "perform ops (CallPut ks x) s = map_option (map_prod Written id) (st_put ops ks x s)"
| "perform ops (CallMultiPutWithCtx ks x y) s = map_option (map_prod BulkWritten id) (st_multi_put_with_ctx ops ks x y s)"
| "perform ops (CallMultiPut ks x) s = map_option (map_prod BulkWritten id) (st_multi_put ops ks x s)"
| "perform ops (CallMarkAsTombstone ks x y) s = map_option (map_prod Written id) (st_mark_as_tombstone ops ks x y s)"
| "perform ops (CallMarkManyAsTombstone ks x) s = map_option (map_prod BulkWritten id) (st_mark_many_as_tombstone ops ks x s)"
| "perform ops (CallGet ks x) s = map_option (map_prod Found id) (st_get ops ks x s)"
| "perform ops (CallMultiGet ks x) s = map_option (map_prod FoundMany id) (st_multi_get ops ks x s)"

primrec perform_all :: "('s, 'e) storage_ops \<Rightarrow> storage_call list \<Rightarrow> ('s, 'e storage_reply list) action" where
  "perform_all ops [] s = Some ([], s)"
| "perform_all ops (c # cs) s =
     do { (r, s) \<leftarrow> perform ops c s;
          (rs, s) \<leftarrow> perform_all ops cs s;
          Some (r # rs, s) }"

text \<open>A mock with the methods of a store as its callbacks.\<close>

fun expect_from :: "('s, mock_error) storage_ops \<Rightarrow> storage_method \<times> nat \<Rightarrow> 's mock_storage \<Rightarrow> 's mock_storage" where
  "expect_from ops (MGetKeyspaceList, cnt) m = expect_get_keyspace_list cnt (st_get_keyspace_list ops) m"
| "expect_from ops (MIterMetadata, cnt) m = expect_iter_metadata cnt (st_iter_metadata ops) m"
| "expect_from ops (MRemoveTombstones, cnt) m = expect_remove_tombstones cnt (st_remove_tombstones ops) m"
| "expect_from ops (MPutWithCtx, cnt) m = expect_put_with_ctx cnt (st_put_with_ctx ops) m"
| "expect_from ops (MPut, cnt) m = expect_put cnt (st_put ops) m"
| "expect_from ops (MMultiPutWithCtx, cnt) m = expect_multi_put_with_ctx cnt (st_multi_put_with_ctx ops) m"
| "expect_from ops (MMultiPut, cnt) m = expect_multi_put cnt (st_multi_put ops) m"
| "expect_from ops (MMarkAsTombstone, cnt) m = expect_mark_as_tombstone cnt (st_mark_as_tombstone ops) m"
| "expect_from ops (MMarkManyAsTombstone, cnt) m = expect_mark_many_as_tombstone cnt (st_mark_many_as_tombstone ops) m"
| "expect_from ops (MGet, cnt) m = expect_get cnt (st_get ops) m"
| "expect_from ops (MMultiGet, cnt) m = expect_multi_get cnt (st_multi_get ops) m"

section \<open>A mock answers as its callbacks\<close>

definition expects :: "('s, mock_error) storage_ops \<Rightarrow> storage_method set \<Rightarrow> 's mock_storage \<Rightarrow> bool" where
  "expects ops ms m \<longleftrightarrow>
     mk_get_keyspace_list m = (if MGetKeyspaceList \<in> ms then Some (st_get_keyspace_list ops, ''get_keyspace_list'') else None) \<and>
     mk_iter_metadata m = (if MIterMetadata \<in> ms then Some (st_iter_metadata ops, ''iter_metadata'') else None) \<and>
     mk_remove_tombstones m = (if MRemoveTombstones \<in> ms then Some (st_remove_tombstones ops, ''remove_tombstones'') else None) \<and>
     mk_put_with_ctx m = (if MPutWithCtx \<in> ms then Some (st_put_with_ctx ops, ''put_with_ctx'') else None) \<and>
     mk_put m = (if MPut \<in> ms then Some (st_put ops, ''put'') else None) \<and>
     mk_multi_put_with_ctx m = (if MMultiPutWithCtx \<in> ms then Some (st_multi_put_with_ctx ops, ''multi_put_with_ctx'') else None) \<and>
     mk_multi_put m = (if MMultiPut \<in> ms then Some (st_multi_put ops, ''multi_put'') else None) \<and>
     mk_mark_as_tombstone m = (if MMarkAsTombstone \<in> ms then Some (st_mark_as_tombstone ops, ''mark_as_tombstone'') else None) \<and>
     mk_mark_many_as_tombstone m = (if MMarkManyAsTombstone \<in> ms then Some (st_mark_many_as_tombstone ops, ''mark_many_as_tombstone'') else None) \<and>
     mk_get m = (if MGet \<in> ms then Some (st_get ops, ''get'') else None) \<and>
     mk_multi_get m = (if MMultiGet \<in> ms then Some (st_multi_get ops, ''multi_get'') else None)"

lemmas expect_defs = expect_get_keyspace_list_def expect_iter_metadata_def expect_remove_tombstones_def expect_put_with_ctx_def expect_put_def expect_multi_put_with_ctx_def expect_multi_put_def expect_mark_as_tombstone_def expect_mark_many_as_tombstone_def expect_get_def expect_multi_get_def

lemmas mock_defs = mock_get_keyspace_list_def mock_iter_metadata_def mock_remove_tombstones_def mock_put_with_ctx_def mock_put_def mock_multi_put_with_ctx_def mock_multi_put_def mock_mark_as_tombstone_def mock_mark_many_as_tombstone_def mock_get_def mock_multi_get_def

lemma expect_from_expects: "expects ops ms m \<Longrightarrow> expects ops (insert (fst e) ms) (expect_from ops e m)"
  by (cases "(ops, e, m)" rule: expect_from.cases) (simp_all add: expects_def expect_defs)

lemma expect_from_counters:
  "mock_counters (expect_from ops e m) = register_expected_counts (method_name (fst e)) (snd e) (mock_counters m)"
  by (cases "(ops, e, m)" rule: expect_from.cases) (simp_all add: expect_defs)

lemma method_name_eq [simp]: "method_name a = method_name b \<longleftrightarrow> a = b"
  by (cases a; cases b; simp)

definition inc_mock :: "string \<Rightarrow> 's mock_storage \<Rightarrow> 's mock_storage" where
  "inc_mock name m = m\<lparr>mock_counters := counters_inc name (mock_counters m)\<rparr>"

lemma expects_inc [simp]: "expects ops ms (inc_mock name m) = expects ops ms m"
  by (simp add: expects_def inc_mock_def)

lemma mock_call_Some:
  "mock_call (Some (cb, name)) call (m, s) = map_option (\<lambda>(r, s'). (r, inc_mock name m, s')) (call cb s)"
  by (cases "call cb s") (auto simp: mock_call_def inc_mock_def)

lemma mock_call_None: "mock_call None call ms = None"
  by (cases ms) (simp add: mock_call_def)

lemma perform_mock:
  assumes "expects ops ms m"
  shows "perform mock_ops c (m, s) =
    (if method_of c \<in> ms then map_option (\<lambda>(r, s'). (r, inc_mock (method_name (method_of c)) m, s')) (perform ops c s) else None)"
  using assms unfolding expects_def
  by (cases c) (simp_all add: mock_ops_def mock_defs mock_call_Some mock_call_None option.map_comp comp_def map_prod_def split_def)

lemma perform_all_mock:
  assumes "expects ops ms m"
  shows "perform_all mock_ops cs (m, s) =
    (if method_of ` set cs \<subseteq> ms then map_option (\<lambda>(rs, s'). (rs, fold (\<lambda>c. inc_mock (method_name (method_of c))) cs m, s')) (perform_all ops cs s) else None)"
  using assms
proof (induction cs arbitrary: m s)
  case (Cons c cs)
  note IH = Cons.IH [where m = "inc_mock (method_name (method_of c)) m"]
  show ?case
  proof (cases "perform ops c s")
    case (Some p)
    then show ?thesis using IH [of "snd p"] Cons.prems
      by (cases p; cases "method_of ` set cs \<subseteq> ms"; cases "perform_all ops cs (snd p)") (auto simp: perform_mock [OF Cons.prems])
  qed (simp add: perform_mock [OF Cons.prems])
qed simp

text \<open>The counters after the calls.\<close>

lemma actual_inc:
  "map_of (actual_counts (mock_counters (fold (\<lambda>c. inc_mock (method_name (method_of c))) cs m))) name =
     (case map_of (actual_counts (mock_counters m)) name of
        Some n \<Rightarrow> Some (n + length (filter (\<lambda>c. method_name (method_of c) = name) cs))
      | None \<Rightarrow> if name \<in> method_name ` method_of ` set cs then Some (length (filter (\<lambda>c. method_name (method_of c) = name) cs)) else None)"
  by (induction cs arbitrary: m) (auto simp: inc_mock_def counters_inc_def entry_modify_or_insert_def filter_empty_conv split: option.split)

lemma expected_inc: "expected_method_counts (mock_counters (fold (\<lambda>c. inc_mock (method_name (method_of c))) cs m)) = expected_method_counts (mock_counters m)"
  by (induction cs arbitrary: m) (auto simp: inc_mock_def counters_inc_def)

lemma assert_counts_iff:
  "assert_counts actual es = Some () \<longleftrightarrow> (\<forall>e \<in> set es. (case map_of actual (fst e) of Some n \<Rightarrow> n | None \<Rightarrow> 0) = snd e)"
  by (induction actual es rule: assert_counts.induct) auto

text \<open>The counters a mock is built with.\<close>

definition counters_built :: "(storage_method \<times> nat) list \<Rightarrow> mock_counters \<Rightarrow> bool" where
  "counters_built es c \<longleftrightarrow> hm_wf (expected_method_counts c) \<and> actual_counts c = [] \<and>
     (\<forall>me. map_of (expected_method_counts c) (method_name me) = map_of (rev es) me) \<and> fst ` set (expected_method_counts c) \<subseteq> range method_name"

lemma counters_built_step: "counters_built es c \<Longrightarrow> counters_built (es @ [e]) (register_expected_counts (method_name (fst e)) (snd e) c)"
  by (cases e) (auto simp: counters_built_def register_expected_counts_def hm.invar_ins simp flip: dom_map_of_conv_image_fst)

lemma built_mock:
  "expects ops (fst ` set es) (fold (expect_from ops) es mock_default) \<and> counters_built es (mock_counters (fold (expect_from ops) es mock_default))"
proof (induction es rule: rev_induct)
  case Nil
  show ?case by (simp add: expects_def mock_default_def counters_default_def counters_built_def hm_wf_def)
next
  case (snoc e es)
  then show ?case using expect_from_expects [of ops "fst ` set es" "fold (expect_from ops) es mock_default" e] counters_built_step
    by (simp add: expect_from_counters)
qed

lemma drop_built:
  assumes "counters_built es c" and "expected_method_counts c' = expected_method_counts c"
    and n: "\<And>me. (case map_of (actual_counts c') (method_name me) of Some n \<Rightarrow> n | None \<Rightarrow> 0) = calls me"
  shows "counters_drop False c' = Some () \<longleftrightarrow> (\<forall>me cnt. map_of (rev es) me = Some cnt \<longrightarrow> calls me = cnt)"
proof -
  have "counters_drop False c' = Some () \<longleftrightarrow> (\<forall>name cnt. map_of (expected_method_counts c) name = Some cnt \<longrightarrow>
      (case map_of (actual_counts c') name of Some n \<Rightarrow> n | None \<Rightarrow> 0) = cnt)"
    using assms(1) by (auto simp: counters_drop_def assert_counts_iff assms(2) counters_built_def hm_wf_def)
  also have "\<dots> \<longleftrightarrow> (\<forall>me cnt. map_of (expected_method_counts c) (method_name me) = Some cnt \<longrightarrow>
      (case map_of (actual_counts c') (method_name me) of Some n \<Rightarrow> n | None \<Rightarrow> 0) = cnt)"
    (is "(\<forall>name cnt. ?P name cnt) \<longleftrightarrow> _")
  proof -
    have "\<exists>me. name = method_name me" if "map_of (expected_method_counts c) name = Some cnt" for name cnt
      using assms(1) map_of_SomeD [OF that] unfolding counters_built_def by force
    then show ?thesis by blast
  qed
  finally show ?thesis using assms(1) by (simp add: n counters_built_def)
qed

section \<open>Properties\<close>

text \<open>C24. A test against the mock store passes exactly when it makes the calls it announced: with the methods of a store as
  callbacks, a sequence of calls runs through without a panic and the mock is then dropped without one if and only if the
  store itself answers the calls, with the same replies and the same state, and every method is called as often as
  it was last announced, those never announced not at all.\<close>

theorem mock_checks_calls:
  "(\<exists>m. perform_all mock_ops cs (fold (expect_from ops) es mock_default, s) = Some (rs, m, s') \<and> counters_drop False (mock_counters m) = Some ()) \<longleftrightarrow>
     perform_all ops cs s = Some (rs, s') \<and>
     (\<forall>me. length (filter (\<lambda>c. method_of c = me) cs) = (case map_of (rev es) me of Some n \<Rightarrow> n | None \<Rightarrow> 0))"
proof -
  let ?m = "fold (expect_from ops) es mock_default" and ?calls = "\<lambda>me. length (filter (\<lambda>c. method_of c = me) cs)"
  let ?m' = "fold (\<lambda>c. inc_mock (method_name (method_of c))) cs ?m"
  note built = built_mock [of ops es]
  have "actual_counts (mock_counters ?m) = []" using built by (simp add: counters_built_def)
  then have n: "(case map_of (actual_counts (mock_counters ?m')) (method_name me) of Some n \<Rightarrow> n | None \<Rightarrow> 0) = ?calls me" for me
    by (auto simp: actual_inc filter_empty_conv split: if_splits)
  have drop: "counters_drop False (mock_counters ?m') = Some () \<longleftrightarrow> (\<forall>me cnt. map_of (rev es) me = Some cnt \<longrightarrow> ?calls me = cnt)"
    using drop_built [OF conjunct2 [OF built] _ n] by (simp add: expected_inc)
  have "method_of ` set cs \<subseteq> fst ` set es \<longleftrightarrow> (\<forall>me. map_of (rev es) me = None \<longrightarrow> ?calls me = 0)"
    by (auto simp: map_of_eq_None_iff filter_empty_conv)
  then have "method_of ` set cs \<subseteq> fst ` set es \<and> counters_drop False (mock_counters ?m') = Some () \<longleftrightarrow>
      (\<forall>me. ?calls me = (case map_of (rev es) me of Some n \<Rightarrow> n | None \<Rightarrow> 0))"
    unfolding drop by (auto split: option.split)
  then show ?thesis unfolding perform_all_mock [OF conjunct1 [OF built]] by (auto split: if_splits)
qed

end
