(* ===== verification/RpcServer.thy ===== *)
theory RpcServer
  imports Rpc
begin

text \<open>
  The life of an RPC server: \<^verbatim>\<open>datacake-rpc/src/server.rs\<close> (\<open>Server\<close>) and the accept loop of
  \<^verbatim>\<open>datacake-rpc/src/net/server.rs\<close>. The loop and every connection are tasks of their own; they share
  the state of the server with the handle. What the listener and the connections report comes in any
  order, as events, and so do the calls of the handle.
\<close>

section \<open>The server\<close>

text \<open>
  The tasks: whether the accept loop runs, and the remote address of each connection while it is
  served. \<open>rs_handle\<close> says whether the value \<open>Server\<close> is still there to be used.
\<close>

record 'w rpc_server =
  rs_state :: "'w server_state"
  rs_accepting :: bool
  rs_handle :: bool
  rs_connections :: "addr option list"

text \<open>\<open>start_rpc_server\<close> returns when the address is bound and the loop runs.\<close>

definition start_rpc_server :: "(addr \<Rightarrow> 'e + unit) \<Rightarrow> addr \<Rightarrow> 'w server_state \<Rightarrow> 'e + 'w rpc_server" where
  "start_rpc_server bind_to a state =
     and_then (bind_to a) (\<lambda>u. Inr \<lparr>rs_state = state, rs_accepting = True, rs_handle = True, rs_connections = []\<rparr>)"

definition server_listen :: "(addr \<Rightarrow> 'e + unit) \<Rightarrow> addr \<Rightarrow> 'e + 'w rpc_server" where
  "server_listen bind_to a = start_rpc_server bind_to a server_default"

text \<open>A turn of the accept loop: a failure is logged, a connection is served by a new task.\<close>

definition on_accept :: "'e + addr \<Rightarrow> 'w rpc_server \<Rightarrow> 'w rpc_server" where
  "on_accept r srv =
     (case r of
        Inl e \<Rightarrow> srv
      | Inr peer \<Rightarrow> srv\<lparr>rs_connections := rs_connections srv @ [Some peer]\<rparr>)"

definition HTTP_INTERNAL_SERVER_ERROR :: nat where "HTTP_INTERNAL_SERVER_ERROR = 500"

definition connection_reply :: "string + http_response \<Rightarrow> http_response" where
  "connection_reply r =
     (case r of
        Inr resp \<Rightarrow> resp
      | Inl e \<Rightarrow> \<lparr>hs_status = HTTP_INTERNAL_SERVER_ERROR, hs_body = body_from (map (\<lambda>c. of_nat (of_char c)) e)\<rparr>)"

definition handle_connection ::
  "(u8 list \<Rightarrow> u32) \<Rightarrow> status codec \<Rightarrow> (string \<Rightarrow> u64) \<Rightarrow> http_request \<Rightarrow> 'w server_state \<Rightarrow> addr \<Rightarrow> 'w \<Rightarrow> (http_response \<times> 'w) exec" where
  "handle_connection crc cs hash req state peer w =
     do { (resp, w) \<leftarrow> handle_message crc cs hash req state peer w;
          Some (connection_reply (Inr resp), w) }"

text \<open>\<open>shutdown\<close> takes the handle and aborts the accept loop. A handle that goes out of scope detaches it.\<close>

definition server_shutdown :: "'w rpc_server \<Rightarrow> 'w rpc_server" where
  "server_shutdown srv = srv\<lparr>rs_handle := False, rs_accepting := False\<rparr>"

definition server_dropped :: "'w rpc_server \<Rightarrow> 'w rpc_server" where
  "server_dropped srv = srv\<lparr>rs_handle := False\<rparr>"

section \<open>Events\<close>

datatype ('w, 'e) server_event =
    Accepting "'e + addr"
  | Receiving nat http_request
  | Closing nat
  | AddingService "'w rpc_service"
  | RemovingService string
  | ShuttingDown
  | Dropping

text \<open>When an event can happen.\<close>

fun can_happen :: "('w, 'e) server_event \<Rightarrow> 'w rpc_server \<Rightarrow> bool" where
  "can_happen (Accepting r) srv = rs_accepting srv"
| "can_happen (Receiving i req) srv = (i < length (rs_connections srv) \<and> rs_connections srv ! i \<noteq> None)"
| "can_happen (Closing i) srv = (i < length (rs_connections srv) \<and> rs_connections srv ! i \<noteq> None)"
| "can_happen ev srv = rs_handle srv"

text \<open>What it does; \<open>None\<close> where a handler panics. A request has a response.\<close>

fun server_step ::
  "(u8 list \<Rightarrow> u32) \<Rightarrow> status codec \<Rightarrow> (string \<Rightarrow> u64) \<Rightarrow> ('w, 'e) server_event \<Rightarrow> 'w rpc_server \<Rightarrow> 'w
    \<Rightarrow> (http_response option \<times> 'w rpc_server \<times> 'w) exec" where
  "server_step crc cs hash (Accepting r) srv w = Some (None, on_accept r srv, w)"
| "server_step crc cs hash (Receiving i req) srv w =
     do { peer \<leftarrow> rs_connections srv ! i;
          (resp, w) \<leftarrow> handle_connection crc cs hash req (rs_state srv) peer w;
          Some (Some resp, srv, w) }"
| "server_step crc cs hash (Closing i) srv w = Some (None, srv\<lparr>rs_connections := (rs_connections srv)[i := None]\<rparr>, w)"
| "server_step crc cs hash (AddingService svc) srv w = Some (None, srv\<lparr>rs_state := add_service hash svc (rs_state srv)\<rparr>, w)"
| "server_step crc cs hash (RemovingService name) srv w = Some (None, srv\<lparr>rs_state := remove_service name (rs_state srv)\<rparr>, w)"
| "server_step crc cs hash ShuttingDown srv w = Some (None, server_shutdown srv, w)"
| "server_step crc cs hash Dropping srv w = Some (None, server_dropped srv, w)"

text \<open>The runs of a server, with the response of each event.\<close>

inductive server_run ::
  "(u8 list \<Rightarrow> u32) \<Rightarrow> status codec \<Rightarrow> (string \<Rightarrow> u64) \<Rightarrow> 'w rpc_server \<times> 'w \<Rightarrow> (('w, 'e) server_event \<times> http_response option) list
    \<Rightarrow> 'w rpc_server \<times> 'w \<Rightarrow> bool" for crc cs hash s where
  run_start: "server_run crc cs hash s [] s"
| run_event: "server_run crc cs hash s tr (srv, w) \<Longrightarrow> can_happen ev srv \<Longrightarrow> server_step crc cs hash ev srv w = Some (r, srv', w') \<Longrightarrow>
    server_run crc cs hash s (tr @ [(ev, r)]) (srv', w')"

inductive_simps server_run_snoc: "server_run crc cs hash s (tr @ [e]) t"

section \<open>What a run leaves behind\<close>

text \<open>The connections accepted, the services registered and the calls of the handle, from the events alone.\<close>

fun accepted_by :: "('w, 'e) server_event \<Rightarrow> addr option" where
  "accepted_by (Accepting (Inr a)) = Some a"
| "accepted_by ev = None"

definition accepted :: "('w, 'e) server_event list \<Rightarrow> addr list" where
  "accepted evs = List.map_filter accepted_by evs"

fun service_event :: "(string \<Rightarrow> u64) \<Rightarrow> ('w, 'e) server_event \<Rightarrow> 'w server_state \<Rightarrow> 'w server_state" where
  "service_event hash (AddingService svc) st = add_service hash svc st"
| "service_event hash (RemovingService name) st = remove_service name st"
| "service_event hash ev st = st"

definition open_at :: "('w, 'e) server_event list \<Rightarrow> nat \<Rightarrow> bool" where
  "open_at evs i \<longleftrightarrow> i < length (accepted evs) \<and> Closing i \<notin> set evs"

text \<open>A server whose accept loop has just started.\<close>

definition listening :: "'w server_state \<Rightarrow> 'w rpc_server" where
  "listening st = \<lparr>rs_state = st, rs_accepting = True, rs_handle = True, rs_connections = []\<rparr>"

lemma start_rpc_server_ok: "start_rpc_server bind_to a st = Inr srv \<Longrightarrow> srv = listening st"
  by (cases "bind_to a") (auto simp: start_rpc_server_def listening_def)

lemma accepted_snoc: "accepted (evs @ [ev]) = accepted evs @ (case accepted_by ev of None \<Rightarrow> [] | Some a \<Rightarrow> [a])"
  by (simp add: accepted_def map_filter_def split: option.split)

text \<open>The state of the tasks after the events of a run.\<close>

definition tasks_after :: "(string \<Rightarrow> u64) \<Rightarrow> 'w server_state \<Rightarrow> ('w, 'e) server_event list \<Rightarrow> 'w rpc_server" where
  "tasks_after hash st evs =
     \<lparr>rs_state = fold (service_event hash) evs st, rs_accepting = (ShuttingDown \<notin> set evs),
      rs_handle = (ShuttingDown \<notin> set evs \<and> Dropping \<notin> set evs),
      rs_connections = map (\<lambda>i. if Closing i \<in> set evs then None else Some (accepted evs ! i)) [0..<length (accepted evs)]\<rparr>"

text \<open>No connection is closed before it is accepted.\<close>

definition closes_accepted :: "('w, 'e) server_event list \<Rightarrow> bool" where
  "closes_accepted evs \<longleftrightarrow> (\<forall>i. Closing i \<in> set evs \<longrightarrow> i < length (accepted evs))"

lemma tasks_step:
  assumes "closes_accepted evs" "can_happen ev (tasks_after hash st evs)" "server_step crc cs hash ev (tasks_after hash st evs) w = Some (r, srv', w')"
  shows "srv' = tasks_after hash st (evs @ [ev]) \<and> closes_accepted (evs @ [ev])"
proof (cases ev)
  case (Accepting x)
  then show ?thesis using assms by (cases x) (auto simp: on_accept_def tasks_after_def closes_accepted_def accepted_snoc nth_append intro!: nth_equalityI)
next
  case (Closing i)
  then show ?thesis using assms by (auto simp: tasks_after_def closes_accepted_def accepted_snoc nth_list_update intro!: nth_equalityI)
qed (use assms in \<open>auto simp: tasks_after_def closes_accepted_def accepted_snoc server_shutdown_def server_dropped_def split: bind_splits\<close>)

lemma run_tasks:
  "server_run crc cs hash s tr t \<Longrightarrow> s = (listening st, w0) \<Longrightarrow> fst t = tasks_after hash st (map fst tr) \<and> closes_accepted (map fst tr)"
proof (induction rule: server_run.induct)
  case run_start
  then show ?case by (simp add: listening_def tasks_after_def closes_accepted_def accepted_def map_filter_simps)
next
  case (run_event tr srv w ev r srv' w')
  then show ?case using tasks_step [of "map fst tr" ev hash st crc cs w r srv' w'] by simp
qed

lemma open_tasks: "can_happen (Receiving i req) (tasks_after hash st evs) \<longleftrightarrow> open_at evs i"
  "open_at evs i \<Longrightarrow> rs_connections (tasks_after hash st evs) ! i = Some (accepted evs ! i)"
  by (auto simp: tasks_after_def open_at_def)

lemma handle_connection_eq: "handle_connection crc cs hash req st a w = handle_message crc cs hash req st a w"
  by (cases "handle_message crc cs hash req st a w") (auto simp: handle_connection_def connection_reply_def)

lemma run_state: "server_run crc cs hash (listening st, w0) tr (srv, w) \<Longrightarrow> srv = tasks_after hash st (map fst tr)"
  using run_tasks [of crc cs hash "(listening st, w0)" tr "(srv, w)"] by simp

lemma run_snoc:
  "server_run crc cs hash (listening st, w0) (tr @ [(ev, r)]) (srv', w') \<longleftrightarrow>
     (\<exists>w. server_run crc cs hash (listening st, w0) tr (tasks_after hash st (map fst tr), w) \<and>
        can_happen ev (tasks_after hash st (map fst tr)) \<and> server_step crc cs hash ev (tasks_after hash st (map fst tr)) w = Some (r, srv', w'))"
  unfolding server_run_snoc using run_state by fastforce

section \<open>Properties\<close>

text \<open>C12. The requests of a server, in every run of it: a request is answered exactly when its connection was accepted
  and has not ended, by the handlers registered at that moment, with the address the connection
  came from. Connections that could not be accepted change nothing, and neither does it matter whether the server
  was shut down in the meantime: that ends the accept loop only, and open connections are still served.\<close>

theorem open_connections_served:
  "server_run crc cs hash (listening st, w0) (tr @ [(Receiving i req, r)]) (srv, w') \<longleftrightarrow>
     (\<exists>w resp. server_run crc cs hash (listening st, w0) tr (srv, w) \<and> open_at (map fst tr) i \<and> r = Some resp \<and>
        handle_message crc cs hash req (fold (service_event hash) (map fst tr) st) (accepted (map fst tr) ! i) w = Some (resp, w'))"
  (is "?l \<longleftrightarrow> ?r")
proof -
  let ?t = "tasks_after hash st (map fst tr)"
  have st: "rs_state ?t = fold (service_event hash) (map fst tr) st" by (simp add: tasks_after_def)
  have step: "server_step crc cs hash (Receiving i req) ?t w = Some (r, srv, w') \<longleftrightarrow> srv = ?t \<and>
      (\<exists>resp. r = Some resp \<and> handle_message crc cs hash req (rs_state ?t) (accepted (map fst tr) ! i) w = Some (resp, w'))"
    if "open_at (map fst tr) i" for w
    using open_tasks(2) [OF that, of hash st] by (auto simp: handle_connection_eq bind_eq_Some_conv)
  have "?l \<longleftrightarrow> (\<exists>w. server_run crc cs hash (listening st, w0) tr (?t, w) \<and> open_at (map fst tr) i \<and> srv = ?t \<and>
      (\<exists>resp. r = Some resp \<and> handle_message crc cs hash req (rs_state ?t) (accepted (map fst tr) ! i) w = Some (resp, w')))"
    unfolding run_snoc open_tasks(1) using step by blast
  also have "\<dots> \<longleftrightarrow> ?r" unfolding st using run_state by fastforce
  finally show ?thesis .
qed

text \<open>After a shutdown no connection is accepted, and nothing else ends the accept loop.\<close>

lemma accepts_until_shutdown:
  "(\<exists>r t. server_run crc cs hash (listening st, w0) (tr @ [(Accepting x, r)]) t) \<longleftrightarrow>
     (\<exists>t. server_run crc cs hash (listening st, w0) tr t) \<and> ShuttingDown \<notin> fst ` set tr"
proof -
  have h: "can_happen (Accepting x) (tasks_after hash st (map fst tr)) \<longleftrightarrow> ShuttingDown \<notin> fst ` set tr" by (simp add: tasks_after_def)
  have "(\<exists>t. server_run crc cs hash (listening st, w0) tr t) \<longleftrightarrow> (\<exists>w. server_run crc cs hash (listening st, w0) tr (tasks_after hash st (map fst tr), w))"
    using run_state by (metis prod.collapse)
  then show ?thesis using run_snoc [of crc cs hash st w0 tr "Accepting x"] h by (auto simp: split_paired_Ex)
qed

lemma served_after_shutdown:
  defines "req \<equiv> \<lparr>hr_path = ''/a/p'', hr_headers = [], hr_body = []\<rparr>"
  shows "\<exists>srv. server_run crc cs example_hash (listening server_default, ())
    [(AddingService (example_service ''a'' ''p''), None), (Accepting (Inr ''x''), None), (ShuttingDown, None),
     (Receiving 0 req, Some \<lparr>hs_status = HTTP_OK, hs_body = []\<rparr>)] (srv, ())"
proof -
  note run = run_event [of crc cs example_hash _ "[]", simplified] run_event [of crc cs example_hash _ "[a]" for a, simplified]
    run_event [of crc cs example_hash _ "[a, b]" for a b, simplified] run_event [of crc cs example_hash _ "[a, b, c]" for a b c, simplified]
  note defs = listening_def on_accept_def server_shutdown_def handle_connection_eq handle_message_def try_handle_request_def respond_def req_def add_service_def
    add_handlers_def register_handlers_def add_handler_def get_handler_def example_service_def example_hash_def server_default_def to_uri_path_def sanitise_def ok_or_def
  show ?thesis
    by (intro exI, rule run(4), rule run(3), rule run(2), rule run(1), rule run_start, simp_all add: defs) (simp_all add: defs)
qed

end
