(* ===== verification/Extension.thy ===== *)
theory Extension
  imports Wire Node "HOL-Library.Sublist"
begin

text \<open>
  The store as an extension of a node, \<^verbatim>\<open>datacake-eventual-consistency/src/lib.rs\<close>: it loads the keyspaces, starts the
  distributor and the replication cycle, follows the membership, adds its two services to the server
  of the node and stops both tasks when it goes out of scope; with the handles of both tasks
  (\<^verbatim>\<open>replication/distributor.rs\<close>, \<^verbatim>\<open>replication/poller.rs\<close>) and the statistics (\<^verbatim>\<open>statistics.rs\<close>).
\<close>

section \<open>The tasks and their handles\<close>

text \<open>The counters of the store.\<close>

record system_statistics =
  num_ongoing_sync_tasks :: u64
  num_slow_sync_tasks :: u64
  num_failed_sync_tasks :: u64
  num_keyspace_changes :: u64

definition system_statistics_default :: system_statistics where
  "system_statistics_default = \<lparr>num_ongoing_sync_tasks = 0, num_slow_sync_tasks = 0, num_failed_sync_tasks = 0, num_keyspace_changes = 0\<rparr>"

text \<open>What the handle of the distributor shares with its task: the queue and the kill switch.\<close>

record task_distributor =
  td_ctx :: task_service_context
  td_queue :: "distributor_op list"
  td_kill_switch :: bool

definition start_task_distributor_service :: "task_service_context \<Rightarrow> task_distributor" where
  "start_task_distributor_service ctx = \<lparr>td_ctx = ctx, td_queue = [], td_kill_switch = False\<rparr>"

definition task_membership_change :: "membership_change \<Rightarrow> task_distributor \<Rightarrow> task_distributor" where
  "task_membership_change changes td = td\<lparr>td_queue := td_queue td @ [MembershipChangeOp changes]\<rparr>"

definition task_mutation :: "mutation \<Rightarrow> task_distributor \<Rightarrow> task_distributor" where
  "task_mutation m td = td\<lparr>td_queue := td_queue td @ [MutationOp m]\<rparr>"

definition task_kill :: "task_distributor \<Rightarrow> task_distributor" where
  "task_kill td = td\<lparr>td_kill_switch := True\<rparr>"

text \<open>What the task sees at its next tick, and the handle after it.\<close>

definition task_tick :: "task_distributor \<Rightarrow> (bool \<times> distributor_op list) \<times> task_distributor" where
  "task_tick td = ((td_kill_switch td, td_queue td), if td_kill_switch td then td else td\<lparr>td_queue := []\<rparr>)"

record replication_handle =
  rh_repair_interval :: duration
  rh_queue :: "membership_change list"
  rh_kill_switch :: bool

definition start_replication_cycle :: "duration \<Rightarrow> replication_handle" where
  "start_replication_cycle repair_interval = \<lparr>rh_repair_interval = repair_interval, rh_queue = [], rh_kill_switch = False\<rparr>"

definition repair_membership_change :: "membership_change \<Rightarrow> replication_handle \<Rightarrow> replication_handle" where
  "repair_membership_change changes rh = rh\<lparr>rh_queue := rh_queue rh @ [changes]\<rparr>"

definition repair_kill :: "replication_handle \<Rightarrow> replication_handle" where
  "repair_kill rh = rh\<lparr>rh_kill_switch := True\<rparr>"

definition repair_tick :: "replication_handle \<Rightarrow> (bool \<times> membership_change list) \<times> replication_handle" where
  "repair_tick rh = ((rh_kill_switch rh, rh_queue rh), if rh_kill_switch rh then rh else rh\<lparr>rh_queue := []\<rparr>)"

section \<open>The store\<close>

text \<open>The interval of a build that is not one for tests.\<close>

definition DEFAULT_REPAIR_INTERVAL :: duration where
  "DEFAULT_REPAIR_INTERVAL = from_secs (60 * 60)"

record 's store_extension =
  ext_datastore :: 's
  ext_repair_interval :: duration

definition extension_new :: "'s \<Rightarrow> 's store_extension" where
  "extension_new store = \<lparr>ext_datastore = store, ext_repair_interval = DEFAULT_REPAIR_INTERVAL\<rparr>"

definition with_repair_interval :: "duration \<Rightarrow> 's store_extension \<Rightarrow> 's store_extension" where
  "with_repair_interval dur ext = ext\<lparr>ext_repair_interval := dur\<rparr>"

record 's ec_store =
  ec_node :: cluster_member
  ec_group :: "'s keyspace_group"
  ec_task_service :: task_distributor
  ec_repair_service :: replication_handle
  ec_statistics :: system_statistics

text \<open>The clock of the node is that of the group: loading takes timestamps from it.\<close>

definition create_store ::
  "(u8 list \<Rightarrow> u32) \<Rightarrow> (string \<Rightarrow> u64) \<Rightarrow> type_names \<Rightarrow> codecs \<Rightarrow> ('s, 'e) storage_ops \<Rightarrow> ('e \<Rightarrow> string) \<Rightarrow> ('e bulk_mutation_error \<Rightarrow> string)
    \<Rightarrow> (orswot_set \<Rightarrow> u8 list option) \<Rightarrow> 's \<Rightarrow> duration \<Rightarrow> ('h, 's keyspace_group, 'c) datacake_node
    \<Rightarrow> (('e store_error + 's ec_store) \<times> ('h, 's keyspace_group, 'c) datacake_node) exec" where
  "create_store crc hash tn co ops te bte ser datastore repair_interval nd =
     do { let group = group_new \<lparr>w_store = datastore, w_clock = dn_clock nd\<rparr>;
          let statistics = system_statistics_default;
          (r, group) \<leftarrow> load_states_from_storage ops group;
          let nd = nd\<lparr>dn_clock := w_clock (g_world group)\<rparr>;
          Some (case r of
              Inl e \<Rightarrow> (Inl (StorageError e), nd)
            | Inr u \<Rightarrow>
                (let task_ctx = \<lparr>local_node_id = member_id (node_me nd), public_node_addr = public_addr (node_me nd)\<rparr>;
                     task_service = start_task_distributor_service task_ctx;
                     repair_service = start_replication_cycle repair_interval;
                     nd = add_rpc_service hash (consistency_service crc tn co ops te bte) nd;
                     nd = add_rpc_service hash (replication_service crc tn co ops te ser) nd
                 in (Inr \<lparr>ec_node = node_me nd, ec_group = group, ec_task_service = task_service, ec_repair_service = repair_service,
                          ec_statistics = statistics\<rparr>, nd))) }"

definition init_extension where
  "init_extension crc hash tn co ops te bte ser ext nd =
     create_store crc hash tn co ops te bte ser (ext_datastore ext) (ext_repair_interval ext) nd"

text \<open>\<open>DatacakeNode::add_extension\<close>.\<close>

definition add_extension :: "'x \<Rightarrow> ('x \<Rightarrow> ('h, 'w, 'c) datacake_node \<Rightarrow> ('r \<times> ('h, 'w, 'c) datacake_node) exec) \<Rightarrow> ('h, 'w, 'c) datacake_node
    \<Rightarrow> ('r \<times> ('h, 'w, 'c) datacake_node) exec" where
  "add_extension ext init nd = init ext nd"

text \<open>The task that passes the changes of the membership on to both services: those it reads, in their order.\<close>

primrec follow_membership :: "membership_change list \<Rightarrow> 's ec_store \<Rightarrow> 's ec_store" where
  "follow_membership [] st = st"
| "follow_membership (members # changes) st =
     follow_membership changes (st\<lparr>ec_task_service := task_membership_change members (ec_task_service st),
       ec_repair_service := repair_membership_change members (ec_repair_service st)\<rparr>)"

text \<open>A handle works on the group of the store, and on the network and the selector of the node.\<close>

definition store_handle :: "'s ec_store \<Rightarrow> ('h, 'w, 'c) datacake_node \<Rightarrow> 'n \<Rightarrow> ('s, 'c, 'n) store_state" where
  "store_handle st nd net =
     \<lparr>ss_group = ec_group st, ss_selector = dn_selector nd, ss_queue = td_queue (ec_task_service st), ss_clients = dn_network nd, ss_net = net\<rparr>"

definition store_dropped :: "'s ec_store \<Rightarrow> 's ec_store" where
  "store_dropped st = st\<lparr>ec_task_service := task_kill (ec_task_service st), ec_repair_service := repair_kill (ec_repair_service st)\<rparr>"

section \<open>Following the membership\<close>

lemma follow_membership_handles:
  "ec_task_service (follow_membership cs st) = (ec_task_service st)\<lparr>td_queue := td_queue (ec_task_service st) @ map MembershipChangeOp cs\<rparr>"
  "ec_repair_service (follow_membership cs st) = (ec_repair_service st)\<lparr>rh_queue := rh_queue (ec_repair_service st) @ cs\<rparr>"
  by (induction cs arbitrary: st) (simp_all add: task_membership_change_def repair_membership_change_def)

lemma drain_changes: "drain_queue (map MembershipChangeOp cs) live p = (fold apply_change cs live, p)"
  by (induction cs arbitrary: live) simp_all

lemma cycle_changes: "\<exists>t. fold cycle_change cs st = st\<lparr>cy_members := fold apply_change cs (cy_members st), cy_tracker := t\<rparr>"
proof (induction cs arbitrary: st)
  case Nil
  show ?case by (rule exI [of _ "cy_tracker st"]) simp
next
  case (Cons c cs)
  show ?case using Cons [of "cycle_change c st"] by (auto simp: cycle_change_def)
qed

text \<open>Nothing is known that was not reported.\<close>

lemma joined_reported:
  assumes "\<forall>m \<in> set ms. membership_wf m" "watch_membership_changes self ms st = (cs, st')" "c \<in> set cs" "x \<in> set (joined c)"
  shows "\<exists>m \<in> set ms. (member_id x, public_addr x) \<in> set (network_set_of self m)"
  using assms
proof (induction ms arbitrary: st cs)
  case (Cons m ms)
  obtain c1 st1 where s: "watch_step self m st = (c1, st1)" by fastforce
  obtain cs1 where r: "watch_membership_changes self ms st1 = (cs1, st')" "cs = c1 # cs1"
    using Cons.prems(2) s by (auto simp: Let_def split: prod.splits)
  show ?case
  proof (cases "c = c1")
    case True
    let ?new = "set_difference (network_set_of self m) (last_network_set st)"
    have j: "joined c = List.map_filter (\<lambda>(nid, a). map_of m nid) ?new" using s True by (auto simp: watch_step_def Let_def)
    have "map (\<lambda>x. (member_id x, public_addr x)) (joined c) = ?new"
      unfolding j by (rule joined_pairs [where self = self]) (use Cons.prems(1) in \<open>simp_all add: set_difference_def\<close>)
    moreover have "(member_id x, public_addr x) \<in> set (map (\<lambda>x. (member_id x, public_addr x)) (joined c))" using Cons.prems(4) by simp
    ultimately show ?thesis by (simp add: set_difference_def)
  next
    case False
    then show ?thesis using Cons.IH [OF _ r(1) _ Cons.prems(4)] Cons.prems(1,3) r(2) by auto
  qed
qed simp

lemma inserted_known:
  "map_of (fold (\<lambda>m. bt_insert (member_id m) (public_addr m)) xs live) nid = Some a \<Longrightarrow>
    map_of live nid = Some a \<or> (\<exists>x \<in> set xs. member_id x = nid \<and> public_addr x = a)"
proof (induction xs arbitrary: live)
  case (Cons x xs)
  show ?case using Cons.IH [of "bt_insert (member_id x) (public_addr x) live"] Cons.prems by (auto split: if_splits)
qed simp

lemma applied_known:
  "map_of (apply_change c live) nid = Some a \<Longrightarrow> map_of live nid = Some a \<or> (\<exists>x \<in> set (joined c). member_id x = nid \<and> public_addr x = a)"
  unfolding apply_change_def by (drule inserted_known) (auto simp: map_of_removals split: if_splits)

lemma live_known:
  "map_of (fold apply_change cs live) nid = Some a \<Longrightarrow> map_of live nid = Some a \<or> (\<exists>c \<in> set cs. \<exists>x \<in> set (joined c). member_id x = nid \<and> public_addr x = a)"
proof (induction cs arbitrary: live)
  case (Cons c cs)
  then have "map_of (apply_change c live) nid = Some a \<or> (\<exists>c \<in> set cs. \<exists>x \<in> set (joined c). member_id x = nid \<and> public_addr x = a)" by simp
  then show ?case using applied_known [of c live nid a] by auto
qed simp

lemma subseq_set: "subseq xs ys \<Longrightarrow> set xs \<subseteq> set ys"
  by (induction rule: list_emb.induct) auto

lemma live_reported:
  assumes "\<forall>m \<in> set ms. membership_wf m" "watch_membership_changes self ms st = (cs, st')" "set seen \<subseteq> set cs" "map_of (fold apply_change seen []) nid = Some a"
  shows "nid \<noteq> self \<and> (\<exists>m \<in> set ms. (nid, a) \<in> set (network_set_of self m))"
proof -
  obtain c x where c: "c \<in> set seen" "x \<in> set (joined c)" "member_id x = nid" "public_addr x = a" using live_known [OF assms(4)] by auto
  then obtain m where m: "m \<in> set ms" "(nid, a) \<in> set (network_set_of self m)" using joined_reported [OF assms(1,2) _ c(2)] assms(3) by auto
  moreover have "nid \<noteq> self" using m network_set_mem [of m nid a self] assms(1) by auto
  ultimately show ?thesis by blast
qed

text \<open>A handle of a store that is gone still queues its writes, and nothing is sent any more.\<close>

lemma dropped_store_sends_nothing:
  assumes "td = task_mutation m (ec_task_service (store_dropped st))"
  shows "task_distributor_service ctx connect_to rpc sched (fst (task_tick td) # evs) ds net = Some (ds, net)" "MutationOp m \<in> set (td_queue (snd (task_tick td)))"
  using assms by (simp_all add: store_dropped_def task_kill_def task_mutation_def task_tick_def)

lemma create_store_cases:
  assumes "create_store crc hash tn co ops te bte ser s dur nd = Some (Inr st, nd')"
  shows "\<exists>u g. load_states_from_storage ops (group_new \<lparr>w_store = s, w_clock = dn_clock nd\<rparr>) = Some (Inr u, g) \<and> ec_group st = g \<and>
    ec_task_service st = start_task_distributor_service \<lparr>local_node_id = member_id (node_me nd), public_node_addr = public_addr (node_me nd)\<rparr> \<and>
    ec_repair_service st = start_replication_cycle dur \<and> dn_clock nd' = w_clock (g_world g) \<and>
    dn_rpc_server nd' = add_service hash (replication_service crc tn co ops te ser) (add_service hash (consistency_service crc tn co ops te bte) (dn_rpc_server nd))"
proof -
  obtain r g where l: "load_states_from_storage ops (group_new \<lparr>w_store = s, w_clock = dn_clock nd\<rparr>) = Some (r, g)"
    using assms by (auto simp: create_store_def Let_def bind_eq_Some_conv)
  then obtain u where "r = Inr u" using assms by (cases r) (simp_all add: create_store_def)
  then show ?thesis using l assms by (auto simp: create_store_def Let_def add_rpc_service_def node_me_def)
qed

section \<open>Properties\<close>

text \<open>C6. Adding the store to a node whose server has the services \<open>others\<close>, for a store that keeps the contract and a clock with room for the
  keyspaces to load: it fails with an error of the store and the server keeps its services, or it starts. Then every
  keyspace agrees with what is stored, which has not changed, the server has the services of the store beside the others, the clock of
  the node is the one of the keyspaces, and both tasks run with nothing queued.\<close>

theorem extension_starts_store:
  assumes "storage ops invar known look" "invar (ext_datastore ext)" "dn_rpc_server nd = fold (add_service hash) others server_default"
    and "\<forall>kss s. st_get_keyspace_list ops (ext_datastore ext) = Some (Inr kss, s) \<longrightarrow> clock_answers (card (set kss)) (dn_clock nd)"
  shows "\<exists>r nd'. add_extension ext (init_extension crc hash tn co ops te bte ser) nd = Some (r, nd') \<and>
    (case r of
       Inl e \<Rightarrow> (\<exists>e'. e = StorageError e') \<and> dn_rpc_server nd' = dn_rpc_server nd
     | Inr st \<Rightarrow> group_inv invar look (ec_group st) \<and> look (group_store (ec_group st)) = look (ext_datastore ext) \<and>
         dn_rpc_server nd' = store_server crc hash tn co ops te bte ser others \<and> dn_clock nd' = group_clock (ec_group st) \<and>
         fst (task_tick (ec_task_service st)) = (False, []) \<and> fst (repair_tick (ec_repair_service st)) = (False, []))"
proof -
  let ?g = "group_new \<lparr>w_store = ext_datastore ext, w_clock = dn_clock nd\<rparr>"
  obtain r g where l: "load_states_from_storage ops ?g = Some (r, g)" "look (w_store (g_world g)) = look (ext_datastore ext)"
    "is_ok r \<longrightarrow> group_inv invar look g"
    using storage.load_states_from_storage_spec [OF assms(1), of ?g] assms(2,4) by (auto simp: group_new_def)
  show ?thesis
  proof (cases r)
    case (Inl e)
    then show ?thesis using l(1) by (simp add: add_extension_def init_extension_def create_store_def)
  next
    case (Inr u)
    then show ?thesis using l assms(3)
      by (simp add: add_extension_def init_extension_def create_store_def Let_def add_rpc_service_def store_server_def task_tick_def
          repair_tick_def start_task_distributor_service_def start_replication_cycle_def)
  qed
qed

definition example_store_node :: "(unit, mem_store keyspace_group, unit) datacake_node" where
  "example_store_node = \<lparr>dn_node = \<lparr>cn_me = member_new 1 ''a'' ''dc'', cn_chitchat_handle = (), cn_members = [], cn_stop = False\<rparr>,
     dn_rpc_server = server_default, dn_clock = example_clock, dn_network = [], dn_selector = selector_init, dn_statistics = statistics_default,
     dn_membership_changes = membership_change_default, dn_transport = \<lparr>ct_rpc_listen_addr = ''a''\<rparr>\<rparr>"

theorem extension_starts_store_witness:
  "\<exists>r nd'. add_extension (extension_new example_store) (init_extension (\<lambda>b. 0) (\<lambda>s. 0) example_names example_codecs mem_ops (\<lambda>e. []) (\<lambda>e. []) example_ser)
      example_store_node = Some (r, nd') \<and>
    (case r of Inl e \<Rightarrow> dn_rpc_server nd' = server_default
     | Inr st \<Rightarrow> group_inv mem_inv mem_look (ec_group st) \<and> mem_look (group_store (ec_group st)) = mem_look example_store)"
proof -
  have ans: "\<forall>kss s. st_get_keyspace_list mem_ops (ext_datastore (extension_new example_store)) = Some (Inr kss, s) \<longrightarrow>
      clock_answers (card (set kss)) (dn_clock example_store_node)"
    using example_list_answers by (simp add: extension_new_def example_store_node_def example_world_def)
  have inv: "mem_inv (ext_datastore (extension_new example_store))" using example_store_inv by (simp add: extension_new_def)
  have srv: "dn_rpc_server example_store_node = fold (add_service (\<lambda>s. 0)) [] server_default" by (simp add: example_store_node_def)
  from extension_starts_store [OF mem.storage_axioms inv srv ans, where crc = "\<lambda>b. 0" and tn = example_names and co = example_codecs and te = "\<lambda>e. []" and bte = "\<lambda>e. []" and ser = example_ser]
  show ?thesis by (elim exE conjE) (intro exI conjI, assumption, auto simp: srv extension_new_def split: sum.splits)
qed

text \<open>C22. What the two tasks of a store that has just been created know of the membership at their first tick. The changes a
  node publishes go through a channel that keeps the last value only, so the store reads some of them, \<open>seen\<close>, in their order:
  one that is overwritten before it is read, or published before the store is added, is lost. Whatever is lost, both tasks know the same
  members, and only nodes other than their own that were reported, each with an address reported for it. When nothing is lost they know exactly the nodes ever
  reported, each with the last address reported for it; a node that has left the cluster is never dropped.\<close>

theorem services_follow_membership:
  assumes "\<forall>m \<in> set ms. membership_wf m" "watch_membership_changes self ms watch_init = (cs, ws)" "subseq seen cs"
    and "create_store crc hash tn co ops te bte ser s dur nd = Some (Inr st, nd')" "st' = follow_membership seen st"
    and "dist_members ds = []" "cy_members cy = []"
  shows "\<exists>live tr. (\<forall>nid a. map_of live nid = Some a \<longrightarrow> nid \<noteq> self \<and> (\<exists>m \<in> set ms. (nid, a) \<in> set (network_set_of self m))) \<and>
    (seen = cs \<longrightarrow> map_of live = fold (\<lambda>m known. known ++ map_of (network_set_of self m)) ms Map.empty) \<and>
    task_distributor_service ctx connect_to rpc sched [fst (task_tick (ec_task_service st'))] ds net = Some (ds\<lparr>dist_members := live\<rparr>, net) \<and>
    replication_cycle env [fst (repair_tick (ec_repair_service st'))] cy = repair_members env live (cy\<lparr>cy_members := live, cy_tracker := tr\<rparr>)"
proof -
  let ?live = "fold apply_change seen []"
  have h: "td_queue (ec_task_service st) = []" "\<not> td_kill_switch (ec_task_service st)" "rh_queue (ec_repair_service st) = []" "\<not> rh_kill_switch (ec_repair_service st)"
    using create_store_cases [OF assms(4)] by (auto simp: start_task_distributor_service_def start_replication_cycle_def)
  obtain tr where tr: "fold cycle_change seen cy = cy\<lparr>cy_members := ?live, cy_tracker := tr\<rparr>" using cycle_changes [of seen cy] assms(7) by auto
  have "\<forall>nid a. map_of ?live nid = Some a \<longrightarrow> nid \<noteq> self \<and> (\<exists>m \<in> set ms. (nid, a) \<in> set (network_set_of self m))"
    using live_reported [OF assms(1,2) subseq_set [OF assms(3)]] by blast
  moreover have "seen = cs \<longrightarrow> map_of ?live = fold (\<lambda>m known. known ++ map_of (network_set_of self m)) ms Map.empty"
    using watch_live [OF assms(1) _ assms(2), of "[]"] by (simp add: tracked_def watch_init_def)
  moreover have "task_distributor_service ctx connect_to rpc sched [fst (task_tick (ec_task_service st'))] ds net = Some (ds\<lparr>dist_members := ?live\<rparr>, net)"
    using h assms(6) by (simp add: assms(5) task_tick_def follow_membership_handles distributor_tick_def drain_changes)
  moreover have "replication_cycle env [fst (repair_tick (ec_repair_service st'))] cy = repair_members env ?live (cy\<lparr>cy_members := ?live, cy_tracker := tr\<rparr>)"
    using h by (cases "repair_members env ?live (cy\<lparr>cy_members := ?live, cy_tracker := tr\<rparr>)")
      (simp_all add: assms(5) repair_tick_def follow_membership_handles tr)
  ultimately show ?thesis by blast
qed

definition example_reports :: "node_membership list" where
  "example_reports = [[(1, member_new 1 ''a'' ''dc''), (2, member_new 2 ''b'' ''dc'')], [(1, member_new 1 ''a'' ''dc'')]]"

definition example_idle_distributor :: "addr distributor_state" where
  "example_idle_distributor = \<lparr>dist_members = [], dist_clients = [], dist_clock = example_clock\<rparr>"

theorem services_follow_membership_witness:
  "\<exists>st nd' live. create_store (\<lambda>b. 0) (\<lambda>s. 0) example_names example_codecs mem_ops (\<lambda>e. []) (\<lambda>e. []) example_ser mem_default DEFAULT_REPAIR_INTERVAL
      example_store_node = Some (Inr st, nd') \<and> map_of live 2 = Some ''b'' \<and>
    (let td = ec_task_service (follow_membership (fst (watch_membership_changes 1 example_reports (watch_init :: unit watch_state))) st)
     in task_distributor_service (td_ctx td) (\<lambda>a. a) (batch_rpc mem_ops (\<lambda>e. [])) (\<lambda>xs. xs) [fst (task_tick td)] example_idle_distributor (\<lambda>a. example_group) =
        Some (example_idle_distributor\<lparr>dist_members := live\<rparr>, \<lambda>a. example_group))"
proof -
  have wf: "\<forall>m \<in> set example_reports. membership_wf m" by (simp add: membership_wf_def member_new_def example_reports_def)
  obtain st nd' where c: "create_store (\<lambda>b. 0) (\<lambda>s. 0) example_names example_codecs mem_ops (\<lambda>e. []) (\<lambda>e. []) example_ser mem_default DEFAULT_REPAIR_INTERVAL
      example_store_node = Some (Inr st, nd')"
    by (simp add: create_store_def load_states_from_storage_def group_new_def mem_get_keyspace_list_def mem_default_def load_states_def Let_def)
  let ?st = "follow_membership (fst (watch_membership_changes 1 example_reports (watch_init :: unit watch_state))) st"
  from services_follow_membership [where self = 1 and ds = example_idle_distributor and cy = "example_cycle\<lparr>cy_members := []\<rparr>" and env = example_env
      and ctx = "td_ctx (ec_task_service ?st)" and connect_to = "\<lambda>a. a" and rpc = "batch_rpc mem_ops (\<lambda>e. [])" and sched = "\<lambda>xs. xs" and net = "\<lambda>a. example_group",
      OF wf prod.collapse [symmetric] subseq_order.order_refl c refl]
  obtain live where live: "map_of live = fold (\<lambda>m known. known ++ map_of (network_set_of 1 m)) example_reports Map.empty"
    "task_distributor_service (td_ctx (ec_task_service ?st)) (\<lambda>a. a) (batch_rpc mem_ops (\<lambda>e. [])) (\<lambda>xs. xs) [fst (task_tick (ec_task_service ?st))] example_idle_distributor
      (\<lambda>a. example_group) = Some (example_idle_distributor\<lparr>dist_members := live\<rparr>, \<lambda>a. example_group)"
    unfolding example_idle_distributor_def by auto
  have "map_of live 2 = Some ''b''" unfolding live(1) by (simp add: example_reports_def network_set_of_def member_new_def)
  then show ?thesis using c live(2) unfolding Let_def by blast
qed

text \<open>A change that is overwritten before it is read is lost: a node that joined between two others is never known.\<close>

lemma overwritten_change_lost:
  "map snd (fold apply_change [last (fst (watch_membership_changes 1 [[(1, member_new 1 ''a'' ''dc''), (2, member_new 2 ''b'' ''dc'')],
      [(1, member_new 1 ''a'' ''dc''), (2, member_new 2 ''b'' ''dc''), (3, member_new 3 ''c'' ''dc'')]] (watch_init :: unit watch_state)))] []) = [''c'']"
  by (simp add: watch_step_def watch_init_def network_set_of_def set_difference_def apply_change_def member_new_def Let_def map_filter_simps)

end
