(* ===== verification/KvApi.thy ===== *)
theory KvApi
  imports RpcServer Extension Shards
begin

text \<open>
  The example application, \<^verbatim>\<open>examples/replicated-kv/src/main.rs\<close>: a node with a store of shards, started from its
  arguments, and the two routes of its REST interface over a handle of the store.
\<close>

section \<open>Starting\<close>

record kv_args =
  arg_node_id :: u8
  arg_seeds :: "string list"
  arg_rest_listen_addr :: addr
  arg_cluster_listen_addr :: addr
  arg_public_addr :: "addr option"
  arg_data_dir :: string

definition args_connection :: "kv_args \<Rightarrow> connection_config" where
  "args_connection args =
     connection_config_new (arg_cluster_listen_addr args)
       (case arg_public_addr args of Some a \<Rightarrow> a | None \<Rightarrow> arg_cluster_listen_addr args) (arg_seeds args)"

datatype ('e, 'io, 'rpc, 'ext, 'x) main_error = OpenFailed 'e | NodeFailed "('io, 'rpc, 'ext) node_error" | ExtensionFailed "'x store_error"

text \<open>What \<open>main\<close> does before it serves: the directory, the node, the store.\<close>

definition kv_start ::
  "(string \<Rightarrow> 'e + unit) \<Rightarrow> nat \<Rightarrow> (string \<Rightarrow> nat \<Rightarrow> ('e + 's) exec)
    \<Rightarrow> (dc_aware_selector node_builder \<Rightarrow> (('io, 'rpc, 'ext) node_error + ('h, 's list keyspace_group, 'c) datacake_node) exec)
    \<Rightarrow> ('s list store_extension \<Rightarrow> ('h, 's list keyspace_group, 'c) datacake_node
        \<Rightarrow> (('x store_error + 's list ec_store) \<times> ('h, 's list keyspace_group, 'c) datacake_node) exec)
    \<Rightarrow> kv_args \<Rightarrow> (('e, 'io, 'rpc, 'ext, 'x) main_error + 's list ec_store \<times> ('h, 's list keyspace_group, 'c) datacake_node) exec" where
  "kv_start create_dir num_cpus open_db connect_with init args =
     do { r \<leftarrow> open_in_dir (create_dir (arg_data_dir args)) num_cpus (open_db (arg_data_dir args));
          case r of Inl e \<Rightarrow> Some (Inl (OpenFailed e)) | Inr shards \<Rightarrow>
          do { r \<leftarrow> connect_with (builder_new (arg_node_id args) (args_connection args));
               case r of Inl e \<Rightarrow> Some (Inl (NodeFailed e)) | Inr nd \<Rightarrow>
               do { (r, nd) \<leftarrow> add_extension (extension_new shards) init nd;
                    Some (case r of Inl e \<Rightarrow> Inl (ExtensionFailed e) | Inr store \<Rightarrow> Inr (store, nd)) } } }"

section \<open>The routes\<close>

record kv_params =
  pm_keyspace :: string
  pm_key :: key

definition HTTP_NOT_FOUND :: nat where "HTTP_NOT_FOUND = 404"

definition get_value ::
  "('s, 'e, 'c, 'n) store_env \<Rightarrow> kv_params \<Rightarrow> ('s, 'c, 'n) store_state \<Rightarrow> ((nat + u8 list) \<times> ('s, 'c, 'n) store_state) exec" where
  "get_value env params st =
     do { (r, st) \<leftarrow> handle_get env (pm_keyspace params) (pm_key params) st;
          Some (case r of
              Inl e \<Rightarrow> Inl HTTP_INTERNAL_SERVER_ERROR
            | Inr doc \<Rightarrow> (case doc of None \<Rightarrow> Inl HTTP_NOT_FOUND | Some doc \<Rightarrow> Inr (doc_data doc)), st) }"

text \<open>The reply to a write repeats its parameters.\<close>

definition set_value ::
  "('s, 'e, 'c, 'n) store_env \<Rightarrow> kv_params \<Rightarrow> u8 list \<Rightarrow> ('s, 'c, 'n) store_state \<Rightarrow> ((nat + kv_params) \<times> ('s, 'c, 'n) store_state) exec" where
  "set_value env params data st =
     do { (r, st) \<leftarrow> handle_put env (pm_keyspace params) (pm_key params) data CEachQuorum st;
          Some (case r of Inl e \<Rightarrow> Inl HTTP_INTERNAL_SERVER_ERROR | Inr u \<Rightarrow> Inr params, st) }"

section \<open>Reading a write\<close>

text \<open>Calls to the replicas leave the local store alone.\<close>

lemma request_keeps_store:
  "request_to env call a st = Some (r, st') \<Longrightarrow> group_store (ss_group st') = group_store (ss_group st)"
  by (auto simp: request_to_def via_clock_def bind_eq_Some_conv split: prod.splits)

lemma acks_keep_store:
  "count_acks (request_to env call) as st = Some (n, st') \<Longrightarrow> group_store (ss_group st') = group_store (ss_group st)"
proof (induction as arbitrary: st n)
  case (Cons a as)
  then obtain r st1 m where "request_to env call a st = Some (r, st1)" "count_acks (request_to env call) as st1 = Some (m, st')"
    by (auto simp: bind_eq_Some_conv)
  then show ?case using Cons.IH request_keeps_store by metis
qed simp

lemma distribution_keeps_store:
  "handle_consistency_distribution sched nodes (request_to env call) st = Some (r, st') \<Longrightarrow> group_store (ss_group st') = group_store (ss_group st)"
  by (auto simp: handle_consistency_distribution_def bind_eq_Some_conv dest: acks_keep_store)

text \<open>The steps of a write that succeeds.\<close>

lemma store_write_Inr:
  assumes "store_write env name c msg err mutation call st = Some (Inr (), st')"
  obtains ts g1 i g2 g3 where "group_get_time (ss_group st) = Some (ts, g1)" "get_or_create_keyspace name g1 = Some (i, g2)"
    "send_to i (msg ts) g2 = Some (Inr (), g3)" "group_store (ss_group st') = group_store g3"
proof -
  obtain q0 st0 where s0: "handle_select env c st = Some (q0, st0)"
    using assms by (auto simp: store_write_def bind_eq_Some_conv)
  with assms obtain nodes where s: "handle_select env c st = Some (Inr nodes, st0)" by (cases q0) (auto simp: store_write_def)
  then have g0: "ss_group st0 = ss_group st" by (auto simp: handle_select_def bind_eq_Some_conv)
  obtain ts g1 i g2 q g3 where r: "group_get_time (ss_group st) = Some (ts, g1)" "get_or_create_keyspace name g1 = Some (i, g2)" "send_to i (msg ts) g2 = Some (q, g3)"
    using assms s g0 by (auto simp: store_write_def bind_eq_Some_conv)
  have q: "q = Inr ()" using assms s g0 r by (cases q) (auto simp: store_write_def)
  have "handle_consistency_distribution (se_sched env) nodes (request_to env (call ts)) (st0\<lparr>ss_group := g3, ss_queue := ss_queue st0 @ [MutationOp (mutation ts)]\<rparr>) = Some (Inr (), st')"
    using assms s g0 r q by (simp add: store_write_def)
  from distribution_keeps_store [OF this] r q that show ?thesis by simp
qed

context storage
begin

text \<open>A document the local keyspace has taken is stored.\<close>

lemma set_stored:
  assumes inv: "group_inv invar look g" and clk: "clock_fit m (group_clock g)" "m + 3 < 2 ^ 16" and ts: "clock_get (group_clock g) = Some (ts, c)"
    and ord: "in_order CONSISTENCY_SOURCE_ID ts (group_set g name)" "group_reg g name k < Dead ts"
    and run: "get_or_create_keyspace name (g\<lparr>g_world := (g_world g)\<lparr>w_clock := c\<rparr>\<rparr>) = Some (i, g2)"
      "send_to i (on_set ops \<lparr>set_source = CONSISTENCY_SOURCE_ID, set_doc = document_new k ts bytes, set_ctx = None\<rparr>) g2 = Some (Inr (), g3)"
  shows "invar (group_store g3)" "look (group_store g3) name k = Some (Doc (document_new k ts bytes))"
proof -
  let ?g1 = "g\<lparr>g_world := (g_world g)\<lparr>w_clock := c\<rparr>\<rparr>" and ?msg = "\<lparr>set_source = CONSISTENCY_SOURCE_ID, set_doc = document_new k ts bytes, set_ctx = None\<rparr>"
  have fit1: "clock_fit (Suc m) (group_clock ?g1)" using clock_fit_get [OF clk(1)] clk(2) ts by auto
  have inv1: "group_inv invar look ?g1" using inv by (auto simp: group_inv_def group_wf_def actor_inv_def)
  have g2: "group_inv invar look g2" "map_of (g_group g2) name = Some i" "group_set g2 = group_set g" "clock_fit (Suc (Suc m)) (group_clock g2)"
    using create_fit [OF inv1 fit1, of name] clk(2) run(1) by auto
  let ?a = "g_actors g2 ! i"
  have a: "actor_inv invar look ?a (g_world g2)" "ks_name ?a = name" "ks_state ?a = group_set g name" "i < length (g_actors g2)"
    using g2(1,2) send_read(2) [OF g2(1,2)] g2(3) by (auto simp: group_inv_def group_wf_def)
  obtain t c2 where c2: "clock_get (group_clock g2) = Some (t, c2)" using clock_fit_get [OF g2(4)] clk(2) by auto
  have wf: "orswot_wf NUM_SOURCES (ks_state ?a)" using a(1) by (simp add: actor_inv_def actor_wf_def)
  have ap: "will_apply (ks_state ?a) k ts" using will_apply_in_order [OF wf] ord by (simp add: a(3) group_reg_def)
  obtain a' w' where "g3 = g2\<lparr>g_world := w', g_actors := (g_actors g2)[i := a']\<rparr>" "on_set ops ?msg ?a (g_world g2) = Some (Inr (), a', w')"
    using run(2) a(4) by (auto simp: send_to_def bind_eq_Some_conv)
  then show "invar (group_store g3)" "look (group_store g3) name k = Some (Doc (document_new k ts bytes))"
    using on_set_spec [OF a(1) _ _ c2, of ?msg] sources(1) ord(1) ap a(2,3) by (auto simp: actor_inv_def)
qed

end

text \<open>The keyspace cannot tell a store from its guarded form when the timestamp is valid.\<close>

lemma on_set_guarded: "valid (last_updated (set_doc msg)) \<Longrightarrow> on_set (guarded valid err ops) msg = on_set ops msg"
  by (intro ext) (simp add: on_set_def guarded_def)

lemma put_stored:
  assumes sto: "storage_on ops invar known look canonical" and inv: "group_inv invar look (ss_group st)" and env: "se_ops env = ops"
    and clk: "clock_fit m (group_clock (ss_group st))" "m + 3 < 2 ^ 16" and ts: "clock_get (group_clock (ss_group st)) = Some (ts, c)"
    and ord: "in_order CONSISTENCY_SOURCE_ID ts (group_set (ss_group st) name)" "group_reg (ss_group st) name k < Dead ts"
    and run: "handle_put env name k bytes cs st = Some (Inr (), st')"
  shows "invar (group_store (ss_group st')) \<and> look (group_store (ss_group st')) name k = Some (Doc (document_new k ts bytes))"
proof -
  let ?g = "ss_group st" and ?msg = "\<lambda>ts. \<lparr>set_source = CONSISTENCY_SOURCE_ID, set_doc = document_new k ts bytes, set_ctx = None\<rparr>"
  from run obtain t g1 i g2 g3 where r: "group_get_time ?g = Some (t, g1)" "get_or_create_keyspace name g1 = Some (i, g2)"
    "send_to i (on_set ops (?msg t)) g2 = Some (Inr (), g3)" "group_store (ss_group st') = group_store g3"
    unfolding handle_put_def env by (rule store_write_Inr)
  have g1: "t = ts" "g1 = ?g\<lparr>g_world := (g_world ?g)\<lparr>w_clock := c\<rparr>\<rparr>" using r(1) ts by (auto simp: group_get_time_def bind_eq_Some_conv)
  have "on_set (guarded canonical undefined ops) (?msg ts) = on_set ops (?msg ts)"
    using clock_get_canonical [OF ts] by (intro on_set_guarded) (simp add: document_new_def last_updated_def metadata_new_def)
  then show ?thesis
    using storage.set_stored [OF storage_on.guarded_storage [OF sto] inv clk ts ord, of i g2 undefined bytes g3] r(2-4) g1 by simp
qed

section \<open>Properties\<close>

text \<open>C5. What the interface acknowledged it returns, for every store that keeps the contract for the timestamps a clock
  makes, as the sharded SQLite store of the application does. The clock of the node has room, and the
  timestamp it hands out next is in order for the keyspace and ahead of what the node holds for the key. Then after a POST
  answered with success, a GET of the same key on the node returns the bytes, or an internal error when the store
  fails to read, and never that there is no such document. The network may answer the calls to replicas in any way.\<close>

theorem api_returns_acknowledged:
  assumes "storage_on ops invar known look canonical" "group_inv invar look (ss_group st)" "se_ops env = ops"
    and "clock_fit m (group_clock (ss_group st))" "m + 3 < 2 ^ 16" "clock_get (group_clock (ss_group st)) = Some (ts, c)"
    and "in_order CONSISTENCY_SOURCE_ID ts (group_set (ss_group st) (pm_keyspace params))"
    and "group_reg (ss_group st) (pm_keyspace params) (pm_key params) < Dead ts"
    and "set_value env params data st = Some (Inr reply, st1)"
  shows "reply = params \<and> (\<exists>r st2. get_value env params st1 = Some (r, st2) \<and> (r = Inr data \<or> r = Inl HTTP_INTERNAL_SERVER_ERROR))"
proof -
  obtain q st0 where q: "handle_put env (pm_keyspace params) (pm_key params) data CEachQuorum st = Some (q, st0)"
    using assms(9) by (auto simp: set_value_def bind_eq_Some_conv)
  with assms(9) have p: "handle_put env (pm_keyspace params) (pm_key params) data CEachQuorum st = Some (Inr (), st1)" "reply = params"
    by (cases q; auto simp: set_value_def)+
  note ts = put_stored [OF assms(1-8) p(1)]
  obtain r s where "st_get ops (pm_keyspace params) (pm_key params) (group_store (ss_group st1)) = Some (r, s)"
    "\<forall>d. r = Inr d \<longrightarrow> d = Some (document_new (pm_key params) ts data)"
    using storage_on.fetch [OF assms(1) conjunct1 [OF ts], of "pm_keyspace params" "pm_key params"] ts by auto
  then show ?thesis using p(2) assms(3) by (cases r) (auto simp: get_value_def handle_get_def with_store_def document_new_def)
qed

text \<open>A node alone in its cluster, over shards of SQLite stores.\<close>

definition example_kv_ops :: "(rows list, string) storage_ops" where
  "example_kv_ops = shards_ops sample_hash (sqlite_ops rows_sqlite)"

definition example_kv_env :: "(rows list, string, addr, addr \<Rightarrow> rows list keyspace_group) store_env" where
  "example_kv_env = \<lparr>se_ops = example_kv_ops, se_me = member_new 1 ''L'' ''dc'', se_choice = take, se_now = 0, se_done = 0, se_connect = (\<lambda>a. a),
     se_client = cluster_calls example_kv_ops (\<lambda>e. e) (\<lambda>e. []), se_sched = rev\<rparr>"

definition example_kv_group :: "rows list keyspace_group" where
  "example_kv_group = group_new \<lparr>w_store = [[], []], w_clock = example_clock\<rparr>"

definition example_kv_state :: "(rows list, addr, addr \<Rightarrow> rows list keyspace_group) store_state" where
  "example_kv_state = \<lparr>ss_group = example_kv_group, ss_selector = selector_set_nodes [(''dc'', [''L''])] selector_init, ss_queue = [],
     ss_clients = [], ss_net = (\<lambda>a. example_kv_group)\<rparr>"

lemma example_kv_storage: "storage_on example_kv_ops (shards_inv sample_hash (sqlite_inv map_of) (sqlite_look map_of)) all_known (shards_look sample_hash (sqlite_look map_of)) canonical"
  unfolding example_kv_ops_def by (rule storage_on.shards_storage_on [OF sqlite_storage_on [OF rows_laws]]) (simp add: sqlite_known_def)

lemma example_kv_inv: "group_inv (shards_inv sample_hash (sqlite_inv map_of) (sqlite_look map_of)) (shards_look sample_hash (sqlite_look map_of)) example_kv_group"
proof -
  have e: "sqlite_inv map_of []" "sqlite_look map_of [] ks k = None" for ks k by (simp_all add: sqlite_inv_def table_ok_def sqlite_look_def table_look_def)
  have "shards_inv sample_hash (sqlite_inv map_of) (sqlite_look map_of) [[], []]" by (auto simp: shards_inv_def less_Suc_eq_0_disj e numeral_2_eq_2)
  moreover have "shards_look sample_hash (sqlite_look map_of) [[], []] ks = Map.empty" for ks
  proof
    fix k
    have "shard_of sample_hash 2 k = 0 \<or> shard_of sample_hash 2 k = 1" using shard_of_less [of 2 sample_hash k] by auto
    then show "shards_look sample_hash (sqlite_look map_of) [[], []] ks k = None" by (auto simp: shards_look_def e numeral_2_eq_2)
  qed
  ultimately show ?thesis using group_wf_new by (simp add: group_inv_def example_kv_group_def group_new_def)
qed

lemma example_kv_ready: "clock_fit 0 (group_clock example_kv_group)" "group_set example_kv_group name = default_set NUM_SOURCES"
  using example_clock_fit by (simp_all add: example_kv_group_def group_new_def group_set_def)

lemma rows_set_succeeds: "on_set example_kv_ops msg a w = Some (r, s) \<Longrightarrow> r = Inr ()"
  by (auto simp: on_set_def example_kv_ops_def shards_puts_fields shards_put_def on_shard_def sqlite_put_def executed_def sqlite_execute_def rows_sqlite_def Let_def
      bind_eq_Some_conv split: if_splits)

lemma example_select: "\<exists>sel. handle_select example_kv_env CEachQuorum example_kv_state = Some (Inr [], example_kv_state\<lparr>ss_selector := sel\<rparr>)"
  by (simp add: handle_select_def example_kv_env_def example_kv_state_def selector_get_nodes_def selector_set_nodes_def selector_init_def select_nodes_def
      each_majority_def remote_nodes_def cycler_from_def cycler_len_def member_new_def Let_def)


lemma example_put_succeeds: "\<exists>st1. handle_put example_kv_env ''ks'' 7 [1, 2] CEachQuorum example_kv_state = Some (Inr (), st1)"
proof -
  let ?msg = "\<lambda>ts. \<lparr>set_source = CONSISTENCY_SOURCE_ID, set_doc = document_new 7 ts [1, 2], set_ctx = None\<rparr>"
  note sto = storage_on.guarded_storage [OF example_kv_storage, of "[]"]
  obtain ts c where c: "clock_get (group_clock example_kv_group) = Some (ts, c)" "clock_fit 1 c"
    using clock_fit_get [OF example_kv_ready(1)] by auto
  have rdy: "replica_ready (shards_inv sample_hash (sqlite_inv map_of) (sqlite_look map_of)) all_known (shards_look sample_hash (sqlite_look map_of)) ''ks'' (PutOp 7 [1, 2]) ts 0 example_kv_group"
    using example_kv_inv example_kv_ready in_order_default [OF sources(1)] by (simp add: replica_ready_def)
  obtain i g2 q g3 where g: "get_or_create_keyspace ''ks'' (example_kv_group\<lparr>g_world := (g_world example_kv_group)\<lparr>w_clock := c\<rparr>\<rparr>) = Some (i, g2)"
    "send_to i (on_set (guarded canonical [] example_kv_ops) (?msg ts)) g2 = Some (q, g3)"
    using storage.local_write [OF sto rdy, of c "\<lambda>ts. on_set (guarded canonical [] example_kv_ops) (?msg ts)"] c(2)
      storage.op_takes(1) [OF sto, of _ _ "PutOp 7 [1, 2]" _ 7 "[1, 2]"] by auto
  have "on_set (guarded canonical [] example_kv_ops) (?msg ts) = on_set example_kv_ops (?msg ts)"
    using clock_get_canonical [OF c(1)] by (intro on_set_guarded) (simp add: document_new_def last_updated_def metadata_new_def)
  with g(2) have g2: "send_to i (on_set example_kv_ops (?msg ts)) g2 = Some (q, g3)" by simp
  then have "q = Inr ()" by (auto simp: send_to_def bind_eq_Some_conv dest: rows_set_succeeds split: if_splits)
  moreover obtain sel where "handle_select example_kv_env CEachQuorum example_kv_state = Some (Inr [], example_kv_state\<lparr>ss_selector := sel\<rparr>)"
    using example_select by blast
  ultimately show ?thesis using c(1) g(1) g2
    by (simp add: handle_put_def store_write_def example_kv_state_def group_get_time_def) (simp add: example_kv_env_def handle_consistency_distribution_def)
qed

theorem api_returns_acknowledged_witness:
  "\<exists>st1. set_value example_kv_env \<lparr>pm_keyspace = ''ks'', pm_key = 7\<rparr> [1, 2] example_kv_state = Some (Inr \<lparr>pm_keyspace = ''ks'', pm_key = 7\<rparr>, st1) \<and>
    (\<exists>r st2. get_value example_kv_env \<lparr>pm_keyspace = ''ks'', pm_key = 7\<rparr> st1 = Some (r, st2) \<and> (r = Inr [1, 2] \<or> r = Inl HTTP_INTERNAL_SERVER_ERROR))"
proof -
  let ?p = "\<lparr>pm_keyspace = ''ks'', pm_key = 7\<rparr>"
  obtain st1 where s: "set_value example_kv_env ?p [1, 2] example_kv_state = Some (Inr ?p, st1)"
    using example_put_succeeds by (auto simp: set_value_def)
  have g: "ss_group example_kv_state = example_kv_group" "se_ops example_kv_env = example_kv_ops" by (simp_all add: example_kv_state_def example_kv_env_def)
  obtain ts c where c: "clock_get (group_clock example_kv_group) = Some (ts, c)" using clock_fit_get [OF example_kv_ready(1)] by auto
  have "in_order CONSISTENCY_SOURCE_ID ts (group_set example_kv_group ''ks'')" "group_reg example_kv_group ''ks'' 7 < Dead ts"
    using in_order_default [OF sources(1)] by (simp_all add: example_kv_ready group_reg_def)
  then show ?thesis using api_returns_acknowledged [where st = example_kv_state and m = 0, unfolded g, OF example_kv_storage example_kv_inv g(2) example_kv_ready(1) _ c _ _ s] s by simp
qed

end
