(* ===== verification/Spec2Isabelle.thy ===== *)
theory Spec2Isabelle
  imports Wire Node Convergence Shards Conformance LazyClient Scratch Mock KvApi
begin

text \<open>
  Datacake is a library for eventually consistent, replicated stores. Every node keeps documents in
  a store the application supplies, and beside it, per keyspace, a set (an ORSWOT) that says which
  keys are live or deleted, at which timestamp of a hybrid logical clock. A write is stamped by the
  clock of the node, applied by the actor of its keyspace, sent to the replicas its consistency
  level asks for and queued for all other nodes; a periodic read repair compares the keyspaces of two
  nodes and fetches what differs. Nodes find each other by gossip and call each other over an RPC
  framework of the repository. This development models these parts and proves what makes them correct.

  \<^bold>\<open>Theories.\<close> Paths are those of the repository's crates.

  \<^item> \<open>Prelude\<close>, \<open>Collections\<close>: machine integers, durations, panics (\<open>None\<close> of the type \<open>exec\<close>) and results
    (\<open>Inl\<close> an error); \<open>BTreeMap\<close> and \<open>HashMap\<close> as interpretations of the locale \<open>rust_map\<close>.
  \<^item> \<open>Timestamp\<close>, \<open>TimestampText\<close>: \<^verbatim>\<open>datacake-crdt/src/timestamp.rs\<close>. A timestamp is a \<open>u64\<close> of seconds,
    fraction, counter and node; \<open>hlc_send\<close> and \<open>hlc_recv\<close> with their errors, \<open>Display\<close> and \<open>FromStr\<close>.
  \<^item> \<open>Orswot\<close>, \<open>OrswotMerge\<close>: \<^verbatim>\<open>datacake-crdt/src/orswot.rs\<close>. The set, its versions, insert, delete, merge,
    diff and purge. Their specification is a register per key (\<open>Absent\<close>, \<open>Live t\<close>, \<open>Dead t\<close>) with a join;
    the locale \<open>lww_replica\<close> states what a replica of such registers promises.
  \<^item> \<open>Clock\<close>: \<^verbatim>\<open>datacake-node/src/clock.rs\<close>, the clock actor over a wall clock that is a parameter.
  \<^item> \<open>Storage\<close>, \<open>MemStore\<close>: the trait \<open>Storage\<close> of \<^verbatim>\<open>datacake-eventual-consistency/src/storage.rs\<close> as a record
    of operations and its contract as the locale \<open>storage\<close>; the store over two hash maps of
    \<^verbatim>\<open>benchmarks/src/stores/memstore.rs\<close> is interpreted as one.
  \<^item> \<open>Lmdb\<close>: \<^verbatim>\<open>datacake-lmdb/src\<close>, the store over LMDB. The library \<open>heed\<close> is a parameter with the laws \<open>heed_laws\<close>
    of its transactions, and the store keeps the contract for every library of these laws.
  \<^item> \<open>StorageOn\<close>: the contract for timestamps of a kind, the locale \<open>storage_on\<close>, for a store that does not keep every timestamp.
  \<^item> \<open>Sqlite\<close>, \<open>SqliteStore\<close>: \<^verbatim>\<open>datacake-sqlite/src\<close>, the store over SQLite: its statements, the tasks of its thread, the reading of
    rows. The library \<open>rusqlite\<close> and the database are a parameter with the laws \<open>sqlite_laws\<close>; the store keeps the
    contract for the timestamps clocks make, and not beyond.
  \<^item> \<open>Shards\<close>: \<^verbatim>\<open>examples/replicated-kv/src/storage.rs\<close>, several stores behind one, split by the hash of the key.
  \<^item> \<open>Conformance\<close>: the module \<open>test_suite\<close> of \<^verbatim>\<open>storage.rs\<close>, the wrapper that logs calls and the tests every store is
    meant to pass, as programs over the operations of a store and a clock.
  \<^item> \<open>Keyspace\<close>, \<open>Group\<close>, \<open>NodeState\<close>: \<^verbatim>\<open>keyspace/actor.rs\<close>, \<^verbatim>\<open>keyspace/messages.rs\<close> and \<^verbatim>\<open>keyspace/group.rs\<close>: the handlers of
    a keyspace, the keyspaces of a node, loading them from the store, the purge; and the agreement of
    set and store (\<open>actor_inv\<close>, \<open>group_inv\<close>), which every handler keeps for every store of the contract.
  \<^item> \<open>Services\<close>, \<open>ServiceWrites\<close>: \<^verbatim>\<open>rpc/services/consistency_impl.rs\<close>, \<^verbatim>\<open>rpc/services/replication_impl.rs\<close> and
    \<^verbatim>\<open>rpc/client.rs\<close>: what the handlers of both services do to a node, and the calls of both clients.
  \<^item> \<open>Selector\<close>, \<open>Membership\<close>, \<open>Gossip\<close>, \<open>Node\<close>: \<^verbatim>\<open>datacake-node/src/nodes_selector.rs\<close>, \<^verbatim>\<open>node.rs\<close>, \<^verbatim>\<open>lib.rs\<close> and \<^verbatim>\<open>rpc/network.rs\<close>:
    the selector, members from gossip and the changes the services follow, the transport of gossip, and
    the builder that puts a node together.
  \<^item> \<open>Distributor\<close>: \<^verbatim>\<open>replication/distributor.rs\<close>, the batch of a tick and its delivery.
  \<^item> \<open>Poller\<close>, \<open>Repair\<close>: \<^verbatim>\<open>replication/poller.rs\<close>, the replication cycle; the locale \<open>replica_pair\<close> is two nodes
    whose stores keep the contract.
  \<^item> \<open>Store\<close>, \<open>StoreWrites\<close>: \<^verbatim>\<open>lib.rs\<close> and \<^verbatim>\<open>error.rs\<close> of \<^verbatim>\<open>datacake-eventual-consistency\<close>, the handle applications use.
  \<^item> \<open>Cluster\<close>, \<open>Convergence\<close>: the nodes of a cluster acting in any order, as a step relation; and their read
    repairs as a gossip protocol over the joins of registers.
  \<^item> \<open>Rpc\<close>, \<open>Wire\<close>: \<^verbatim>\<open>datacake-rpc/src\<close>, from buffers with a checksum to the client, and the services of the store
    on it. This theory states that a call over the wire is a call of the handler.
  \<^item> \<open>RpcServer\<close>, \<open>LazyClient\<close>: \<^verbatim>\<open>server.rs\<close>, \<^verbatim>\<open>net/server.rs\<close> and \<^verbatim>\<open>net/simulation.rs\<close> of \<^verbatim>\<open>datacake-rpc/src\<close>: the accept loop and the
    connections of a server, and the connection that clones of a simulated client share, as runs of
    events that come in any order.
  \<^item> \<open>Scratch\<close>: \<^verbatim>\<open>rkyv_tooling/scratch.rs\<close>, the memory of the serialiser; the three spaces it is made of are parameters
    with the laws \<open>scratch_laws\<close>.
  \<^item> \<open>Extension\<close>: the store as an extension of a node (\<^verbatim>\<open>lib.rs\<close> and \<^verbatim>\<open>statistics.rs\<close> of
    \<^verbatim>\<open>datacake-eventual-consistency\<close>, \<open>add_extension\<close> of a node): creating it, the handles of its two tasks, the membership they follow, its drop.
  \<^item> \<open>KvApi\<close>: \<^verbatim>\<open>examples/replicated-kv/src/main.rs\<close>, the application that serves a store over REST.
  \<^item> \<open>Mock\<close>: the mock store of \<^verbatim>\<open>test_utils.rs\<close>, the callbacks of a test with their counts.

  \<^bold>\<open>What is shown.\<close>

  \<^item> The cluster is eventually consistent under repairs in order: when one node has repaired from all others and all others
    from it, all hold the newest of what any of them had, at every key none of them has purged. The guard
    \<open>repair_enabled\<close> says which repairs these are.
  \<^item> Replicas converge: sets that accept the same operations in different orders, or are merged with
    each other, hold the same registers; the merge, the difference and the purge do to each register
    what its specification says, and a purged key stays absent under older operations of the node that deleted it.
  \<^item> Clocks: timestamps handed out increase, are greater than every timestamp registered before,
    and their order is the lexicographic order of their parts; FromStr reads back what Display prints of a
    timestamp with a fraction below 250.
  \<^item> Every set the operations make is well-formed, and no operation on it panics. Set and store agree
    after every handler whose operations are in order, a restart and a purge round, and so in every state a cluster reaches by guarded steps. The
    LMDB store keeps the contract this rests on, also across a restart; so do the SQLite store, for
    canonical timestamps, and a store of SQLite shards. The conformance suite accepts every store of the contract
    that starts empty and does not fail, the in-memory store among them, and refuses every store for which marking a missing
    document is the no-op the documentation of the trait asks for.
  \<^item> Requests and batches in order write their entries to the registers of the node and nothing else; a write
    of the handle is on all replicas of its consistency level when it succeeds; a tick of the
    distributor reaches every member that can take its batch; a read repair in order that succeeds gives the node what the other had
    newer, and its loop ends. The selector's answers meet the level asked for while no data center is dropped.
  \<^item> Nodes built with distinct ids and announced in the gossip publish the same membership.
    A store added to a node starts in agreement with what is stored, with its services registered. Its
    two tasks know the same nodes, all of them reported; they know every node reported when the channel of the
    membership loses no change.
  \<^item> What the example application acknowledged it returns, for every store that keeps the contract for the timestamps
    clocks make, such as its own shards of SQLite.
  \<^item> Calls: what the client gets is what the handler of the called node answered to the message sent. A
    server answers exactly the requests of connections it accepted that have not ended.
  \<^item> The lazy scratch space is a scratch space; the mock store accepts exactly the announced calls.
  \<^item> Errors: where operations arrive out of order the store and the set diverge; further theorems
    name calls that panic, are refused or do the opposite of what they are for.

  \<^bold>\<open>Conditions.\<close> An operation is in order at a set (\<open>in_order\<close>) when its timestamp is not below one of its node that the set has
  accepted from the same source. The code relies on this and does not check it, so it is a hypothesis wherever
  set and store are to agree afterwards: of a handler or a request for its entries (\<open>entries_ok\<close>, which also asks for distinct keys), of
  a tick for the members it calls (\<open>member_ready\<close>), of the steps of a cluster (\<open>write_enabled\<close>, \<open>tick_enabled\<close>, \<open>repair_enabled\<close>). The steps
  left out are those after which set and store may differ; \<open>set_out_of_order_diverges\<close> and the theorems on errors show some. The same
  holds of \<open>messages_ok\<close>, which leaves out memberships that drop a data center. The contract \<open>storage\<close> is what
  the actors rely on and the conformance suite asserts; the documentation of the trait differs on one case, marking a document that does
  not exist. A store that keeps the contract for some timestamps only is turned into one of the full contract by \<open>guarded\<close>,
  which refuses the others; with it what is shown for the full contract applies to the stores over SQLite, as in \<open>KvApi\<close>. The channel on which a node publishes
  changes of its members keeps the last one only: the changes a store reads are a subsequence of those published.

  \<^bold>\<open>Parameters and bounds.\<close> Code of other packages is a parameter: what \<open>rkyv\<close> writes and reads (\<open>ser\<close>, \<open>deser\<close>
  and the codecs), the checksum, the hash, the HTTP connection, the random choice of data centers, what
  \<open>chitchat\<close> reports, the transactions of \<open>heed\<close>, the scratch spaces of \<open>rkyv\<close>, the statements and transactions of \<open>rusqlite\<close>, and the operations of a store. Concurrent tasks run under schedules that are
  parameters, and the theorems hold for all of them: the order of calls to several nodes is any
  permutation, the removals of a read repair happen between any two chunks. Each handler and each
  message of an actor is one step, as actors process their messages one after the other. A timestamp
  has a counter of 16 bits; \<open>clock_fit m\<close> says that the counter of a clock is at most \<open>m\<close> and its time within
  the drift, and theorems that call a clock ask for as much room below \<open>2 ^ 16\<close> as they make calls, so that
  no overflow, which panics, can happen. The supervisor's loop of a read repair is a partial function; it
  returns for every schedule whose times grow without bound. All other loops are total.

  \<^bold>\<open>Not modelled.\<close> What \<open>hyper\<close>, \<open>axum\<close> and \<open>clap\<close> do: the HTTP of a connection, the REST server and the
  arguments. Unit tests, the benchmarks and the drivers of the simulation tests, and the in-memory store of
  \<^verbatim>\<open>test_utils.rs\<close>, a copy of the one of the benchmarks. The order in which the actors of one node interleave is that of their
  messages in the model; a handler that awaits another actor in the middle is one step. A call to a replica and its
  reply are one step, and a task of a read repair that is left to run ends before the next keyspace is synchronised. The lazy iterator
  a bulk handler gives to the store is consumed as a whole, as the stores of the repository do.
\<close>

section \<open>The store over the wire\<close>

text \<open>C11. The calls between the nodes of a store are the handlers of the called node: a request of the
  consistency client, a batch of the distributor and a request of the replication client, serialised
  with its checksum, sent over a connection that delivers bodies in chunks of any size, dispatched by
  the hash of its path to the handler the service registered, answered and read back, is one call of
  that handler on the state of the called node, with the message that was sent, and the client gets
  the reply or the status of the handler.\<close>

theorem wire_refines_calls:
  assumes "wire_ok crc hash uri_path tn co others me carry (\<lambda>net. net a) (\<lambda>w net. net(a := w)) ch (store_server crc hash tn co ops te bte ser others)"
    and "wire_ok crc hash uri_path tn co others me carry (\<lambda>w. w) (\<lambda>w n. w) ch' (store_server crc hash tn co ops te bte ser others)"
  shows "wire_consistency crc tn co uri_path ch = cluster_calls ops te bte a \<and>
    wire_batch crc tn co uri_path ch = batch_rpc ops bte a \<and>
    wire_replication crc tn co uri_path ch' = remote_client ops te ser"
  using consistency_over_wire [OF assms(1)] replication_over_wire [OF assms(2)] by simp

theorem wire_refines_calls_witness:
  "wire_consistency (\<lambda>b. 0) example_names example_codecs example_uri_path (direct_channel ''a'' (\<lambda>net. net ''a'') (\<lambda>w net. net(''a'' := w))) =
     cluster_calls mem_ops (\<lambda>e. []) (\<lambda>e. []) ''a'' \<and>
   wire_batch (\<lambda>b. 0) example_names example_codecs example_uri_path (direct_channel ''a'' (\<lambda>net. net ''a'') (\<lambda>w net. net(''a'' := w))) =
     batch_rpc mem_ops (\<lambda>e. []) ''a'' \<and>
   wire_replication (\<lambda>b. 0) example_names example_codecs example_uri_path (direct_channel ''a'' (\<lambda>w. w) (\<lambda>w n. w)) =
     remote_client mem_ops (\<lambda>e. []) (\<lambda>s. None)"
  by (rule wire_refines_calls [OF example_wire_ok [unfolded example_server_def] example_wire_ok [unfolded example_server_def]])

end
